(* ===== verification/Prelude.thy ===== *)
theory Prelude
  imports Main "HOL-Library.Word" "HOL-Library.Multiset" "HOL-Library.AList"
begin

text \<open>
  What every component of the model shares: the C integer types as words, the outcome of a
  computation that may hit an assertion or undefined behaviour, bounds-checked array access, and
  the arithmetic of a power-of-two mask.
\<close>

unbundle bit_operations_syntax

section \<open>Machine integers\<close>

type_synonym u8 = "8 word"
type_synonym u16 = "16 word"
type_synonym u32 = "32 word"
type_synonym u64 = "64 word"

text \<open>\<open>UINT32_MAX\<close> and \<open>UINT64_MAX\<close> of \<open>stdint.h\<close>, both used as "no index" marks.\<close>

definition UINT32_MAX :: u32 where
  "UINT32_MAX = 0xFFFFFFFF"

definition UINT64_MAX :: u64 where
  "UINT64_MAX = 0xFFFFFFFFFFFFFFFF"

text \<open>
  \<open>size_t\<close> is 64 bits wide on the platforms the program targets (LP64). Sizes are natural numbers,
  and \<open>sz\<close> writes out the wrap-around of a \<open>size_t\<close> computation, \<open>w32\<close> that of a \<open>uint32_t\<close> one.
\<close>

definition sz :: "nat \<Rightarrow> nat" where
  "sz n = n mod 2 ^ 64"

definition w32 :: "nat \<Rightarrow> nat" where
  "w32 n = n mod 2 ^ 32"

text \<open>A descriptor is a C \<open>int\<close>.\<close>

type_synonym fd = int

section \<open>Outcomes\<close>

text \<open>
  A computation either returns (\<open>Inr\<close>) or runs into something C gives no result to (\<open>Inl\<close>):
  a failed \<open>assert\<close>, an access outside an array, a shift by the width of the type, or the use of a
  pointer to no live object. A theorem that an operation returns \<open>Inr\<close> is a theorem that it is free
  of all four.
\<close>

datatype fault = Assertion_failed | Out_of_bounds | Shift_overflow | Bad_pointer

type_synonym 'a checked = "fault + 'a"

definition and_then :: "'a checked \<Rightarrow> ('a \<Rightarrow> 'b checked) \<Rightarrow> 'b checked" where
  "and_then m f = (case m of Inl e \<Rightarrow> Inl e | Inr x \<Rightarrow> f x)"

definition assert_that :: "bool \<Rightarrow> unit checked" where
  "assert_that b = (if b then Inr () else Inl Assertion_failed)"

text \<open>Array read and write, with the bounds C does not check.\<close>

definition aget :: "'a list \<Rightarrow> nat \<Rightarrow> 'a checked" where
  "aget xs i = (if i < length xs then Inr (xs ! i) else Inl Out_of_bounds)"

definition aset :: "'a list \<Rightarrow> nat \<Rightarrow> 'a \<Rightarrow> 'a list checked" where
  "aset xs i x = (if i < length xs then Inr (xs[i := x]) else Inl Out_of_bounds)"

definition aupd :: "'a list \<Rightarrow> nat \<Rightarrow> ('a \<Rightarrow> 'a) \<Rightarrow> 'a list checked" where
  "aupd xs i f = and_then (aget xs i) (\<lambda>x. Inr (xs[i := f x]))"

named_theorems outcome_simps \<open>evaluation of the outcome combinators\<close>

lemma and_then_simps [simp, outcome_simps]:
  "and_then (Inr x) f = f x"
  "and_then (Inl e) f = Inl e"
  by (simp_all add: and_then_def)

lemma and_then_Inr_iff:
  "and_then m f = Inr y \<longleftrightarrow> (\<exists>x. m = Inr x \<and> f x = Inr y)"
  by (cases m) auto

text \<open>A computation that returns.\<close>

definition returns :: "'a checked \<Rightarrow> bool" where
  "returns m \<longleftrightarrow> (\<exists>x. m = Inr x)"

lemma returns_simps [simp]: "returns (Inr x)" "\<not> returns (Inl e)"
  by (simp_all add: returns_def)

lemma returns_and_then:
  "returns m \<Longrightarrow> (\<And>x. m = Inr x \<Longrightarrow> returns (f x)) \<Longrightarrow> returns (and_then m f)"
  by (auto simp: returns_def)

lemma returns_if:
  "(b \<Longrightarrow> returns m) \<Longrightarrow> (\<not> b \<Longrightarrow> returns m') \<Longrightarrow> returns (if b then m else m')"
  by simp

lemma returns_aget: "i < length xs \<Longrightarrow> returns (aget xs i)"
  by (simp add: aget_def)

text \<open>A computation that may fail an assertion if \<open>b\<close>, and otherwise returns a value with \<open>Q\<close>.\<close>

definition or_aborts :: "bool \<Rightarrow> 'a checked \<Rightarrow> ('a \<Rightarrow> bool) \<Rightarrow> bool" where
  "or_aborts b m Q \<longleftrightarrow> b \<and> m = Inl Assertion_failed \<or> (\<exists>x. m = Inr x \<and> Q x)"

lemma or_aborts_simps [simp]:
  "or_aborts b (Inr x) Q = Q x" "or_aborts False m Q = (\<exists>x. m = Inr x \<and> Q x)"
  by (simp_all add: or_aborts_def)

lemma or_aborts_and_then:
  "or_aborts b m Q \<Longrightarrow> (\<And>x. Q x \<Longrightarrow> or_aborts b (f x) Q') \<Longrightarrow> or_aborts b (and_then m f) Q'"
  unfolding or_aborts_def by (elim disjE conjE exE) simp_all

lemma or_aborts_mono: "or_aborts b m Q \<Longrightarrow> (\<And>x. Q x \<Longrightarrow> Q' x) \<Longrightarrow> or_aborts b m Q'"
  by (auto simp: or_aborts_def)

lemma or_aborts_weaken: "or_aborts b m Q \<Longrightarrow> b \<longrightarrow> b' \<Longrightarrow> or_aborts b' m Q"
  by (auto simp: or_aborts_def)

lemmas returns_intros = returns_and_then returns_if returns_aget

lemma and_then_assoc:
  "and_then (and_then m f) g = and_then m (\<lambda>x. and_then (f x) g)"
  by (cases m) auto

lemma and_then_if:
  "and_then (if b then m else m') f = (if b then and_then m f else and_then m' f)"
  by simp

lemma assert_that_True [simp, outcome_simps]: "b \<Longrightarrow> assert_that b = Inr ()"
  by (simp add: assert_that_def)

lemma assert_that_False [simp, outcome_simps]: "\<not> b \<Longrightarrow> assert_that b = Inl Assertion_failed"
  by (simp add: assert_that_def)

lemma aget_ok [simp, outcome_simps]: "i < length xs \<Longrightarrow> aget xs i = Inr (xs ! i)"
  by (simp add: aget_def)

lemma aget_oob: "length xs \<le> i \<Longrightarrow> aget xs i = Inl Out_of_bounds"
  by (simp add: aget_def)

lemma aset_ok [simp, outcome_simps]: "i < length xs \<Longrightarrow> aset xs i x = Inr (xs[i := x])"
  by (simp add: aset_def)

lemma aset_oob: "length xs \<le> i \<Longrightarrow> aset xs i x = Inl Out_of_bounds"
  by (simp add: aset_def)

lemma aupd_ok [simp, outcome_simps]: "i < length xs \<Longrightarrow> aupd xs i f = Inr (xs[i := f (xs ! i)])"
  by (simp add: aupd_def)

lemma aupd_oob: "length xs \<le> i \<Longrightarrow> aupd xs i f = Inl Out_of_bounds"
  by (simp add: aupd_def aget_oob)

lemma nth_update_if:
  "xs[i := x] ! j = (if i = j \<and> j < length xs then x else xs ! j)"
  by (induction xs arbitrary: i j) (auto simp: nth_Cons split: nat.splits)

section \<open>Conditions checked by the compiler\<close>

text \<open>
  \<open>static_assert\<close> of \<open>compat.h\<close> for GCC and Clang: a bit field whose width is 1 or -1, and a width has to
  be positive. For other compilers the macro is empty.
\<close>

definition static_assert :: "bool \<Rightarrow> bool" where
  "static_assert test \<longleftrightarrow> 0 < (if test then 1 else - 1 :: int)"

definition UINT16_MAX :: nat where "UINT16_MAX = 2 ^ 16 - 1"

section \<open>Text\<close>

text \<open>
  What the \<open>printf\<close> formats of the program need: \<open>%5s\<close> and \<open>%-8s\<close>, \<open>%zu\<close> and \<open>%d\<close>, and the escape
  sequence \<open>\033[...m\<close>; and \<open>cut -d c -f n\<close>, with which scripts take a line apart.
\<close>

definition pad_left :: "nat \<Rightarrow> string \<Rightarrow> string" where
  "pad_left n s = replicate (n - length s) CHR '' '' @ s"

definition pad_right :: "nat \<Rightarrow> string \<Rightarrow> string" where
  "pad_right n s = s @ replicate (n - length s) CHR '' ''"

definition escape_color :: "string \<Rightarrow> string" where
  "escape_color c = CHR 0x1B # ''['' @ c @ ''m''"

definition digit :: "nat \<Rightarrow> char" where
  "digit d = char_of (48 + d)"

fun show_nat :: "nat \<Rightarrow> string" where
  "show_nat n = (if n < 10 then [digit n] else show_nat (n div 10) @ [digit (n mod 10)])"

declare show_nat.simps [simp del]

definition show_int :: "int \<Rightarrow> string" where
  "show_int i = (if i < 0 then CHR ''-'' # show_nat (nat (- i)) else show_nat (nat i))"

definition read_nat :: "string \<Rightarrow> nat" where
  "read_nat s = foldl (\<lambda>n c. 10 * n + (of_char c - 48)) 0 s"

fun field :: "char \<Rightarrow> nat \<Rightarrow> string \<Rightarrow> string" where
  "field c 0 s = takeWhile (\<lambda>x. x \<noteq> c) s"
| "field c (Suc n) s = field c n (drop 1 (dropWhile (\<lambda>x. x \<noteq> c) s))"

lemma digit_value: "d < 10 \<Longrightarrow> of_char (digit d) = 48 + (d :: nat)"
  by (simp add: digit_def take_bit_nat_eq_self)

lemma digit_not: "d < 10 \<Longrightarrow> CHR '';'' \<noteq> digit d" "d < 10 \<Longrightarrow> CHR '' '' \<noteq> digit d"
  by (auto dest: arg_cong [where f = "of_char :: char \<Rightarrow> nat"] simp: digit_value)

lemma show_nat_chars: "CHR '';'' \<notin> set (show_nat n) \<and> CHR '' '' \<notin> set (show_nat n)"
proof (induction n rule: show_nat.induct)
  case (1 n)
  then show ?case
    by (subst (1 2) show_nat.simps) (use digit_not [of n] digit_not [of "n mod 10"] in auto)
qed

lemma read_show_nat [simp]: "read_nat (show_nat n) = n"
proof (induction n rule: show_nat.induct)
  case (1 n)
  then show ?case by (subst show_nat.simps) (simp add: read_nat_def digit_value)
qed

lemma field_skip:
  assumes "c \<notin> set xs"
  shows "field c 0 (xs @ c # ys) = xs" "field c (Suc n) (xs @ c # ys) = field c n ys"
proof -
  have "\<forall>x \<in> set xs. x \<noteq> c" using assms by blast
  then show "field c 0 (xs @ c # ys) = xs" "field c (Suc n) (xs @ c # ys) = field c n ys"
    by (simp_all add: takeWhile_append2 dropWhile_append2)
qed

lemma field_last: "c \<notin> set xs \<Longrightarrow> field c 0 xs = xs"
  by (simp add: takeWhile_eq_all_conv) blast

section \<open>Arithmetic\<close>

lemma unat_inject [simp]: "unat v = unat w \<longleftrightarrow> v = (w :: 'a::len word)"
  by (simp add: word_unat_eq_iff)

lemma sz_id [simp]: "n < 2 ^ 64 \<Longrightarrow> sz n = n"
  by (simp add: sz_def)

lemma unat_and_pow2_mask:
  fixes w :: u64
  assumes "k < 64"
  shows "unat (w AND (word_of_nat (2 ^ k) - 1)) = unat w mod 2 ^ k"
proof -
  have "word_of_nat (2 ^ k) - 1 = (mask k :: u64)"
    by (simp add: mask_eq_exp_minus_1)
  then have "w AND (word_of_nat (2 ^ k) - 1) = take_bit k w"
    by (simp add: take_bit_eq_mask)
  then have "unat (w AND (word_of_nat (2 ^ k) - 1)) = take_bit k (unat w)"
    by (simp only: unsigned_take_bit_eq)
  then show ?thesis
    by (simp only: take_bit_eq_mod)
qed

text \<open>The next probe position: \<open>(hash + 1) & mask\<close> walks round a power-of-two array.\<close>

lemma unat_next_probe:
  fixes w :: u64
  assumes "k < 64" "unat w < 2 ^ k"
  shows "unat ((w + 1) AND (word_of_nat (2 ^ k) - 1)) = (unat w + 1) mod 2 ^ k"
proof -
  have "(2::nat) ^ k dvd 2 ^ 64"
    using assms(1) by (intro le_imp_power_dvd) simp
  have "unat (w + 1) mod 2 ^ k = (unat w + 1) mod 2 ^ 64 mod 2 ^ k"
    by (simp add: unat_word_ariths)
  also have "\<dots> = (unat w + 1) mod 2 ^ k"
    using \<open>(2::nat) ^ k dvd 2 ^ 64\<close> by (rule mod_mod_cancel)
  finally show ?thesis
    using unat_and_pow2_mask [OF assms(1)] by simp
qed

lemma unat_word32_plus_1:
  fixes w :: u32
  assumes "unat w < 2 ^ 32 - 1"
  shows "unat (w + 1) = unat w + 1"
  using assms by (simp add: unat_word_ariths)

lemma unat_word32_of_nat: "n < 2 ^ 32 \<Longrightarrow> unat (word_of_nat n :: u32) = n"
  by (simp add: unat_of_nat take_bit_nat_eq_self)

lemma unat_word64_power:
  assumes "k < 64"
  shows "unat ((2::u64) ^ k) = 2 ^ k"
proof -
  have "(2::nat) ^ k < 2 ^ 64" using assms by (intro power_strict_increasing) auto
  then have "unat (word_of_nat (2 ^ k) :: u64) = 2 ^ k"
    by (simp only: unat_of_nat take_bit_nat_eq_self len_num1 len_bit0) (simp add: take_bit_nat_eq_self)
  then show ?thesis by simp
qed

lemma word32_below_max: "unat w < 2 ^ 32 - 1 \<Longrightarrow> w \<noteq> UINT32_MAX"
  by (auto simp: UINT32_MAX_def)

text \<open>Walking round a ring of \<open>n\<close> positions.\<close>

lemma mod_add_Suc_left: "((p + 1) mod n + j) mod n = (p + Suc j) mod (n::nat)"
  by (metis add.commute add_Suc_shift mod_add_left_eq plus_1_eq_Suc)

lemma ring_reaches:
  assumes "h < n" "s < (n::nat)"
  shows "\<exists>d < n. (h + d) mod n = s"
proof (cases "h \<le> s")
  case True
  with assms show ?thesis by (intro exI [of _ "s - h"]) auto
next
  case False
  with assms show ?thesis by (intro exI [of _ "n + s - h"]) auto
qed

end
