(* ===== verification/Utils.thy ===== *)
theory Utils
  imports Complex_Main Prelude
begin

text \<open>
  \<open>src/src/utils/utils.c\<close>, \<open>utils.h\<close> and \<open>datetime.c\<close>: rounding up to a power of two, in the
  version compiled by GCC and Clang and in the portable one; making a descriptor non-blocking;
  the clock readings. The two versions of \<open>util_round_ceil2_ull\<close> are proved equal wherever the
  first is defined, and equal to the least power of two above the argument.
\<close>

section \<open>\<open>util_round_ceil2_ull\<close>\<close>

definition MIN_VALUE :: "nat \<Rightarrow> nat \<Rightarrow> nat" where
  "MIN_VALUE v1 v2 = (if v1 \<le> v2 then v1 else v2)"

definition MAX_VALUE :: "nat \<Rightarrow> nat \<Rightarrow> nat" where
  "MAX_VALUE v1 v2 = (if v1 \<ge> v2 then v1 else v2)"

text \<open>
  \<open>__builtin_clzll\<close> counts the zero bits above the highest one bit (undefined at 0, where the
  code never calls it).
\<close>

fun clz_from :: "nat \<Rightarrow> u64 \<Rightarrow> nat" where
  "clz_from 0 x = 0"
| "clz_from (Suc i) x = (if bit x i then 0 else Suc (clz_from i x))"

definition builtin_clzll :: "u64 \<Rightarrow> nat" where
  "builtin_clzll x = clz_from 64 x"

text \<open>The compiler's version. Shifting \<open>1ULL\<close> by 64 has no defined result.\<close>

definition util_round_ceil2_ull :: "u64 \<Rightarrow> u64 checked" where
  "util_round_ceil2_ull value =
     (if value \<le> 2 then Inr value
      else let s = 64 - builtin_clzll (value - 1)
           in if s < 64 then Inr (push_bit s 1) else Inl Shift_overflow)"

definition util_round_ceil2_ull_portable :: "u64 \<Rightarrow> u64" where
  "util_round_ceil2_ull_portable value =
     (if value \<le> 2 then value
      else let v0 = value - 1;
               v1 = v0 OR drop_bit 1 v0;
               v2 = v1 OR drop_bit 2 v1;
               v4 = v2 OR drop_bit 4 v2;
               v8 = v4 OR drop_bit 8 v4;
               v16 = v8 OR drop_bit 16 v8;
               v32 = v16 OR drop_bit 32 v16
           in v32 + 1)"

lemma clz_from_numeral [simp]:
  "clz_from (numeral n) x = (if bit x (pred_numeral n) then 0 else Suc (clz_from (pred_numeral n) x))"
  by (simp add: numeral_eq_Suc)

lemma clz_from_le: "clz_from n x \<le> n"
  by (induction n) auto

lemma clz_from_bound: "take_bit n (unat x) < 2 ^ (n - clz_from n x)"
proof (induction n)
  case 0
  then show ?case by simp
next
  case (Suc n)
  show ?case
  proof (cases "bit x n")
    case True
    then show ?thesis
      using take_bit_nat_less_exp [of "Suc n" "unat x"] by simp
  next
    case False
    then have "take_bit (Suc n) (unat x) = take_bit n (unat x)"
      by (simp add: take_bit_Suc_from_most bit_unsigned_iff)
    with Suc False show ?thesis by simp
  qed
qed

lemma clz_from_lower:
  "take_bit n (unat x) \<noteq> 0 \<Longrightarrow> clz_from n x < n \<and> 2 ^ (n - Suc (clz_from n x)) \<le> take_bit n (unat x)"
proof (induction n)
  case 0
  then show ?case by simp
next
  case (Suc n)
  show ?case
  proof (cases "bit x n")
    case True
    then show ?thesis
      by (simp add: take_bit_Suc_from_most bit_unsigned_iff)
  next
    case False
    then have "take_bit (Suc n) (unat x) = take_bit n (unat x)"
      by (simp add: take_bit_Suc_from_most bit_unsigned_iff)
    with Suc False show ?thesis by simp
  qed
qed

lemma take_bit_64_unat [simp]: "take_bit 64 (unat (x::u64)) = unat x"
  using unsigned_less [of x, where ?'a = nat] by (simp add: take_bit_nat_eq_self)

text \<open>\<open>64 - clz x\<close> is the number of bits of \<open>x\<close>.\<close>

lemma builtin_clzll_bounds:
  assumes "x \<noteq> 0"
  shows "builtin_clzll x < 64"
    and "2 ^ (63 - builtin_clzll x) \<le> unat x"
    and "unat x < 2 ^ (64 - builtin_clzll x)"
proof -
  have "unat x \<noteq> 0"
    using assms by (simp add: unat_eq_0)
  then show "builtin_clzll x < 64" "2 ^ (63 - builtin_clzll x) \<le> unat x"
    using clz_from_lower [of 64 x] by (simp_all add: builtin_clzll_def)
  show "unat x < 2 ^ (64 - builtin_clzll x)"
    using clz_from_bound [of 64 x] by (simp add: builtin_clzll_def)
qed

lemma pow2_bracket_unique:
  assumes "(2::nat) ^ a \<le> v" "v < 2 ^ Suc a" "2 ^ b \<le> v" "v < 2 ^ Suc b"
  shows "a = b"
proof (rule ccontr)
  assume "a \<noteq> b"
  then consider "Suc a \<le> b" | "Suc b \<le> a" by linarith
  then show False
  proof cases
    case 1
    then have "(2::nat) ^ Suc a \<le> 2 ^ b" by (rule power_increasing) simp
    with assms show ?thesis by linarith
  next
    case 2
    then have "(2::nat) ^ Suc b \<le> 2 ^ a" by (rule power_increasing) simp
    with assms show ?thesis by linarith
  qed
qed

lemma round_ceil2_least:
  assumes "2 < value" "unat value \<le> 2 ^ 63"
  obtains k where "util_round_ceil2_ull value = Inr (2 ^ k)" "k < 64" "1 < k"
    "unat value \<le> 2 ^ k" "2 ^ (k - 1) < unat value"
proof -
  let ?x = "value - 1" and ?c = "builtin_clzll (value - 1)"
  have gt: "2 < unat value" "value \<noteq> 0"
    using assms(1) by (auto simp: word_less_nat_alt)
  have x: "unat ?x = unat value - 1" "2 < unat value"
    using unat_minus_one [OF gt(2)] gt(1) by auto
  then have "?x \<noteq> 0" by (auto simp: unat_eq_0 [symmetric])
  note b = builtin_clzll_bounds [OF this]
  have "(2::nat) ^ (63 - ?c) < 2 ^ 63"
    using b(2) x assms(2) by linarith
  then have c: "0 < ?c" by (cases "?c = 0") auto
  let ?k = "64 - ?c"
  have "util_round_ceil2_ull value = Inr (2 ^ ?k)"
    using assms(1) b(1) c by (auto simp: util_round_ceil2_ull_def Let_def)
  moreover have "unat value \<le> 2 ^ ?k" using b(3) x by linarith
  moreover have "2 ^ (?k - 1) < unat value"
  proof -
    have k: "?k - 1 = 63 - ?c" by simp
    show ?thesis unfolding k using b(2) x by linarith
  qed
  moreover have "1 < ?k"
  proof (rule ccontr)
    assume "\<not> 1 < ?k"
    with b(1) have "?k = 1" by linarith
    with b(3) have "unat ?x < 2" by simp
    with x show False by linarith
  qed
  ultimately show ?thesis using that [of ?k] b(1) c by auto
qed

lemma smear_step:
  fixes a v :: u64
  assumes "\<And>n. bit a n \<longleftrightarrow> (\<exists>j < s. bit v (n + j))"
  shows "bit (a OR drop_bit s a) n \<longleftrightarrow> (\<exists>j < s + s. bit v (n + j))"
proof -
  have "bit (a OR drop_bit s a) n \<longleftrightarrow> (\<exists>j < s. bit v (n + j)) \<or> (\<exists>j < s. bit v (n + (s + j)))"
    by (simp add: bit_or_iff bit_drop_bit_eq assms add.assoc add.left_commute)
  also have "\<dots> \<longleftrightarrow> (\<exists>j < s + s. bit v (n + j))"
  proof
    assume "\<exists>j < s + s. bit v (n + j)"
    then obtain j where \<open>j < s + s\<close> \<open>bit v (n + j)\<close> by blast
    show "(\<exists>j < s. bit v (n + j)) \<or> (\<exists>j < s. bit v (n + (s + j)))"
    proof (cases "j < s")
      case True
      with \<open>bit v (n + j)\<close> show ?thesis by blast
    next
      case False
      with \<open>j < s + s\<close> have "j - s < s" "n + (s + (j - s)) = n + j" by linarith+
      with \<open>bit v (n + j)\<close> show ?thesis by metis
    qed
  next
    assume "(\<exists>j < s. bit v (n + j)) \<or> (\<exists>j < s. bit v (n + (s + j)))"
    then show "\<exists>j < s + s. bit v (n + j)"
      by (meson nat_add_left_cancel_less trans_less_add1)
  qed
  finally show ?thesis .
qed

lemma top_bit:
  fixes x :: u64
  assumes "2 ^ m \<le> unat x" "unat x < 2 ^ Suc m"
  shows "bit x m" "m < n \<Longrightarrow> \<not> bit x n"
proof -
  have "unat x div 2 ^ m = 1"
    using assms by (simp add: div_nat_eqI)
  then have "bit (unat x) m" by (simp add: bit_iff_odd)
  then show "bit x m" by (simp add: bit_unsigned_iff)
  assume "m < n"
  then have "(2::nat) ^ Suc m \<le> 2 ^ n" by (intro power_increasing) auto
  with assms(2) have "unat x div 2 ^ n = 0" by simp
  then have "\<not> bit (unat x) n" by (simp add: bit_iff_odd)
  then show "\<not> bit x n" by (auto simp: bit_unsigned_iff dest: bit_imp_le_length)
qed

text \<open>Smearing the top bit downwards leaves a mask, and the mask plus one is the next power.\<close>

lemma smear_is_mask:
  fixes x v :: u64
  assumes "2 ^ m \<le> unat x" "unat x < 2 ^ Suc m"
    and v: "\<And>n. bit v n \<longleftrightarrow> (\<exists>j < 64. bit x (n + j))"
  shows "v = mask (Suc m)"
proof (rule bit_word_eqI)
  fix n assume n: "n < LENGTH(64)"
  note top = top_bit [OF assms(1,2)]
  have m: "m < 64" using top(1) by (auto dest: bit_imp_le_length)
  show "bit v n \<longleftrightarrow> bit (mask (Suc m) :: u64) n"
  proof (cases "n \<le> m")
    case True
    with top(1) m have "\<exists>j < 64. bit x (n + j)"
      by (intro exI [of _ "m - n"]) auto
    with True n show ?thesis by (simp add: v bit_mask_iff)
  next
    case False
    with top(2) show ?thesis by (simp add: v bit_mask_iff)
  qed
qed

lemma portable_is_power:
  assumes "2 < value" "2 ^ m \<le> unat (value - 1)" "unat (value - 1) < 2 ^ Suc m"
  shows "util_round_ceil2_ull_portable value = 2 ^ Suc m"
proof -
  let ?x = "value - 1"
  define v1 where "v1 = ?x OR drop_bit 1 ?x"
  define v2 where "v2 = v1 OR drop_bit 2 v1"
  define v4 where "v4 = v2 OR drop_bit 4 v2"
  define v8 where "v8 = v4 OR drop_bit 8 v4"
  define v16 where "v16 = v8 OR drop_bit 16 v8"
  define v32 where "v32 = v16 OR drop_bit 32 v16"
  have "bit ?x n \<longleftrightarrow> (\<exists>j < 1. bit ?x (n + j))" for n by simp
  then have b1: "bit v1 n \<longleftrightarrow> (\<exists>j < 2. bit ?x (n + j))" for n
    unfolding v1_def using smear_step [of ?x 1 ?x n] by (simp add: numeral_2_eq_2)
  have b2: "bit v2 n \<longleftrightarrow> (\<exists>j < 4. bit ?x (n + j))" for n
    unfolding v2_def using smear_step [OF b1, of n] by simp
  have b4: "bit v4 n \<longleftrightarrow> (\<exists>j < 8. bit ?x (n + j))" for n
    unfolding v4_def using smear_step [OF b2, of n] by simp
  have b8: "bit v8 n \<longleftrightarrow> (\<exists>j < 16. bit ?x (n + j))" for n
    unfolding v8_def using smear_step [OF b4, of n] by simp
  have b16: "bit v16 n \<longleftrightarrow> (\<exists>j < 32. bit ?x (n + j))" for n
    unfolding v16_def using smear_step [OF b8, of n] by simp
  have b32: "bit v32 n \<longleftrightarrow> (\<exists>j < 64. bit ?x (n + j))" for n
    unfolding v32_def using smear_step [OF b16, of n] by simp
  have "v32 = mask (Suc m)"
    by (rule smear_is_mask [OF assms(2,3) b32])
  then have "v32 + 1 = 2 ^ Suc m"
    by (simp add: mask_eq_exp_minus_1)
  then show ?thesis
    using assms(1)
    by (simp add: util_round_ceil2_ull_portable_def Let_def v1_def v2_def v4_def v8_def v16_def
        v32_def not_le [symmetric])
qed

lemma round_ceil2_overflow:
  assumes "2 ^ 63 < unat value"
  shows "util_round_ceil2_ull value = Inl Shift_overflow" "util_round_ceil2_ull_portable value = 0"
proof -
  have v: "value \<noteq> 0" "2 < value" using assms by (auto simp: word_less_nat_alt)
  then have x: "unat (value - 1) = unat value - 1" using assms by (simp add: unat_sub word_le_nat_alt)
  then have nz: "value - 1 \<noteq> 0" using assms by (auto simp: unat_eq_0)
  have "\<not> 1 \<le> builtin_clzll (value - 1)"
  proof
    assume "1 \<le> builtin_clzll (value - 1)"
    then have "(2::nat) ^ (64 - builtin_clzll (value - 1)) \<le> 2 ^ 63" by (intro power_increasing) auto
    then show False using builtin_clzll_bounds(3) [OF nz] x assms by linarith
  qed
  then have c: "builtin_clzll (value - 1) = 0" by simp
  then show "util_round_ceil2_ull value = Inl Shift_overflow"
    using v(2) by (simp add: util_round_ceil2_ull_def)
  have "util_round_ceil2_ull_portable value = 2 ^ Suc 63"
    using v(2) builtin_clzll_bounds(2,3) [OF nz] c by (intro portable_is_power) simp_all
  then show "util_round_ceil2_ull_portable value = 0" by simp
qed

text \<open>The exponent is the least one.\<close>

lemma pow2_least:
  fixes v :: nat
  assumes "2 ^ (k - 1) < v" "v \<le> 2 ^ j"
  shows "k \<le> j"
proof (rule ccontr)
  assume "\<not> k \<le> j"
  then have "(2::nat) ^ j \<le> 2 ^ (k - 1)" by (intro power_increasing) auto
  with assms show False by linarith
qed

lemma round_ceil2_values:
  "if value \<le> 2 then util_round_ceil2_ull value = Inr value
   else if unat value \<le> 2 ^ 63
   then \<exists>k < 64. util_round_ceil2_ull value = Inr (2 ^ k) \<and> unat value \<le> 2 ^ k \<and>
     (\<forall>j. unat value \<le> 2 ^ j \<longrightarrow> k \<le> j)
   else util_round_ceil2_ull value = Inl Shift_overflow"
proof (cases "value \<le> 2")
  case True
  then show ?thesis by (simp add: util_round_ceil2_ull_def)
next
  case False
  show ?thesis
  proof (cases "unat value \<le> 2 ^ 63")
    case True
    with False obtain k where k: "util_round_ceil2_ull value = Inr (2 ^ k)" "k < 64" "1 < k"
      "unat value \<le> 2 ^ k" "2 ^ (k - 1) < unat value"
      using round_ceil2_least [of "value"] by (auto simp: not_le)
    then have "\<forall>j. unat value \<le> 2 ^ j \<longrightarrow> k \<le> j"
      using pow2_least k(5) by blast
    then show ?thesis using False True k(1,2,4) by auto
  next
    case large: False
    then have "util_round_ceil2_ull value = Inl Shift_overflow"
      by (intro round_ceil2_overflow) simp
    then show ?thesis using False large by simp
  qed
qed

lemma portable_agrees:
  "util_round_ceil2_ull value = Inr (util_round_ceil2_ull_portable value) \<or>
   2 ^ 63 < unat value \<and> util_round_ceil2_ull_portable value = 0"
proof -
  consider "value \<le> 2" | "2 < value" "unat value \<le> 2 ^ 63" | "2 ^ 63 < unat value" by fastforce
  then show ?thesis
  proof cases
    case 1
    then show ?thesis by (simp add: util_round_ceil2_ull_def util_round_ceil2_ull_portable_def)
  next
    case 2
    then obtain k where k: "util_round_ceil2_ull value = Inr (2 ^ k)" "1 < k"
      "unat value \<le> 2 ^ k" "2 ^ (k - 1) < unat value"
      by (rule round_ceil2_least)
    have x: "unat (value - 1) = unat value - 1"
      using 2(1) by (simp add: unat_sub word_le_nat_alt word_less_nat_alt)
    have "util_round_ceil2_ull_portable value = 2 ^ Suc (k - 1)"
      using 2(1) k x by (intro portable_is_power) simp_all
    then show ?thesis using k(1,2) by simp
  next
    case 3
    then show ?thesis using round_ceil2_overflow(2) by simp
  qed
qed

section \<open>Descriptors and clocks\<close>

text \<open>
  \<open>fcntl\<close> is a system call. \<open>getfl\<close> is its answer to \<open>F_GETFL\<close> (negative on error) and \<open>setfl\<close> its
  answer to \<open>F_SETFL\<close> with the given flags; \<open>O_NONBLOCK\<close> is the platform's flag.
\<close>

definition util_fd_set_nonblocking ::
  "int \<Rightarrow> (32 word \<Rightarrow> int) \<Rightarrow> 32 word \<Rightarrow> bool" where
  "util_fd_set_nonblocking getfl setfl O_NONBLOCK =
     (if getfl < 0 then False else setfl (word_of_int getfl OR O_NONBLOCK) \<ge> 0)"

text \<open>A \<open>struct timespec\<close>, and the clock readings the program derives from it (\<open>uint64_t\<close>).\<close>

record timespec =
  tv_sec :: u64
  tv_nsec :: u64

definition time_now_ms :: "timespec \<Rightarrow> u64" where
  "time_now_ms ts = tv_sec ts * 1000 + tv_nsec ts div 1000000"

definition time_now_us :: "timespec \<Rightarrow> u64" where
  "time_now_us ts = tv_sec ts * 1000000 + tv_nsec ts div 1000"

definition time_now_ns :: "timespec \<Rightarrow> u64" where
  "time_now_ns ts = tv_sec ts * 1000000000 + tv_nsec ts"

text \<open>The value is at most nanoseconds of 584 years, so nothing wraps; then the three readings agree.\<close>

lemma unat_time_now_ns:
  assumes "unat (tv_sec ts) * 1000000000 + unat (tv_nsec ts) < 2 ^ 64"
  shows "unat (time_now_ns ts) = unat (tv_sec ts) * 1000000000 + unat (tv_nsec ts)"
proof -
  have "unat (tv_sec ts * 1000000000) = unat (tv_sec ts) * 1000000000" using assms by (intro unat_mult_lem [THEN iffD1, THEN trans]) simp_all
  then show ?thesis using assms by (simp add: time_now_ns_def unat_add_lem [THEN iffD1])
qed

text \<open>
  \<open>time_now_seconds\<close> computes in \<open>long double\<close>: every operation rounds its exact result with \<open>rnd\<close>, and
  so does the conversion of an integer.
\<close>

definition time_now_seconds :: "(rat \<Rightarrow> rat) \<Rightarrow> timespec \<Rightarrow> rat" where
  "time_now_seconds rnd ts =
     rnd (rnd (of_nat (unat (tv_sec ts))) + rnd (rnd (of_nat (unat (tv_nsec ts))) / 1000000000))"

text \<open>If rounding is monotone and leaves 64-bit integers alone, the reading never goes back.\<close>

lemma time_now_seconds_mono:
  assumes rnd: "mono rnd" "\<forall>n < 2 ^ 64. rnd (of_nat n) = of_nat n" and ns: "unat (tv_nsec ts) \<le> 1000000000"
    and le: "tv_sec ts < tv_sec ts' \<or> tv_sec ts = tv_sec ts' \<and> tv_nsec ts \<le> tv_nsec ts'"
  shows "time_now_seconds rnd ts \<le> time_now_seconds rnd ts'"
proof -
  have exact: "rnd (of_nat (unat (w :: u64))) = of_nat (unat w)" for w
    by (rule rnd(2) [rule_format]) (use unsigned_less [of w, where ?'a = nat] in simp)
  let ?f = "\<lambda>ts. rnd (of_nat (unat (tv_nsec ts)) / 1000000000)"
  note [simp del] = of_nat_unat
  have "rnd 0 \<le> ?f ts'" by (rule monoD [OF rnd(1)]) simp
  then have nonneg: "0 \<le> ?f ts'" using rnd(2) [rule_format, of 0] by simp
  have "(of_nat (unat (tv_nsec ts)) :: rat) \<le> of_nat 1000000000" using ns by (simp only: of_nat_le_iff)
  then have "?f ts \<le> rnd 1" by (intro monoD [OF rnd(1)]) simp
  then have one: "?f ts \<le> 1" using rnd(2) [rule_format, of 1] by simp
  have "of_nat (unat (tv_sec ts)) + ?f ts \<le> of_nat (unat (tv_sec ts')) + ?f ts'"
  proof (cases "tv_sec ts < tv_sec ts'")
    case True
    then have "(of_nat (unat (tv_sec ts) + 1) :: rat) \<le> of_nat (unat (tv_sec ts'))"
      unfolding of_nat_le_iff by (simp add: word_less_nat_alt)
    then show ?thesis using nonneg one by simp
  next
    case False
    then have "unat (tv_nsec ts) \<le> unat (tv_nsec ts')" "tv_sec ts = tv_sec ts'" using le by (auto simp: word_le_nat_alt)
    then show ?thesis by (simp add: monoD [OF rnd(1)] divide_right_mono)
  qed
  then show ?thesis unfolding time_now_seconds_def exact by (rule monoD [OF rnd(1)])
qed

end
