(* ===== verification/Htable.thy ===== *)
theory Htable
  imports Utils
begin

text \<open>
  \<open>src/src/hash/htable.c\<close> and \<open>htable.h\<close>: the open-addressing hash table, as the template it is in
  the source. The macros a client defines before including it (\<open>HT_KEY_HASH_CB\<close> and so on) are the
  fields of \<open>ht_key_ops\<close>; \<open>Int_Htable\<close> and \<open>Str_Htable\<close> instantiate them.

  The table has an index (\<open>index_list\<close>, a power-of-two array of slots probed linearly; a slot is
  empty, deleted, or an entry number plus one), the entries themselves (linked by entry number in
  insertion order, for iteration), and a stack of the entry numbers freed by deletions. A pointer
  to user data is a value of \<open>'v option\<close>, \<open>None\<close> being \<open>NULL\<close>.
\<close>

section \<open>Data\<close>

definition HT_DELETED :: u32 where
  "HT_DELETED = UINT32_MAX"

definition HT_EMPTY :: u32 where
  "HT_EMPTY = 0"

text \<open>
  The key macros. \<open>HT_KEY_DUP_CB\<close> gets, beside the key, whether the allocator grants the copy;
  \<open>None\<close> is what \<open>HT_KEY_DUP_CHECK\<close> rejects. \<open>HT_KEY_FREE_CB\<close> lists what it hands to \<open>free\<close>.
\<close>

record 'k ht_key_ops =
  HT_KEY_HASH_CB :: "'k \<Rightarrow> u64"
  HT_KEY_EQUAL_CB :: "'k \<Rightarrow> 'k \<Rightarrow> bool"
  HT_KEY_DUP_CB :: "bool \<Rightarrow> 'k \<Rightarrow> 'k option"
  HT_KEY_FREE_CB :: "'k \<Rightarrow> 'k list"

record ('k, 'v) ht_entry =
  key :: 'k
  data :: "'v option"
  cached_hash :: u64
  prev_idx :: u32
  next_idx :: u32

record ('k, 'v) htable =
  entries :: "('k, 'v) ht_entry list"
  index_list :: "u32 list"
  deleted_index_list :: "u32 list"
  ht_count :: nat
  entry_next_insert :: u32
  head_idx :: u32
  tail_idx :: u32
  index_capacity :: nat
  entry_capacity :: nat
  deleted_count :: nat
  deleted_capacity :: nat

text \<open>
  The allocator during one call: which requests succeed, and the unspecified contents of memory
  that \<open>malloc\<close> and \<open>realloc\<close> return. (\<open>calloc\<close> memory is zero.)
\<close>

record ('k, 'v) ht_mem =
  calloc_ok :: "nat \<Rightarrow> nat \<Rightarrow> bool"
  malloc_ok :: "nat \<Rightarrow> bool"
  realloc_ok :: "nat \<Rightarrow> bool"
  strdup_ok :: bool
  fresh_entry :: "nat \<Rightarrow> ('k, 'v) ht_entry"
  fresh_u32 :: "nat \<Rightarrow> u32"

definition SIZEOF_HTABLE :: nat where
  "SIZEOF_HTABLE = 80"

definition SIZEOF_HT_ENTRY :: nat where
  "SIZEOF_HT_ENTRY = 32"

definition SIZEOF_U32 :: nat where
  "SIZEOF_U32 = 4"

definition realloc_u32 :: "('k, 'v) ht_mem \<Rightarrow> u32 list \<Rightarrow> nat \<Rightarrow> u32 list" where
  "realloc_u32 m xs bytes =
     take (bytes div SIZEOF_U32) xs @ map (fresh_u32 m) [length xs ..< bytes div SIZEOF_U32]"

definition malloc_entries :: "('k, 'v) ht_mem \<Rightarrow> nat \<Rightarrow> ('k, 'v) ht_entry list" where
  "malloc_entries m bytes = map (fresh_entry m) [0 ..< bytes div SIZEOF_HT_ENTRY]"

definition ht_mask :: "nat \<Rightarrow> u64" where
  "ht_mask capacity = word_of_nat capacity - 1"

section \<open>Creation\<close>

definition htable_create :: "('k, 'v) ht_mem \<Rightarrow> u64 \<Rightarrow> ('k, 'v) htable option checked" where
  "htable_create m initial_cap =
     and_then (assert_that (2 \<le> initial_cap)) (\<lambda>_.
     if \<not> malloc_ok m SIZEOF_HTABLE then Inr None
     else and_then (util_round_ceil2_ull initial_cap) (\<lambda>cap.
       let new_index_capacity = unat cap;
           new_entry_capacity = sz (new_index_capacity * 3) div 4
       in if \<not> calloc_ok m new_index_capacity SIZEOF_U32 then Inr None
          else if \<not> malloc_ok m (sz (new_entry_capacity * SIZEOF_HT_ENTRY)) then Inr None
          else Inr (Some \<lparr>
            entries = malloc_entries m (sz (new_entry_capacity * SIZEOF_HT_ENTRY)),
            index_list = replicate new_index_capacity HT_EMPTY,
            deleted_index_list = [],
            ht_count = 0,
            entry_next_insert = 0,
            head_idx = UINT32_MAX,
            tail_idx = UINT32_MAX,
            index_capacity = new_index_capacity,
            entry_capacity = new_entry_capacity,
            deleted_count = 0,
            deleted_capacity = 0\<rparr>)))"

section \<open>Linking an entry at the tail\<close>

definition htable_link_tail ::
  "('k, 'v) ht_entry list \<Rightarrow> u32 \<Rightarrow> u32 \<Rightarrow> u32 \<Rightarrow> (('k, 'v) ht_entry list \<times> u32 \<times> u32) checked"
where
  "htable_link_tail ents head tail idx =
     (if tail = UINT32_MAX
      then and_then (aupd ents (unat idx) (\<lambda>e. e\<lparr>prev_idx := UINT32_MAX, next_idx := UINT32_MAX\<rparr>))
             (\<lambda>ents. Inr (ents, idx, idx))
      else and_then (aupd ents (unat tail) (\<lambda>e. e\<lparr>next_idx := idx\<rparr>)) (\<lambda>ents.
           and_then (aupd ents (unat idx) (\<lambda>e. e\<lparr>prev_idx := tail, next_idx := UINT32_MAX\<rparr>)) (\<lambda>ents.
           Inr (ents, head, idx))))"

section \<open>Rehashing and growth\<close>

text \<open>The variables of the rehash loop.\<close>

record ('k, 'v) ht_rehash =
  new_index_list :: "u32 list"
  new_entries :: "('k, 'v) ht_entry list"
  new_idx_counter :: u32
  new_head_idx :: u32
  new_tail_idx :: u32

text \<open>The inner loop: the first empty slot from \<open>hash\<close> on, \<open>UINT64_MAX\<close> if there is none.\<close>

fun htable_rehash_probe :: "u32 list \<Rightarrow> u64 \<Rightarrow> nat \<Rightarrow> u64 \<Rightarrow> u64 checked" where
  "htable_rehash_probe il msk 0 hash = Inr UINT64_MAX"
| "htable_rehash_probe il msk (Suc n) hash =
     and_then (aget il (unat hash)) (\<lambda>idx_element.
     if idx_element = HT_EMPTY then Inr hash
     else htable_rehash_probe il msk n ((hash + 1) AND msk))"

text \<open>One iteration of the outer loop; \<open>None\<close> is \<open>return false\<close>.\<close>

definition htable_rehash_step ::
  "('k, 'v) htable \<Rightarrow> nat \<Rightarrow> nat \<Rightarrow> nat \<Rightarrow> ('k, 'v) ht_rehash \<Rightarrow> ('k, 'v) ht_rehash option checked"
where
  "htable_rehash_step t new_index_capacity new_entry_capacity i r =
     and_then (aget (index_list t) i) (\<lambda>slot.
     if slot = HT_EMPTY \<or> slot = HT_DELETED then Inr (Some r)
     else and_then (assert_that (unat (new_idx_counter r) < new_entry_capacity)) (\<lambda>_.
       let idx = slot - 1; new_idx = new_idx_counter r; msk = ht_mask new_index_capacity
       in and_then (aget (entries t) (unat idx)) (\<lambda>prev_entry.
          and_then (aset (new_entries r) (unat new_idx) prev_entry) (\<lambda>ents.
          and_then (htable_link_tail ents (new_head_idx r) (new_tail_idx r) new_idx)
            (\<lambda>(ents, head, tail).
          and_then (htable_rehash_probe (new_index_list r) msk new_index_capacity
                      (cached_hash prev_entry AND msk)) (\<lambda>target.
          if target = UINT64_MAX then Inr None
          else and_then (aset (new_index_list r) (unat target) (new_idx + 1)) (\<lambda>il.
            Inr (Some \<lparr>new_index_list = il, new_entries = ents, new_idx_counter = new_idx + 1,
                       new_head_idx = head, new_tail_idx = tail\<rparr>))))))))"

fun htable_rehash_loop ::
  "('k, 'v) htable \<Rightarrow> nat \<Rightarrow> nat \<Rightarrow> nat \<Rightarrow> nat \<Rightarrow> ('k, 'v) ht_rehash \<Rightarrow>
   ('k, 'v) ht_rehash option checked"
where
  "htable_rehash_loop t nic nec 0 i r = Inr (Some r)"
| "htable_rehash_loop t nic nec (Suc n) i r =
     and_then (htable_rehash_step t nic nec i r) (\<lambda>res.
     case res of None \<Rightarrow> Inr None | Some r' \<Rightarrow> htable_rehash_loop t nic nec n (Suc i) r')"

text \<open>
  \<open>Some\<close> of the table with its counters set, and the filled arrays, is \<open>return true\<close>.
\<close>

definition htable_rehash ::
  "('k, 'v) htable \<Rightarrow> u32 list \<Rightarrow> nat \<Rightarrow> ('k, 'v) ht_entry list \<Rightarrow> nat \<Rightarrow>
   (('k, 'v) htable \<times> u32 list \<times> ('k, 'v) ht_entry list) option checked"
where
  "htable_rehash t il new_index_capacity ents new_entry_capacity =
     and_then (htable_rehash_loop t new_index_capacity new_entry_capacity (index_capacity t) 0
        \<lparr>new_index_list = il, new_entries = ents, new_idx_counter = 0,
         new_head_idx = UINT32_MAX, new_tail_idx = UINT32_MAX\<rparr>) (\<lambda>res.
     case res of
       None \<Rightarrow> Inr None
     | Some r \<Rightarrow> Inr (Some
         (t\<lparr>entry_next_insert := new_idx_counter r, deleted_count := 0,
            head_idx := new_head_idx r, tail_idx := new_tail_idx r\<rparr>,
          new_index_list r, new_entries r)))"

definition htable_grow ::
  "('k, 'v) ht_mem \<Rightarrow> ('k, 'v) htable \<Rightarrow> (bool \<times> ('k, 'v) htable) checked"
where
  "htable_grow m t =
     (let new_index_capacity = sz (index_capacity t * 2);
          new_entry_capacity = sz (new_index_capacity * 3) div 4;
          entry_bytes = sz (new_entry_capacity * SIZEOF_HT_ENTRY)
      in if \<not> calloc_ok m new_index_capacity SIZEOF_U32 then Inr (False, t)
         else if \<not> malloc_ok m entry_bytes then Inr (False, t)
         else and_then (htable_rehash t (replicate new_index_capacity HT_EMPTY) new_index_capacity
                          (malloc_entries m entry_bytes) new_entry_capacity) (\<lambda>res.
           case res of
             None \<Rightarrow> Inr (False, t)
           | Some (t', il, ents) \<Rightarrow>
               Inr (True, t'\<lparr>index_list := il, index_capacity := new_index_capacity,
                             entries := ents, entry_capacity := new_entry_capacity\<rparr>)))"

section \<open>Insertion and update\<close>

datatype set_probe = Probe_found u32 | Probe_target u64

fun htable_set_probe ::
  "'k ht_key_ops \<Rightarrow> ('k, 'v) htable \<Rightarrow> 'k \<Rightarrow> nat \<Rightarrow> u64 \<Rightarrow> u64 \<Rightarrow> set_probe checked"
where
  "htable_set_probe ops t k 0 hash insert_target_hash = Inr (Probe_target insert_target_hash)"
| "htable_set_probe ops t k (Suc n) hash insert_target_hash =
     and_then (aget (index_list t) (unat hash)) (\<lambda>idx_element.
     if idx_element = HT_DELETED then
       htable_set_probe ops t k n ((hash + 1) AND ht_mask (index_capacity t))
         (if insert_target_hash = UINT64_MAX then hash else insert_target_hash)
     else if idx_element = HT_EMPTY then
       Inr (Probe_target (if insert_target_hash = UINT64_MAX then hash else insert_target_hash))
     else
       and_then (aget (entries t) (unat (idx_element - 1))) (\<lambda>entry.
       if HT_KEY_EQUAL_CB ops (key entry) k then Inr (Probe_found (idx_element - 1))
       else htable_set_probe ops t k n ((hash + 1) AND ht_mask (index_capacity t))
              insert_target_hash))"

text \<open>The entry number for a new key: the last freed one, else the next unused one.\<close>

definition htable_take_index ::
  "('k, 'v) ht_mem \<Rightarrow> ('k, 'v) htable \<Rightarrow> (u32 \<times> ('k, 'v) htable) checked"
where
  "htable_take_index m t =
     (if deleted_count t \<noteq> 0 then
        let dc = deleted_count t - 1
        in and_then (aget (deleted_index_list t) dc) (\<lambda>idx.
           if deleted_capacity t > 16 \<and> dc < deleted_capacity t div 4 then
             let new_deleted_capacity = (if dc < 4 then 4 else deleted_capacity t div 2);
                 bytes = sz (SIZEOF_U32 * new_deleted_capacity)
             in if realloc_ok m bytes then
                  Inr (idx, t\<lparr>deleted_count := dc, deleted_capacity := new_deleted_capacity,
                              deleted_index_list := realloc_u32 m (deleted_index_list t) bytes\<rparr>)
                else Inr (idx, t\<lparr>deleted_count := dc\<rparr>)
           else Inr (idx, t\<lparr>deleted_count := dc\<rparr>))
      else Inr (entry_next_insert t, t\<lparr>entry_next_insert := entry_next_insert t + 1\<rparr>))"

text \<open>Writing the new entry, its slot and its links.\<close>

definition htable_store ::
  "('k, 'v) htable \<Rightarrow> u64 \<Rightarrow> u32 \<Rightarrow> 'k \<Rightarrow> 'v option \<Rightarrow> u64 \<Rightarrow> ('k, 'v) htable checked"
where
  "htable_store t target idx dup_key v raw_hash =
     and_then (aset (index_list t) (unat target) (idx + 1)) (\<lambda>il.
     and_then (aupd (entries t) (unat idx) (\<lambda>e. e\<lparr>key := dup_key, data := v, cached_hash := raw_hash\<rparr>))
       (\<lambda>ents.
     and_then (htable_link_tail ents (head_idx t) (tail_idx t) idx) (\<lambda>(ents, head, tail).
     Inr (t\<lparr>index_list := il, entries := ents, head_idx := head, tail_idx := tail,
            ht_count := sz (ht_count t + 1)\<rparr>))))"

text \<open>
  The result is the returned \<open>bool\<close>, what was written to \<open>*flag_created\<close> (\<open>None\<close> if nothing was:
  \<open>HT_KEY_DUP_CHECK\<close> returns without writing it), and the table.
\<close>

definition htable_set_with_flag ::
  "'k ht_key_ops \<Rightarrow> ('k, 'v) ht_mem \<Rightarrow> ('k, 'v) htable \<Rightarrow> 'k \<Rightarrow> 'v option \<Rightarrow>
   (bool \<times> bool option \<times> ('k, 'v) htable) checked"
where
  "htable_set_with_flag ops m t0 k v =
     and_then (if unat (entry_next_insert t0) \<ge> entry_capacity t0
                  \<or> sz (sz (ht_count t0 + 1) * 4) \<ge> sz (index_capacity t0 * 3)
               then htable_grow m t0 else Inr (True, t0)) (\<lambda>(room, t).
     if \<not> room then Inr (False, Some False, t)
     else and_then (assert_that (unat (entry_next_insert t) < entry_capacity t)) (\<lambda>_.
       let raw_hash = HT_KEY_HASH_CB ops k
       in and_then (htable_set_probe ops t k (index_capacity t)
                      (raw_hash AND ht_mask (index_capacity t)) UINT64_MAX) (\<lambda>res.
          case res of
            Probe_found idx \<Rightarrow>
              and_then (aupd (entries t) (unat idx) (\<lambda>e. e\<lparr>data := v\<rparr>)) (\<lambda>ents.
              Inr (True, Some False, t\<lparr>entries := ents\<rparr>))
          | Probe_target target \<Rightarrow>
              if target = UINT64_MAX then Inr (False, Some False, t)
              else case HT_KEY_DUP_CB ops (strdup_ok m) k of
                None \<Rightarrow> Inr (False, None, t)
              | Some dup_key \<Rightarrow>
                  and_then (htable_take_index m t) (\<lambda>(idx, t).
                  and_then (htable_store t target idx dup_key v raw_hash) (\<lambda>t.
                  Inr (True, Some True, t))))))"

definition htable_set ::
  "'k ht_key_ops \<Rightarrow> ('k, 'v) ht_mem \<Rightarrow> ('k, 'v) htable \<Rightarrow> 'k \<Rightarrow> 'v option \<Rightarrow>
   (bool \<times> ('k, 'v) htable) checked"
where
  "htable_set ops m t k v =
     and_then (htable_set_with_flag ops m t k v) (\<lambda>(ret, flag, t'). Inr (ret, t'))"

section \<open>Lookup\<close>

fun htable_get_loop ::
  "'k ht_key_ops \<Rightarrow> ('k, 'v) htable \<Rightarrow> 'k \<Rightarrow> nat \<Rightarrow> u64 \<Rightarrow> ('v option \<times> bool) checked"
where
  "htable_get_loop ops t k 0 hash = Inr (None, False)"
| "htable_get_loop ops t k (Suc n) hash =
     and_then (aget (index_list t) (unat hash)) (\<lambda>idx_element.
     if idx_element = HT_DELETED then
       htable_get_loop ops t k n ((hash + 1) AND ht_mask (index_capacity t))
     else if idx_element = HT_EMPTY then Inr (None, False)
     else
       and_then (aget (entries t) (unat (idx_element - 1))) (\<lambda>entry.
       if HT_KEY_EQUAL_CB ops (key entry) k then Inr (data entry, True)
       else htable_get_loop ops t k n ((hash + 1) AND ht_mask (index_capacity t))))"

definition htable_get_with_flag ::
  "'k ht_key_ops \<Rightarrow> ('k, 'v) htable \<Rightarrow> 'k \<Rightarrow> ('v option \<times> bool) checked"
where
  "htable_get_with_flag ops t k =
     htable_get_loop ops t k (index_capacity t) (HT_KEY_HASH_CB ops k AND ht_mask (index_capacity t))"

definition htable_get :: "'k ht_key_ops \<Rightarrow> ('k, 'v) htable \<Rightarrow> 'k \<Rightarrow> 'v option checked" where
  "htable_get ops t k = and_then (htable_get_with_flag ops t k) (\<lambda>(d, flag). Inr d)"

definition htable_has :: "'k ht_key_ops \<Rightarrow> ('k, 'v) htable \<Rightarrow> 'k \<Rightarrow> bool checked" where
  "htable_has ops t k = and_then (htable_get_with_flag ops t k) (\<lambda>(d, flag). Inr flag)"

section \<open>Deletion\<close>

text \<open>Room for one more freed entry number; \<open>None\<close> if \<open>realloc\<close> fails.\<close>

definition htable_reserve_deleted ::
  "('k, 'v) ht_mem \<Rightarrow> ('k, 'v) htable \<Rightarrow> ('k, 'v) htable option"
where
  "htable_reserve_deleted m t =
     (if deleted_count t \<ge> deleted_capacity t then
        let new_deleted_capacity =
              (if deleted_capacity t \<noteq> 0 then sz (deleted_capacity t * 2) else 16);
            bytes = sz (SIZEOF_U32 * new_deleted_capacity)
        in if \<not> realloc_ok m bytes then None
           else Some (t\<lparr>deleted_index_list := realloc_u32 m (deleted_index_list t) bytes,
                        deleted_capacity := new_deleted_capacity\<rparr>)
      else Some t)"

text \<open>
  The body of a hit: the returned data, the flag, the keys handed to \<open>HT_KEY_FREE_CB\<close>, the table.
\<close>

definition htable_delete_entry ::
  "'k ht_key_ops \<Rightarrow> ('k, 'v) ht_mem \<Rightarrow> ('k, 'v) htable \<Rightarrow> u64 \<Rightarrow> u32 \<Rightarrow> ('k, 'v) ht_entry \<Rightarrow>
   ('v option \<times> bool \<times> 'k list \<times> ('k, 'v) htable) checked"
where
  "htable_delete_entry ops m t0 hash idx_element entry =
     (case htable_reserve_deleted m t0 of
        None \<Rightarrow> Inr (None, False, [], t0)
      | Some t \<Rightarrow>
          let idx = idx_element - 1
          in and_then (aset (deleted_index_list t) (deleted_count t) (idx_element - 1)) (\<lambda>dl.
             and_then (aget (entries t) (unat idx)) (\<lambda>e.
             let head = (if idx = head_idx t then next_idx e else head_idx t);
                 tail = (if idx = tail_idx t then prev_idx e else tail_idx t)
             in and_then (if next_idx e \<noteq> UINT32_MAX
                          then aupd (entries t) (unat (next_idx e)) (\<lambda>x. x\<lparr>prev_idx := prev_idx e\<rparr>)
                          else Inr (entries t)) (\<lambda>ents.
                and_then (aget ents (unat idx)) (\<lambda>e.
                and_then (if prev_idx e \<noteq> UINT32_MAX
                          then aupd ents (unat (prev_idx e)) (\<lambda>x. x\<lparr>next_idx := next_idx e\<rparr>)
                          else Inr ents) (\<lambda>ents.
                and_then (aset (index_list t) (unat hash) HT_DELETED) (\<lambda>il.
                and_then (aget ents (unat idx)) (\<lambda>e.
                Inr (data e, True, HT_KEY_FREE_CB ops (key entry),
                     t\<lparr>deleted_index_list := dl, deleted_count := sz (deleted_count t + 1),
                       head_idx := head, tail_idx := tail, entries := ents, index_list := il,
                       ht_count := sz (ht_count t + 2 ^ 64 - 1)\<rparr>)))))))))"

fun htable_delete_loop ::
  "'k ht_key_ops \<Rightarrow> ('k, 'v) ht_mem \<Rightarrow> ('k, 'v) htable \<Rightarrow> 'k \<Rightarrow> nat \<Rightarrow> u64 \<Rightarrow>
   ('v option \<times> bool \<times> 'k list \<times> ('k, 'v) htable) checked"
where
  "htable_delete_loop ops m t k 0 hash = Inr (None, False, [], t)"
| "htable_delete_loop ops m t k (Suc n) hash =
     and_then (aget (index_list t) (unat hash)) (\<lambda>idx_element.
     if idx_element = HT_DELETED then
       htable_delete_loop ops m t k n ((hash + 1) AND ht_mask (index_capacity t))
     else if idx_element = HT_EMPTY then Inr (None, False, [], t)
     else
       and_then (aget (entries t) (unat (idx_element - 1))) (\<lambda>entry.
       if HT_KEY_EQUAL_CB ops (key entry) k
       then htable_delete_entry ops m t hash idx_element entry
       else htable_delete_loop ops m t k n ((hash + 1) AND ht_mask (index_capacity t))))"

definition htable_delete_with_flag ::
  "'k ht_key_ops \<Rightarrow> ('k, 'v) ht_mem \<Rightarrow> ('k, 'v) htable \<Rightarrow> 'k \<Rightarrow>
   ('v option \<times> bool \<times> 'k list \<times> ('k, 'v) htable) checked"
where
  "htable_delete_with_flag ops m t k =
     htable_delete_loop ops m t k (index_capacity t)
       (HT_KEY_HASH_CB ops k AND ht_mask (index_capacity t))"

definition htable_delete ::
  "'k ht_key_ops \<Rightarrow> ('k, 'v) ht_mem \<Rightarrow> ('k, 'v) htable \<Rightarrow> 'k \<Rightarrow>
   ('v option \<times> 'k list \<times> ('k, 'v) htable) checked"
where
  "htable_delete ops m t k =
     and_then (htable_delete_with_flag ops m t k) (\<lambda>(d, flag, freed, t'). Inr (d, freed, t'))"

section \<open>Counting, iteration, release\<close>

definition htable_count :: "('k, 'v) htable \<Rightarrow> nat" where
  "htable_count t = ht_count t"

text \<open>
  \<open>ht_foreach_template\<close>: the entries met by following \<open>next_idx\<close> from \<open>idx\<close>. A corrupt table could
  make the loop run for ever, so it has fuel, and \<open>None\<close> says the fuel ran out.
\<close>

fun ht_foreach_from ::
  "nat \<Rightarrow> ('k, 'v) htable \<Rightarrow> u32 \<Rightarrow> ('k, 'v) ht_entry list option checked"
where
  "ht_foreach_from 0 t idx = Inr None"
| "ht_foreach_from (Suc fuel) t idx =
     (if idx = UINT32_MAX then Inr (Some [])
      else and_then (aget (entries t) (unat idx)) (\<lambda>e.
           and_then (ht_foreach_from fuel t (next_idx e)) (\<lambda>rest.
           Inr (map_option (Cons e) rest))))"

definition ht_foreach :: "nat \<Rightarrow> ('k, 'v) htable \<Rightarrow> ('k, 'v) ht_entry list option checked" where
  "ht_foreach fuel t = ht_foreach_from fuel t (head_idx t)"

text \<open>What \<open>htable_free_with_cleanup\<close> releases, in order.\<close>

datatype ('k, 'v) ht_release =
    Key_released 'k
  | Data_released "'v option"
  | Deleted_list_released
  | Index_list_released
  | Entries_released
  | Table_released

definition htable_release_entry ::
  "'k ht_key_ops \<Rightarrow> bool \<Rightarrow> ('k, 'v) ht_entry \<Rightarrow> ('k, 'v) ht_release list"
where
  "htable_release_entry ops has_cb e =
     map Key_released (HT_KEY_FREE_CB ops (key e)) @ (if has_cb then [Data_released (data e)] else [])"

definition htable_free_with_cleanup ::
  "'k ht_key_ops \<Rightarrow> nat \<Rightarrow> ('k, 'v) htable \<Rightarrow> bool \<Rightarrow> ('k, 'v) ht_release list option checked"
where
  "htable_free_with_cleanup ops fuel t has_cb =
     and_then (ht_foreach fuel t) (\<lambda>res.
     Inr (map_option (\<lambda>es. concat (map (htable_release_entry ops has_cb) es)
       @ [Deleted_list_released, Index_list_released, Entries_released, Table_released]) res))"

definition htable_free ::
  "'k ht_key_ops \<Rightarrow> nat \<Rightarrow> ('k, 'v) htable \<Rightarrow> ('k, 'v) ht_release list option checked"
where
  "htable_free ops fuel t = htable_free_with_cleanup ops fuel t False"

end
