(* ===== verification/Htable_Links.thy ===== *)
theory Htable_Links
  imports Htable
begin

text \<open>
  The doubly linked list the entries form by their numbers: a path predicate, and what linking an
  entry at the tail and unlinking an entry anywhere do to it.
\<close>

section \<open>Paths\<close>

definition first_or :: "'a list \<Rightarrow> 'a \<Rightarrow> 'a" where
  "first_or xs d = (case xs of [] \<Rightarrow> d | x # _ \<Rightarrow> x)"

definition last_or :: "'a list \<Rightarrow> 'a \<Rightarrow> 'a" where
  "last_or xs d = (if xs = [] then d else last xs)"

named_theorems path_simps \<open>ends of paths\<close>

lemma first_or_simps [simp, path_simps]:
  "first_or [] d = d" "first_or (x # xs) d = x"
  "first_or (xs @ ys) d = first_or xs (first_or ys d)"
  by (simp_all add: first_or_def split: list.splits)

lemma last_or_simps [simp, path_simps]:
  "last_or [] d = d" "last_or (x # xs) d = last_or xs x"
  "last_or (xs @ ys) d = last_or ys (last_or xs d)"
  by (auto simp: last_or_def)

text \<open>
  \<open>links ents pr ps nx\<close>: the entries numbered \<open>ps\<close> are chained in this order, the first having
  predecessor \<open>pr\<close> and the last successor \<open>nx\<close>.
\<close>

fun links :: "('k, 'v) ht_entry list \<Rightarrow> u32 \<Rightarrow> u32 list \<Rightarrow> u32 \<Rightarrow> bool" where
  "links ents pr [] nx = True"
| "links ents pr (p # ps) nx =
     (unat p < length ents \<and> p \<noteq> UINT32_MAX \<and>
      prev_idx (ents ! unat p) = pr \<and> next_idx (ents ! unat p) = first_or ps nx \<and>
      links ents p ps nx)"

lemma links_append [path_simps]:
  "links ents pr (as @ bs) nx \<longleftrightarrow>
     links ents pr as (first_or bs nx) \<and> links ents (last_or as pr) bs nx"
  by (induction as arbitrary: pr) auto

lemma links_cong:
  assumes "length ents' = length ents"
    and "\<And>p. p \<in> set ps \<Longrightarrow> prev_idx (ents' ! unat p) = prev_idx (ents ! unat p)"
    and "\<And>p. p \<in> set ps \<Longrightarrow> next_idx (ents' ! unat p) = next_idx (ents ! unat p)"
  shows "links ents' pr ps nx = links ents pr ps nx"
  using assms by (induction ps arbitrary: pr) auto

lemma links_frame [simp]:
  "p \<notin> set ps \<Longrightarrow> links (ents[unat p := e]) pr ps nx = links ents pr ps nx"
  by (rule links_cong) (auto simp: nth_update_if)

lemma links_frame_nat:
  "i \<notin> unat ` set ps \<Longrightarrow> links (ents[i := e]) pr ps nx = links ents pr ps nx"
  by (rule links_cong) (auto simp: nth_update_if)

lemma links_bound: "links ents pr ps nx \<Longrightarrow> p \<in> set ps \<Longrightarrow> unat p < length ents \<and> p \<noteq> UINT32_MAX"
  by (induction ps arbitrary: pr) auto

lemma links_set_next:
  assumes "links ents pr (as @ [a]) nx" "a \<notin> set as"
  shows "links (ents[unat a := (ents ! unat a)\<lparr>next_idx := nx'\<rparr>]) pr (as @ [a]) nx'"
  using assms by (simp add: links_append)

lemma links_set_prev:
  assumes "links ents pr (b # bs) nx" "b \<notin> set bs"
  shows "links (ents[unat b := (ents ! unat b)\<lparr>prev_idx := pr'\<rparr>]) pr' (b # bs) nx"
  using assms by simp

text \<open>What linking leaves alone: the key, the data and the cached hash of every entry.\<close>

definition payload :: "('k, 'v) ht_entry \<Rightarrow> 'k \<times> 'v option \<times> u64" where
  "payload e = (key e, data e, cached_hash e)"

definition same_payload :: "('k, 'v) ht_entry list \<Rightarrow> ('k, 'v) ht_entry list \<Rightarrow> bool" where
  "same_payload ents' ents \<longleftrightarrow> map payload ents' = map payload ents"

lemma same_payload_refl [simp]: "same_payload ents ents"
  by (simp add: same_payload_def)

lemma same_payload_trans: "same_payload a b \<Longrightarrow> same_payload b c \<Longrightarrow> same_payload a c"
  by (simp add: same_payload_def)

lemma same_payload_length: "same_payload ents' ents \<Longrightarrow> length ents' = length ents"
  unfolding same_payload_def by (rule map_eq_imp_length_eq)

lemma same_payload_nth:
  assumes "same_payload ents' ents" "i < length ents"
  shows "key (ents' ! i) = key (ents ! i)" "data (ents' ! i) = data (ents ! i)"
    "cached_hash (ents' ! i) = cached_hash (ents ! i)"
proof -
  have "map payload ents' ! i = map payload ents ! i"
    using assms(1) by (simp add: same_payload_def)
  then have "payload (ents' ! i) = payload (ents ! i)"
    using assms same_payload_length [OF assms(1)] by simp
  then show "key (ents' ! i) = key (ents ! i)" "data (ents' ! i) = data (ents ! i)"
    "cached_hash (ents' ! i) = cached_hash (ents ! i)"
    by (simp_all add: payload_def)
qed

lemma same_payload_update:
  "payload e = payload (ents ! i) \<Longrightarrow> same_payload (ents[i := e]) ents"
  by (cases "i < length ents")
    (simp_all add: same_payload_def map_update list_update_same_conv list_update_beyond)

section \<open>Linking at the tail\<close>

lemma link_tail_correct:
  assumes l: "links ents UINT32_MAX ps UINT32_MAX" and "distinct ps" and p: "p \<notin> set ps"
    and pb: "unat p < length ents" "p \<noteq> UINT32_MAX"
  obtains ents' where
    "htable_link_tail ents (first_or ps UINT32_MAX) (last_or ps UINT32_MAX) p =
       Inr (ents', first_or (ps @ [p]) UINT32_MAX, p)"
    "links ents' UINT32_MAX (ps @ [p]) UINT32_MAX" "same_payload ents' ents"
proof (cases ps rule: rev_cases)
  case Nil
  let ?e = "ents[unat p := (ents ! unat p)\<lparr>prev_idx := UINT32_MAX, next_idx := UINT32_MAX\<rparr>]"
  show ?thesis
    by (rule that [of ?e])
      (use Nil pb in \<open>auto simp: htable_link_tail_def payload_def intro!: same_payload_update\<close>)
next
  case (snoc qs q)
  let ?e1 = "ents[unat q := (ents ! unat q)\<lparr>next_idx := p\<rparr>]"
  let ?e2 = "?e1[unat p := (?e1 ! unat p)\<lparr>prev_idx := q, next_idx := UINT32_MAX\<rparr>]"
  have q: "q \<in> set ps" "q \<notin> set qs" "q \<noteq> p"
    using snoc assms(2) p by auto
  have qb: "unat q < length ents" "q \<noteq> UINT32_MAX"
    using links_bound [OF l q(1)] by auto
  have "links ?e1 UINT32_MAX (qs @ [q]) p"
    using links_set_next [of ents UINT32_MAX qs q UINT32_MAX p] l snoc q by simp
  then have "links ?e2 UINT32_MAX (ps @ [p]) UINT32_MAX"
    using snoc p pb q qb by (simp add: links_append nth_update_if)
  moreover have "htable_link_tail ents (first_or ps UINT32_MAX) (last_or ps UINT32_MAX) p =
      Inr (?e2, first_or (ps @ [p]) UINT32_MAX, p)"
    using snoc qb pb by (cases qs) (auto simp: htable_link_tail_def)
  moreover have "same_payload ?e2 ents"
    by (rule same_payload_trans [OF same_payload_update same_payload_update])
      (simp_all add: payload_def)
  ultimately show ?thesis using that by blast
qed

section \<open>Unlinking\<close>

text \<open>The two writes \<open>htable_delete_with_flag\<close> makes, the second reading what the first wrote.\<close>

definition unlink :: "('k, 'v) ht_entry list \<Rightarrow> u32 \<Rightarrow> ('k, 'v) ht_entry list checked" where
  "unlink ents idx =
     and_then (aget ents (unat idx)) (\<lambda>e.
     and_then (if next_idx e \<noteq> UINT32_MAX
               then aupd ents (unat (next_idx e)) (\<lambda>x. x\<lparr>prev_idx := prev_idx e\<rparr>)
               else Inr ents) (\<lambda>ents.
     and_then (aget ents (unat idx)) (\<lambda>e.
     if prev_idx e \<noteq> UINT32_MAX
     then aupd ents (unat (prev_idx e)) (\<lambda>x. x\<lparr>next_idx := next_idx e\<rparr>)
     else Inr ents)))"

lemma unlink_correct:
  assumes l: "links ents UINT32_MAX (as @ p # bs) UINT32_MAX" and d: "distinct (as @ p # bs)"
  obtains ents' where
    "unlink ents p = Inr ents'" "links ents' UINT32_MAX (as @ bs) UINT32_MAX"
    "same_payload ents' ents"
proof -
  have pb: "unat p < length ents" "p \<noteq> UINT32_MAX"
    using links_bound [OF l] by auto
  have pn: "next_idx (ents ! unat p) = first_or bs UINT32_MAX"
    "prev_idx (ents ! unat p) = last_or as UINT32_MAX"
    using l by (simp_all add: links_append)
  define e1 where "e1 = (case bs of [] \<Rightarrow> ents
    | b # _ \<Rightarrow> ents[unat b := (ents ! unat b)\<lparr>prev_idx := last_or as UINT32_MAX\<rparr>])"
  define e2 where "e2 = (if as = [] then e1
    else e1[unat (last as) := (e1 ! unat (last as))\<lparr>next_idx := first_or bs UINT32_MAX\<rparr>])"
  have bb: "bs = b # bs' \<Longrightarrow> unat b < length ents \<and> b \<noteq> UINT32_MAX \<and> b \<noteq> p" for b bs'
    using links_bound [OF l, of b] d by auto
  have len1: "length e1 = length ents" by (simp add: e1_def split: list.splits)
  have ab: "as \<noteq> [] \<Longrightarrow> unat (last as) < length ents \<and> last as \<noteq> UINT32_MAX \<and> last as \<noteq> p"
    using links_bound [OF l, of "last as"] d by (auto dest: last_in_set)
  have p1: "e1 ! unat p = ents ! unat p"
    using bb by (auto simp: e1_def nth_update_if split: list.splits)
  have s1: "(if next_idx (ents ! unat p) \<noteq> UINT32_MAX
       then aupd ents (unat (next_idx (ents ! unat p)))
              (\<lambda>x. x\<lparr>prev_idx := prev_idx (ents ! unat p)\<rparr>)
       else Inr ents) = Inr e1"
    using bb by (cases bs) (auto simp: e1_def pn)
  have run: "unlink ents p = Inr e2"
    unfolding unlink_def aget_ok [OF pb(1)] and_then_simps s1
    using pb ab len1 by (simp add: p1 pn e2_def last_or_def)
  have l1: "links e1 UINT32_MAX as p" "links e1 (last_or as UINT32_MAX) bs UINT32_MAX"
  proof -
    show "links e1 UINT32_MAX as p"
      using l d by (auto simp: e1_def links_append split: list.splits)
    show "links e1 (last_or as UINT32_MAX) bs UINT32_MAX"
    proof (cases bs)
      case (Cons b bs')
      then show ?thesis
        using links_set_prev [of ents p b bs' UINT32_MAX] l d by (simp add: e1_def links_append)
    qed simp
  qed
  have l2: "links e2 UINT32_MAX (as @ bs) UINT32_MAX"
  proof (cases as rule: rev_cases)
    case Nil
    then show ?thesis using l1 by (simp add: e2_def)
  next
    case (snoc as' a)
    have a: "a \<notin> set as'" "a \<notin> set bs" using d snoc by auto
    have "links e2 UINT32_MAX as (first_or bs UINT32_MAX)"
      using links_set_next [of e1 UINT32_MAX as' a p] l1(1) a snoc by (simp add: e2_def)
    moreover have "links e2 (last_or as UINT32_MAX) bs UINT32_MAX"
      using l1(2) a snoc by (simp add: e2_def)
    ultimately show ?thesis by (simp add: links_append)
  qed
  have "same_payload e1 ents"
    by (auto simp: e1_def payload_def intro!: same_payload_update split: list.splits)
  moreover have "same_payload e2 e1"
    by (auto simp: e2_def payload_def intro!: same_payload_update)
  ultimately have "same_payload e2 ents" by (metis same_payload_trans)
  with run l2 that show ?thesis by blast
qed

text \<open>The new head and tail, as the code computes them from the entry's own links.\<close>

lemma unlink_head:
  assumes "distinct (as @ p # bs)"
  shows "(if p = first_or (as @ p # bs) d then first_or bs d else first_or (as @ p # bs) d) =
    first_or (as @ bs) d"
  using assms by (cases as) auto

lemma unlink_tail:
  assumes "distinct (as @ p # bs)"
  shows "(if p = last_or (as @ p # bs) d then last_or as d else last_or (as @ p # bs) d) =
    last_or (as @ bs) d"
  using assms by (cases bs rule: rev_cases) auto

section \<open>Iteration follows the path\<close>

lemma foreach_from_links:
  assumes "links (entries t) pr ps UINT32_MAX" "length ps < fuel"
  shows "ht_foreach_from fuel t (first_or ps UINT32_MAX) =
    Inr (Some (map (\<lambda>p. entries t ! unat p) ps))"
  using assms
proof (induction ps arbitrary: pr fuel)
  case Nil
  then show ?case by (cases fuel) auto
next
  case (Cons p ps)
  then obtain n where "fuel = Suc n" "length ps < n"
    by (cases fuel) auto
  with Cons show ?case by auto
qed

end
