(* ===== verification/Htable_Index.thy ===== *)
theory Htable_Index
  imports Htable_Links
begin

text \<open>
  The index of the table: which slots are live, the invariant between slots and entries, and the
  correctness of the three probe loops (lookup, insertion, rehash) with respect to it.
\<close>

section \<open>The index invariant\<close>

definition live :: "u32 \<Rightarrow> bool" where
  "live s \<longleftrightarrow> s \<noteq> HT_EMPTY \<and> s \<noteq> HT_DELETED"

definition live_idxs :: "u32 list \<Rightarrow> u32 list" where
  "live_idxs il = map (\<lambda>s. s - 1) (filter live il)"

text \<open>Slot \<open>s\<close> is reached by probing from \<open>h\<close> without meeting an empty slot on the way.\<close>

definition probe_path :: "u32 list \<Rightarrow> nat \<Rightarrow> nat \<Rightarrow> bool" where
  "probe_path il h s \<longleftrightarrow> (\<exists>d < length il. (h + d) mod length il = s \<and>
     (\<forall>j < d. il ! ((h + j) mod length il) \<noteq> HT_EMPTY))"

definition home :: "'k ht_key_ops \<Rightarrow> u32 list \<Rightarrow> 'k \<Rightarrow> nat" where
  "home ops il k = unat (HT_KEY_HASH_CB ops k) mod length il"

text \<open>
  The entries numbered \<open>ps\<close> are exactly the ones live slots refer to, each by one slot; their keys
  are distinct, their hashes are cached, and each is found by probing from its home position.
\<close>

definition ht_core :: "'k ht_key_ops \<Rightarrow> u32 list \<Rightarrow> ('k, 'v) ht_entry list \<Rightarrow> u32 list \<Rightarrow> bool" where
  "ht_core ops il ents ps \<longleftrightarrow>
     (\<exists>b. 1 \<le> b \<and> b \<le> 32 \<and> length il = 2 ^ b) \<and>
     length ents = length il * 3 div 4 \<and>
     mset (live_idxs il) = mset ps \<and> distinct ps \<and>
     (\<forall>p \<in> set ps. unat p < length ents \<and>
        cached_hash (ents ! unat p) = HT_KEY_HASH_CB ops (key (ents ! unat p))) \<and>
     distinct (map (\<lambda>p. key (ents ! unat p)) ps) \<and>
     (\<forall>s < length il. live (il ! s) \<longrightarrow>
        probe_path il (home ops il (key (ents ! unat (il ! s - 1)))) s)"

lemma live_simps [simp]: "\<not> live HT_EMPTY" "\<not> live HT_DELETED"
  by (simp_all add: live_def)

lemma HT_EMPTY_neq_DELETED [simp]: "HT_EMPTY \<noteq> HT_DELETED" "HT_DELETED \<noteq> HT_EMPTY"
  by (simp_all add: HT_EMPTY_def HT_DELETED_def UINT32_MAX_def)

lemma live_plus_1: "unat p < 2 ^ 32 - 2 \<Longrightarrow> live (p + 1)"
  using unat_word32_plus_1 [of p]
  by (auto simp: live_def HT_EMPTY_def HT_DELETED_def UINT32_MAX_def)

lemma live_idxs_split:
  "s < length il \<Longrightarrow> live_idxs il = live_idxs (take s il) @
     (if live (il ! s) then [il ! s - 1] else []) @ live_idxs (drop (Suc s) il)"
  by (subst id_take_nth_drop, assumption) (auto simp: live_idxs_def)

lemma live_idxs_take_Suc:
  "s < length il \<Longrightarrow> live_idxs (take (Suc s) il) = live_idxs (take s il) @
     (if live (il ! s) then [il ! s - 1] else [])"
  by (simp add: take_Suc_conv_app_nth live_idxs_def)

lemma mset_live_idxs_update:
  assumes "s < length il"
  shows "mset (live_idxs (il[s := v])) + (if live (il ! s) then {#il ! s - 1#} else {#}) =
    mset (live_idxs il) + (if live v then {#v - 1#} else {#})"
  using assms by (simp add: upd_conv_take_nth_drop live_idxs_split [of s il])
    (simp add: live_idxs_def)

lemma live_idxs_memI: "s < length il \<Longrightarrow> live (il ! s) \<Longrightarrow> il ! s - 1 \<in> set (live_idxs il)"
  by (simp add: live_idxs_def)

lemma live_idxs_memE:
  assumes "p \<in> set (live_idxs il)"
  obtains s where "s < length il" "live (il ! s)" "il ! s - 1 = p"
  using assms by (auto simp: live_idxs_def in_set_conv_nth)

lemma core_pow2:
  assumes "ht_core ops il ents ps"
  obtains b where "1 \<le> b" "b \<le> 32" "length il = 2 ^ b"
  using assms by (auto simp: ht_core_def)

lemma core_size:
  assumes "ht_core ops il ents ps"
  shows "2 \<le> length il" "length il \<le> 2 ^ 32" "length ents = length il * 3 div 4"
proof -
  obtain b where b: "1 \<le> b" "b \<le> 32" "length il = 2 ^ b" using assms by (rule core_pow2)
  have "(2::nat) ^ 1 \<le> 2 ^ b" using b(1) by (rule power_increasing) simp
  then show "2 \<le> length il" using b(3) by simp
  have "(2::nat) ^ b \<le> 2 ^ 32" using b(2) by (rule power_increasing) simp
  then show "length il \<le> 2 ^ 32" using b(3) by simp
  show "length ents = length il * 3 div 4" using assms by (simp add: ht_core_def)
qed

lemma core_ents_bound:
  assumes "ht_core ops il ents ps"
  shows "length ents \<le> 3 * 2 ^ 30" "length ents < length il" "1 \<le> length ents"
proof -
  note size = core_size [OF assms]
  have "length il \<le> 4294967296" using size(2) by simp
  then have "length ents \<le> 3221225472" using size(3) by linarith
  then show "length ents \<le> 3 * 2 ^ 30" by simp
  show "length ents < length il" using size by linarith
  show "1 \<le> length ents" using size by linarith
qed

lemma core_distinct:
  assumes "ht_core ops il ents ps"
  shows "distinct ps" "distinct (map (\<lambda>p. key (ents ! unat p)) ps)"
  using assms by (simp_all add: ht_core_def)

lemma core_entry:
  assumes "ht_core ops il ents ps" "p \<in> set ps"
  shows "unat p < length ents" "cached_hash (ents ! unat p) = HT_KEY_HASH_CB ops (key (ents ! unat p))"
  using assms unfolding ht_core_def by blast+

lemma core_mset: "ht_core ops il ents ps \<Longrightarrow> mset (live_idxs il) = mset ps"
  by (simp add: ht_core_def)

lemma core_set: "ht_core ops il ents ps \<Longrightarrow> set (live_idxs il) = set ps"
  by (drule core_mset) (rule mset_eq_setD)

lemma core_slot:
  assumes "ht_core ops il ents ps" "s < length il" "live (il ! s)"
  shows "il ! s - 1 \<in> set ps" "unat (il ! s - 1) < length ents"
    "probe_path il (home ops il (key (ents ! unat (il ! s - 1)))) s"
proof -
  show "il ! s - 1 \<in> set ps"
    using live_idxs_memI [OF assms(2,3)] core_set [OF assms(1)] by simp
  then show "unat (il ! s - 1) < length ents" by (rule core_entry(1) [OF assms(1)])
  show "probe_path il (home ops il (key (ents ! unat (il ! s - 1)))) s"
    using assms by (simp add: ht_core_def)
qed

lemma core_count:
  assumes "ht_core ops il ents ps"
  shows "length ps \<le> length ents"
proof -
  have "card (unat ` set ps) \<le> card {..<length ents}"
    using core_entry(1) [OF assms] by (intro card_mono) auto
  moreover have "card (unat ` set ps) = length ps"
    using core_distinct(1) [OF assms] by (subst card_image) (auto simp: inj_on_def distinct_card)
  ultimately show ?thesis by simp
qed

lemma core_free_slot:
  assumes "ht_core ops il ents ps"
  shows "\<exists>s < length il. \<not> live (il ! s)"
proof (rule ccontr)
  assume "\<not> ?thesis"
  then have "filter live il = il"
    by (auto simp: filter_id_conv in_set_conv_nth)
  then have "length ps = length il"
    using mset_eq_length [OF core_mset [OF assms]] by (simp add: live_idxs_def)
  then show False using core_count [OF assms] core_ents_bound [OF assms] by simp
qed

lemma core_key_slot:
  assumes "ht_core ops il ents ps" "p \<in> set ps"
  obtains s where "s < length il" "live (il ! s)" "il ! s - 1 = p"
  using assms core_set [OF assms(1)] by (auto elim: live_idxs_memE)

lemma core_key_inj:
  assumes "ht_core ops il ents ps" "p \<in> set ps" "q \<in> set ps"
    and "key (ents ! unat p) = key (ents ! unat q)"
  shows "p = q"
  using core_distinct(2) [OF assms(1)] assms by (auto simp: distinct_map inj_on_def)

lemma ht_core_cong:
  assumes "ht_core ops il ents ps" "length ents' = length ents"
    and "\<And>p. p \<in> set ps \<Longrightarrow> key (ents' ! unat p) = key (ents ! unat p)"
    and "\<And>p. p \<in> set ps \<Longrightarrow> cached_hash (ents' ! unat p) = cached_hash (ents ! unat p)"
  shows "ht_core ops il ents' ps"
proof -
  have "map (\<lambda>p. key (ents' ! unat p)) ps = map (\<lambda>p. key (ents ! unat p)) ps"
    using assms(3) by simp
  with assms core_slot(1) [OF assms(1)] show ?thesis
    unfolding ht_core_def by metis
qed

lemma ht_core_same_payload:
  assumes "ht_core ops il ents ps" "same_payload ents' ents"
  shows "ht_core ops il ents' ps"
  using assms same_payload_nth [OF assms(2)] core_entry(1) [OF assms(1)]
  by (intro ht_core_cong [OF assms(1)]) (auto dest: same_payload_length)

lemma probe_path_update:
  assumes "probe_path il h s" "v \<noteq> HT_EMPTY"
  shows "probe_path (il[i := v]) h s"
proof -
  obtain d where d: "d < length il" "(h + d) mod length il = s"
    "\<forall>j < d. il ! ((h + j) mod length il) \<noteq> HT_EMPTY"
    using assms(1) by (auto simp: probe_path_def)
  then have "\<forall>j < d. il[i := v] ! ((h + j) mod length il) \<noteq> HT_EMPTY"
    using assms(2) by (auto simp: nth_update_if)
  with d show ?thesis by (auto simp: probe_path_def)
qed

text \<open>A new entry in a free slot on its key's probe path.\<close>

lemma ht_core_insert:
  assumes core: "ht_core ops il ents ps" and s: "s < length il" "\<not> live (il ! s)"
    and p: "p \<notin> set ps" "unat p < length ents"
    and k: "\<forall>q \<in> set ps. key (ents ! unat q) \<noteq> k" "probe_path il (home ops il k) s"
    and ents': "same_payload ents' (ents[unat p := e])" "key e = k"
      "cached_hash e = HT_KEY_HASH_CB ops k"
  shows "ht_core ops (il[s := p + 1]) ents' (ps @ [p])"
proof -
  let ?il = "il[s := p + 1]" and ?ents = "ents[unat p := e]"
  have live: "live (p + 1)"
    using p(2) core_ents_bound(1) [OF core] by (intro live_plus_1) simp
  then have ne: "p + 1 \<noteq> HT_EMPTY" by (auto simp: live_def)
  have same: "?ents ! unat q = ents ! unat q" if "q \<in> set ps" for q
    using that p(1) by (auto simp: nth_update_if)
  have here: "?ents ! unat p = e" using p(2) by simp
  have "mset (live_idxs ?il) = mset (ps @ [p])"
    using mset_live_idxs_update [OF s(1), of "p + 1"] s(2) live core_mset [OF core] by simp
  moreover have "distinct (map (\<lambda>q. key (?ents ! unat q)) (ps @ [p]))"
  proof -
    have eq: "map (\<lambda>q. key (?ents ! unat q)) ps = map (\<lambda>q. key (ents ! unat q)) ps"
      using same by simp
    show ?thesis
      unfolding map_append eq using core_distinct(2) [OF core] k(1) here ents'(2) by auto
  qed
  moreover have "probe_path ?il (home ops ?il (key (?ents ! unat (?il ! i - 1)))) i"
    if i: "i < length ?il" "live (?il ! i)" for i
  proof (cases "i = s")
    case True
    with s here k(2) ents'(2) probe_path_update [OF k(2) ne] show ?thesis
      by (simp add: home_def)
  next
    case False
    with i have "i < length il" "live (il ! i)" "?il ! i = il ! i" by auto
    with core_slot [OF core, of i] same probe_path_update [OF _ ne] show ?thesis
      by (simp add: home_def)
  qed
  moreover have "\<forall>q \<in> set (ps @ [p]). unat q < length ?ents \<and>
      cached_hash (?ents ! unat q) = HT_KEY_HASH_CB ops (key (?ents ! unat q))"
    using core_entry [OF core] p(2) here ents'(2,3) same by auto
  moreover have "distinct (ps @ [p])" using core_distinct(1) [OF core] p(1) by simp
  moreover have "\<exists>b. 1 \<le> b \<and> b \<le> 32 \<and> length ?il = 2 ^ b" "length ?ents = length ?il * 3 div 4"
    using core by (simp_all add: ht_core_def)
  ultimately have "ht_core ops ?il ?ents (ps @ [p])"
    unfolding ht_core_def by blast
  then show ?thesis using ents'(1) by (rule ht_core_same_payload)
qed

text \<open>An entry removed, its slot marked deleted.\<close>

lemma ht_core_delete:
  assumes core: "ht_core ops il ents (as @ p # bs)" and s: "s < length il" "live (il ! s)"
    "il ! s - 1 = p" and ents': "same_payload ents' ents"
  shows "ht_core ops (il[s := HT_DELETED]) ents' (as @ bs)"
proof -
  let ?il = "il[s := HT_DELETED]"
  have "mset (live_idxs ?il) = mset (as @ bs)"
    using mset_live_idxs_update [OF s(1), of HT_DELETED] s core_mset [OF core] by simp
  moreover have "probe_path ?il (home ops ?il (key (ents ! unat (?il ! i - 1)))) i"
    if i: "i < length ?il" "live (?il ! i)" for i
  proof -
    from i s(1) have "i \<noteq> s" "i < length il" by (auto simp: nth_list_update)
    with i core_slot(3) [OF core, of i] show ?thesis
      by (simp add: home_def probe_path_update)
  qed
  ultimately have "ht_core ops ?il ents (as @ bs)"
    using core by (auto simp: ht_core_def)
  then show ?thesis using ents' by (rule ht_core_same_payload)
qed

text \<open>An empty index over any entries.\<close>

lemma ht_core_empty:
  assumes "length il = 2 ^ b" "1 \<le> b" "b \<le> 32" "length ents = length il * 3 div 4"
    "\<forall>s < length il. \<not> live (il ! s)"
  shows "ht_core ops il ents []"
proof -
  have "filter live il = []" using assms(5) by (auto simp: filter_empty_conv in_set_conv_nth)
  then show ?thesis using assms by (auto simp: ht_core_def live_idxs_def)
qed

end
