(* ===== verification/Htable_Probe.thy ===== *)
theory Htable_Probe
  imports Htable_Index
begin

text \<open>
  The probe loops. A walk of \<open>(hash + 1) & mask\<close> steps visits the positions
  \<open>(h + d) mod capacity\<close>; each loop stops at the first slot its purpose needs. The key macros enter
  through the locale \<open>ht_key\<close>: what the table asks of \<open>HT_KEY_EQUAL_CB\<close> and \<open>HT_KEY_DUP_CB\<close>.
\<close>

section \<open>The contract of the key macros\<close>

locale ht_key =
  fixes ops :: "'k ht_key_ops"
  assumes equal_iff: "HT_KEY_EQUAL_CB ops a b \<longleftrightarrow> a = b"
    and dup_same: "HT_KEY_DUP_CB ops ok k = Some k' \<Longrightarrow> k' = k"
    and dup_granted: "HT_KEY_DUP_CB ops True k \<noteq> None"

section \<open>Positions\<close>

lemma core_probe_start:
  assumes "ht_core ops il ents ps"
  shows "unat (w AND ht_mask (length il)) = unat w mod length il"
proof -
  obtain b where "b \<le> 32" "length il = 2 ^ b" using assms by (rule core_pow2)
  then show ?thesis using unat_and_pow2_mask [of b w] by (simp add: ht_mask_def)
qed

lemma core_probe_next:
  assumes "ht_core ops il ents ps" "unat w < length il"
  shows "unat ((w + 1) AND ht_mask (length il)) = (unat w + 1) mod length il"
proof -
  obtain b where "b \<le> 32" "length il = 2 ^ b" using assms(1) by (rule core_pow2)
  then show ?thesis using unat_next_probe [of b w] assms(2) by (simp add: ht_mask_def)
qed

lemma core_pos_bound: "ht_core ops il ents ps \<Longrightarrow> n mod length il < length il"
  using core_size(1) [of ops il ents ps] by (intro mod_less_divisor) linarith

lemma core_pos_not_max:
  assumes "ht_core ops il ents ps" "unat w < length il"
  shows "w \<noteq> UINT64_MAX"
  using core_size(2) [OF assms(1)] assms(2) by (auto simp: UINT64_MAX_def)

section \<open>The slot of a key\<close>

definition slot_match :: "('k, 'v) ht_entry list \<Rightarrow> 'k \<Rightarrow> u32 \<Rightarrow> bool" where
  "slot_match ents k x \<longleftrightarrow> live x \<and> key (ents ! unat (x - 1)) = k"

lemma slot_match_simps [simp]: "\<not> slot_match ents k HT_EMPTY" "\<not> slot_match ents k HT_DELETED"
  by (simp_all add: slot_match_def)

text \<open>The walk from \<open>h\<close> meets the key after \<open>d\<close> steps, and neither it nor an empty slot before.\<close>

definition hit_at :: "u32 list \<Rightarrow> ('k, 'v) ht_entry list \<Rightarrow> 'k \<Rightarrow> nat \<Rightarrow> nat \<Rightarrow> bool" where
  "hit_at il ents k h d \<longleftrightarrow>
     slot_match ents k (il ! ((h + d) mod length il)) \<and>
     (\<forall>j < d. il ! ((h + j) mod length il) \<noteq> HT_EMPTY \<and>
        \<not> slot_match ents k (il ! ((h + j) mod length il)))"

lemma hit_at_Suc:
  assumes core: "ht_core ops il ents ps" and w: "unat w < length il" and h: "hit_at il ents k (unat w) (Suc d)"
  shows "unat ((w + 1) AND ht_mask (length il)) < length il"
    "hit_at il ents k (unat ((w + 1) AND ht_mask (length il))) d"
    "(unat ((w + 1) AND ht_mask (length il)) + d) mod length il = (unat w + Suc d) mod length il"
    "il ! unat w \<noteq> HT_EMPTY" "\<not> slot_match ents k (il ! unat w)"
proof -
  have shift: "(unat ((w + 1) AND ht_mask (length il)) + j) mod length il = (unat w + Suc j) mod length il"
    for j
    unfolding core_probe_next [OF core w] by (rule mod_add_Suc_left)
  then show "(unat ((w + 1) AND ht_mask (length il)) + d) mod length il = (unat w + Suc d) mod length il" .
  show "unat ((w + 1) AND ht_mask (length il)) < length il"
    unfolding core_probe_next [OF core w] by (rule core_pos_bound [OF core])
  show "hit_at il ents k (unat ((w + 1) AND ht_mask (length il))) d"
    using h unfolding hit_at_def shift by (simp only: Suc_less_eq) blast
  have "il ! ((unat w + 0) mod length il) \<noteq> HT_EMPTY \<and>
      \<not> slot_match ents k (il ! ((unat w + 0) mod length il))"
    using h unfolding hit_at_def by blast
  then show "il ! unat w \<noteq> HT_EMPTY" "\<not> slot_match ents k (il ! unat w)"
    using w by simp_all
qed

lemma core_first_match:
  assumes core: "ht_core ops il ents ps" and p: "p \<in> set ps" "key (ents ! unat p) = k"
  obtains d where "d < length il" "hit_at il ents k (home ops il k) d"
    "il ! ((home ops il k + d) mod length il) - 1 = p"
proof -
  let ?x = "\<lambda>d. il ! ((home ops il k + d) mod length il)"
  obtain s where s: "s < length il" "live (il ! s)" "il ! s - 1 = p"
    using core p(1) by (rule core_key_slot)
  with core_slot(3) [OF core s(1,2)] p(2) obtain d0 where d0: "d0 < length il"
    "(home ops il k + d0) mod length il = s" "\<forall>j < d0. ?x j \<noteq> HT_EMPTY"
    by (auto simp: probe_path_def)
  then have m0: "slot_match ents k (?x d0)"
    using s p(2) by (simp add: slot_match_def)
  define d where "d = (LEAST d. slot_match ents k (?x d))"
  have d: "slot_match ents k (?x d)" "d \<le> d0"
    unfolding d_def using m0 by (auto intro: LeastI Least_le)
  have before: "\<not> slot_match ents k (?x j)" if "j < d" for j
    using that unfolding d_def by (rule not_less_Least)
  have "?x d - 1 \<in> set ps" "key (ents ! unat (?x d - 1)) = key (ents ! unat p)"
    using d(1) p(2) core_slot(1) [OF core core_pos_bound [OF core]] by (auto simp: slot_match_def)
  then have "?x d - 1 = p" using core_key_inj [OF core _ p(1)] by blast
  then show ?thesis
    using that [of d] d d0 before by (auto simp: hit_at_def)
qed

lemma core_no_match:
  assumes "ht_core ops il ents ps" "\<forall>p \<in> set ps. key (ents ! unat p) \<noteq> k" "s < length il"
  shows "\<not> slot_match ents k (il ! s)"
  using core_slot(1) [OF assms(1,3)] assms(2) by (auto simp: slot_match_def)

text \<open>A free slot on the walk from \<open>h\<close>, within \<open>i\<close> steps.\<close>

definition target_at :: "u32 list \<Rightarrow> nat \<Rightarrow> nat \<Rightarrow> u64 \<Rightarrow> bool" where
  "target_at il h i w \<longleftrightarrow> (\<exists>d < i. unat w = (h + d) mod length il \<and> \<not> live (il ! unat w) \<and>
     (\<forall>j < d. il ! ((h + j) mod length il) \<noteq> HT_EMPTY))"

lemma target_at_mono: "target_at il h i w \<Longrightarrow> i \<le> i' \<Longrightarrow> target_at il h i' w"
  unfolding target_at_def by (meson less_le_trans)

section \<open>One step of each loop\<close>

context ht_key begin

lemma get_loop_step:
  fixes t :: "('k, 'v) htable"
  assumes core: "ht_core ops (index_list t) (entries t) ps"
    and cap: "index_capacity t = length (index_list t)"
    and h: "unat hash < length (index_list t)"
  shows "htable_get_loop ops t k (Suc n) hash =
    (if index_list t ! unat hash = HT_EMPTY then Inr (None, False)
     else if slot_match (entries t) k (index_list t ! unat hash)
       then Inr (data (entries t ! unat (index_list t ! unat hash - 1)), True)
     else htable_get_loop ops t k n ((hash + 1) AND ht_mask (length (index_list t))))"
  using h core_slot(2) [OF core h] by (auto simp: cap slot_match_def live_def equal_iff)

lemma delete_loop_step:
  fixes t :: "('k, 'v) htable"
  assumes core: "ht_core ops (index_list t) (entries t) ps"
    and cap: "index_capacity t = length (index_list t)"
    and h: "unat hash < length (index_list t)"
  shows "htable_delete_loop ops m t k (Suc n) hash =
    (if index_list t ! unat hash = HT_EMPTY then Inr (None, False, [], t)
     else if slot_match (entries t) k (index_list t ! unat hash)
       then htable_delete_entry ops m t hash (index_list t ! unat hash)
              (entries t ! unat (index_list t ! unat hash - 1))
     else htable_delete_loop ops m t k n ((hash + 1) AND ht_mask (length (index_list t))))"
  using h core_slot(2) [OF core h] by (auto simp: cap slot_match_def live_def equal_iff)

lemma set_probe_step:
  fixes t :: "('k, 'v) htable"
  assumes core: "ht_core ops (index_list t) (entries t) ps"
    and cap: "index_capacity t = length (index_list t)"
    and h: "unat hash < length (index_list t)"
  shows "htable_set_probe ops t k (Suc n) hash tgt =
    (let tgt' = if tgt = UINT64_MAX then hash else tgt
     in if index_list t ! unat hash = HT_EMPTY then Inr (Probe_target tgt')
     else if slot_match (entries t) k (index_list t ! unat hash)
       then Inr (Probe_found (index_list t ! unat hash - 1))
     else htable_set_probe ops t k n ((hash + 1) AND ht_mask (length (index_list t)))
       (if index_list t ! unat hash = HT_DELETED then tgt' else tgt))"
  using h core_slot(2) [OF core h] by (auto simp: cap slot_match_def live_def equal_iff Let_def)

section \<open>Hits\<close>

lemma get_loop_hit:
  fixes t :: "('k, 'v) htable"
  assumes core: "ht_core ops (index_list t) (entries t) ps"
    and cap: "index_capacity t = length (index_list t)"
  shows "unat hash < length (index_list t) \<Longrightarrow> d < n \<Longrightarrow>
     hit_at (index_list t) (entries t) k (unat hash) d \<Longrightarrow>
     htable_get_loop ops t k n hash =
       Inr (data (entries t ! unat (index_list t ! ((unat hash + d) mod length (index_list t)) - 1)), True)"
proof (induction d arbitrary: n hash)
  case 0
  then show ?case
    by (cases n) (auto simp: get_loop_step [OF core cap] hit_at_def simp del: htable_get_loop.simps)
next
  case (Suc d)
  note step = hit_at_Suc [OF core Suc.prems(1,3)]
  obtain n' where "n = Suc n'" "d < n'" using Suc.prems(2) by (cases n) auto
  with Suc.IH [OF step(1) _ step(2), of n'] step(3-5) Suc.prems(1) show ?case
    by (simp add: get_loop_step [OF core cap] del: htable_get_loop.simps)
qed

lemma delete_loop_hit:
  fixes t :: "('k, 'v) htable"
  assumes core: "ht_core ops (index_list t) (entries t) ps"
    and cap: "index_capacity t = length (index_list t)"
  shows "unat hash < length (index_list t) \<Longrightarrow> d < n \<Longrightarrow>
     hit_at (index_list t) (entries t) k (unat hash) d \<Longrightarrow>
     \<exists>hash'. unat hash' = (unat hash + d) mod length (index_list t) \<and>
       htable_delete_loop ops m t k n hash =
         htable_delete_entry ops m t hash' (index_list t ! unat hash')
           (entries t ! unat (index_list t ! unat hash' - 1))"
proof (induction d arbitrary: n hash)
  case 0
  then show ?case
    by (cases n) (auto simp: delete_loop_step [OF core cap] hit_at_def simp del: htable_delete_loop.simps
      intro!: exI [of _ hash])
next
  case (Suc d)
  note step = hit_at_Suc [OF core Suc.prems(1,3)]
  obtain n' where "n = Suc n'" "d < n'" using Suc.prems(2) by (cases n) auto
  with Suc.IH [OF step(1) _ step(2), of n'] step(3-5) Suc.prems(1) show ?case
    by (simp add: delete_loop_step [OF core cap] del: htable_delete_loop.simps)
qed

lemma set_probe_hit:
  fixes t :: "('k, 'v) htable"
  assumes core: "ht_core ops (index_list t) (entries t) ps"
    and cap: "index_capacity t = length (index_list t)"
  shows "unat hash < length (index_list t) \<Longrightarrow> d < n \<Longrightarrow>
     hit_at (index_list t) (entries t) k (unat hash) d \<Longrightarrow>
     htable_set_probe ops t k n hash tgt =
       Inr (Probe_found (index_list t ! ((unat hash + d) mod length (index_list t)) - 1))"
proof (induction d arbitrary: n hash tgt)
  case 0
  then show ?case
    by (cases n) (auto simp: set_probe_step [OF core cap] hit_at_def Let_def simp del: htable_set_probe.simps)
next
  case (Suc d)
  note step = hit_at_Suc [OF core Suc.prems(1,3)]
  obtain n' where "n = Suc n'" "d < n'" using Suc.prems(2) by (cases n) auto
  with Suc.IH [OF step(1) _ step(2), of n'] step(3-5) Suc.prems(1) show ?case
    by (simp add: set_probe_step [OF core cap] Let_def del: htable_set_probe.simps)
qed

section \<open>Misses\<close>

lemma get_loop_miss:
  fixes t :: "('k, 'v) htable"
  assumes core: "ht_core ops (index_list t) (entries t) ps"
    and cap: "index_capacity t = length (index_list t)"
    and none: "\<forall>p \<in> set ps. key (entries t ! unat p) \<noteq> k"
  shows "unat hash < length (index_list t) \<Longrightarrow> htable_get_loop ops t k n hash = Inr (None, False)"
proof (induction n arbitrary: hash)
  case (Suc n)
  have "unat ((hash + 1) AND ht_mask (length (index_list t))) < length (index_list t)"
    unfolding core_probe_next [OF core Suc.prems] by (rule core_pos_bound [OF core])
  from Suc.IH [OF this] core_no_match [OF core none Suc.prems] show ?case
    by (simp add: get_loop_step [OF core cap Suc.prems] del: htable_get_loop.simps)
qed simp

lemma delete_loop_miss:
  fixes t :: "('k, 'v) htable"
  assumes core: "ht_core ops (index_list t) (entries t) ps"
    and cap: "index_capacity t = length (index_list t)"
    and none: "\<forall>p \<in> set ps. key (entries t ! unat p) \<noteq> k"
  shows "unat hash < length (index_list t) \<Longrightarrow>
    htable_delete_loop ops m t k n hash = Inr (None, False, [], t)"
proof (induction n arbitrary: hash)
  case (Suc n)
  have "unat ((hash + 1) AND ht_mask (length (index_list t))) < length (index_list t)"
    unfolding core_probe_next [OF core Suc.prems] by (rule core_pos_bound [OF core])
  from Suc.IH [OF this] core_no_match [OF core none Suc.prems] show ?case
    by (simp add: delete_loop_step [OF core cap Suc.prems] del: htable_delete_loop.simps)
qed simp

text \<open>
  On a miss the loop returns the first deleted slot it met, else the empty slot that ended it; there
  is always one, since the table never fills up.
\<close>

lemma set_probe_miss:
  fixes t :: "('k, 'v) htable"
  assumes core: "ht_core ops (index_list t) (entries t) ps"
    and cap: "index_capacity t = length (index_list t)"
    and none: "\<forall>p \<in> set ps. key (entries t ! unat p) \<noteq> k"
    and h: "h < length (index_list t)"
  shows "i + n = length (index_list t) \<Longrightarrow> unat hash = (h + i) mod length (index_list t) \<Longrightarrow>
     \<forall>j < i. index_list t ! ((h + j) mod length (index_list t)) \<noteq> HT_EMPTY \<Longrightarrow>
     (if tgt = UINT64_MAX then \<forall>j < i. live (index_list t ! ((h + j) mod length (index_list t)))
      else target_at (index_list t) h i tgt) \<Longrightarrow>
     \<exists>tgt'. htable_set_probe ops t k n hash tgt = Inr (Probe_target tgt') \<and>
       target_at (index_list t) h (length (index_list t)) tgt'"
proof (induction n arbitrary: i hash tgt)
  case 0
  have "tgt \<noteq> UINT64_MAX"
  proof
    assume "tgt = UINT64_MAX"
    with 0 have all: "live (index_list t ! ((h + j) mod length (index_list t)))"
      if "j < length (index_list t)" for j using that by simp
    obtain s where s: "s < length (index_list t)" "\<not> live (index_list t ! s)"
      using core_free_slot [OF core] by blast
    from ring_reaches [OF h s(1)] all s(2) show False by auto
  qed
  with 0 show ?case by auto
next
  case (Suc n)
  let ?il = "index_list t" and ?N = "length (index_list t)"
  let ?x = "?il ! unat hash" and ?next = "(hash + 1) AND ht_mask ?N"
  have hb: "unat hash < ?N" using Suc.prems(2) core_pos_bound [OF core] by simp
  have next_pos: "unat ?next = (h + Suc i) mod ?N"
    unfolding core_probe_next [OF core hb] Suc.prems(2) by (simp add: mod_Suc_eq)
  have x: "?il ! ((h + i) mod ?N) = ?x" using Suc.prems(2) by simp
  have new: "target_at ?il h (Suc i) hash" if "\<not> live ?x"
    using that Suc.prems(2,3) unfolding target_at_def by (intro exI [of _ i]) auto
  have old: "target_at ?il h (Suc i) tgt" if "tgt \<noteq> UINT64_MAX"
    using that Suc.prems(4) target_at_mono [of ?il h i tgt "Suc i"] by simp
  have notmax: "hash \<noteq> UINT64_MAX" by (rule core_pos_not_max [OF core hb])
  have less: "\<forall>j < Suc i. ?il ! ((h + j) mod ?N) \<noteq> HT_EMPTY" if "?x \<noteq> HT_EMPTY"
    using that Suc.prems(3) x by (auto simp: less_Suc_eq)
  have nomatch: "\<not> slot_match (entries t) k ?x" by (rule core_no_match [OF core none hb])
  let ?tgt = "if tgt = UINT64_MAX then hash else tgt"
  show ?case
  proof (cases "?x = HT_EMPTY")
    case True
    have "target_at ?il h ?N ?tgt"
      using new old True Suc.prems(1) by (auto intro: target_at_mono)
    with True show ?thesis
      by (simp add: set_probe_step [OF core cap hb] Let_def del: htable_set_probe.simps)
  next
    case False
    let ?tgt' = "if ?x = HT_DELETED then ?tgt else tgt"
    have "live ?x" if "?x \<noteq> HT_DELETED" using that False by (simp add: live_def)
    then have "if ?tgt' = UINT64_MAX then \<forall>j < Suc i. live (?il ! ((h + j) mod ?N))
        else target_at ?il h (Suc i) ?tgt'"
      using new old notmax Suc.prems(4) x by (auto simp: less_Suc_eq)
    with Suc.prems(1) next_pos less [OF False]
    have "\<exists>tgt'. htable_set_probe ops t k n ?next ?tgt' = Inr (Probe_target tgt') \<and>
        target_at ?il h ?N tgt'"
      by (intro Suc.IH) auto
    with False nomatch show ?thesis
      by (simp add: set_probe_step [OF core cap hb] Let_def del: htable_set_probe.simps)
  qed
qed

end

section \<open>The rehash loop\<close>

lemma rehash_probe_finds:
  assumes core: "ht_core ops il ents ps" and h: "h < length il" and e: "\<exists>s < length il. il ! s = HT_EMPTY"
  shows "i + n = length il \<Longrightarrow> unat hash = (h + i) mod length il \<Longrightarrow>
     \<forall>j < i. il ! ((h + j) mod length il) \<noteq> HT_EMPTY \<Longrightarrow>
     \<exists>w. htable_rehash_probe il (ht_mask (length il)) n hash = Inr w \<and>
       unat w < length il \<and> il ! unat w = HT_EMPTY \<and> probe_path il h (unat w)"
proof (induction n arbitrary: i hash)
  case 0
  obtain s where "s < length il" "il ! s = HT_EMPTY" using e by blast
  with ring_reaches [OF h] 0 show ?case by fastforce
next
  case (Suc n)
  let ?next = "(hash + 1) AND ht_mask (length il)"
  have hb: "unat hash < length il" using Suc.prems(2) core_pos_bound [OF core] by simp
  have next_pos: "unat ?next = (h + Suc i) mod length il"
    unfolding core_probe_next [OF core hb] Suc.prems(2) by (simp add: mod_Suc_eq)
  show ?case
  proof (cases "il ! unat hash = HT_EMPTY")
    case True
    then have "probe_path il h (unat hash)"
      using Suc.prems unfolding probe_path_def by (intro exI [of _ i]) auto
    with True hb show ?thesis by auto
  next
    case False
    with Suc.prems have "\<forall>j < Suc i. il ! ((h + j) mod length il) \<noteq> HT_EMPTY"
      by (auto simp: less_Suc_eq)
    with Suc.prems(1) next_pos have
      "\<exists>w. htable_rehash_probe il (ht_mask (length il)) n ?next = Inr w \<and>
         unat w < length il \<and> il ! unat w = HT_EMPTY \<and> probe_path il h (unat w)"
      by (intro Suc.IH) auto
    with False hb show ?thesis by simp
  qed
qed

end
