(* ===== verification/Htable_Rep.thy ===== *)
theory Htable_Rep
  imports Htable_Probe
begin

text \<open>
  The representation invariant of the whole table, the association list it stands for (the
  iteration order of its key/data pairs), and the operations that do not change it: creation,
  lookup, iteration and release.
\<close>

section \<open>The representation invariant\<close>

text \<open>The entry numbers freed by deletions and not reused yet.\<close>

definition freed :: "('k, 'v) htable \<Rightarrow> u32 list" where
  "freed t = take (deleted_count t) (deleted_index_list t)"

text \<open>Every entry number below \<open>entry_next_insert\<close> is either in use or on the freed stack.\<close>

definition pool_ok :: "('k, 'v) htable \<Rightarrow> u32 list \<Rightarrow> bool" where
  "pool_ok t ps \<longleftrightarrow>
     deleted_capacity t = length (deleted_index_list t) \<and>
     deleted_count t \<le> deleted_capacity t \<and> deleted_capacity t \<le> 2 ^ 33 \<and>
     distinct (ps @ freed t) \<and> set (ps @ freed t) = {p. p < entry_next_insert t}"

text \<open>There is room for one more entry, except that a two-slot table may be full.\<close>

definition room_ok :: "('k, 'v) htable \<Rightarrow> bool" where
  "room_ok t \<longleftrightarrow> unat (entry_next_insert t) \<le> entry_capacity t \<and>
     (index_capacity t = 2 \<or> unat (entry_next_insert t) < entry_capacity t)"

definition list_ok :: "('k, 'v) htable \<Rightarrow> u32 list \<Rightarrow> bool" where
  "list_ok t ps \<longleftrightarrow> links (entries t) UINT32_MAX ps UINT32_MAX \<and>
     head_idx t = first_or ps UINT32_MAX \<and> tail_idx t = last_or ps UINT32_MAX"

definition ht_rep :: "'k ht_key_ops \<Rightarrow> ('k, 'v) htable \<Rightarrow> u32 list \<Rightarrow> bool" where
  "ht_rep ops t ps \<longleftrightarrow>
     ht_core ops (index_list t) (entries t) ps \<and>
     index_capacity t = length (index_list t) \<and> entry_capacity t = length (entries t) \<and>
     list_ok t ps \<and> ht_count t = length ps \<and> pool_ok t ps \<and> room_ok t"

definition ht_inv :: "'k ht_key_ops \<Rightarrow> ('k, 'v) htable \<Rightarrow> bool" where
  "ht_inv ops t \<longleftrightarrow> (\<exists>ps. ht_rep ops t ps)"

section \<open>The association list of a table\<close>

definition entry_pair :: "('k, 'v) ht_entry \<Rightarrow> 'k \<times> 'v option" where
  "entry_pair e = (key e, data e)"

definition pairs_of :: "('k, 'v) ht_entry list \<Rightarrow> u32 list \<Rightarrow> ('k \<times> 'v option) list" where
  "pairs_of ents ps = map (\<lambda>p. entry_pair (ents ! unat p)) ps"

text \<open>What \<open>ht_foreach_template\<close> meets.\<close>

definition ht_alist :: "('k, 'v) htable \<Rightarrow> ('k \<times> 'v option) list" where
  "ht_alist t = (case ht_foreach (Suc (ht_count t)) t of
     Inr (Some es) \<Rightarrow> map entry_pair es | _ \<Rightarrow> [])"

lemma rep_foreach:
  assumes "ht_rep ops t ps" "ht_count t < fuel"
  shows "ht_foreach fuel t = Inr (Some (map (\<lambda>p. entries t ! unat p) ps))"
  using assms foreach_from_links [of t UINT32_MAX ps fuel]
  by (simp add: ht_foreach_def ht_rep_def list_ok_def)

lemma rep_alist: "ht_rep ops t ps \<Longrightarrow> ht_alist t = pairs_of (entries t) ps"
  by (simp add: ht_alist_def rep_foreach pairs_of_def comp_def)

lemma rep_core: "ht_rep ops t ps \<Longrightarrow> ht_core ops (index_list t) (entries t) ps"
  by (simp add: ht_rep_def)

lemma rep_caps:
  "ht_rep ops t ps \<Longrightarrow> index_capacity t = length (index_list t)"
  "ht_rep ops t ps \<Longrightarrow> entry_capacity t = length (entries t)"
  by (simp_all add: ht_rep_def)

lemma rep_count:
  assumes "ht_rep ops t ps"
  shows "ht_count t = length ps" "ht_count t \<le> entry_capacity t" "ht_count t < 2 ^ 32"
  using assms core_count [OF rep_core [OF assms]] core_ents_bound(1) [OF rep_core [OF assms]]
  by (simp_all add: ht_rep_def)

lemma pairs_of_same_payload:
  assumes "same_payload ents' ents" "\<forall>p \<in> set ps. unat p < length ents"
  shows "pairs_of ents' ps = pairs_of ents ps"
  using assms same_payload_nth [OF assms(1)] by (auto simp: pairs_of_def entry_pair_def)

lemma fst_pairs_of: "map fst (pairs_of ents ps) = map (\<lambda>p. key (ents ! unat p)) ps"
  by (simp add: pairs_of_def entry_pair_def comp_def)

lemma core_pairs_distinct: "ht_core ops il ents ps \<Longrightarrow> distinct (map fst (pairs_of ents ps))"
  unfolding fst_pairs_of by (rule core_distinct(2))

lemma rep_alist_distinct: "ht_rep ops t ps \<Longrightarrow> distinct (map fst (ht_alist t))"
  by (simp add: rep_alist core_pairs_distinct [OF rep_core])

lemma map_of_pairs_hit:
  assumes "ht_core ops il ents ps" "p \<in> set ps"
  shows "map_of (pairs_of ents ps) (key (ents ! unat p)) = Some (data (ents ! unat p))"
proof (rule map_of_is_SomeI)
  show "distinct (map fst (pairs_of ents ps))" by (rule core_pairs_distinct [OF assms(1)])
  show "(key (ents ! unat p), data (ents ! unat p)) \<in> set (pairs_of ents ps)"
    using assms(2) by (auto simp: pairs_of_def entry_pair_def)
qed

lemma map_of_pairs_miss:
  "map_of (pairs_of ents ps) k = None \<longleftrightarrow> (\<forall>p \<in> set ps. key (ents ! unat p) \<noteq> k)"
  by (auto simp: map_of_eq_None_iff pairs_of_def entry_pair_def image_image)

section \<open>Creation\<close>

lemma round_ceil2_cap:
  assumes "2 \<le> cap" "unat cap \<le> 2 ^ 32"
  obtains b where "util_round_ceil2_ull cap = Inr (2 ^ b)" "1 \<le> b" "b \<le> 32" "unat ((2::u64) ^ b) = 2 ^ b"
proof (cases "cap = 2")
  case True
  then show ?thesis using that [of 1] by (simp add: util_round_ceil2_ull_def)
next
  case False
  with assms(1) have gt: "2 < cap" by simp
  have "unat cap \<le> 2 ^ 63" using assms(2) by simp
  with gt obtain k where k: "util_round_ceil2_ull cap = Inr (2 ^ k)" "k < 64" "1 < k"
    "2 ^ (k - 1) < unat cap" by (rule round_ceil2_least)
  have "k \<le> 32"
  proof (rule ccontr)
    assume "\<not> k \<le> 32"
    then have "(2::nat) ^ 32 \<le> 2 ^ (k - 1)" by (intro power_increasing) auto
    with k(4) assms(2) show False by linarith
  qed
  moreover have "unat ((2::u64) ^ k) = 2 ^ k" using k(2) by (rule unat_word64_power)
  ultimately show ?thesis using that [of k] k by simp
qed

lemma htable_create_correct:
  fixes m :: "('k, 'v) ht_mem"
  assumes "2 \<le> initial_cap" "unat initial_cap \<le> 2 ^ 32"
  shows "htable_create m initial_cap = Inr None \<or>
    (\<exists>t. htable_create m initial_cap = Inr (Some t) \<and> ht_rep ops t [])"
proof -
  obtain b where b: "util_round_ceil2_ull initial_cap = Inr (2 ^ b)" "1 \<le> b" "b \<le> 32"
    "unat ((2::u64) ^ b) = 2 ^ b"
    using assms by (rule round_ceil2_cap)
  let ?N = "(2::nat) ^ b"
  have N: "2 \<le> ?N" "?N \<le> 2 ^ 32"
    using power_increasing [OF b(2), of "2::nat"] power_increasing [OF b(3), of "2::nat"] by simp_all
  then have N': "?N \<le> 4294967296" by simp
  have s: "sz (?N * 3) = ?N * 3" "sz ((?N * 3 div 4) * SIZEOF_HT_ENTRY) = (?N * 3 div 4) * SIZEOF_HT_ENTRY"
    using N' by (auto simp: SIZEOF_HT_ENTRY_def intro!: sz_id)
  let ?t = "\<lparr>entries = malloc_entries m ((?N * 3 div 4) * SIZEOF_HT_ENTRY),
            index_list = replicate ?N HT_EMPTY, deleted_index_list = [], ht_count = 0,
            entry_next_insert = 0, head_idx = UINT32_MAX, tail_idx = UINT32_MAX,
            index_capacity = ?N, entry_capacity = ?N * 3 div 4, deleted_count = 0,
            deleted_capacity = 0\<rparr>"
  have "htable_create m initial_cap = Inr None \<or> htable_create m initial_cap = Inr (Some ?t)"
    using assms(1) by (auto simp: htable_create_def b Let_def s)
  moreover have "ht_rep ops ?t []"
  proof -
    have len: "length (malloc_entries m ((?N * 3 div 4) * SIZEOF_HT_ENTRY)) = ?N * 3 div 4"
      by (simp add: malloc_entries_def SIZEOF_HT_ENTRY_def)
    have "ht_core ops (replicate ?N HT_EMPTY) (malloc_entries m ((?N * 3 div 4) * SIZEOF_HT_ENTRY)) []"
      by (rule ht_core_empty [of _ b]) (use b len in auto)
    then show ?thesis
      using N len by (auto simp: ht_rep_def list_ok_def pool_ok_def room_ok_def freed_def)
  qed
  ultimately show ?thesis by blast
qed

section \<open>Lookup\<close>

lemma core_home: "ht_core ops il ents ps \<Longrightarrow>
    unat (HT_KEY_HASH_CB ops k AND ht_mask (length il)) = home ops il k"
  by (simp add: core_probe_start home_def)

lemma core_home_bound: "ht_core ops il ents ps \<Longrightarrow> home ops il k < length il"
  unfolding home_def by (rule core_pos_bound)

context ht_key begin

lemma htable_get_with_flag_correct:
  fixes t :: "('k, 'v) htable"
  assumes rep: "ht_rep ops t ps"
  shows "htable_get_with_flag ops t k =
    Inr (case map_of (ht_alist t) k of None \<Rightarrow> (None, False) | Some d \<Rightarrow> (d, True))"
proof -
  note core = rep_core [OF rep] and cap = rep_caps(1) [OF rep]
  let ?h = "HT_KEY_HASH_CB ops k AND ht_mask (length (index_list t))"
  have h: "unat ?h = home ops (index_list t) k" "unat ?h < length (index_list t)"
    using core_home [OF core] core_home_bound [OF core] by simp_all
  show ?thesis
  proof (cases "\<exists>p \<in> set ps. key (entries t ! unat p) = k")
    case True
    then obtain p where p: "p \<in> set ps" "key (entries t ! unat p) = k" by blast
    obtain d where d: "d < length (index_list t)"
      "hit_at (index_list t) (entries t) k (home ops (index_list t) k) d"
      "index_list t ! ((home ops (index_list t) k + d) mod length (index_list t)) - 1 = p"
      using core p by (rule core_first_match)
    have "htable_get_loop ops t k (length (index_list t)) ?h = Inr (data (entries t ! unat p), True)"
      using get_loop_hit [OF core cap h(2) d(1)] d(2,3) h(1) by simp
    then show ?thesis
      using map_of_pairs_hit [OF core p(1)] p(2)
      by (simp add: htable_get_with_flag_def cap rep_alist [OF rep])
  next
    case False
    then have none: "\<forall>p \<in> set ps. key (entries t ! unat p) \<noteq> k" by blast
    then show ?thesis
      using get_loop_miss [OF core cap none h(2)] map_of_pairs_miss [of "entries t" ps k]
      by (simp add: htable_get_with_flag_def cap rep_alist [OF rep])
  qed
qed

end

section \<open>Release\<close>

lemma htable_free_with_cleanup_correct:
  assumes "ht_rep ops t ps" "ht_count t < fuel"
  shows "htable_free_with_cleanup ops fuel t cb = Inr (Some (
    concat (map (\<lambda>(k, d). map Key_released (HT_KEY_FREE_CB ops k) @
                          (if cb then [Data_released d] else [])) (ht_alist t)) @
    [Deleted_list_released, Index_list_released, Entries_released, Table_released]))"
  by (simp add: htable_free_with_cleanup_def rep_foreach [OF assms] rep_alist [OF assms(1)]
      pairs_of_def entry_pair_def htable_release_entry_def comp_def)

end
