(* ===== verification/Htable_Grow.thy ===== *)
theory Htable_Grow
  imports Htable_Rep
begin

text \<open>
  Growth: \<open>htable_rehash\<close> moves every live entry, in the order of the old index, into fresh arrays of
  twice the size, renumbering the entries from 0. It never fails, never leaves its arrays, and the
  new table holds the same pairs.
\<close>

section \<open>The loop invariant\<close>

text \<open>The entry numbers \<open>0, \<dots>, n - 1\<close>.\<close>

definition numbers :: "nat \<Rightarrow> u32 list" where
  "numbers n = map word_of_nat [0 ..< n]"

definition moved :: "('k, 'v) htable \<Rightarrow> nat \<Rightarrow> u32 list" where
  "moved t i = live_idxs (take i (index_list t))"

definition rehash_inv :: "'k ht_key_ops \<Rightarrow> ('k, 'v) htable \<Rightarrow> nat \<Rightarrow> ('k, 'v) ht_rehash \<Rightarrow> bool" where
  "rehash_inv ops t i r \<longleftrightarrow>
     ht_core ops (new_index_list r) (new_entries r) (numbers (length (moved t i))) \<and>
     links (new_entries r) UINT32_MAX (numbers (length (moved t i))) UINT32_MAX \<and>
     new_head_idx r = first_or (numbers (length (moved t i))) UINT32_MAX \<and>
     new_tail_idx r = last_or (numbers (length (moved t i))) UINT32_MAX \<and>
     new_idx_counter r = word_of_nat (length (moved t i)) \<and>
     HT_DELETED \<notin> set (new_index_list r) \<and>
     (\<forall>j < length (moved t i). payload (new_entries r ! j) = payload (entries t ! unat (moved t i ! j)))"

lemma numbers_simps [simp]: "numbers 0 = []" "numbers (Suc n) = numbers n @ [word_of_nat n]"
  "length (numbers n) = n"
  by (simp_all add: numbers_def)

lemma numbers_mem: "n \<le> 2 ^ 32 \<Longrightarrow> p \<in> set (numbers n) \<longleftrightarrow> unat p < n"
proof
  assume n: "n \<le> 2 ^ 32"
  { assume "p \<in> set (numbers n)"
    then obtain j where "j < n" "p = word_of_nat j" by (auto simp: numbers_def)
    with n show "unat p < n" by (simp add: unat_word32_of_nat) }
  { assume "unat p < n"
    then show "p \<in> set (numbers n)"
      by (auto simp: numbers_def intro!: image_eqI [of _ _ "unat p"]) }
qed

lemma numbers_distinct: "n \<le> 2 ^ 32 \<Longrightarrow> distinct (numbers n)"
  by (induction n) (auto simp: numbers_mem unat_word32_of_nat)

lemma payload_eq: "payload e = payload e' \<Longrightarrow> key e = key e' \<and> cached_hash e = cached_hash e'
    \<and> entry_pair e = entry_pair e'"
  by (simp add: payload_def entry_pair_def)

text \<open>The entries moved so far are pairwise different, and differ from the next one.\<close>

lemma moved_facts:
  assumes core: "ht_core ops (index_list t) (entries t) ps"
    and i: "i < length (index_list t)" "live (index_list t ! i)"
  shows "index_list t ! i - 1 \<notin> set (moved t i)" "set (moved t i) \<subseteq> set ps"
    "length (moved t i) < length ps"
proof -
  let ?p = "index_list t ! i - 1"
  have split: "live_idxs (index_list t) = moved t i @ ?p # live_idxs (drop (Suc i) (index_list t))"
    using live_idxs_split [OF i(1)] i(2) by (simp add: moved_def)
  have d: "distinct (live_idxs (index_list t))"
    using core_mset [OF core] core_distinct(1) [OF core] by (metis mset_eq_imp_distinct_iff)
  with split show "?p \<notin> set (moved t i)" by simp
  show "set (moved t i) \<subseteq> set ps" using split core_set [OF core] by (metis Un_upper1 set_append)
  show "length (moved t i) < length ps"
    using split mset_eq_length [OF core_mset [OF core]] by simp
qed

lemma rehash_probe_from_home:
  assumes core: "ht_core ops il ents ps" and e: "\<exists>s < length il. il ! s = HT_EMPTY"
  shows "\<exists>v. htable_rehash_probe il (ht_mask (length il)) (length il)
      (HT_KEY_HASH_CB ops k AND ht_mask (length il)) = Inr v \<and>
    unat v < length il \<and> il ! unat v = HT_EMPTY \<and> probe_path il (home ops il k) (unat v)"
  using rehash_probe_finds [OF core core_home_bound [OF core, of k] e, of 0 "length il"
      "HT_KEY_HASH_CB ops k AND ht_mask (length il)"] core_home [OF core, of k]
    core_home_bound [OF core, of k]
  by simp

section \<open>One step\<close>

lemma rehash_step_skips:
  assumes i: "i < length (index_list t)" "\<not> live (index_list t ! i)" and inv: "rehash_inv ops t i r"
  shows "htable_rehash_step t nic nec i r = Inr (Some r)" "rehash_inv ops t (Suc i) r"
proof -
  have "moved t (Suc i) = moved t i" using i by (simp add: moved_def live_idxs_take_Suc)
  with inv show "rehash_inv ops t (Suc i) r" by (simp add: rehash_inv_def)
  show "htable_rehash_step t nic nec i r = Inr (Some r)" using i by (auto simp: htable_rehash_step_def live_def)
qed

lemma moved_keys_differ:
  assumes core: "ht_core ops (index_list t) (entries t) ps" and i: "i < length (index_list t)" "live (index_list t ! i)"
    and inv: "rehash_inv ops t i r" and n: "length (moved t i) \<le> 2 ^ 32" and q: "q \<in> set (numbers (length (moved t i)))"
  shows "key (new_entries r ! unat q) \<noteq> key (entries t ! unat (index_list t ! i - 1))"
proof -
  let ?p = "index_list t ! i - 1"
  note mf = moved_facts [OF core i]
  have q: "unat q < length (moved t i)" using n q by (simp add: numbers_mem)
  then have mem: "moved t i ! unat q \<in> set (moved t i)" by simp
  then have "moved t i ! unat q \<in> set ps" using mf(2) by blast
  moreover have "moved t i ! unat q \<noteq> ?p" using mem mf(1) by metis
  ultimately have "key (entries t ! unat (moved t i ! unat q)) \<noteq> key (entries t ! unat ?p)"
    using core_key_inj [OF core _ core_slot(1) [OF core i]] by blast
  moreover have "payload (new_entries r ! unat q) = payload (entries t ! unat (moved t i ! unat q))"
    using inv q by (simp add: rehash_inv_def)
  ultimately show ?thesis using payload_eq by metis
qed

text \<open>The entry is linked behind the entries moved before, and its number put into an empty slot.\<close>

lemma rehash_link:
  assumes R: "ht_core ops il ents (numbers n)" "links ents UINT32_MAX (numbers n) UINT32_MAX"
    and n: "n < length ents" "n < 3 * 2 ^ 30"
  obtains ents' where "htable_link_tail (ents[n := e]) (first_or (numbers n) UINT32_MAX) (last_or (numbers n) UINT32_MAX) (word_of_nat n) =
      Inr (ents', first_or (numbers n @ [word_of_nat n]) UINT32_MAX, word_of_nat n)"
    "links ents' UINT32_MAX (numbers n @ [word_of_nat n]) UINT32_MAX" "same_payload ents' (ents[n := e])"
proof -
  have w: "unat (word_of_nat n :: u32) = n" using n(2) by (simp add: unat_word32_of_nat)
  have fresh: "word_of_nat n \<notin> set (numbers n)" using n(2) w by (simp add: numbers_mem)
  have max: "(word_of_nat n :: u32) \<noteq> UINT32_MAX" using w n(2) by (intro word32_below_max) simp
  have l: "links (ents[n := e]) UINT32_MAX (numbers n) UINT32_MAX"
    using R(2) n(2) by (subst links_frame_nat) (auto simp: numbers_mem)
  show thesis
    using that link_tail_correct [OF l core_distinct(1) [OF R(1)] fresh] w n(1) max by auto
qed

lemma rehash_slot:
  assumes core: "ht_core ops il ents ps" and clean: "HT_DELETED \<notin> set il" and h: "h = HT_KEY_HASH_CB ops k"
  obtains v where "htable_rehash_probe il (ht_mask (length il)) (length il) (h AND ht_mask (length il)) = Inr v"
    "unat v < length il" "il ! unat v = HT_EMPTY" "probe_path il (home ops il k) (unat v)" "v \<noteq> UINT64_MAX"
proof -
  have "\<exists>s < length il. il ! s = HT_EMPTY" using core_free_slot [OF core] clean by (metis live_def nth_mem)
  then obtain v where v: "htable_rehash_probe il (ht_mask (length il)) (length il) (h AND ht_mask (length il)) = Inr v"
    "unat v < length il" "il ! unat v = HT_EMPTY" "probe_path il (home ops il k) (unat v)"
    using rehash_probe_from_home [OF core, of k] h by auto
  show thesis by (rule that [OF v core_pos_not_max [OF core v(2)]])
qed

lemma rehash_step_correct:
  fixes t :: "('k, 'v) htable"
  assumes core: "ht_core ops (index_list t) (entries t) ps" and i: "i < length (index_list t)"
    and inv: "rehash_inv ops t i r" and room: "length ps \<le> length (new_entries r)"
  obtains r' where
    "htable_rehash_step t (length (new_index_list r)) (length (new_entries r)) i r = Inr (Some r')"
    "rehash_inv ops t (Suc i) r'" "length (new_index_list r') = length (new_index_list r)"
    "length (new_entries r') = length (new_entries r)"
proof (cases "live (index_list t ! i)")
  case False
  then show ?thesis using that rehash_step_skips [OF i False inv] by blast
next
  case True
  let ?p = "index_list t ! i - 1" and ?n = "length (moved t i)"
  let ?w = "word_of_nat ?n :: u32" and ?e = "entries t ! unat ?p"
  let ?il = "new_index_list r" and ?ents = "new_entries r"
  have R: "ht_core ops ?il ?ents (numbers ?n)" "links ?ents UINT32_MAX (numbers ?n) UINT32_MAX"
    "new_head_idx r = first_or (numbers ?n) UINT32_MAX" "new_tail_idx r = last_or (numbers ?n) UINT32_MAX"
    "new_idx_counter r = ?w" "HT_DELETED \<notin> set ?il"
    "\<And>j. j < ?n \<Longrightarrow> payload (?ents ! j) = payload (entries t ! unat (moved t i ! j))"
    using inv by (simp_all add: rehash_inv_def)
  have nb: "?n < length ?ents" "?n \<le> 2 ^ 32" "?n < 3 * 2 ^ 30"
    using moved_facts(3) [OF core i True] room core_ents_bound(1) [OF R(1)] by simp_all
  then have w: "unat ?w = ?n" by (simp add: unat_word32_of_nat)
  note pslot = core_slot [OF core i True]
  have hash: "cached_hash ?e = HT_KEY_HASH_CB ops (key ?e)" by (rule core_entry(2) [OF core pslot(1)])
  obtain ents where ents: "htable_link_tail (?ents[?n := ?e]) (new_head_idx r) (new_tail_idx r) ?w =
      Inr (ents, first_or (numbers ?n @ [?w]) UINT32_MAX, ?w)"
    "links ents UINT32_MAX (numbers ?n @ [?w]) UINT32_MAX" "same_payload ents (?ents[?n := ?e])"
    unfolding R(3,4) by (rule rehash_link [OF R(1,2) nb(1,3)])
  obtain v where v: "htable_rehash_probe ?il (ht_mask (length ?il)) (length ?il)
      (cached_hash ?e AND ht_mask (length ?il)) = Inr v"
    "unat v < length ?il" "?il ! unat v = HT_EMPTY" "probe_path ?il (home ops ?il (key ?e)) (unat v)" "v \<noteq> UINT64_MAX"
    by (rule rehash_slot [OF R(1,6) hash])
  let ?r = "\<lparr>new_index_list = ?il[unat v := ?w + 1], new_entries = ents, new_idx_counter = ?w + 1,
             new_head_idx = first_or (numbers ?n @ [?w]) UINT32_MAX, new_tail_idx = ?w\<rparr>"
  have run: "htable_rehash_step t (length ?il) (length ?ents) i r = Inr (Some ?r)"
    using True i nb(1) w pslot(2) ents(1) v(1,2,5) R(5)
    by (simp add: htable_rehash_step_def live_def Let_def)
  have moved: "moved t (Suc i) = moved t i @ [?p]"
    using i True by (simp add: moved_def live_idxs_take_Suc)
  have "ht_core ops (?il[unat v := ?w + 1]) ents (numbers ?n @ [?w])"
    by (rule ht_core_insert [OF R(1) v(2), where k = "key ?e" and e = ?e])
      (use v w nb moved_keys_differ [OF core i True inv nb(2)] ents(3) hash in \<open>simp_all add: numbers_mem\<close>)
  moreover have "HT_DELETED \<notin> set (?il[unat v := ?w + 1])"
    using R(6) live_plus_1 [of ?w] w nb(3) set_update_subset_insert [of ?il "unat v" "?w + 1"]
    by (auto simp: live_def)
  moreover have "payload (ents ! j) = payload (entries t ! unat ((moved t i @ [?p]) ! j))" if "j < Suc ?n" for j
    using same_payload_nth [OF ents(3), of j] that R(7) nb(1)
    by (auto simp: payload_def nth_append nth_update_if less_Suc_eq)
  ultimately have "rehash_inv ops t (Suc i) ?r"
    using ents(2) by (simp add: rehash_inv_def moved)
  moreover have "length ents = length ?ents" using same_payload_length [OF ents(3)] by simp
  ultimately show ?thesis using that [OF run] by simp
qed

section \<open>The loop\<close>

lemma rehash_loop_correct:
  fixes t :: "('k, 'v) htable"
  assumes core: "ht_core ops (index_list t) (entries t) ps"
  shows "i + n = length (index_list t) \<Longrightarrow> rehash_inv ops t i r \<Longrightarrow>
    length (new_index_list r) = nic \<Longrightarrow> length (new_entries r) = nec \<Longrightarrow> length ps \<le> nec \<Longrightarrow>
    \<exists>r'. htable_rehash_loop t nic nec n i r = Inr (Some r') \<and>
      rehash_inv ops t (length (index_list t)) r' \<and>
      length (new_index_list r') = nic \<and> length (new_entries r') = nec"
proof (induction n arbitrary: i r)
  case 0
  then show ?case by simp
next
  case (Suc n)
  then have i: "i < length (index_list t)" by simp
  have room: "length ps \<le> length (new_entries r)" using Suc.prems by simp
  obtain r' where "htable_rehash_step t nic nec i r = Inr (Some r')"
    "rehash_inv ops t (Suc i) r'" "length (new_index_list r') = nic" "length (new_entries r') = nec"
    using rehash_step_correct [OF core i Suc.prems(2) room] Suc.prems(3,4) by metis
  with Suc.IH [of "Suc i" r'] Suc.prems show ?case by simp
qed

section \<open>Growth of a table\<close>

text \<open>What growth does to a table: the same pairs in the order of the old index, twice the slots.\<close>

definition grown :: "('k, 'v) htable \<Rightarrow> ('k, 'v) htable \<Rightarrow> bool" where
  "grown t t' \<longleftrightarrow> ht_alist t' = pairs_of (entries t) (live_idxs (index_list t)) \<and>
     mset (ht_alist t') = mset (ht_alist t) \<and>
     ht_count t' = ht_count t \<and> index_capacity t' = 2 * index_capacity t \<and>
     deleted_count t' = 0 \<and> unat (entry_next_insert t') = ht_count t"

lemma grow_empty_inv:
  assumes "length il = 2 ^ b" "1 \<le> b" "b \<le> 32" "length ents = length il * 3 div 4"
    "il = replicate n HT_EMPTY"
  shows "rehash_inv ops t 0 \<lparr>new_index_list = il, new_entries = ents, new_idx_counter = 0,
    new_head_idx = UINT32_MAX, new_tail_idx = UINT32_MAX\<rparr>"
proof -
  have "ht_core ops il ents []"
    by (rule ht_core_empty [of _ b]) (use assms in auto)
  then show ?thesis
    using assms(5) by (auto simp: rehash_inv_def moved_def live_idxs_def)
qed

lemma rehash_inv_final:
  assumes rep: "ht_rep ops t ps" and inv: "rehash_inv ops t (length (index_list t)) r"
  shows "pairs_of (new_entries r) (numbers (length ps)) = pairs_of (entries t) (live_idxs (index_list t))"
    "length (moved t (length (index_list t))) = length ps"
proof -
  let ?L = "live_idxs (index_list t)"
  have moved: "moved t (length (index_list t)) = ?L" by (simp add: moved_def)
  show len: "length (moved t (length (index_list t))) = length ps"
    using mset_eq_length [OF core_mset [OF rep_core [OF rep]]] moved by simp
  have n: "length ps \<le> 2 ^ 32"
    using rep_count(3) [OF rep] rep_count(1) [OF rep] by simp
  show "pairs_of (new_entries r) (numbers (length ps)) = pairs_of (entries t) ?L"
  proof (rule nth_equalityI)
    show "length (pairs_of (new_entries r) (numbers (length ps))) = length (pairs_of (entries t) ?L)"
      using len moved by (simp add: pairs_of_def)
    fix j assume "j < length (pairs_of (new_entries r) (numbers (length ps)))"
    then have j: "j < length ps" by (simp add: pairs_of_def)
    have "payload (new_entries r ! j) = payload (entries t ! unat (?L ! j))"
      using inv j len moved by (simp add: rehash_inv_def)
    moreover have "unat (numbers (length ps) ! j) = j"
      using j n by (simp add: numbers_def unat_word32_of_nat)
    ultimately show "pairs_of (new_entries r) (numbers (length ps)) ! j = pairs_of (entries t) ?L ! j"
      using j len moved payload_eq [of "new_entries r ! j"] by (simp add: pairs_of_def)
  qed
qed

lemma pairs_of_mset: "mset ps = mset qs \<Longrightarrow> mset (pairs_of ents ps) = mset (pairs_of ents qs)"
  by (simp add: pairs_of_def)

lemma htable_grow_correct:
  fixes t :: "('k, 'v) htable"
  assumes rep: "ht_rep ops t ps" and cap: "index_capacity t \<le> 2 ^ 31"
  shows "(htable_grow m t = Inr (False, t) \<and> \<not> ((\<forall>n s. calloc_ok m n s) \<and> (\<forall>n. malloc_ok m n))) \<or>
    (\<exists>t' ps'. htable_grow m t = Inr (True, t') \<and> ht_rep ops t' ps' \<and> grown t t')"
proof -
  note core = rep_core [OF rep]
  obtain b where b: "1 \<le> b" "b \<le> 32" "length (index_list t) = 2 ^ b" using core by (rule core_pow2)
  let ?N = "length (index_list t)"
  have b31: "b \<le> 31"
  proof (rule ccontr)
    assume "\<not> b \<le> 31"
    then have "(2::nat) ^ 32 \<le> 2 ^ b" by (intro power_increasing) auto
    with b(3) cap rep_caps(1) [OF rep] show False by simp
  qed
  have N: "?N \<le> 2147483648" "2 \<le> ?N"
    using cap rep_caps(1) [OF rep] core_size(1) [OF core] by simp_all
  define nic where "nic = 2 * ?N"
  define nec where "nec = nic * 3 div 4"
  have nN: "nic \<le> 4294967296" "nec \<le> 3221225472"
    using N(1) by (simp_all add: nic_def nec_def)
  have s: "sz (?N * 2) = nic" "sz (nic * 3) = nic * 3"
    "sz (nec * SIZEOF_HT_ENTRY) = nec * SIZEOF_HT_ENTRY"
    using nN by (simp_all add: nic_def SIZEOF_HT_ENTRY_def mult.commute)
  let ?ents = "malloc_entries m (nec * SIZEOF_HT_ENTRY)"
  let ?r0 = "\<lparr>new_index_list = replicate nic HT_EMPTY, new_entries = ?ents, new_idx_counter = 0,
    new_head_idx = UINT32_MAX, new_tail_idx = UINT32_MAX\<rparr>"
  have len: "length ?ents = nec" by (simp add: malloc_entries_def SIZEOF_HT_ENTRY_def)
  have inv0: "rehash_inv ops t 0 ?r0"
    by (rule grow_empty_inv [of _ "Suc b" _ nic]) (use b b31 len in \<open>simp_all add: nic_def nec_def\<close>)
  have cnt: "length ps \<le> length (entries t)" by (rule core_count [OF core])
  have E: "length (entries t) < nec"
    using core_size(3) [OF core] N(2) by (simp add: nec_def nic_def)
  have room: "length ps \<le> nec" using cnt E by simp
  obtain r where r: "htable_rehash_loop t nic nec ?N 0 ?r0 = Inr (Some r)"
    "rehash_inv ops t ?N r" "length (new_index_list r) = nic" "length (new_entries r) = nec"
    using rehash_loop_correct [OF core, of 0 ?N ?r0 nic nec] inv0 len room by auto
  note final = rehash_inv_final [OF rep r(2)]
  let ?t' = "t\<lparr>entry_next_insert := new_idx_counter r, deleted_count := 0,
    head_idx := new_head_idx r, tail_idx := new_tail_idx r, index_list := new_index_list r,
    index_capacity := nic, entries := new_entries r, entry_capacity := nec\<rparr>"
  have run: "(htable_grow m t = Inr (False, t) \<and> \<not> ((\<forall>n s. calloc_ok m n s) \<and> (\<forall>n. malloc_ok m n))) \<or>
      htable_grow m t = Inr (True, ?t')"
    using r(1) by (auto simp: htable_grow_def htable_rehash_def Let_def s rep_caps [OF rep] nec_def [symmetric])
  have nle: "length ps \<le> 2 ^ 32" using rep_count(1,3) [OF rep] by simp
  have next': "unat (new_idx_counter r) = length ps"
    using r(2) final(2) rep_count(1,3) [OF rep] by (simp add: rehash_inv_def unat_word32_of_nat)
  have "ht_rep ops ?t' (numbers (length ps))"
  proof -
    have "pool_ok ?t' (numbers (length ps))"
      using rep nle next' by (auto simp: pool_ok_def freed_def ht_rep_def numbers_distinct numbers_mem
          word_less_nat_alt)
    moreover have "room_ok ?t'" using next' cnt E by (simp add: room_ok_def)
    ultimately show ?thesis
      using r final rep by (simp add: ht_rep_def list_ok_def rehash_inv_def)
  qed
  moreover have "grown t ?t'"
    using final(1) next' rep_count(1) [OF rep] rep_caps(1) [OF rep] rep_alist [OF rep]
      rep_alist [OF calculation] pairs_of_mset [OF core_mset [OF core], of "entries t"]
    by (simp add: grown_def nic_def)
  ultimately show ?thesis using run by blast
qed

end
