(* ===== verification/Htable_Set.thy ===== *)
theory Htable_Set
  imports Htable_Grow
begin

text \<open>
  Insertion and update: \<open>htable_set_with_flag\<close> either updates the data of a present key in place or
  appends the new pair at the end of the iteration order, after growing when the table is too full.
\<close>

section \<open>Association lists\<close>

lemma update_present:
  assumes "distinct (map fst (pairs_of ents ps))" "p \<in> set ps" "k = key (ents ! unat p)"
  shows "AList.update k v (pairs_of ents ps) =
    map (\<lambda>q. if q = p then (k, v) else entry_pair (ents ! unat q)) ps"
  using assms
proof (induction ps)
  case (Cons q qs)
  show ?case
  proof (cases "q = p")
    case True
    with Cons.prems have "p \<notin> set qs" by (auto simp: pairs_of_def)
    then have "map (\<lambda>q. if q = p then (k, v) else entry_pair (ents ! unat q)) qs = pairs_of ents qs"
      by (auto simp: pairs_of_def)
    with True Cons.prems show ?thesis by (simp add: pairs_of_def entry_pair_def)
  next
    case False
    with Cons.prems have "key (ents ! unat q) \<noteq> k"
      by (force simp: pairs_of_def entry_pair_def)
    with False Cons show ?thesis by (simp add: pairs_of_def entry_pair_def)
  qed
qed simp

lemma update_absent: "k \<notin> fst ` set xs \<Longrightarrow> AList.update k v xs = xs @ [(k, v)]"
  by (induction xs) auto

lemma map_of_mset:
  assumes "distinct (map fst xs)" "mset xs = mset ys"
  shows "map_of xs = map_of ys"
proof
  fix k
  have d: "distinct (map fst ys)"
    using assms by (metis mset_eq_imp_distinct_iff mset_map)
  have s: "set xs = set ys" using assms(2) by (rule mset_eq_setD)
  show "map_of xs k = map_of ys k"
    using map_of_eq_Some_iff [OF assms(1)] map_of_eq_Some_iff [OF d] s
    by (cases "map_of xs k"; cases "map_of ys k") metis+
qed

section \<open>Making room\<close>

text \<open>The condition under which the code grows the table before inserting.\<close>

definition needs_room :: "('k, 'v) htable \<Rightarrow> bool" where
  "needs_room t \<longleftrightarrow> unat (entry_next_insert t) \<ge> entry_capacity t
     \<or> (ht_count t + 1) * 4 \<ge> index_capacity t * 3"

lemma rep_pool:
  assumes "ht_rep ops t ps"
  shows "pool_ok t ps" "ht_count t + deleted_count t = unat (entry_next_insert t)"
proof -
  show pool: "pool_ok t ps" using assms by (simp add: ht_rep_def)
  have "card (set (ps @ freed t)) = length ps + length (freed t)"
    using pool distinct_card [of "ps @ freed t"] by (simp add: pool_ok_def)
  moreover have "length (freed t) = deleted_count t"
    using pool by (simp add: pool_ok_def freed_def)
  moreover have "card {p. p < entry_next_insert t} = unat (entry_next_insert t)"
  proof -
    have "{p. p < entry_next_insert t} = set (numbers (unat (entry_next_insert t)))"
    proof -
      have "unat (entry_next_insert t) \<le> 2 ^ 32"
        using assms core_ents_bound(1) [OF rep_core [OF assms]]
        by (simp add: ht_rep_def room_ok_def)
      then show ?thesis by (auto simp: numbers_mem word_less_nat_alt)
    qed
    moreover have "distinct (numbers (unat (entry_next_insert t)))"
      using assms core_ents_bound(1) [OF rep_core [OF assms]]
      by (intro numbers_distinct) (simp add: ht_rep_def room_ok_def)
    ultimately show ?thesis by (simp add: distinct_card)
  qed
  ultimately show "ht_count t + deleted_count t = unat (entry_next_insert t)"
    using assms pool by (simp add: ht_rep_def pool_ok_def)
qed

lemma needs_room_capacity:
  assumes rep: "ht_rep ops t ps" and "needs_room t" "ht_count t + 1 < 3 * 2 ^ 29"
  shows "index_capacity t \<le> 2 ^ 31"
proof (cases "index_capacity t = 2")
  case False
  with rep have "unat (entry_next_insert t) < entry_capacity t"
    by (auto simp: ht_rep_def room_ok_def)
  with assms(2) have "index_capacity t * 3 \<le> (ht_count t + 1) * 4"
    by (simp add: needs_room_def)
  with assms(3) show ?thesis by simp
qed simp

text \<open>After making room, the new key's entry fits and the room invariant will hold again.\<close>

definition has_room :: "('k, 'v) htable \<Rightarrow> bool" where
  "has_room t \<longleftrightarrow> unat (entry_next_insert t) < entry_capacity t \<and>
     (deleted_count t = 0 \<longrightarrow> index_capacity t = 2 \<or> unat (entry_next_insert t) + 1 < entry_capacity t)"

lemma has_room_enough:
  assumes rep: "ht_rep ops t ps" and "\<not> needs_room t"
  shows "has_room t"
proof -
  obtain b where b: "1 \<le> b" "length (index_list t) = 2 ^ b"
    using rep_core [OF rep] by (rule core_pow2)
  have caps: "entry_capacity t = length (index_list t) * 3 div 4" "index_capacity t = length (index_list t)"
    using rep_caps [OF rep] core_size(3) [OF rep_core [OF rep]] by simp_all
  have "unat (entry_next_insert t) + 1 < entry_capacity t"
    if "deleted_count t = 0" "index_capacity t \<noteq> 2"
  proof -
    have "b \<noteq> 1" using that(2) caps b(2) by auto
    with b(1) have "b = (b - 2) + 2" by linarith
    then obtain c where "b = c + 2" ..
    then have "length (index_list t) = 4 * 2 ^ c" using b(2) by simp
    then have "length (index_list t) * 3 div 4 = 3 * 2 ^ c" "index_capacity t * 3 = 4 * (3 * 2 ^ c)"
      using caps by simp_all
    then show ?thesis
      using assms(2) that(1) rep_pool(2) [OF rep] caps by (simp add: needs_room_def)
  qed
  with assms(2) show ?thesis by (auto simp: has_room_def needs_room_def)
qed

lemma has_room_grown:
  assumes "ht_rep ops t ps" "ht_rep ops t' ps'" "grown t t'"
  shows "has_room t'"
proof -
  have E: "entry_capacity t = index_capacity t * 3 div 4" "entry_capacity t' = index_capacity t' * 3 div 4"
    using rep_caps [OF assms(1)] rep_caps [OF assms(2)] core_size(3) [OF rep_core [OF assms(1)]]
      core_size(3) [OF rep_core [OF assms(2)]] by simp_all
  have "2 \<le> index_capacity t"
    using core_size(1) [OF rep_core [OF assms(1)]] rep_caps(1) [OF assms(1)] by simp
  then have "index_capacity t * 3 div 4 + 1 < 2 * index_capacity t * 3 div 4"
    by presburger
  then have "entry_capacity t + 1 < entry_capacity t'"
    using E assms(3) by (simp add: grown_def)
  then show ?thesis
    using rep_count(2) [OF assms(1)] assms(3) by (simp add: has_room_def grown_def)
qed

section \<open>Taking an entry number\<close>

text \<open>A number that was never in use.\<close>

lemma take_index_next:
  assumes rep: "ht_rep ops t ps" and room: "has_room t" and none: "deleted_count t = 0"
  defines "t' \<equiv> t\<lparr>entry_next_insert := entry_next_insert t + 1\<rparr>"
  shows "htable_take_index m t = Inr (entry_next_insert t, t')" "pool_ok t' (ps @ [entry_next_insert t])" "room_ok t'"
    "entry_next_insert t \<notin> set ps" "unat (entry_next_insert t) < length (entries t)"
proof -
  let ?n = "entry_next_insert t"
  have nb: "unat ?n < length (entries t)" "unat ?n < 2 ^ 32 - 1"
    using room rep_caps(2) [OF rep] core_ents_bound(1) [OF rep_core [OF rep]]
    by (simp_all add: has_room_def)
  show "unat ?n < length (entries t)" by (rule nb(1))
  note n1 = unat_word32_plus_1 [OF nb(2)]
  have pool: "distinct ps" "set ps = {p. p < ?n}" "freed t = []" "freed t' = []"
    using rep_pool(1) [OF rep] none by (auto simp: pool_ok_def freed_def t'_def)
  have "{p. p < ?n + 1} = insert ?n {p. p < ?n}"
    using n1 by (auto simp: word_less_nat_alt less_Suc_eq)
  then show "pool_ok t' (ps @ [?n])"
    using rep_pool(1) [OF rep] pool by (auto simp: pool_ok_def t'_def)
  show "room_ok t'" using room none n1 by (auto simp: has_room_def room_ok_def t'_def)
  show "htable_take_index m t = Inr (?n, t')" using none by (simp add: htable_take_index_def t'_def)
  show "?n \<notin> set ps" using pool(2) by simp
qed

text \<open>A number from the top of the freed stack, whose array may be made smaller.\<close>

lemma freed_top:
  assumes rep: "ht_rep ops t ps" and some: "deleted_count t \<noteq> 0"
  defines "idx \<equiv> deleted_index_list t ! (deleted_count t - 1)"
  shows "freed t = take (deleted_count t - 1) (deleted_index_list t) @ [idx]" "idx \<notin> set ps" "idx < entry_next_insert t"
proof -
  have pool: "deleted_count t \<le> length (deleted_index_list t)" "distinct (ps @ freed t)"
    "set (ps @ freed t) = {p. p < entry_next_insert t}"
    using rep_pool(1) [OF rep] by (simp_all add: pool_ok_def)
  show split: "freed t = take (deleted_count t - 1) (deleted_index_list t) @ [idx]"
    using some pool(1) by (simp add: freed_def idx_def take_Suc_conv_app_nth [symmetric])
  show "idx \<notin> set ps" "idx < entry_next_insert t" using pool(2,3) split by auto
qed

lemma pool_pop:
  assumes rep: "ht_rep ops t ps" and some: "deleted_count t \<noteq> 0"
    and t': "freed t' = take (deleted_count t - 1) (deleted_index_list t)" "deleted_capacity t' = length (deleted_index_list t')"
      "deleted_count t' \<le> deleted_capacity t'" "deleted_capacity t' \<le> 2 ^ 33" "entry_next_insert t' = entry_next_insert t"
  shows "pool_ok t' (ps @ [deleted_index_list t ! (deleted_count t - 1)])"
  using rep_pool(1) [OF rep] freed_top [OF rep some] t' by (auto simp: pool_ok_def)

lemma take_index_freed:
  assumes rep: "ht_rep ops t ps" and some: "deleted_count t \<noteq> 0"
  obtains dl dc where
    "htable_take_index m t = Inr (deleted_index_list t ! (deleted_count t - 1),
      t\<lparr>deleted_count := deleted_count t - 1, deleted_capacity := dc, deleted_index_list := dl\<rparr>)"
    "take (deleted_count t - 1) dl = take (deleted_count t - 1) (deleted_index_list t)" "dc = length dl"
    "deleted_count t - 1 \<le> dc" "dc \<le> 2 ^ 33"
proof -
  let ?dc = "deleted_count t - 1" and ?dl = "deleted_index_list t"
  have pool: "deleted_capacity t = length ?dl" "deleted_count t \<le> length ?dl" "length ?dl \<le> 2 ^ 33"
    using rep_pool(1) [OF rep] by (simp_all add: pool_ok_def)
  define nc where "nc = (if ?dc < 4 then 4 else deleted_capacity t div 2)"
  have take: "htable_take_index m t = Inr (?dl ! ?dc,
      if deleted_capacity t > 16 \<and> ?dc < deleted_capacity t div 4 \<and> realloc_ok m (sz (SIZEOF_U32 * nc))
      then t\<lparr>deleted_count := ?dc, deleted_capacity := nc, deleted_index_list := realloc_u32 m ?dl (sz (SIZEOF_U32 * nc))\<rparr>
      else t\<lparr>deleted_count := ?dc\<rparr>)"
    using some pool(2) by (simp add: htable_take_index_def Let_def nc_def)
  show thesis
  proof (cases "deleted_capacity t > 16 \<and> ?dc < deleted_capacity t div 4 \<and> realloc_ok m (sz (SIZEOF_U32 * nc))")
    case True
    then have nc: "?dc \<le> nc" "nc \<le> length ?dl" using pool(1) by (auto simp: nc_def)
    then have "sz (SIZEOF_U32 * nc) = SIZEOF_U32 * nc" using pool(3) by (simp add: SIZEOF_U32_def)
    then have "realloc_u32 m ?dl (sz (SIZEOF_U32 * nc)) = take nc ?dl"
      using nc(2) by (simp add: realloc_u32_def SIZEOF_U32_def)
    then show ?thesis using that [of "take nc ?dl" nc] take True nc pool(3) by (simp add: min_def)
  next
    case False
    then have "htable_take_index m t = Inr (?dl ! ?dc, t\<lparr>deleted_count := ?dc, deleted_capacity := deleted_capacity t, deleted_index_list := ?dl\<rparr>)"
      using take unfolding if_not_P [OF False] by simp
    then show ?thesis by (rule that) (use pool in simp_all)
  qed
qed

lemma take_index_correct:
  assumes rep: "ht_rep ops t ps" and room: "has_room t"
  obtains idx t' where "htable_take_index m t = Inr (idx, t')"
    "pool_ok t' (ps @ [idx])" "room_ok t'" "idx \<notin> set ps" "unat idx < length (entries t)"
    "entries t' = entries t" "index_list t' = index_list t" "ht_count t' = ht_count t"
    "head_idx t' = head_idx t" "tail_idx t' = tail_idx t" "index_capacity t' = index_capacity t"
    "entry_capacity t' = entry_capacity t"
proof (cases "deleted_count t = 0")
  case True
  note n = take_index_next [OF rep room True]
  show ?thesis by (rule that [OF n(1-5)]) simp_all
next
  case False
  obtain dl dc where r: "htable_take_index m t = Inr (deleted_index_list t ! (deleted_count t - 1),
      t\<lparr>deleted_count := deleted_count t - 1, deleted_capacity := dc, deleted_index_list := dl\<rparr>)"
    "take (deleted_count t - 1) dl = take (deleted_count t - 1) (deleted_index_list t)" "dc = length dl"
    "deleted_count t - 1 \<le> dc" "dc \<le> 2 ^ 33" by (rule take_index_freed [OF rep False])
  let ?t' = "t\<lparr>deleted_count := deleted_count t - 1, deleted_capacity := dc, deleted_index_list := dl\<rparr>"
  note idx = freed_top(2,3) [OF rep False]
  have "pool_ok ?t' (ps @ [deleted_index_list t ! (deleted_count t - 1)])"
    using r(2-5) by (intro pool_pop [OF rep False]) (simp_all add: freed_def)
  moreover have "room_ok ?t'" using room by (simp add: room_ok_def has_room_def)
  moreover have "unat (deleted_index_list t ! (deleted_count t - 1)) < length (entries t)"
    using idx(2) room rep_caps(2) [OF rep] by (simp add: has_room_def word_less_nat_alt)
  ultimately show ?thesis by (intro that [OF r(1)]) (use idx(1) in simp_all)
qed

section \<open>Storing a new entry\<close>

lemma store_correct:
  assumes rep: "ht_rep ops t ps" and t1: "pool_ok t1 (ps @ [idx])" "room_ok t1" "idx \<notin> set ps"
    "unat idx < length (entries t)" "entries t1 = entries t" "index_list t1 = index_list t"
    "ht_count t1 = ht_count t" "head_idx t1 = head_idx t" "tail_idx t1 = tail_idx t"
    "index_capacity t1 = index_capacity t" "entry_capacity t1 = entry_capacity t"
    and k: "\<forall>p \<in> set ps. key (entries t ! unat p) \<noteq> k"
    and tgt: "target_at (index_list t) (home ops (index_list t) k) (length (index_list t)) target"
  obtains t' where "htable_store t1 target idx k v (HT_KEY_HASH_CB ops k) = Inr t'"
    "ht_rep ops t' (ps @ [idx])" "ht_alist t' = ht_alist t @ [(k, v)]"
proof -
  note core = rep_core [OF rep]
  let ?e = "(entries t ! unat idx)\<lparr>key := k, data := v, cached_hash := HT_KEY_HASH_CB ops k\<rparr>"
  let ?ents = "(entries t)[unat idx := ?e]"
  let ?il = "(index_list t)[unat target := idx + 1]"
  obtain d where d: "d < length (index_list t)"
    "unat target = (home ops (index_list t) k + d) mod length (index_list t)"
    "\<not> live (index_list t ! unat target)"
    "\<forall>j < d. index_list t ! ((home ops (index_list t) k + j) mod length (index_list t)) \<noteq> HT_EMPTY"
    using tgt by (auto simp: target_at_def)
  have tb: "unat target < length (index_list t)" using d(2) core_pos_bound [OF core] by simp
  have path: "probe_path (index_list t) (home ops (index_list t) k) (unat target)"
    using d by (auto simp: probe_path_def)
  have "idx \<noteq> UINT32_MAX"
    using t1(4) core_ents_bound(1) [OF core] by (intro word32_below_max) simp
  moreover have "links ?ents UINT32_MAX ps UINT32_MAX"
    using rep t1(3) by (simp add: ht_rep_def list_ok_def)
  ultimately obtain ents where ents:
    "htable_link_tail ?ents (first_or ps UINT32_MAX) (last_or ps UINT32_MAX) idx =
       Inr (ents, first_or (ps @ [idx]) UINT32_MAX, idx)"
    "links ents UINT32_MAX (ps @ [idx]) UINT32_MAX" "same_payload ents ?ents"
    using link_tail_correct [of ?ents ps idx] core_distinct(1) [OF core] t1(3,4) by auto
  let ?t' = "t1\<lparr>index_list := ?il, entries := ents, head_idx := first_or (ps @ [idx]) UINT32_MAX,
    tail_idx := idx, ht_count := ht_count t + 1\<rparr>"
  have hd_tl: "head_idx t = first_or ps UINT32_MAX" "tail_idx t = last_or ps UINT32_MAX"
    using rep by (simp_all add: ht_rep_def list_ok_def)
  have run: "htable_store t1 target idx k v (HT_KEY_HASH_CB ops k) = Inr ?t'"
    using tb t1 ents(1) hd_tl rep_count(3) [OF rep] by (simp add: htable_store_def)
  have core': "ht_core ops ?il ents (ps @ [idx])"
    by (rule ht_core_insert [OF core tb d(3) t1(3,4) k path ents(3)]) simp_all
  have len: "length ents = length (entries t)" using same_payload_length [OF ents(3)] by simp
  have rep': "ht_rep ops ?t' (ps @ [idx])"
    using core' ents(2) t1 rep_caps [OF rep] rep_count(1) [OF rep] len
    by (simp add: ht_rep_def list_ok_def pool_ok_def room_ok_def freed_def)
  have "pairs_of ents (ps @ [idx]) = pairs_of ?ents (ps @ [idx])"
    by (rule pairs_of_same_payload [OF ents(3)]) (use core_entry(1) [OF core] t1(4) in auto)
  also have "\<dots> = pairs_of (entries t) ps @ [(k, v)]"
    using t1(3,4) by (auto simp: pairs_of_def entry_pair_def nth_update_if)
  finally have "ht_alist ?t' = ht_alist t @ [(k, v)]"
    using rep_alist [OF rep'] rep_alist [OF rep] by simp
  with run rep' show ?thesis by (rule that)
qed

section \<open>Setting a key in a table with room\<close>

text \<open>The part of \<open>htable_set_with_flag\<close> after the growth.\<close>

definition set_in_room ::
  "'k ht_key_ops \<Rightarrow> ('k, 'v) ht_mem \<Rightarrow> ('k, 'v) htable \<Rightarrow> 'k \<Rightarrow> 'v option \<Rightarrow>
   (bool \<times> bool option \<times> ('k, 'v) htable) checked"
where
  "set_in_room ops m t k v =
     and_then (assert_that (unat (entry_next_insert t) < entry_capacity t)) (\<lambda>_.
       let raw_hash = HT_KEY_HASH_CB ops k
       in and_then (htable_set_probe ops t k (index_capacity t)
                      (raw_hash AND ht_mask (index_capacity t)) UINT64_MAX) (\<lambda>res.
          case res of
            Probe_found idx \<Rightarrow>
              and_then (aupd (entries t) (unat idx) (\<lambda>e. e\<lparr>data := v\<rparr>)) (\<lambda>ents.
              Inr (True, Some False, t\<lparr>entries := ents\<rparr>))
          | Probe_target target \<Rightarrow>
              if target = UINT64_MAX then Inr (False, Some False, t)
              else case HT_KEY_DUP_CB ops (strdup_ok m) k of
                None \<Rightarrow> Inr (False, None, t)
              | Some dup_key \<Rightarrow>
                  and_then (htable_take_index m t) (\<lambda>(idx, t).
                  and_then (htable_store t target idx dup_key v raw_hash) (\<lambda>t.
                  Inr (True, Some True, t)))))"

text \<open>The outcome of setting \<open>k\<close> to \<open>v\<close> in a table with pairs \<open>xs\<close>.\<close>

definition set_outcome ::
  "('k \<times> 'v option) list \<Rightarrow> 'k \<Rightarrow> 'v option \<Rightarrow> bool \<Rightarrow> bool option \<Rightarrow> ('k \<times> 'v option) list \<Rightarrow> bool"
where
  "set_outcome xs k v ret flag ys \<longleftrightarrow>
     (if ret then flag = Some (k \<notin> fst ` set xs) \<and> ys = AList.update k v xs
      else flag \<noteq> Some True \<and> ys = xs)"

lemma rep_update_data:
  assumes rep: "ht_rep ops t ps" and p: "p \<in> set ps" "key (entries t ! unat p) = k"
  shows "ht_rep ops (t\<lparr>entries := (entries t)[unat p := (entries t ! unat p)\<lparr>data := v\<rparr>]\<rparr>) ps"
    and "ht_alist (t\<lparr>entries := (entries t)[unat p := (entries t ! unat p)\<lparr>data := v\<rparr>]\<rparr>) =
      AList.update k v (ht_alist t)"
proof -
  let ?ents = "(entries t)[unat p := (entries t ! unat p)\<lparr>data := v\<rparr>]"
  let ?t' = "t\<lparr>entries := ?ents\<rparr>"
  have pb: "unat p < length (entries t)" by (rule core_entry(1) [OF rep_core [OF rep] p(1)])
  have "ht_core ops (index_list t) ?ents ps"
    by (rule ht_core_cong [OF rep_core [OF rep]]) (auto simp: nth_update_if)
  moreover have "links ?ents UINT32_MAX ps UINT32_MAX"
    using rep by (subst links_cong [of _ "entries t"]) (auto simp: nth_update_if ht_rep_def list_ok_def)
  ultimately show rep': "ht_rep ops ?t' ps"
    using rep by (auto simp: ht_rep_def list_ok_def pool_ok_def room_ok_def freed_def)
  have "pairs_of ?ents ps = map (\<lambda>q. if q = p then (k, v) else entry_pair (entries t ! unat q)) ps"
    using pb p(2) by (auto simp: pairs_of_def entry_pair_def nth_update_if)
  then show "ht_alist ?t' = AList.update k v (ht_alist t)"
    using update_present [OF core_pairs_distinct [OF rep_core [OF rep]] p(1), of k v] p(2)
      rep_alist [OF rep'] rep_alist [OF rep] by simp
qed

context ht_key begin

lemma set_in_room_hit:
  fixes t :: "('k, 'v) htable"
  assumes rep: "ht_rep ops t ps" and room: "has_room t" and p: "p \<in> set ps" "key (entries t ! unat p) = k"
  shows "set_in_room ops m t k v = Inr (True, Some False,
    t\<lparr>entries := (entries t)[unat p := (entries t ! unat p)\<lparr>data := v\<rparr>]\<rparr>)"
proof -
  note core = rep_core [OF rep] and cap = rep_caps(1) [OF rep]
  let ?il = "index_list t"
  let ?h = "HT_KEY_HASH_CB ops k AND ht_mask (length ?il)"
  obtain d where d: "d < length ?il" "hit_at ?il (entries t) k (home ops ?il k) d"
    "?il ! ((home ops ?il k + d) mod length ?il) - 1 = p"
    using core p by (rule core_first_match)
  have "htable_set_probe ops t k (length ?il) ?h UINT64_MAX = Inr (Probe_found p)"
    using set_probe_hit [OF core cap _ d(1)] d(2,3) core_home [OF core] core_home_bound [OF core] by simp
  then show ?thesis
    using room core_entry(1) [OF core p(1)] by (simp add: set_in_room_def has_room_def cap)
qed

lemma set_in_room_miss:
  fixes t :: "('k, 'v) htable"
  assumes rep: "ht_rep ops t ps" and none: "\<forall>p \<in> set ps. key (entries t ! unat p) \<noteq> k"
  obtains target where
    "htable_set_probe ops t k (length (index_list t)) (HT_KEY_HASH_CB ops k AND ht_mask (length (index_list t))) UINT64_MAX =
      Inr (Probe_target target)"
    "target_at (index_list t) (home ops (index_list t) k) (length (index_list t)) target" "target \<noteq> UINT64_MAX"
proof -
  note core = rep_core [OF rep] and cap = rep_caps(1) [OF rep]
  let ?il = "index_list t"
  let ?h = "HT_KEY_HASH_CB ops k AND ht_mask (length ?il)"
  have h: "unat ?h = home ops ?il k" "home ops ?il k < length ?il"
    using core_home [OF core] core_home_bound [OF core] by simp_all
  obtain target where target: "htable_set_probe ops t k (length ?il) ?h UINT64_MAX = Inr (Probe_target target)"
    "target_at ?il (home ops ?il k) (length ?il) target"
    using set_probe_miss [OF core cap none h(2), of 0 "length ?il" ?h UINT64_MAX] h by auto
  then have "unat target < length ?il"
    using core_pos_bound [OF core] by (auto simp: target_at_def)
  then show thesis using that [OF target] core_pos_not_max [OF core] by blast
qed

lemma set_in_room_correct:
  fixes t :: "('k, 'v) htable"
  assumes rep: "ht_rep ops t ps" and room: "has_room t"
  shows "\<exists>ret flag t'. set_in_room ops m t k v = Inr (ret, flag, t') \<and> ht_inv ops t' \<and>
    set_outcome (ht_alist t) k v ret flag (ht_alist t') \<and> (strdup_ok m \<longrightarrow> ret)"
proof (cases "\<exists>p \<in> set ps. key (entries t ! unat p) = k")
  case True
  then obtain p where p: "p \<in> set ps" "key (entries t ! unat p) = k" by blast
  then have "k \<in> fst ` set (ht_alist t)"
    using rep_alist [OF rep] by (auto simp: pairs_of_def entry_pair_def image_image)
  then show ?thesis
    using set_in_room_hit [OF rep room p] rep_update_data [OF rep p] by (auto simp: set_outcome_def ht_inv_def)
next
  case False
  then have none: "\<forall>p \<in> set ps. key (entries t ! unat p) \<noteq> k" by blast
  then have absent: "k \<notin> fst ` set (ht_alist t)"
    using rep_alist [OF rep] by (auto simp: pairs_of_def entry_pair_def)
  obtain target where target: "htable_set_probe ops t k (length (index_list t))
      (HT_KEY_HASH_CB ops k AND ht_mask (length (index_list t))) UINT64_MAX = Inr (Probe_target target)"
    "target_at (index_list t) (home ops (index_list t) k) (length (index_list t)) target" "target \<noteq> UINT64_MAX"
    by (rule set_in_room_miss [OF rep none])
  note cap = rep_caps(1) [OF rep]
  have ok: "unat (entry_next_insert t) < entry_capacity t" using room by (simp add: has_room_def)
  show ?thesis
  proof (cases "HT_KEY_DUP_CB ops (strdup_ok m) k")
    case None
    then have "set_in_room ops m t k v = Inr (False, None, t)"
      using ok target(1,3) by (simp add: set_in_room_def cap)
    moreover have "\<not> strdup_ok m" using None dup_granted [of k] by auto
    ultimately show ?thesis using rep by (auto simp: set_outcome_def ht_inv_def)
  next
    case (Some k')
    then have k': "k' = k" by (rule dup_same)
    obtain idx t1 where t1: "htable_take_index m t = Inr (idx, t1)"
      "pool_ok t1 (ps @ [idx])" "room_ok t1" "idx \<notin> set ps" "unat idx < length (entries t)"
      "entries t1 = entries t" "index_list t1 = index_list t" "ht_count t1 = ht_count t"
      "head_idx t1 = head_idx t" "tail_idx t1 = tail_idx t" "index_capacity t1 = index_capacity t"
      "entry_capacity t1 = entry_capacity t"
      using rep room by (rule take_index_correct)
    obtain t' where t': "htable_store t1 target idx k v (HT_KEY_HASH_CB ops k) = Inr t'"
      "ht_rep ops t' (ps @ [idx])" "ht_alist t' = ht_alist t @ [(k, v)]"
      using rep t1(2-) none target(2) by (rule store_correct)
    have "set_in_room ops m t k v = Inr (True, Some True, t')"
      using ok target(1,3) Some k' t1(1) t'(1) by (simp add: set_in_room_def cap)
    then show ?thesis
      using t'(2,3) absent update_absent [OF absent, of v] by (auto simp: set_outcome_def ht_inv_def)
  qed
qed

section \<open>Setting a key\<close>

lemma htable_set_with_flag_correct:
  fixes t :: "('k, 'v) htable"
  assumes rep: "ht_rep ops t ps" and few: "ht_count t + 1 < 3 * 2 ^ 29"
  shows "\<exists>ret flag t' base. htable_set_with_flag ops m t k v = Inr (ret, flag, t') \<and> ht_inv ops t' \<and>
    mset base = mset (ht_alist t) \<and> (\<not> needs_room t \<longrightarrow> base = ht_alist t) \<and>
    set_outcome base k v ret flag (ht_alist t') \<and>
    ((\<forall>n s. calloc_ok m n s) \<and> (\<forall>n. malloc_ok m n) \<and> strdup_ok m \<longrightarrow> ret)"
proof -
  have N: "length (index_list t) \<le> 4294967296"
    using core_size(2) [OF rep_core [OF rep]] by simp
  have cond: "unat (entry_next_insert t) \<ge> entry_capacity t
      \<or> sz (sz (ht_count t + 1) * 4) \<ge> sz (index_capacity t * 3) \<longleftrightarrow> needs_room t"
    using few N rep_caps(1) [OF rep] by (simp add: needs_room_def)
  have eq: "htable_set_with_flag ops m t k v =
      and_then (if needs_room t then htable_grow m t else Inr (True, t)) (\<lambda>(room, t).
        if \<not> room then Inr (False, Some False, t) else set_in_room ops m t k v)"
    unfolding htable_set_with_flag_def cond set_in_room_def ..
  show ?thesis
  proof (cases "needs_room t")
    case False
    then show ?thesis
      using set_in_room_correct [OF rep has_room_enough [OF rep False], of m k v] eq by auto
  next
    case True
    note cap = needs_room_capacity [OF rep True few]
    consider "htable_grow m t = Inr (False, t)" "\<not> ((\<forall>n s. calloc_ok m n s) \<and> (\<forall>n. malloc_ok m n))"
      | t1 ps1 where "htable_grow m t = Inr (True, t1)" "ht_rep ops t1 ps1" "grown t t1"
      using htable_grow_correct [OF rep cap, of m] by blast
    then show ?thesis
    proof cases
      case 1
      with True eq rep show ?thesis
        by (intro exI [of _ False] exI [of _ "Some False"] exI [of _ t] exI [of _ "ht_alist t"])
          (auto simp: set_outcome_def ht_inv_def)
    next
      case 2
      note room = has_room_grown [OF rep 2(2,3)]
      have "mset (ht_alist t1) = mset (ht_alist t)" using 2(3) unfolding grown_def by blast
      with set_in_room_correct [OF 2(2) room, of m k v] True eq 2(1) show ?thesis by fastforce
    qed
  qed
qed

end

end
