(* ===== verification/Htable_Delete.thy ===== *)
theory Htable_Delete
  imports Htable_Set
begin

text \<open>
  Deletion: \<open>htable_delete_with_flag\<close> unlinks the entry of the key, marks its slot deleted and pushes
  its number on the freed stack, or changes nothing (the key is absent, or the stack cannot grow).
\<close>

section \<open>Room on the freed stack\<close>

lemma reserve_deleted_correct:
  assumes pool: "pool_ok t ps" "ps \<noteq> []" and bound: "unat (entry_next_insert t) \<le> 3 * 2 ^ 30"
    and n: "ps \<noteq> [] \<Longrightarrow> length ps + deleted_count t = unat (entry_next_insert t)"
  shows "htable_reserve_deleted m t = None \<and> \<not> (\<forall>n. realloc_ok m n) \<or>
    (\<exists>dl dc. htable_reserve_deleted m t = Some (t\<lparr>deleted_index_list := dl, deleted_capacity := dc\<rparr>) \<and>
       dc = length dl \<and> dc \<le> 2 ^ 33 \<and> deleted_count t < dc \<and> take (deleted_count t) dl = freed t)"
proof (cases "deleted_count t < deleted_capacity t")
  case True
  then show ?thesis
    using pool(1)
    by (intro disjI2 exI [of _ "deleted_index_list t"] exI [of _ "deleted_capacity t"])
      (simp add: htable_reserve_deleted_def pool_ok_def freed_def)
next
  case False
  let ?dl = "deleted_index_list t"
  have full: "deleted_count t = length ?dl" "deleted_capacity t = length ?dl"
    using False pool(1) by (auto simp: pool_ok_def)
  have small: "length ?dl \<le> 3221225472" using n [OF pool(2)] bound full(1) by simp
  define nc where "nc = (if deleted_capacity t \<noteq> 0 then sz (deleted_capacity t * 2) else 16)"
  have nc: "nc = (if length ?dl = 0 then 16 else 2 * length ?dl)"
    using small full(2) by (simp add: nc_def mult.commute)
  then have ncb: "length ?dl < nc" "nc \<le> 2 ^ 33" using small by auto
  then have bytes: "sz (SIZEOF_U32 * nc) = SIZEOF_U32 * nc" by (simp add: SIZEOF_U32_def)
  let ?dl' = "realloc_u32 m ?dl (SIZEOF_U32 * nc)"
  have dl': "length ?dl' = nc" "take (deleted_count t) ?dl' = freed t"
    using ncb(1) full by (simp_all add: realloc_u32_def SIZEOF_U32_def freed_def)
  have "htable_reserve_deleted m t = (if \<not> realloc_ok m (SIZEOF_U32 * nc) then None
      else Some (t\<lparr>deleted_index_list := ?dl', deleted_capacity := nc\<rparr>))"
    unfolding htable_reserve_deleted_def Let_def nc_def [symmetric] bytes using False by simp
  moreover have "deleted_count t < nc" using ncb(1) full(1) by simp
  ultimately show ?thesis
    using dl' ncb(2) by (cases "realloc_ok m (SIZEOF_U32 * nc)")
      (auto intro!: exI [of _ ?dl'])
qed

section \<open>Removing an entry\<close>

text \<open>\<open>htable_delete_entry\<close> does the link surgery of \<open>unlink\<close>.\<close>

lemma delete_entry_eq:
  assumes "htable_reserve_deleted m t0 = Some t" "deleted_count t < length (deleted_index_list t)"
    "unat (x - 1) < length (entries t)" "unlink (entries t) (x - 1) = Inr ents"
    "same_payload ents (entries t)" "unat hash < length (index_list t)"
  shows "htable_delete_entry ops m t0 hash x entry =
    (let e = entries t ! unat (x - 1)
     in Inr (data e, True, HT_KEY_FREE_CB ops (key entry),
          t\<lparr>deleted_index_list := (deleted_index_list t)[deleted_count t := x - 1],
            deleted_count := sz (deleted_count t + 1),
            head_idx := (if x - 1 = head_idx t then next_idx e else head_idx t),
            tail_idx := (if x - 1 = tail_idx t then prev_idx e else tail_idx t),
            entries := ents, index_list := (index_list t)[unat hash := HT_DELETED],
            ht_count := sz (ht_count t + 2 ^ 64 - 1)\<rparr>))"
proof -
  let ?e = "entries t ! unat (x - 1)"
  obtain ents1 where ents1: "(if next_idx ?e \<noteq> UINT32_MAX
      then aupd (entries t) (unat (next_idx ?e)) (\<lambda>x. x\<lparr>prev_idx := prev_idx ?e\<rparr>)
      else Inr (entries t)) = Inr ents1"
    using assms(3,4) by (auto simp: unlink_def and_then_Inr_iff)
  have rest: "and_then (aget ents1 (unat (x - 1))) (\<lambda>e. if prev_idx e \<noteq> UINT32_MAX
      then aupd ents1 (unat (prev_idx e)) (\<lambda>x. x\<lparr>next_idx := next_idx e\<rparr>) else Inr ents1) = Inr ents"
    using assms(4) unfolding unlink_def aget_ok [OF assms(3)] and_then_simps ents1 .
  obtain e1 where e1: "aget ents1 (unat (x - 1)) = Inr e1" "(if prev_idx e1 \<noteq> UINT32_MAX
      then aupd ents1 (unat (prev_idx e1)) (\<lambda>x. x\<lparr>next_idx := next_idx e1\<rparr>) else Inr ents1) = Inr ents"
    using rest unfolding and_then_Inr_iff by blast
  have len: "unat (x - 1) < length ents" using same_payload_length [OF assms(5)] assms(3) by simp
  have d: "data (ents ! unat (x - 1)) = data ?e" by (rule same_payload_nth(2) [OF assms(5,3)])
  show ?thesis
    unfolding htable_delete_entry_def assms(1) option.case Let_def aset_ok [OF assms(2)]
      aget_ok [OF assms(3)] and_then_simps ents1 e1 aset_ok [OF assms(6)] aget_ok [OF len] d ..
qed

text \<open>The outcome of deleting \<open>k\<close> from a table with pairs \<open>xs\<close>.\<close>

definition delete_outcome ::
  "'k ht_key_ops \<Rightarrow> ('k \<times> 'v option) list \<Rightarrow> 'k \<Rightarrow> 'v option \<Rightarrow> bool \<Rightarrow> 'k list \<Rightarrow>
   ('k \<times> 'v option) list \<Rightarrow> bool"
where
  "delete_outcome ops xs k d flag released ys \<longleftrightarrow>
     (if flag then map_of xs k = Some d \<and> released = HT_KEY_FREE_CB ops k \<and> ys = AList.delete k xs
      else d = None \<and> released = [] \<and> ys = xs)"

lemma delete_middle:
  assumes "distinct (map fst (xs @ (k, v) # ys))"
  shows "AList.delete k (xs @ (k, v) # ys) = xs @ ys"
proof -
  have "AList.delete k xs = xs" "AList.delete k ys = ys"
    using assms by (auto intro!: AList.delete_id)
  then show ?thesis by (simp add: AList.delete_eq)
qed

text \<open>The table without the entry \<open>p\<close> between \<open>as\<close> and \<open>bs\<close>; \<open>t\<close> has room on the freed stack.\<close>

definition without_entry ::
  "('k, 'v) htable \<Rightarrow> u64 \<Rightarrow> ('k, 'v) ht_entry list \<Rightarrow> u32 list \<Rightarrow> u32 \<Rightarrow> u32 list \<Rightarrow> ('k, 'v) htable"
where
  "without_entry t hash ents as p bs =
     t\<lparr>deleted_index_list := (deleted_index_list t)[deleted_count t := p], deleted_count := deleted_count t + 1,
       head_idx := first_or (as @ bs) UINT32_MAX, tail_idx := last_or (as @ bs) UINT32_MAX,
       entries := ents, index_list := (index_list t)[unat hash := HT_DELETED], ht_count := ht_count t - 1\<rparr>"

lemma without_entry_rep:
  fixes t :: "('k, 'v) htable"
  assumes rep: "ht_rep ops t (as @ p # bs)" and h: "unat hash < length (index_list t)"
    and x: "index_list t ! unat hash = x" "live x" and p: "p = x - 1"
    and ents: "links ents UINT32_MAX (as @ bs) UINT32_MAX" "same_payload ents (entries t)"
    and stack: "dc = length dl" "dc \<le> 2 ^ 33" "deleted_count t < dc" "take (deleted_count t) dl = freed t"
  shows "ht_rep ops (without_entry (t\<lparr>deleted_index_list := dl, deleted_capacity := dc\<rparr>) hash ents as p bs) (as @ bs)"
    (is "ht_rep ops ?t' _")
proof -
  note core = rep_core [OF rep]
  have core': "ht_core ops ((index_list t)[unat hash := HT_DELETED]) ents (as @ bs)"
    by (rule ht_core_delete [OF _ h _ _ ents(2)]) (use core p x in simp_all)
  have fr: "freed ?t' = freed t @ [p]"
    using stack(1,3,4) by (simp add: without_entry_def freed_def take_Suc_conv_app_nth take_update_cancel)
  have "distinct ((as @ p # bs) @ freed t)" "set ((as @ p # bs) @ freed t) = {p. p < entry_next_insert t}"
    using rep_pool(1) [OF rep] by (simp_all add: pool_ok_def)
  then have "pool_ok ?t' (as @ bs)" using stack(1-3) unfolding pool_ok_def fr by (auto simp: without_entry_def)
  then show ?thesis
    using core' ents(1) rep same_payload_length [OF ents(2)] rep_count(1) [OF rep]
    by (auto simp: without_entry_def ht_rep_def list_ok_def room_ok_def)
qed

lemma without_entry_alist:
  assumes rep: "ht_rep ops t (as @ p # bs)" and rep': "ht_rep ops t' (as @ bs)"
    and ents: "entries t' = ents" "same_payload ents (entries t)"
  shows "ht_alist t' = AList.delete (key (entries t ! unat p)) (ht_alist t)"
    "map_of (ht_alist t) (key (entries t ! unat p)) = Some (data (entries t ! unat p))"
proof -
  note core = rep_core [OF rep]
  let ?k = "key (entries t ! unat p)" and ?d = "data (entries t ! unat p)"
  have "pairs_of ents (as @ bs) = pairs_of (entries t) (as @ bs)"
    by (rule pairs_of_same_payload [OF ents(2)]) (use core_entry(1) [OF core] in auto)
  moreover have al: "ht_alist t = pairs_of (entries t) as @ (?k, ?d) # pairs_of (entries t) bs"
    using rep_alist [OF rep] by (simp add: pairs_of_def entry_pair_def)
  moreover have "AList.delete ?k (ht_alist t) = pairs_of (entries t) as @ pairs_of (entries t) bs"
    using delete_middle rep_alist_distinct [OF rep] al by metis
  ultimately show "ht_alist t' = AList.delete ?k (ht_alist t)"
    using rep_alist [OF rep'] ents(1) by (simp add: pairs_of_def)
  show "map_of (ht_alist t) ?k = Some ?d"
    using map_of_pairs_hit [OF core, of p] rep_alist [OF rep] by simp
qed

text \<open>What deletion does to such a table, once the stack has room.\<close>

lemma delete_entry_run:
  assumes rep: "ht_rep ops t (as @ (x - 1) # bs)" and h: "unat hash < length (index_list t)"
    and ents: "unlink (entries t) (x - 1) = Inr ents" "same_payload ents (entries t)"
    and stack: "htable_reserve_deleted m t = Some (t\<lparr>deleted_index_list := dl, deleted_capacity := dc\<rparr>)"
      "dc = length dl" "dc \<le> 2 ^ 33" "deleted_count t < dc"
  shows "htable_delete_entry ops m t hash x (entries t ! unat (x - 1)) =
    Inr (data (entries t ! unat (x - 1)), True, HT_KEY_FREE_CB ops (key (entries t ! unat (x - 1))),
      without_entry (t\<lparr>deleted_index_list := dl, deleted_capacity := dc\<rparr>) hash ents as (x - 1) bs)"
proof -
  let ?p = "x - 1" and ?e = "entries t ! unat (x - 1)"
  have d: "distinct (as @ ?p # bs)" by (rule core_distinct(1) [OF rep_core [OF rep]])
  have l: "links (entries t) UINT32_MAX (as @ ?p # bs) UINT32_MAX"
    "head_idx t = first_or (as @ ?p # bs) UINT32_MAX" "tail_idx t = last_or (as @ ?p # bs) UINT32_MAX"
    using rep by (simp_all add: ht_rep_def list_ok_def)
  have e: "next_idx ?e = first_or bs UINT32_MAX" "prev_idx ?e = last_or as UINT32_MAX"
    using l(1) by (simp_all add: links_append)
  obtain n where n: "ht_count t = Suc n" "n < 2 ^ 64" using rep_count(1,3) [OF rep] by auto
  then have c: "sz (ht_count t + 2 ^ 64 - 1) = ht_count t - 1" by (simp add: sz_def)
  have c': "sz (deleted_count t + 1) = deleted_count t + 1" using stack(3,4) by simp
  have p: "unat ?p < length (entries t)" using core_entry(1) [OF rep_core [OF rep], of ?p] by simp
  have "htable_delete_entry ops m t hash x ?e = Inr (data ?e, True, HT_KEY_FREE_CB ops (key ?e),
      t\<lparr>deleted_capacity := dc, deleted_index_list := dl[deleted_count t := ?p], deleted_count := deleted_count t + 1,
        head_idx := (if ?p = head_idx t then next_idx ?e else head_idx t),
        tail_idx := (if ?p = tail_idx t then prev_idx ?e else tail_idx t),
        entries := ents, index_list := (index_list t)[unat hash := HT_DELETED], ht_count := ht_count t - 1\<rparr>)"
    using delete_entry_eq [OF stack(1) _ _ _ _ _, of x ents hash ops ?e] stack(2,4) p ents h c c'
    by (simp add: Let_def)
  then show ?thesis unfolding l(2,3) e unlink_head [OF d] unlink_tail [OF d] by (simp add: without_entry_def)
qed

lemma delete_entry_correct:
  fixes t :: "('k, 'v) htable"
  assumes rep: "ht_rep ops t ps" and h: "unat hash < length (index_list t)"
    and x: "index_list t ! unat hash = x" "live x" and k: "key (entries t ! unat (x - 1)) = k"
  shows "\<exists>d flag released t'.
    htable_delete_entry ops m t hash x (entries t ! unat (x - 1)) = Inr (d, flag, released, t') \<and>
    ht_inv ops t' \<and> delete_outcome ops (ht_alist t) k d flag released (ht_alist t') \<and>
    ((\<forall>n. realloc_ok m n) \<longrightarrow> flag)"
proof -
  have "x - 1 \<in> set ps" using core_slot [OF rep_core [OF rep] h] x by simp
  then obtain as bs where ps: "ps = as @ (x - 1) # bs" by (auto simp: in_set_conv_decomp)
  have nb: "unat (entry_next_insert t) \<le> 3 * 2 ^ 30"
    using rep core_ents_bound(1) [OF rep_core [OF rep]] by (simp add: ht_rep_def room_ok_def)
  have cnt: "length ps + deleted_count t = unat (entry_next_insert t)"
    using rep_pool(2) [OF rep] rep_count(1) [OF rep] by simp
  have nonempty: "ps \<noteq> []" using ps by simp
  show ?thesis
    using reserve_deleted_correct [OF rep_pool(1) [OF rep] nonempty nb cnt, of m]
  proof (elim disjE exE conjE)
    assume "htable_reserve_deleted m t = None" "\<not> (\<forall>n. realloc_ok m n)"
    then show ?thesis
      using rep by (auto simp: htable_delete_entry_def delete_outcome_def ht_inv_def)
  next
    fix dl dc
    assume stack: "htable_reserve_deleted m t = Some (t\<lparr>deleted_index_list := dl, deleted_capacity := dc\<rparr>)"
      "dc = length dl" "dc \<le> 2 ^ 33" "deleted_count t < dc" "take (deleted_count t) dl = freed t"
    have rep: "ht_rep ops t (as @ (x - 1) # bs)" using rep ps by simp
    then have "links (entries t) UINT32_MAX (as @ (x - 1) # bs) UINT32_MAX" by (simp add: ht_rep_def list_ok_def)
    from unlink_correct [OF this core_distinct(1) [OF rep_core [OF rep]]]
    obtain ents where ents: "unlink (entries t) (x - 1) = Inr ents"
      "links ents UINT32_MAX (as @ bs) UINT32_MAX" "same_payload ents (entries t)" by blast
    note rep' = without_entry_rep [OF rep h x refl ents(2,3) stack(2-5)]
    have "entries (without_entry (t\<lparr>deleted_index_list := dl, deleted_capacity := dc\<rparr>) hash ents as (x - 1) bs) = ents"
      by (simp add: without_entry_def)
    from without_entry_alist [OF rep rep' this ents(3)] show ?thesis
      using delete_entry_run [OF rep h ents(1,3) stack(1-4)] rep' k by (auto simp: delete_outcome_def ht_inv_def)
  qed
qed

section \<open>Deleting a key\<close>

context ht_key begin

lemma htable_delete_with_flag_correct:
  fixes t :: "('k, 'v) htable"
  assumes rep: "ht_rep ops t ps"
  shows "\<exists>d flag released t'.
    htable_delete_with_flag ops m t k = Inr (d, flag, released, t') \<and> ht_inv ops t' \<and>
    delete_outcome ops (ht_alist t) k d flag released (ht_alist t') \<and>
    ((\<forall>n. realloc_ok m n) \<longrightarrow> flag = (k \<in> fst ` set (ht_alist t)))"
proof -
  note core = rep_core [OF rep] and cap = rep_caps(1) [OF rep]
  let ?il = "index_list t"
  let ?h = "HT_KEY_HASH_CB ops k AND ht_mask (length ?il)"
  have h: "unat ?h = home ops ?il k" "unat ?h < length ?il"
    using core_home [OF core] core_home_bound [OF core] by simp_all
  have dom: "k \<in> fst ` set (ht_alist t) \<longleftrightarrow> (\<exists>p \<in> set ps. key (entries t ! unat p) = k)"
    using rep_alist [OF rep] by (auto simp: pairs_of_def entry_pair_def image_image)
  show ?thesis
  proof (cases "\<exists>p \<in> set ps. key (entries t ! unat p) = k")
    case True
    then obtain p where p: "p \<in> set ps" "key (entries t ! unat p) = k" by blast
    obtain d where d: "d < length ?il" "hit_at ?il (entries t) k (home ops ?il k) d"
      "?il ! ((home ops ?il k + d) mod length ?il) - 1 = p"
      using core p by (rule core_first_match)
    obtain hash where hash: "unat hash = (unat ?h + d) mod length ?il"
      "htable_delete_loop ops m t k (length ?il) ?h =
         htable_delete_entry ops m t hash (?il ! unat hash) (entries t ! unat (?il ! unat hash - 1))"
      using delete_loop_hit [OF core cap h(2) d(1), of k m] d(2) h(1) by auto
    have "unat hash < length ?il" using hash(1) core_pos_bound [OF core] by simp
    moreover have "slot_match (entries t) k (?il ! unat hash)"
      using d(2) hash(1) h(1) by (simp add: hit_at_def)
    then have "live (?il ! unat hash)" "key (entries t ! unat (?il ! unat hash - 1)) = k"
      by (simp_all add: slot_match_def)
    ultimately obtain d' flag released t' where
      "htable_delete_entry ops m t hash (?il ! unat hash) (entries t ! unat (?il ! unat hash - 1)) =
        Inr (d', flag, released, t')"
      "ht_inv ops t'" "delete_outcome ops (ht_alist t) k d' flag released (ht_alist t')"
      "(\<forall>n. realloc_ok m n) \<longrightarrow> flag"
      using delete_entry_correct [OF rep, of hash "?il ! unat hash" k m] by blast
    moreover from this(1) have "htable_delete_with_flag ops m t k = Inr (d', flag, released, t')"
      by (simp only: htable_delete_with_flag_def cap hash(2))
    moreover have "k \<in> fst ` set (ht_alist t)" using dom True by simp
    ultimately show ?thesis by blast
  next
    case False
    then have none: "\<forall>p \<in> set ps. key (entries t ! unat p) \<noteq> k" by blast
    have "htable_delete_with_flag ops m t k = Inr (None, False, [], t)"
      using delete_loop_miss [OF core cap none h(2)] by (simp add: htable_delete_with_flag_def cap)
    moreover have "k \<notin> fst ` set (ht_alist t)" using dom False by simp
    moreover have "ht_inv ops t" using rep by (auto simp: ht_inv_def)
    ultimately show ?thesis
      by (intro exI [of _ None] exI [of _ False] exI [of _ "[]"] exI [of _ t])
        (simp add: delete_outcome_def)
  qed
qed

end

end
