(* ===== verification/Int_Htable.thy ===== *)
theory Int_Htable
  imports Htable_Delete
begin

text \<open>
  \<open>src/src/hash/int_htable.c\<close> and \<open>int_htable.h\<close>: the table with \<open>uint64_t\<close> keys. Its key macros
  satisfy the contract \<open>ht_key\<close>, and its hash is a bijection of the 64-bit words.
\<close>

section \<open>The key macros\<close>

definition int_htable_key_hash :: "u64 \<Rightarrow> u64" where
  "int_htable_key_hash k =
     (let hash = k;
          hash = hash XOR drop_bit 30 hash;
          hash = hash * 0xbf58476d1ce4e5b9;
          hash = hash XOR drop_bit 27 hash;
          hash = hash * 0x94d049bb133111eb;
          hash = hash XOR drop_bit 31 hash
      in hash)"

definition int_ops :: "u64 ht_key_ops" where
  "int_ops = \<lparr>
     HT_KEY_HASH_CB = int_htable_key_hash,
     HT_KEY_EQUAL_CB = (\<lambda>key1 key2. key1 = key2),
     HT_KEY_DUP_CB = (\<lambda>granted k. Some k),
     HT_KEY_FREE_CB = (\<lambda>k. [])\<rparr>"

interpretation int_ht: ht_key int_ops
  by unfold_locales (simp_all add: int_ops_def)

section \<open>The hash loses nothing\<close>

lemma xor_eq_zero_iff: "x XOR y = 0 \<longleftrightarrow> x = (y :: u64)"
  by (auto simp: bit_eq_iff bit_simps)

lemma unat_drop_bit_u64: "unat (drop_bit k (x :: u64)) = unat x div 2 ^ k"
  using unsigned_less [of x, where ?'a = nat]
  by (subst unsigned_drop_bit_eq) (simp add: drop_bit_eq_div take_bit_nat_eq_self)

lemma xorshift_inject:
  fixes x y :: u64
  assumes "x XOR drop_bit k x = y XOR drop_bit k y" "0 < k"
  shows "x = y"
proof -
  let ?z = "x XOR y"
  have "drop_bit k ?z = ?z"
    using assms(1) by (auto simp: bit_eq_iff bit_simps)
  then have "unat ?z div 2 ^ k = unat ?z"
    by (metis unat_drop_bit_u64)
  moreover have "n div 2 ^ k < n" if "0 < n" for n :: nat
    using assms(2) that by (intro div_less_dividend one_less_power) auto
  ultimately have "unat ?z = 0"
    by (metis gr0I less_irrefl)
  then show "x = y" by (simp add: unat_eq_0 xor_eq_zero_iff)
qed

lemma mult_inject:
  fixes x y c d :: u64
  assumes "x * c = y * c" "c * d = 1"
  shows "x = y"
proof -
  have "x * c * d = y * c * d" by (simp only: assms(1))
  then show ?thesis by (simp only: mult.assoc assms(2) mult_1_right)
qed

text \<open>The two multipliers are invertible.\<close>

lemma splitmix_inverses:
  "(0xbf58476d1ce4e5b9 :: u64) * 0x96de1b173f119089 = 1"
  "(0x94d049bb133111eb :: u64) * 0x319642b2d24d8ec3 = 1"
  by simp_all

lemma xorshift_mult_inject:
  fixes x y c d :: u64
  assumes "(x XOR drop_bit k x) * c = (y XOR drop_bit k y) * c" "0 < k" "c * d = 1"
  shows "x = y"
  using assms(1) by (rule xorshift_inject [OF mult_inject [OF _ assms(3)] assms(2)])

lemma int_htable_key_hash_inject:
  assumes "int_htable_key_hash a = int_htable_key_hash b"
  shows "a = b"
proof -
  define g :: "u64 \<Rightarrow> u64" where "g k = (k XOR drop_bit 30 k) * 0xbf58476d1ce4e5b9" for k
  define h :: "u64 \<Rightarrow> u64" where "h k = (k XOR drop_bit 27 k) * 0x94d049bb133111eb" for k
  have hash: "int_htable_key_hash k = h (g k) XOR drop_bit 31 (h (g k))" for k
    by (simp only: int_htable_key_hash_def Let_def g_def h_def)
  have "h (g a) = h (g b)"
    using assms unfolding hash by (rule xorshift_inject) simp
  then have "g a = g b"
    unfolding h_def by (rule xorshift_mult_inject [OF _ _ splitmix_inverses(2)]) simp
  then show ?thesis
    unfolding g_def by (rule xorshift_mult_inject [OF _ _ splitmix_inverses(1)]) simp
qed

lemma int_htable_key_hash_bij: "bij int_htable_key_hash"
proof -
  have "inj int_htable_key_hash" by (rule injI) (rule int_htable_key_hash_inject)
  moreover have "surj int_htable_key_hash"
    using \<open>inj int_htable_key_hash\<close> by (intro finite_UNIV_inj_surj) simp_all
  ultimately show ?thesis by (rule bijI)
qed

end
