(* ===== verification/Rapidhash.thy ===== *)
theory Rapidhash
  imports Prelude
begin

text \<open>
  \<open>src/src/hash/rapidhash.h\<close>: the hash function of the string table, as it is compiled by default
  (\<open>RAPIDHASH_FAST\<close>, little endian), with the alternatives the preprocessor selects on other
  platforms and their equivalence. A byte buffer is a list and a pointer into it a position;
  every read is checked against the buffer, so that \<open>Inr\<close> says no read leaves it.
\<close>

section \<open>Multiplication\<close>

text \<open>\<open>rapid_mum\<close> with \<open>__SIZEOF_INT128__\<close>: the low and the high half of the product.\<close>

definition rapid_mum :: "u64 \<Rightarrow> u64 \<Rightarrow> u64 \<times> u64" where
  "rapid_mum A B =
     (let r = (ucast A :: 128 word) * ucast B in (ucast r, ucast (drop_bit 64 r)))"

text \<open>\<open>rapid_mum\<close> on a compiler without 128-bit integers.\<close>

definition rapid_mum_portable :: "u64 \<Rightarrow> u64 \<Rightarrow> u64 \<times> u64" where
  "rapid_mum_portable A B =
     (let ha = drop_bit 32 A; hb = drop_bit 32 B;
          la = ucast (ucast A :: u32); lb = ucast (ucast B :: u32);
          rh = ha * hb; rm0 = ha * lb; rm1 = hb * la; rl = la * lb;
          t = rl + push_bit 32 rm0; c = (if t < rl then 1 else 0);
          lo = t + push_bit 32 rm1;
          c = c + (if lo < t then 1 else 0);
          hi = rh + drop_bit 32 rm0 + drop_bit 32 rm1 + c
      in (lo, hi))"

text \<open>
  \<open>rapid_mum\<close> of MSVC, where \<open>umul128\<close> is the intrinsic for both halves (x64) and \<open>umulh\<close> the one for
  the high half (the other 64-bit targets).
\<close>

definition rapid_mum_msvc_x64 :: "(u64 \<Rightarrow> u64 \<Rightarrow> u64 \<times> u64) \<Rightarrow> u64 \<Rightarrow> u64 \<Rightarrow> u64 \<times> u64" where
  "rapid_mum_msvc_x64 umul128 A B = umul128 A B"

definition rapid_mum_msvc :: "(u64 \<Rightarrow> u64 \<Rightarrow> u64) \<Rightarrow> u64 \<Rightarrow> u64 \<Rightarrow> u64 \<times> u64" where
  "rapid_mum_msvc umulh A B = (let c = umulh A B in (A * B, c))"

text \<open>With \<open>RAPIDHASH_PROTECTED\<close> every branch adds the halves to the factors instead of replacing them.\<close>

definition rapid_mum_protected :: "(u64 \<Rightarrow> u64 \<Rightarrow> u64 \<times> u64) \<Rightarrow> u64 \<Rightarrow> u64 \<Rightarrow> u64 \<times> u64" where
  "rapid_mum_protected mum A B = (let (lo, hi) = mum A B in (A XOR lo, B XOR hi))"

definition rapid_mix :: "u64 \<Rightarrow> u64 \<Rightarrow> u64" where
  "rapid_mix A B = (let (A, B) = rapid_mum A B in A XOR B)"

definition rapid_secret :: "u64 list" where
  "rapid_secret = [0x2d358dccaa6c78a5, 0x8bb84b93962eacc9, 0x4b33a62ed433d4a3, 0x4d5a2da51de1aa47,
     0xa0761d6478bd642f, 0xe7037ed1a0b428db, 0x90ed1765281c388c, 0xaaaaaaaaaaaaaaaa]"

section \<open>Reads\<close>

text \<open>\<open>memcpy\<close> into an integer of a little-endian and of a big-endian machine.\<close>

fun load_le :: "u8 list \<Rightarrow> u64" where
  "load_le [] = 0"
| "load_le (b # bs) = ucast b OR push_bit 8 (load_le bs)"

definition load_be :: "u8 list \<Rightarrow> u64" where
  "load_be bs = load_le (rev bs)"

definition bytes_at :: "u8 list \<Rightarrow> nat \<Rightarrow> nat \<Rightarrow> u8 list checked" where
  "bytes_at buf p n = (if p + n \<le> length buf then Inr (take n (drop p buf)) else Inl Out_of_bounds)"

definition rapid_read64 :: "u8 list \<Rightarrow> nat \<Rightarrow> u64 checked" where
  "rapid_read64 buf p = and_then (bytes_at buf p 8) (\<lambda>bs. Inr (load_le bs))"

definition rapid_read32 :: "u8 list \<Rightarrow> nat \<Rightarrow> u64 checked" where
  "rapid_read32 buf p = and_then (bytes_at buf p 4) (\<lambda>bs. Inr (load_le bs))"

text \<open>The byte swaps of the last \<open>#else\<close>: a big-endian load, swapped with shifts and masks.\<close>

definition rapid_read64_swapped :: "u8 list \<Rightarrow> nat \<Rightarrow> u64 checked" where
  "rapid_read64_swapped buf p = and_then (bytes_at buf p 8) (\<lambda>bs.
     let v = load_be bs
     in Inr ((drop_bit 56 v AND 0xff) OR (drop_bit 40 v AND 0xff00) OR (drop_bit 24 v AND 0xff0000)
          OR (drop_bit 8 v AND 0xff000000) OR (push_bit 8 v AND 0xff00000000)
          OR (push_bit 24 v AND 0xff0000000000) OR (push_bit 40 v AND 0xff000000000000)
          OR (push_bit 56 v AND 0xff00000000000000)))"

definition rapid_read32_swapped :: "u8 list \<Rightarrow> nat \<Rightarrow> u64 checked" where
  "rapid_read32_swapped buf p = and_then (bytes_at buf p 4) (\<lambda>bs.
     let v = ucast (load_be bs) :: u32
     in Inr (ucast ((drop_bit 24 v AND 0xff) OR (drop_bit 8 v AND 0xff00)
          OR (push_bit 8 v AND 0xff0000) OR (push_bit 24 v AND 0xff000000))))"

text \<open>
  Other compilers have a function that reverses the order of the \<open>n\<close> bytes of an integer
  (\<open>__builtin_bswap64\<close>, \<open>__builtin_bswap32\<close>, \<open>_byteswap_uint64\<close>, \<open>_byteswap_ulong\<close>).
\<close>

definition byte_swap :: "nat \<Rightarrow> u64 \<Rightarrow> u64" where
  "byte_swap n v = load_le (rev (map (\<lambda>i. ucast (drop_bit (8 * i) v)) [0 ..< n]))"

definition rapid_read64_bswap :: "u8 list \<Rightarrow> nat \<Rightarrow> u64 checked" where
  "rapid_read64_bswap buf p = and_then (bytes_at buf p 8) (\<lambda>bs. Inr (byte_swap 8 (load_be bs)))"

definition rapid_read32_bswap :: "u8 list \<Rightarrow> nat \<Rightarrow> u64 checked" where
  "rapid_read32_bswap buf p = and_then (bytes_at buf p 4) (\<lambda>bs. Inr (byte_swap 4 (load_be bs)))"

section \<open>The hash functions\<close>

text \<open>
  One line \<open>acc = rapid_mix (rapid_read64 (p + off) ^ s, rapid_read64 (p + off + 8) ^ acc)\<close>.
\<close>

definition rapid_round :: "u8 list \<Rightarrow> nat \<Rightarrow> u64 \<Rightarrow> u64 \<Rightarrow> u64 checked" where
  "rapid_round buf p s acc =
     and_then (rapid_read64 buf p) (\<lambda>x.
     and_then (rapid_read64 buf (p + 8)) (\<lambda>y. Inr (rapid_mix (x XOR s) (y XOR acc))))"

text \<open>The branch \<open>len <= 16\<close>: the new \<open>seed\<close>, \<open>a\<close> and \<open>b\<close>.\<close>

definition rapid_short :: "u8 list \<Rightarrow> nat \<Rightarrow> u64 \<Rightarrow> (u64 \<times> u64 \<times> u64) checked" where
  "rapid_short buf len seed =
     (if len \<ge> 4 then
        let seed = seed XOR word_of_nat len
        in if len \<ge> 8 then
             and_then (rapid_read64 buf 0) (\<lambda>a.
             and_then (rapid_read64 buf (len - 8)) (\<lambda>b. Inr (seed, a, b)))
           else
             and_then (rapid_read32 buf 0) (\<lambda>a.
             and_then (rapid_read32 buf (len - 4)) (\<lambda>b. Inr (seed, a, b)))
      else if len > 0 then
        and_then (aget buf 0) (\<lambda>x.
        and_then (aget buf (len - 1)) (\<lambda>y.
        and_then (aget buf (len div 2)) (\<lambda>z.
        Inr (seed, push_bit 45 (ucast x) OR ucast y, ucast z))))
      else Inr (seed, 0, 0))"

text \<open>\<open>a = rapid_read64 (p + i - 16) ^ i\<close> and \<open>b = rapid_read64 (p + i - 8)\<close>.\<close>

definition rapid_last :: "u8 list \<Rightarrow> nat \<Rightarrow> nat \<Rightarrow> u64 \<Rightarrow> (u64 \<times> u64 \<times> u64) checked" where
  "rapid_last buf p i seed =
     and_then (rapid_read64 buf (p + i - 16)) (\<lambda>a.
     and_then (rapid_read64 buf (p + i - 8)) (\<lambda>b. Inr (seed, a XOR word_of_nat i, b)))"

definition rapid_finish :: "u64 list \<Rightarrow> nat \<Rightarrow> u64 \<times> u64 \<times> u64 \<Rightarrow> u64" where
  "rapid_finish secret i r =
     (let (seed, a, b) = r; (a, b) = rapid_mum (a XOR secret ! 1) (b XOR seed)
      in rapid_mix (a XOR secret ! 7) (b XOR secret ! 1 XOR word_of_nat i))"

definition rapid_start :: "u64 list \<Rightarrow> u64 \<Rightarrow> u64" where
  "rapid_start secret seed = seed XOR rapid_mix (seed XOR secret ! 2) (secret ! 1)"

subsection \<open>\<open>rapidhashMicro\<close>\<close>

type_synonym lanes5 = "u64 \<times> u64 \<times> u64 \<times> u64 \<times> u64"

definition micro_body :: "u8 list \<Rightarrow> u64 list \<Rightarrow> nat \<Rightarrow> lanes5 \<Rightarrow> lanes5 checked" where
  "micro_body buf secret p s = (case s of (seed, see1, see2, see3, see4) \<Rightarrow>
     and_then (rapid_round buf p (secret ! 0) seed) (\<lambda>seed.
     and_then (rapid_round buf (p + 16) (secret ! 1) see1) (\<lambda>see1.
     and_then (rapid_round buf (p + 32) (secret ! 2) see2) (\<lambda>see2.
     and_then (rapid_round buf (p + 48) (secret ! 3) see3) (\<lambda>see3.
     and_then (rapid_round buf (p + 64) (secret ! 4) see4) (\<lambda>see4.
     Inr (seed, see1, see2, see3, see4)))))))"

text \<open>The \<open>do ... while (i > 80)\<close>, entered with \<open>i > 80\<close>.\<close>

function micro_loop :: "u8 list \<Rightarrow> u64 list \<Rightarrow> nat \<Rightarrow> nat \<Rightarrow> lanes5 \<Rightarrow> (nat \<times> nat \<times> lanes5) checked"
where
  "micro_loop buf secret p i s =
     (if i > 80 then and_then (micro_body buf secret p s) (\<lambda>s.
        micro_loop buf secret (p + 80) (i - 80) s)
      else Inr (p, i, s))"
  by pat_completeness auto
termination
  by (relation "measure (\<lambda>(buf, secret, p, i, s). i)") auto

declare micro_loop.simps [simp del]

definition micro_bulk :: "u8 list \<Rightarrow> u64 list \<Rightarrow> nat \<Rightarrow> u64 \<Rightarrow> (nat \<times> nat \<times> u64) checked" where
  "micro_bulk buf secret len seed =
     (if len > 80 then
        and_then (micro_loop buf secret 0 len (seed, seed, seed, seed, seed))
          (\<lambda>(p, i, seed, see1, see2, see3, see4).
        let seed = seed XOR see1; see2 = see2 XOR see3; seed = seed XOR see4; seed = seed XOR see2
        in Inr (p, i, seed))
      else Inr (0, len, seed))"

definition micro_tail :: "u8 list \<Rightarrow> u64 list \<Rightarrow> nat \<Rightarrow> nat \<Rightarrow> u64 \<Rightarrow> u64 checked" where
  "micro_tail buf secret p i seed =
     (if i > 16 then and_then (rapid_round buf p (secret ! 2) seed) (\<lambda>seed.
      if i > 32 then and_then (rapid_round buf (p + 16) (secret ! 2) seed) (\<lambda>seed.
      if i > 48 then and_then (rapid_round buf (p + 32) (secret ! 1) seed) (\<lambda>seed.
      if i > 64 then rapid_round buf (p + 48) (secret ! 1) seed
      else Inr seed) else Inr seed) else Inr seed) else Inr seed)"

definition rapidhashMicro_internal :: "u8 list \<Rightarrow> nat \<Rightarrow> u64 \<Rightarrow> u64 list \<Rightarrow> u64 checked" where
  "rapidhashMicro_internal buf len seed secret =
     (let seed = rapid_start secret seed
      in if len \<le> 16 then
           and_then (rapid_short buf len seed) (\<lambda>r. Inr (rapid_finish secret len r))
         else
           and_then (micro_bulk buf secret len seed) (\<lambda>(p, i, seed).
           and_then (micro_tail buf secret p i seed) (\<lambda>seed.
           and_then (rapid_last buf p i seed) (\<lambda>r. Inr (rapid_finish secret i r)))))"

definition rapidhashMicro_withSeed :: "u8 list \<Rightarrow> nat \<Rightarrow> u64 \<Rightarrow> u64 checked" where
  "rapidhashMicro_withSeed buf len seed = rapidhashMicro_internal buf len seed rapid_secret"

definition rapidhashMicro :: "u8 list \<Rightarrow> nat \<Rightarrow> u64 checked" where
  "rapidhashMicro buf len = rapidhashMicro_withSeed buf len 0"

subsection \<open>\<open>rapidhashNano\<close>\<close>

definition nano_body :: "u8 list \<Rightarrow> u64 list \<Rightarrow> nat \<Rightarrow> u64 \<times> u64 \<times> u64 \<Rightarrow> (u64 \<times> u64 \<times> u64) checked" where
  "nano_body buf secret p s = (case s of (seed, see1, see2) \<Rightarrow>
     and_then (rapid_round buf p (secret ! 0) seed) (\<lambda>seed.
     and_then (rapid_round buf (p + 16) (secret ! 1) see1) (\<lambda>see1.
     and_then (rapid_round buf (p + 32) (secret ! 2) see2) (\<lambda>see2.
     Inr (seed, see1, see2)))))"

function nano_loop ::
  "u8 list \<Rightarrow> u64 list \<Rightarrow> nat \<Rightarrow> nat \<Rightarrow> u64 \<times> u64 \<times> u64 \<Rightarrow> (nat \<times> nat \<times> u64 \<times> u64 \<times> u64) checked"
where
  "nano_loop buf secret p i s =
     (if i > 48 then and_then (nano_body buf secret p s) (\<lambda>s.
        nano_loop buf secret (p + 48) (i - 48) s)
      else Inr (p, i, s))"
  by pat_completeness auto
termination
  by (relation "measure (\<lambda>(buf, secret, p, i, s). i)") auto

declare nano_loop.simps [simp del]

definition nano_bulk :: "u8 list \<Rightarrow> u64 list \<Rightarrow> nat \<Rightarrow> u64 \<Rightarrow> (nat \<times> nat \<times> u64) checked" where
  "nano_bulk buf secret len seed =
     (if len > 48 then
        and_then (nano_loop buf secret 0 len (seed, seed, seed)) (\<lambda>(p, i, seed, see1, see2).
        let seed = seed XOR see1; seed = seed XOR see2 in Inr (p, i, seed))
      else Inr (0, len, seed))"

definition nano_tail :: "u8 list \<Rightarrow> u64 list \<Rightarrow> nat \<Rightarrow> nat \<Rightarrow> u64 \<Rightarrow> u64 checked" where
  "nano_tail buf secret p i seed =
     (if i > 16 then and_then (rapid_round buf p (secret ! 2) seed) (\<lambda>seed.
      if i > 32 then rapid_round buf (p + 16) (secret ! 2) seed
      else Inr seed) else Inr seed)"

definition rapidhashNano_internal :: "u8 list \<Rightarrow> nat \<Rightarrow> u64 \<Rightarrow> u64 list \<Rightarrow> u64 checked" where
  "rapidhashNano_internal buf len seed secret =
     (let seed = rapid_start secret seed
      in if len \<le> 16 then
           and_then (rapid_short buf len seed) (\<lambda>r. Inr (rapid_finish secret len r))
         else
           and_then (nano_bulk buf secret len seed) (\<lambda>(p, i, seed).
           and_then (nano_tail buf secret p i seed) (\<lambda>seed.
           and_then (rapid_last buf p i seed) (\<lambda>r. Inr (rapid_finish secret i r)))))"

definition rapidhashNano_withSeed :: "u8 list \<Rightarrow> nat \<Rightarrow> u64 \<Rightarrow> u64 checked" where
  "rapidhashNano_withSeed buf len seed = rapidhashNano_internal buf len seed rapid_secret"

definition rapidhashNano :: "u8 list \<Rightarrow> nat \<Rightarrow> u64 checked" where
  "rapidhashNano buf len = rapidhashNano_withSeed buf len 0"

subsection \<open>\<open>rapidhash\<close>\<close>

type_synonym lanes7 = "u64 \<times> u64 \<times> u64 \<times> u64 \<times> u64 \<times> u64 \<times> u64"

text \<open>The seven lines that consume 112 bytes at \<open>p\<close>.\<close>

definition rapid_seven :: "u8 list \<Rightarrow> u64 list \<Rightarrow> nat \<Rightarrow> lanes7 \<Rightarrow> lanes7 checked" where
  "rapid_seven buf secret p s = (case s of (seed, see1, see2, see3, see4, see5, see6) \<Rightarrow>
     and_then (rapid_round buf p (secret ! 0) seed) (\<lambda>seed.
     and_then (rapid_round buf (p + 16) (secret ! 1) see1) (\<lambda>see1.
     and_then (rapid_round buf (p + 32) (secret ! 2) see2) (\<lambda>see2.
     and_then (rapid_round buf (p + 48) (secret ! 3) see3) (\<lambda>see3.
     and_then (rapid_round buf (p + 64) (secret ! 4) see4) (\<lambda>see4.
     and_then (rapid_round buf (p + 80) (secret ! 5) see5) (\<lambda>see5.
     and_then (rapid_round buf (p + 96) (secret ! 6) see6) (\<lambda>see6.
     Inr (seed, see1, see2, see3, see4, see5, see6)))))))))"

text \<open>The loop of \<open>RAPIDHASH_COMPACT\<close>, and the unrolled loop with its remainder.\<close>

function rapid_compact_loop ::
  "u8 list \<Rightarrow> u64 list \<Rightarrow> nat \<Rightarrow> nat \<Rightarrow> lanes7 \<Rightarrow> (nat \<times> nat \<times> lanes7) checked"
where
  "rapid_compact_loop buf secret p i s =
     (if i > 112 then and_then (rapid_seven buf secret p s) (\<lambda>s.
        rapid_compact_loop buf secret (p + 112) (i - 112) s)
      else Inr (p, i, s))"
  by pat_completeness auto
termination
  by (relation "measure (\<lambda>(buf, secret, p, i, s). i)") auto

declare rapid_compact_loop.simps [simp del]

function rapid_unrolled_loop ::
  "u8 list \<Rightarrow> u64 list \<Rightarrow> nat \<Rightarrow> nat \<Rightarrow> lanes7 \<Rightarrow> (nat \<times> nat \<times> lanes7) checked"
where
  "rapid_unrolled_loop buf secret p i s =
     (if i > 224 then
        and_then (rapid_seven buf secret p s) (\<lambda>s.
        and_then (rapid_seven buf secret (p + 112) s) (\<lambda>s.
        rapid_unrolled_loop buf secret (p + 224) (i - 224) s))
      else if i > 112 then
        and_then (rapid_seven buf secret p s) (\<lambda>s. Inr (p + 112, i - 112, s))
      else Inr (p, i, s))"
  by pat_completeness auto
termination
  by (relation "measure (\<lambda>(buf, secret, p, i, s). i)") auto

declare rapid_unrolled_loop.simps [simp del]

definition rapid_bulk ::
  "bool \<Rightarrow> u8 list \<Rightarrow> u64 list \<Rightarrow> nat \<Rightarrow> u64 \<Rightarrow> (nat \<times> nat \<times> u64) checked"
where
  "rapid_bulk compact buf secret len seed =
     (if len > 112 then
        and_then ((if compact then rapid_compact_loop else rapid_unrolled_loop)
                    buf secret 0 len (seed, seed, seed, seed, seed, seed, seed))
          (\<lambda>(p, i, seed, see1, see2, see3, see4, see5, see6).
        let seed = seed XOR see1; see2 = see2 XOR see3; see4 = see4 XOR see5;
            seed = seed XOR see6; see2 = see2 XOR see4; seed = seed XOR see2
        in Inr (p, i, seed))
      else Inr (0, len, seed))"

definition rapid_tail :: "u8 list \<Rightarrow> u64 list \<Rightarrow> nat \<Rightarrow> nat \<Rightarrow> u64 \<Rightarrow> u64 checked" where
  "rapid_tail buf secret p i seed =
     (if i > 16 then and_then (rapid_round buf p (secret ! 2) seed) (\<lambda>seed.
      if i > 32 then and_then (rapid_round buf (p + 16) (secret ! 2) seed) (\<lambda>seed.
      if i > 48 then and_then (rapid_round buf (p + 32) (secret ! 1) seed) (\<lambda>seed.
      if i > 64 then and_then (rapid_round buf (p + 48) (secret ! 1) seed) (\<lambda>seed.
      if i > 80 then and_then (rapid_round buf (p + 64) (secret ! 2) seed) (\<lambda>seed.
      if i > 96 then rapid_round buf (p + 80) (secret ! 1) seed
      else Inr seed) else Inr seed) else Inr seed) else Inr seed) else Inr seed) else Inr seed)"

text \<open>\<open>compact\<close> says whether \<open>RAPIDHASH_COMPACT\<close> is defined.\<close>

definition rapidhash_internal :: "bool \<Rightarrow> u8 list \<Rightarrow> nat \<Rightarrow> u64 \<Rightarrow> u64 list \<Rightarrow> u64 checked" where
  "rapidhash_internal compact buf len seed secret =
     (let seed = rapid_start secret seed
      in if len \<le> 16 then
           and_then (rapid_short buf len seed) (\<lambda>r. Inr (rapid_finish secret len r))
         else
           and_then (rapid_bulk compact buf secret len seed) (\<lambda>(p, i, seed).
           and_then (rapid_tail buf secret p i seed) (\<lambda>seed.
           and_then (rapid_last buf p i seed) (\<lambda>r. Inr (rapid_finish secret i r)))))"

definition rapidhash_withSeed :: "bool \<Rightarrow> u8 list \<Rightarrow> nat \<Rightarrow> u64 \<Rightarrow> u64 checked" where
  "rapidhash_withSeed compact buf len seed = rapidhash_internal compact buf len seed rapid_secret"

definition rapidhash :: "bool \<Rightarrow> u8 list \<Rightarrow> nat \<Rightarrow> u64 checked" where
  "rapidhash compact buf len = rapidhash_withSeed compact buf len 0"

section \<open>The portable multiplication is the multiplication\<close>

lemma unat_u64_bound: "unat (x :: u64) < 2 ^ 64"
  using unsigned_less [of x, where ?'a = nat] by simp

lemma unat_add_carry:
  fixes x y :: u64
  shows "unat x + unat y = unat (x + y) + 2 ^ 64 * unat (if x + y < x then 1 else 0 :: u64)"
proof (cases "unat x + unat y < 2 ^ 64")
  case True
  then have "unat (x + y) = unat x + unat y" by (simp add: unat_word_ariths)
  then show ?thesis by (simp add: word_less_nat_alt)
next
  case False
  have b: "unat x < 2 ^ 64" "unat y < 2 ^ 64" using unat_u64_bound [of x] unat_u64_bound [of y] by simp_all
  then have "unat (x + y) = unat x + unat y - 2 ^ 64" using False
    by (simp add: unat_word_ariths le_mod_geq)
  then show ?thesis using False b by (simp add: word_less_nat_alt)
qed

lemma unat_push_32: "unat (push_bit 32 (x :: u64)) = unat x mod 2 ^ 32 * 2 ^ 32"
proof -
  have "unat (push_bit 32 x) = unat x * 2 ^ 32 mod (2 ^ 32 * 2 ^ 32)"
    by (simp add: push_bit_eq_mult unat_word_ariths)
  then show ?thesis by (simp only: mult_mod_left)
qed

lemma unat_drop_32: "unat (drop_bit 32 (x :: u64)) = unat x div 2 ^ 32"
  by (simp add: drop_bit_eq_div unat_div_distrib)

lemma unat_low_32: "unat (ucast (ucast (x :: u64) :: u32) :: u64) = unat x mod 2 ^ 32"
  by (simp add: unsigned_ucast_eq take_bit_eq_mod unat_mod_distrib)

lemma unat_mult_small:
  assumes "unat (x :: u64) < 2 ^ 32" "unat y < 2 ^ 32"
  shows "unat (x * y) = unat x * unat y"
proof -
  have "unat x * unat y \<le> (2 ^ 32 - 1) * (2 ^ 32 - 1)" using assms by (intro mult_mono) auto
  then show ?thesis by (simp add: unat_word_ariths)
qed

lemma mum_words: "rapid_mum A B = (A * B, word_of_nat (unat A * unat B div 2 ^ 64))"
proof -
  have "unat A * unat B < 2 ^ 64 * 2 ^ 64"
    by (intro mult_strict_mono) (use unat_u64_bound [of A] unat_u64_bound [of B] in simp_all)
  moreover have "take_bit 128 (unat x) = unat x" for x :: u64
    using unat_u64_bound [of x] by (simp add: take_bit_nat_eq_self)
  ultimately have u: "unat ((ucast A :: 128 word) * ucast B) = unat A * unat B"
    by (simp add: unat_word_ariths unsigned_ucast_eq take_bit_nat_eq_self)
  have low: "unat (ucast r :: u64) = unat r mod 2 ^ 64" for r :: "128 word"
    by (simp add: unsigned_ucast_eq take_bit_eq_mod)
  have high: "unat (drop_bit 64 r) = unat r div 2 ^ 64" for r :: "128 word"
    by (simp add: drop_bit_eq_div unat_div_distrib)
  have "(ucast ((ucast A :: 128 word) * ucast B) :: u64) = A * B"
    unfolding word_unat_eq_iff low u by (simp add: unat_word_ariths)
  moreover have "(ucast (drop_bit 64 ((ucast A :: 128 word) * ucast B)) :: u64) =
      word_of_nat (unat A * unat B div 2 ^ 64)"
    unfolding word_unat_eq_iff low high u by (simp add: unat_of_nat take_bit_eq_mod)
  ultimately show ?thesis by (simp add: rapid_mum_def Let_def)
qed

text \<open>The intrinsics are documented as the halves of the product; then the branches agree.\<close>

lemma rapid_mum_msvc_eq:
  assumes "\<forall>A B. umulh A B = word_of_nat (unat A * unat B div 2 ^ 64)"
    and "\<forall>A B. umul128 A B = (A * B, umulh A B)"
  shows "rapid_mum_msvc umulh A B = rapid_mum A B" "rapid_mum_msvc_x64 umul128 A B = rapid_mum A B"
  using assms by (simp_all add: rapid_mum_msvc_def rapid_mum_msvc_x64_def mum_words)

lemma mum_carries:
  fixes P rh m0 m1 rl t lo c d :: nat
  assumes "P = rh * 2 ^ 64 + (m0 + m1) * 2 ^ 32 + rl" "m0 = q0 * 2 ^ 32 + r0" "m1 = q1 * 2 ^ 32 + r1"
    "rl + r0 * 2 ^ 32 = t + 2 ^ 64 * c" "t + r1 * 2 ^ 32 = lo + 2 ^ 64 * d"
  shows "P = (rh + q0 + q1 + (c + d)) * 2 ^ 64 + lo"
  using assms by simp

lemma rapid_mum_portable_eq: "rapid_mum_portable A B = rapid_mum A B"
proof -
  define ha hb la lb where w: "ha = drop_bit 32 A" "hb = drop_bit 32 B"
    "la = (ucast (ucast A :: u32) :: u64)" "lb = (ucast (ucast B :: u32) :: u64)"
  have n: "unat ha = unat A div 2 ^ 32" "unat hb = unat B div 2 ^ 32"
    "unat la = unat A mod 2 ^ 32" "unat lb = unat B mod 2 ^ 32"
    by (simp_all only: w unat_drop_32 unat_low_32)
  have "unat A < 2 ^ 32 * 2 ^ 32" "unat B < 2 ^ 32 * 2 ^ 32"
    using unat_u64_bound [of A] unat_u64_bound [of B] by simp_all
  then have b: "unat ha < 2 ^ 32" "unat hb < 2 ^ 32" "unat la < 2 ^ 32" "unat lb < 2 ^ 32"
    unfolding n by (intro less_mult_imp_div_less, simp)+ simp_all
  define rh rm0 rm1 rl where r: "rh = ha * hb" "rm0 = ha * lb" "rm1 = hb * la" "rl = la * lb"
  define t where "t = rl + push_bit 32 rm0"
  define c where "c = (if t < rl then 1 else 0 :: u64)"
  define lo where "lo = t + push_bit 32 rm1"
  define d where "d = (if lo < t then 1 else 0 :: u64)"
  define hi where "hi = rh + drop_bit 32 rm0 + drop_bit 32 rm1 + (c + d)"
  have port: "rapid_mum_portable A B = (lo, hi)"
    by (simp add: rapid_mum_portable_def Let_def lo_def hi_def c_def d_def t_def r w)
  have ur: "unat rh = unat ha * unat hb" "unat rm0 = unat ha * unat lb"
    "unat rm1 = unat hb * unat la" "unat rl = unat la * unat lb"
    unfolding r using b by (simp_all only: unat_mult_small)
  have s1: "unat rl + unat rm0 mod 2 ^ 32 * 2 ^ 32 = unat t + 2 ^ 64 * unat c"
    using unat_add_carry [of rl "push_bit 32 rm0"] unfolding t_def [symmetric] c_def [symmetric]
    by (simp only: unat_push_32)
  have s2: "unat t + unat rm1 mod 2 ^ 32 * 2 ^ 32 = unat lo + 2 ^ 64 * unat d"
    using unat_add_carry [of t "push_bit 32 rm1"] unfolding lo_def [symmetric] d_def [symmetric]
    by (simp only: unat_push_32)
  let ?H = "unat rh + unat rm0 div 2 ^ 32 + unat rm1 div 2 ^ 32 + (unat c + unat d)"
  have A: "unat A = unat ha * 2 ^ 32 + unat la" "unat B = unat hb * 2 ^ 32 + unat lb"
    unfolding n by (simp_all only: div_mult_mod_eq)
  have "unat A * unat B = unat rh * 2 ^ 64 + (unat rm0 + unat rm1) * 2 ^ 32 + unat rl"
    unfolding A ur by (simp add: algebra_simps)
  then have prod: "unat A * unat B = ?H * 2 ^ 64 + unat lo"
    by (rule mum_carries [OF _ _ _ s1 s2]) (rule div_mult_mod_eq [symmetric])+
  have lob: "unat lo < 2 ^ 64" using unat_u64_bound [of lo] by simp
  have H: "unat A * unat B div 2 ^ 64 = ?H"
    unfolding prod using lob by simp
  have "unat lo = unat A * unat B mod 2 ^ 64"
    by (simp only: prod mod_mult_self3 mod_less [OF lob])
  then have "lo = A * B" by (simp add: word_unat_eq_iff unat_word_ariths del: unat_inject)
  moreover have "hi = word_of_nat ?H"
    unfolding hi_def by (simp del: of_nat_div add: unat_drop_32 [symmetric, simplified])
  ultimately show ?thesis by (simp only: port mum_words H)
qed

section \<open>No read leaves the buffer\<close>

lemma read64_ok: "p + 8 \<le> length buf \<Longrightarrow> returns (rapid_read64 buf p)"
  by (simp add: rapid_read64_def bytes_at_def)

lemma read32_ok: "p + 4 \<le> length buf \<Longrightarrow> returns (rapid_read32 buf p)"
  by (simp add: rapid_read32_def bytes_at_def)

lemma round_ok: "p + 16 \<le> length buf \<Longrightarrow> returns (rapid_round buf p s acc)"
  unfolding rapid_round_def by (intro returns_intros read64_ok) auto

lemma short_ok: "len \<le> length buf \<Longrightarrow> returns (rapid_short buf len seed)"
  unfolding rapid_short_def Let_def
  by (auto intro!: returns_intros read64_ok read32_ok)

lemma last_ok: "16 < p + i \<Longrightarrow> p + i \<le> length buf \<Longrightarrow> returns (rapid_last buf p i seed)"
  unfolding rapid_last_def by (intro returns_intros read64_ok) auto

lemma micro_body_ok: "p + 80 \<le> length buf \<Longrightarrow> returns (micro_body buf secret p s)"
  unfolding micro_body_def by (cases s) (auto intro!: returns_intros round_ok)

lemma micro_loop_ok:
  "p + i \<le> length buf \<Longrightarrow> \<exists>p' i' s'. micro_loop buf secret p i s = Inr (p', i', s') \<and> p' + i' = p + i"
proof (induction buf secret p i s rule: micro_loop.induct)
  case (1 buf secret p i s)
  show ?case
  proof (cases "80 < i")
    case True
    then obtain s1 where "micro_body buf secret p s = Inr s1"
      using micro_body_ok [of p buf secret s] 1(2) by (auto simp: returns_def)
    then show ?thesis
      using 1(1) [OF True, of s1] 1(2) True by (simp add: micro_loop.simps [of buf secret p i s])
  next
    case False
    then show ?thesis
      using 1(2) by (intro exI [of _ p] exI [of _ i] exI [of _ s]) (simp add: micro_loop.simps)
  qed
qed

lemma micro_tail_ok: "p + i \<le> length buf \<Longrightarrow> returns (micro_tail buf secret p i seed)"
  unfolding micro_tail_def by (auto intro!: returns_intros round_ok)

lemma micro_bulk_ok:
  assumes "len \<le> length buf"
  obtains p i s where "micro_bulk buf secret len seed = Inr (p, i, s)" "p + i = len"
proof (cases "80 < len")
  case True
  then show ?thesis
    using micro_loop_ok [of 0 len buf secret "(seed, seed, seed, seed, seed)"] assms that
    by (fastforce simp: micro_bulk_def Let_def)
qed (use that assms in \<open>simp add: micro_bulk_def\<close>)

lemma rapidhashMicro_ok:
  assumes "len \<le> length buf"
  shows "returns (rapidhashMicro_internal buf len seed secret)"
proof -
  let ?seed = "rapid_start secret seed"
  have "returns (rapidhashMicro_internal buf len seed secret)"
  proof (cases "len \<le> 16")
    case True
    then show ?thesis
      using assms
      by (auto simp: rapidhashMicro_internal_def Let_def intro!: returns_intros short_ok)
  next
    case False
    obtain p i s where b: "micro_bulk buf secret len ?seed = Inr (p, i, s)" "p + i = len"
      using assms by (rule micro_bulk_ok)
    have "16 < p + i" "p + i \<le> length buf" using False assms b(2) by simp_all
    then show ?thesis
      unfolding rapidhashMicro_internal_def Let_def b and_then_simps prod.case
      using False b(2) by (auto intro!: returns_intros micro_tail_ok last_ok)
  qed
  then show ?thesis .
qed

lemma nano_body_ok: "p + 48 \<le> length buf \<Longrightarrow> returns (nano_body buf secret p s)"
  unfolding nano_body_def by (cases s) (auto intro!: returns_intros round_ok)

lemma nano_loop_ok:
  "p + i \<le> length buf \<Longrightarrow> \<exists>p' i' s'. nano_loop buf secret p i s = Inr (p', i', s') \<and> p' + i' = p + i"
proof (induction buf secret p i s rule: nano_loop.induct)
  case (1 buf secret p i s)
  show ?case
  proof (cases "48 < i")
    case True
    then obtain s1 where "nano_body buf secret p s = Inr s1"
      using nano_body_ok [of p buf secret s] 1(2) by (auto simp: returns_def)
    then show ?thesis
      using 1(1) [OF True, of s1] 1(2) True by (simp add: nano_loop.simps [of buf secret p i s])
  next
    case False
    then show ?thesis
      using 1(2) by (intro exI [of _ p] exI [of _ i] exI [of _ s]) (simp add: nano_loop.simps)
  qed
qed

lemma nano_tail_ok: "p + i \<le> length buf \<Longrightarrow> returns (nano_tail buf secret p i seed)"
  unfolding nano_tail_def by (auto intro!: returns_intros round_ok)

lemma nano_bulk_ok:
  assumes "len \<le> length buf"
  obtains p i s where "nano_bulk buf secret len seed = Inr (p, i, s)" "p + i = len"
proof (cases "48 < len")
  case True
  then show ?thesis
    using nano_loop_ok [of 0 len buf secret "(seed, seed, seed)"] assms that
    by (fastforce simp: nano_bulk_def Let_def)
qed (use that assms in \<open>simp add: nano_bulk_def\<close>)

lemma rapidhashNano_ok:
  assumes "len \<le> length buf"
  shows "returns (rapidhashNano_internal buf len seed secret)"
proof -
  let ?seed = "rapid_start secret seed"
  have "returns (rapidhashNano_internal buf len seed secret)"
  proof (cases "len \<le> 16")
    case True
    then show ?thesis
      using assms
      by (auto simp: rapidhashNano_internal_def Let_def intro!: returns_intros short_ok)
  next
    case False
    obtain p i s where b: "nano_bulk buf secret len ?seed = Inr (p, i, s)" "p + i = len"
      using assms by (rule nano_bulk_ok)
    have "16 < p + i" "p + i \<le> length buf" using False assms b(2) by simp_all
    then show ?thesis
      unfolding rapidhashNano_internal_def Let_def b and_then_simps prod.case
      using False b(2) by (auto intro!: returns_intros nano_tail_ok last_ok)
  qed
  then show ?thesis .
qed

section \<open>The unrolled loop is the compact loop\<close>

lemma rapid_seven_ok: "p + 112 \<le> length buf \<Longrightarrow> returns (rapid_seven buf secret p s)"
  unfolding rapid_seven_def by (cases s) (auto intro!: returns_intros round_ok)

lemma compact_loop_ok:
  "p + i \<le> length buf \<Longrightarrow>
   \<exists>p' i' s'. rapid_compact_loop buf secret p i s = Inr (p', i', s') \<and> p' + i' = p + i"
proof (induction buf secret p i s rule: rapid_compact_loop.induct)
  case (1 buf secret p i s)
  show ?case
  proof (cases "112 < i")
    case True
    then obtain s1 where "rapid_seven buf secret p s = Inr s1"
      using rapid_seven_ok [of p buf secret s] 1(2) by (auto simp: returns_def)
    then show ?thesis
      using 1(1) [OF True, of s1] 1(2) True by (simp add: rapid_compact_loop.simps [of buf secret p i s])
  next
    case False
    then show ?thesis
      using 1(2) by (intro exI [of _ p] exI [of _ i] exI [of _ s]) (simp add: rapid_compact_loop.simps)
  qed
qed

lemma compact_step:
  "112 < i \<Longrightarrow> rapid_compact_loop buf secret p i s =
     and_then (rapid_seven buf secret p s) (rapid_compact_loop buf secret (p + 112) (i - 112))"
  by (simp add: rapid_compact_loop.simps [of buf secret p i s])

lemma compact_stop: "i \<le> 112 \<Longrightarrow> rapid_compact_loop buf secret p i = (\<lambda>s. Inr (p, i, s))"
  by (intro ext) (simp add: rapid_compact_loop.simps)

lemma unrolled_loop_eq: "rapid_unrolled_loop buf secret p i s = rapid_compact_loop buf secret p i s"
proof (induction buf secret p i s rule: rapid_unrolled_loop.induct)
  case (1 buf secret p i s)
  consider "224 < i" | "112 < i" "i \<le> 224" | "i \<le> 112" by linarith
  then show ?case
  proof cases
    case one: 1
    have pos: "p + 112 + 112 = p + 224" "i - 112 - 112 = i - 224" by simp_all
    have "rapid_compact_loop buf secret (p + 112) (i - 112) = (\<lambda>s1.
        and_then (rapid_seven buf secret (p + 112) s1) (rapid_compact_loop buf secret (p + 224) (i - 224)))"
      using one compact_step [of "i - 112" buf secret "p + 112"] by (intro ext) (simp add: pos)
    moreover have "rapid_unrolled_loop buf secret (p + 224) (i - 224) =
        rapid_compact_loop buf secret (p + 224) (i - 224)"
      using 1(1) [OF one] by (intro ext)
    ultimately show ?thesis
      using one by (simp add: rapid_unrolled_loop.simps [of buf secret p i s] compact_step)
  next
    case 2
    then show ?thesis
      by (simp add: rapid_unrolled_loop.simps [of buf secret p i s] compact_step compact_stop)
  next
    case 3
    then show ?thesis
      by (simp add: rapid_unrolled_loop.simps [of buf secret p i s] compact_stop)
  qed
qed

lemma rapidhash_internal_compact:
  "rapidhash_internal compact buf len seed secret = rapidhash_internal True buf len seed secret"
proof -
  have "rapid_bulk compact = rapid_bulk True"
    by (intro ext) (simp add: rapid_bulk_def unrolled_loop_eq)
  then show ?thesis by (simp only: rapidhash_internal_def)
qed

lemma rapid_tail_ok: "p + i \<le> length buf \<Longrightarrow> returns (rapid_tail buf secret p i seed)"
  unfolding rapid_tail_def by (auto intro!: returns_intros round_ok)

lemma rapid_bulk_ok:
  assumes "len \<le> length buf"
  obtains p i s where "rapid_bulk True buf secret len seed = Inr (p, i, s)" "p + i = len"
proof (cases "112 < len")
  case True
  then show ?thesis
    using compact_loop_ok [of 0 len buf secret "(seed, seed, seed, seed, seed, seed, seed)"] assms that
    by (fastforce simp: rapid_bulk_def Let_def)
qed (use that assms in \<open>simp add: rapid_bulk_def\<close>)

lemma rapidhash_ok:
  assumes "len \<le> length buf"
  shows "returns (rapidhash_internal compact buf len seed secret)"
proof -
  let ?seed = "rapid_start secret seed"
  have "returns (rapidhash_internal True buf len seed secret)"
  proof (cases "len \<le> 16")
    case True
    then show ?thesis
      using assms
      by (auto simp: rapidhash_internal_def Let_def intro!: returns_intros short_ok)
  next
    case False
    obtain p i s where b: "rapid_bulk True buf secret len ?seed = Inr (p, i, s)" "p + i = len"
      using assms by (rule rapid_bulk_ok)
    have "16 < p + i" "p + i \<le> length buf" using False assms b(2) by simp_all
    then show ?thesis
      unfolding rapidhash_internal_def Let_def b and_then_simps prod.case
      using False b(2) by (auto intro!: returns_intros rapid_tail_ok last_ok)
  qed
  then show ?thesis by (simp only: rapidhash_internal_compact [of compact])
qed

section \<open>A swapped big-endian load is a little-endian load\<close>

lemma byte_masks:
  "(0xff :: u64) = push_bit 0 (mask 8)" "(0xff00 :: u64) = push_bit 8 (mask 8)"
  "(0xff0000 :: u64) = push_bit 16 (mask 8)" "(0xff000000 :: u64) = push_bit 24 (mask 8)"
  "(0xff00000000 :: u64) = push_bit 32 (mask 8)" "(0xff0000000000 :: u64) = push_bit 40 (mask 8)"
  "(0xff000000000000 :: u64) = push_bit 48 (mask 8)" "(0xff00000000000000 :: u64) = push_bit 56 (mask 8)"
  by (simp_all add: mask_eq_exp_minus_1 push_bit_eq_mult)

lemma bit_load_le: "bit (load_le bs) n \<longleftrightarrow> n < 64 \<and> n div 8 < length bs \<and> bit (bs ! (n div 8)) (n mod 8)"
proof (induction bs arbitrary: n)
  case (Cons b bs)
  show ?case
  proof (cases "n < 8")
    case True
    then show ?thesis by (simp add: bit_simps)
  next
    case False
    then have "n div 8 = Suc ((n - 8) div 8)" "n mod 8 = (n - 8) mod 8"
      by (simp_all add: le_div_geq le_mod_geq)
    moreover have "bit b n = False" using False by (auto dest: bit_imp_le_length)
    ultimately show ?thesis using False Cons [of "n - 8"] by (auto simp: bit_simps)
  qed
qed simp

lemma bit_byte_mask: "bit (x AND push_bit k (mask 8)) (8 * q + r) \<longleftrightarrow> k = 8 * q \<and> bit x (8 * q + r)"
  if "8 * q + r < LENGTH('a)" "r < 8" "k mod 8 = 0" for x :: "'a::len word"
proof -
  have "k \<le> 8 * q + r \<and> 8 * q + r - k < 8 \<longleftrightarrow> k = 8 * q"
    using that by presburger
  then show ?thesis using that by (auto simp: bit_simps)
qed

lemma swapped_eq:
  assumes "length bs = 8"
  defines "v \<equiv> load_be bs"
  shows "(drop_bit 56 v AND 0xff) OR (drop_bit 40 v AND 0xff00) OR (drop_bit 24 v AND 0xff0000)
          OR (drop_bit 8 v AND 0xff000000) OR (push_bit 8 v AND 0xff00000000)
          OR (push_bit 24 v AND 0xff0000000000) OR (push_bit 40 v AND 0xff000000000000)
          OR (push_bit 56 v AND 0xff00000000000000) = load_le bs"
proof (rule bit_word_eqI)
  fix n assume "n < LENGTH(64)"
  then have n: "n < 64" by simp
  define q r where "q = n div 8" "r = n mod 8"
  then have qr: "n = 8 * q + r" "q < 8" "r < 8" using n by simp_all
  have v: "bit v m \<longleftrightarrow> m < 64 \<and> bit (bs ! (7 - m div 8)) (m mod 8)" for m
    using assms(1) by (auto simp: v_def load_be_def bit_load_le rev_nth)
  have "bit (load_le bs) n = bit (bs ! q) r"
    using assms(1) qr by (simp add: bit_load_le)
  moreover have c: "bit (x AND push_bit k (mask 8)) n \<longleftrightarrow> k = 8 * q \<and> bit x n"
    if "k mod 8 = 0" for k and x :: u64
    using bit_byte_mask [OF _ qr(3) that, of q x] n qr(1) by simp
  have ks: "(0::nat) mod 8 = 0" "(8::nat) mod 8 = 0" "(16::nat) mod 8 = 0" "(24::nat) mod 8 = 0"
    "(32::nat) mod 8 = 0" "(40::nat) mod 8 = 0" "(48::nat) mod 8 = 0" "(56::nat) mod 8 = 0"
    by simp_all
  have w: "(8 * j + r) div 8 = j" "(8 * j + r) mod 8 = r" for j using qr(3) by simp_all
  moreover have "q = 0 \<or> q = 1 \<or> q = 2 \<or> q = 3 \<or> q = 4 \<or> q = 5 \<or> q = 6 \<or> q = 7"
    using qr(2) by linarith
  ultimately show "bit (drop_bit 56 v AND 0xff OR drop_bit 40 v AND 0xff00 OR drop_bit 24 v AND 0xff0000
          OR (drop_bit 8 v AND 0xff000000) OR (push_bit 8 v AND 0xff00000000)
          OR (push_bit 24 v AND 0xff0000000000) OR (push_bit 40 v AND 0xff000000000000)
          OR (push_bit 56 v AND 0xff00000000000000)) n = bit (load_le bs) n"
    using n qr(3) unfolding byte_masks bit_or_iff c [OF ks(1)] c [OF ks(2)] c [OF ks(3)] c [OF ks(4)]
      c [OF ks(5)] c [OF ks(6)] c [OF ks(7)] c [OF ks(8)]
    by (elim disjE) (simp_all add: bit_simps v qr(1) w(1) [of 1, simplified] w [of 2, simplified]
      w [of 3, simplified] w [of 4, simplified] w [of 5, simplified] w [of 6, simplified]
      w [of 7, simplified])
qed

lemma byte_masks_32:
  "(0xff :: u32) = push_bit 0 (mask 8)" "(0xff00 :: u32) = push_bit 8 (mask 8)"
  "(0xff0000 :: u32) = push_bit 16 (mask 8)" "(0xff000000 :: u32) = push_bit 24 (mask 8)"
  by (simp_all add: mask_eq_exp_minus_1 push_bit_eq_mult)

lemma swapped_eq_32:
  assumes "length bs = 4"
  defines "v \<equiv> ucast (load_be bs) :: u32"
  shows "ucast ((drop_bit 24 v AND 0xff) OR (drop_bit 8 v AND 0xff00)
          OR (push_bit 8 v AND 0xff0000) OR (push_bit 24 v AND 0xff000000)) = load_le bs"
    (is "ucast ?w = _")
proof (rule bit_word_eqI)
  fix n assume "n < LENGTH(64)"
  define q r where "q = n div 8" "r = n mod 8"
  then have qr: "n = 8 * q + r" "r < 8" by simp_all
  have v: "bit v m \<longleftrightarrow> m < 32 \<and> bit (bs ! (3 - m div 8)) (m mod 8)" for m
    using assms(1) by (auto simp: v_def load_be_def bit_load_le rev_nth bit_simps)
  have w: "(8 * j + r) div 8 = j" "(8 * j + r) mod 8 = r" for j using qr(2) by simp_all
  show "bit (ucast ?w :: u64) n = bit (load_le bs) n"
  proof (cases "n < 32")
    case False
    then show ?thesis using assms(1) by (auto simp: bit_load_le bit_unsigned_iff dest: bit_imp_le_length)
  next
    case True
    have c: "bit (x AND push_bit k (mask 8)) n \<longleftrightarrow> k = 8 * q \<and> bit x n" if "k mod 8 = 0" for k and x :: u32
      using bit_byte_mask [OF _ qr(2) that, of q x] True qr(1) by simp
    have ks: "(0::nat) mod 8 = 0" "(8::nat) mod 8 = 0" "(16::nat) mod 8 = 0" "(24::nat) mod 8 = 0" by simp_all
    have "bit (load_le bs) n = bit (bs ! q) r" using True assms(1) qr by (simp add: bit_load_le)
    moreover have "q = 0 \<or> q = 1 \<or> q = 2 \<or> q = 3" using True qr by linarith
    ultimately have "bit ?w n = bit (load_le bs) n"
      using True qr(2) unfolding byte_masks_32 bit_or_iff c [OF ks(1)] c [OF ks(2)] c [OF ks(3)] c [OF ks(4)]
      by (elim disjE) (simp_all add: bit_simps v qr(1) w(1) [of 1, simplified] w [of 2, simplified] w [of 3, simplified])
    then show ?thesis using True by (simp add: bit_unsigned_iff)
  qed
qed

lemma rapid_read32_swapped_eq: "rapid_read32_swapped buf p = rapid_read32 buf p"
proof -
  have "length bs = 4" if "bytes_at buf p 4 = Inr bs" for bs
    using that by (auto simp: bytes_at_def split: if_splits)
  then show ?thesis
    using swapped_eq_32
    by (cases "bytes_at buf p 4") (simp_all add: rapid_read32_swapped_def rapid_read32_def Let_def)
qed

lemma rapid_read64_swapped_eq: "rapid_read64_swapped buf p = rapid_read64 buf p"
proof -
  have "length bs = 8" if "bytes_at buf p 8 = Inr bs" for bs
    using that by (auto simp: bytes_at_def split: if_splits)
  then show ?thesis
    using swapped_eq
    by (cases "bytes_at buf p 8") (simp_all add: rapid_read64_swapped_def rapid_read64_def Let_def)
qed

lemma bytes_of_load:
  assumes "length bs \<le> 8"
  shows "map (\<lambda>i. ucast (drop_bit (8 * i) (load_le bs))) [0 ..< length bs] = bs"
proof (rule nth_equalityI)
  fix i assume "i < length (map (\<lambda>i. ucast (drop_bit (8 * i) (load_le bs)) :: u8) [0 ..< length bs])"
  then have i: "i < length bs" by simp
  have "ucast (drop_bit (8 * i) (load_le bs)) = bs ! i"
  proof (rule bit_word_eqI)
    fix n assume "n < LENGTH(8)"
    then have n: "n < 8" by simp
    have w: "(8 * i + n) div 8 = i" "(8 * i + n) mod 8 = n" "8 * i + n < 64" using n i assms by simp_all
    show "bit (ucast (drop_bit (8 * i) (load_le bs)) :: u8) n = bit (bs ! i) n"
      using n i w by (simp add: bit_simps bit_load_le)
  qed
  then show "map (\<lambda>i. ucast (drop_bit (8 * i) (load_le bs)) :: u8) [0 ..< length bs] ! i = bs ! i" using i by simp
qed simp

lemma byte_swap_load: "length bs = n \<Longrightarrow> n \<le> 8 \<Longrightarrow> byte_swap n (load_be bs) = load_le bs"
  using bytes_of_load [of "rev bs"] by (simp add: byte_swap_def load_be_def)

lemma rapid_read_bswap_eq:
  "rapid_read64_bswap buf p = rapid_read64 buf p" "rapid_read32_bswap buf p = rapid_read32 buf p"
proof -
  have "length bs = n" if "bytes_at buf p n = Inr bs" for bs n
    using that by (auto simp: bytes_at_def split: if_splits)
  note l = this [THEN byte_swap_load]
  show "rapid_read64_bswap buf p = rapid_read64 buf p"
    using l by (cases "bytes_at buf p 8") (simp_all add: rapid_read64_bswap_def rapid_read64_def)
  show "rapid_read32_bswap buf p = rapid_read32 buf p"
    using l by (cases "bytes_at buf p 4") (simp_all add: rapid_read32_bswap_def rapid_read32_def)
qed

end
