(* ===== verification/Str_Htable.thy ===== *)
theory Str_Htable
  imports Htable_Delete Rapidhash
begin

text \<open>
  \<open>src/src/hash/str_htable.c\<close> and \<open>str_htable.h\<close>: the table with C strings as keys, compared with
  \<open>strcmp\<close>, copied with \<open>strdup\<close>, hashed with \<open>rapidhashMicro\<close>. A key is the contents of a
  string, the bytes before its terminator.
\<close>

section \<open>C strings\<close>

typedef cstr = "{bs :: u8 list. 0 \<notin> set bs}"
  morphisms bytes_of cstr_of
  by (rule exI [of _ "[]"]) simp

text \<open>The array a string lies in, its terminator included.\<close>

definition terminated :: "cstr \<Rightarrow> u8 list" where
  "terminated s = bytes_of s @ [0]"

text \<open>\<open>strlen\<close> and \<open>strcmp\<close> of the C library, on arrays with a terminator.\<close>

fun strlen :: "u8 list \<Rightarrow> nat" where
  "strlen [] = 0"
| "strlen (b # bs) = (if b = 0 then 0 else Suc (strlen bs))"

fun strcmp :: "u8 list \<Rightarrow> u8 list \<Rightarrow> int" where
  "strcmp (x # xs) (y # ys) =
     (if x \<noteq> y then uint x - uint y else if x = 0 then 0 else strcmp xs ys)"
| "strcmp _ _ = 0"

lemma bytes_of_nonzero: "b \<in> set (bytes_of s) \<Longrightarrow> b \<noteq> 0"
  using bytes_of [of s] by auto

lemma strlen_append_0: "0 \<notin> set bs \<Longrightarrow> strlen (bs @ [0]) = length bs"
  by (induction bs) auto

lemma strlen_terminated: "strlen (terminated s) = length (bytes_of s)"
  using bytes_of [of s] by (simp add: terminated_def strlen_append_0)

lemma strcmp_append_0:
  "0 \<notin> set xs \<Longrightarrow> 0 \<notin> set ys \<Longrightarrow> strcmp (xs @ [0]) (ys @ [0]) = 0 \<longleftrightarrow> xs = ys"
proof (induction xs arbitrary: ys)
  case Nil
  then show ?case by (cases ys) (auto simp: word_uint_eq_iff)
next
  case (Cons x xs)
  then show ?case by (cases ys) (auto simp: word_uint_eq_iff)
qed

lemma strcmp_terminated: "strcmp (terminated a) (terminated b) = 0 \<longleftrightarrow> a = b"
  using bytes_of [of a] bytes_of [of b]
  by (simp add: terminated_def strcmp_append_0 bytes_of_inject)

section \<open>The key macros\<close>

lemma rapidhashMicro_terminated: "returns (rapidhashMicro (terminated k) (strlen (terminated k)))"
  unfolding rapidhashMicro_def rapidhashMicro_withSeed_def
  by (rule rapidhashMicro_ok) (simp only: strlen_terminated, simp add: terminated_def)

text \<open>\<open>rapidhashMicro\<close> always returns (\<open>rapidhashMicro_terminated\<close>); the other case is unused.\<close>

definition str_htable_key_hash :: "cstr \<Rightarrow> u64" where
  "str_htable_key_hash k =
     (case rapidhashMicro (terminated k) (strlen (terminated k)) of Inr h \<Rightarrow> h | Inl _ \<Rightarrow> 0)"

definition str_ops :: "cstr ht_key_ops" where
  "str_ops = \<lparr>
     HT_KEY_HASH_CB = str_htable_key_hash,
     HT_KEY_EQUAL_CB = (\<lambda>key1 key2. strcmp (terminated key1) (terminated key2) = 0),
     HT_KEY_DUP_CB = (\<lambda>granted k. if granted then Some k else None),
     HT_KEY_FREE_CB = (\<lambda>k. [k])\<rparr>"

interpretation str_ht: ht_key str_ops
  by unfold_locales (simp_all add: str_ops_def strcmp_terminated split: if_splits)

section \<open>String literals\<close>

definition c_string :: "string \<Rightarrow> cstr" where
  "c_string s = cstr_of (map of_char s)"

lemma of_char_byte: "(of_char c :: u8) = of_char d \<longleftrightarrow> c = d"
proof
  assume "(of_char c :: u8) = of_char d"
  then have "unat (of_nat (of_char c) :: u8) = unat (of_nat (of_char d) :: u8)"
    by (simp only: of_nat_of_char)
  then have "(of_char c :: nat) = of_char d"
    using nat_of_char_less_256 [of c] nat_of_char_less_256 [of d] by (simp add: unat_of_nat)
  then show "c = d" by simp
qed simp

text \<open>Literals without a zero byte are equal strings only if they are the same text.\<close>

lemma c_string_eq_iff [simp]:
  assumes "CHR 0x00 \<notin> set s" "CHR 0x00 \<notin> set s'"
  shows "c_string s = c_string s' \<longleftrightarrow> s = s'"
proof -
  have "0 \<notin> set (map of_char l :: u8 list)" if "CHR 0x00 \<notin> set l" for l
    using that of_char_byte [of _ "CHR 0x00"] by (auto simp: image_iff)
  moreover have "map of_char s = (map of_char s' :: u8 list) \<longleftrightarrow> s = s'"
    using inj_map_eq_map [of "of_char :: char \<Rightarrow> u8" s s'] by (simp add: inj_def of_char_byte)
  ultimately show ?thesis using assms by (simp add: c_string_def cstr_of_inject)
qed

end
