(* ===== verification/Htable_Map.thy ===== *)
theory Htable_Map
  imports Int_Htable Str_Htable "HOL-Library.Sublist"
begin

text \<open>
  What a client of the table relies on, as the locale \<open>map_store\<close>: a store that behaves as a finite
  map under any sequence of insertions, updates and deletions, whatever the allocator does. Every
  table whose key macros satisfy \<open>ht_key\<close> is such a store.
\<close>

section \<open>Sequences of operations\<close>

datatype ('k, 'v) ht_op = Op_set 'k 'v | Op_delete 'k

fun op_key :: "('k, 'v) ht_op \<Rightarrow> 'k" where
  "op_key (Op_set k v) = k"
| "op_key (Op_delete k) = k"

text \<open>Each call meets its own allocator; a call that fails is not the end of the sequence.\<close>

fun ht_run ::
  "'k ht_key_ops \<Rightarrow> (('k, 'v) ht_mem \<times> ('k, 'v option) ht_op) list \<Rightarrow> ('k, 'v) htable \<Rightarrow>
   ('k, 'v) htable checked"
where
  "ht_run ops [] t = Inr t"
| "ht_run ops ((m, Op_set k v) # cs) t =
     and_then (htable_set ops m t k v) (\<lambda>(ret, t'). ht_run ops cs t')"
| "ht_run ops ((m, Op_delete k) # cs) t =
     and_then (htable_delete ops m t k) (\<lambda>(d, freed, t'). ht_run ops cs t')"

text \<open>The specification: a finite map.\<close>

fun map_step :: "('k, 'd) ht_op \<Rightarrow> ('k \<Rightarrow> 'd option) \<Rightarrow> ('k \<Rightarrow> 'd option)" where
  "map_step (Op_set k d) f = f(k \<mapsto> d)"
| "map_step (Op_delete k) f = f(k := None)"

definition map_run :: "('k, 'd) ht_op list \<Rightarrow> ('k \<Rightarrow> 'd option) \<Rightarrow> ('k \<Rightarrow> 'd option)" where
  "map_run cs f = fold map_step cs f"

text \<open>An allocator that grants every request.\<close>

definition grants :: "('k, 'v) ht_mem \<Rightarrow> bool" where
  "grants m \<longleftrightarrow> (\<forall>n s. calloc_ok m n s) \<and> (\<forall>n. malloc_ok m n) \<and> (\<forall>n. realloc_ok m n) \<and> strdup_ok m"

lemma map_run_simps [simp]:
  "map_run [] f = f" "map_run (c # cs) f = map_run cs (map_step c f)"
  by (simp_all add: map_run_def)

lemma map_run_other: "k \<notin> op_key ` set cs \<Longrightarrow> map_run cs f k = f k"
proof (induction cs arbitrary: f)
  case (Cons c cs)
  then show ?case by (cases c) auto
qed simp

section \<open>The contract of a store\<close>

text \<open>
  \<open>holds n t f\<close> says that \<open>t\<close> is valid, has at most \<open>n\<close> keys, and stands for the map \<open>f\<close>; \<open>limit\<close>
  is the number of keys up to which insertion is promised to work.
\<close>

locale map_store =
  fixes holds :: "nat \<Rightarrow> 't \<Rightarrow> ('k \<Rightarrow> 'd option) \<Rightarrow> bool"
    and limit :: nat
    and granted :: "'m \<Rightarrow> bool"
    and perform :: "'m \<Rightarrow> ('k, 'd) ht_op \<Rightarrow> 't \<Rightarrow> 't checked"
    and lookup :: "'t \<Rightarrow> 'k \<Rightarrow> 'd option checked"
  assumes perform_ok: "holds n t f \<Longrightarrow> n < limit \<Longrightarrow>
      \<exists>t'. perform m c t = Inr t' \<and>
        (holds (Suc n) t' (map_step c f) \<or> \<not> granted m \<and> holds (Suc n) t' f)"
    and lookup_ok: "holds n t f \<Longrightarrow> lookup t k = Inr (f k)"

context map_store begin

text \<open>Running a sequence: the calls that took effect are a subsequence of it.\<close>

lemma run_ok:
  assumes "holds n t f" "n + length cs \<le> limit"
  shows "\<exists>t' dn. fold (\<lambda>(m, c) r. and_then r (perform m c)) cs (Inr t) = Inr t' \<and>
     holds (n + length cs) t' (map_run dn f) \<and> subseq dn (map snd cs) \<and>
     ((\<forall>m \<in> fst ` set cs. granted m) \<longrightarrow> dn = map snd cs)"
  using assms
proof (induction cs arbitrary: n t f)
  case Nil
  then show ?case by (intro exI [of _ t] exI [of _ "[]"]) simp
next
  case (Cons mc cs)
  obtain m c where mc: "mc = (m, c)" by (cases mc)
  have "n < limit" using Cons.prems(2) by simp
  then obtain t1 where t1: "perform m c t = Inr t1"
    "holds (Suc n) t1 (map_step c f) \<or> \<not> granted m \<and> holds (Suc n) t1 f"
    using perform_ok [OF Cons.prems(1)] by blast
  have run: "fold (\<lambda>(m, c) r. and_then r (perform m c)) (mc # cs) (Inr t) =
      fold (\<lambda>(m, c) r. and_then r (perform m c)) cs (Inr t1)"
    by (simp add: mc t1(1))
  have len: "Suc n + length cs \<le> limit" using Cons.prems(2) by simp
  from t1(2) show ?case
  proof
    assume "holds (Suc n) t1 (map_step c f)"
    from Cons.IH [OF this len] obtain t' dn where
      "fold (\<lambda>(m, c) r. and_then r (perform m c)) cs (Inr t1) = Inr t'"
      "holds (Suc n + length cs) t' (map_run dn (map_step c f))" "subseq dn (map snd cs)"
      "(\<forall>m \<in> fst ` set cs. granted m) \<longrightarrow> dn = map snd cs" by blast
    then show ?thesis unfolding run
      by (intro exI [of _ t'] exI [of _ "c # dn"]) (auto simp: mc)
  next
    assume skip: "\<not> granted m \<and> holds (Suc n) t1 f"
    from Cons.IH [OF conjunct2 [OF skip] len] obtain t' dn where
      "fold (\<lambda>(m, c) r. and_then r (perform m c)) cs (Inr t1) = Inr t'"
      "holds (Suc n + length cs) t' (map_run dn f)" "subseq dn (map snd cs)" by blast
    then show ?thesis unfolding run using skip
      by (intro exI [of _ t'] exI [of _ dn]) (auto simp: mc)
  qed
qed

text \<open>A key no call of the sequence names keeps its value, whatever the allocator does.\<close>

lemma run_frame:
  assumes "holds n t f" "n + length cs \<le> limit" "k \<notin> op_key ` snd ` set cs"
  shows "\<exists>t'. fold (\<lambda>(m, c) r. and_then r (perform m c)) cs (Inr t) = Inr t' \<and> lookup t' k = Inr (f k)"
proof -
  obtain t' dn where run: "fold (\<lambda>(m, c) r. and_then r (perform m c)) cs (Inr t) = Inr t'"
    "holds (n + length cs) t' (map_run dn f)" "subseq dn (map snd cs)"
    using run_ok [OF assms(1,2)] by blast
  moreover have "set dn \<subseteq> snd ` set cs" using list_emb_set [OF run(3)] by auto
  then have "k \<notin> op_key ` set dn" using assms(3) by auto
  ultimately show ?thesis using lookup_ok [OF run(2), of k] map_run_other by metis
qed

lemma run_granted:
  assumes "holds n t f" "n + length cs \<le> limit" "\<forall>m \<in> fst ` set cs. granted m"
  shows "\<exists>t'. fold (\<lambda>(m, c) r. and_then r (perform m c)) cs (Inr t) = Inr t' \<and>
     holds (n + length cs) t' (map_run (map snd cs) f) \<and>
     (\<forall>k. lookup t' k = Inr (map_run (map snd cs) f k))"
  using run_ok [OF assms(1,2)] assms(3) lookup_ok by blast

end

section \<open>The table is a store\<close>

definition ht_holds ::
  "'k ht_key_ops \<Rightarrow> nat \<Rightarrow> ('k, 'v) htable \<Rightarrow> ('k \<Rightarrow> 'v option option) \<Rightarrow> bool"
where
  "ht_holds ops n t f \<longleftrightarrow> ht_inv ops t \<and> ht_count t \<le> n \<and> f = map_of (ht_alist t)"

definition ht_limit :: nat where
  "ht_limit = 3 * 2 ^ 29 - 2"

definition ht_perform ::
  "'k ht_key_ops \<Rightarrow> ('k, 'v) ht_mem \<Rightarrow> ('k, 'v option) ht_op \<Rightarrow> ('k, 'v) htable \<Rightarrow>
   ('k, 'v) htable checked"
where
  "ht_perform ops m c t = ht_run ops [(m, c)] t"

definition ht_lookup ::
  "'k ht_key_ops \<Rightarrow> ('k, 'v) htable \<Rightarrow> 'k \<Rightarrow> 'v option option checked"
where
  "ht_lookup ops t k =
     and_then (htable_get_with_flag ops t k) (\<lambda>(d, flag). Inr (if flag then Some d else None))"

lemma holds_map: "ht_holds ops n t f \<Longrightarrow> f = map_of (ht_alist t)"
  by (simp add: ht_holds_def)

lemma ht_run_perform: "ht_run ops cs t = fold (\<lambda>(m, c) r. and_then r (ht_perform ops m c)) cs (Inr t)"
proof -
  have step: "ht_run ops ((m, c) # cs) t = and_then (ht_perform ops m c t) (ht_run ops cs)" for m c cs t
    by (cases c) (simp_all add: ht_perform_def and_then_assoc split_def)
  have "fold (\<lambda>(m, c) r. and_then r (ht_perform ops m c)) cs (Inl e) = Inl e" for cs e
    by (induction cs) auto
  note stuck = this
  show ?thesis
  proof (induction cs arbitrary: t)
    case (Cons mc cs)
    obtain m c where "mc = (m, c)" by (cases mc)
    then show ?case using step [of m c cs t] Cons by (cases "ht_perform ops m c t") (simp_all add: stuck)
  qed simp
qed

lemma inv_count: "ht_inv ops t \<Longrightarrow> ht_count t = length (ht_alist t)"
  by (auto simp: ht_inv_def rep_alist pairs_of_def rep_count)

lemma delete_update_new: "k \<notin> fst ` set xs \<Longrightarrow> AList.delete k (AList.update k v xs) = xs"
  by (induction xs) auto

lemma inv_distinct: "ht_inv ops t \<Longrightarrow> distinct (map fst (ht_alist t))"
  by (auto simp: ht_inv_def dest: rep_alist_distinct)

lemma htable_create_granted: "grants m \<Longrightarrow> htable_create m cap \<noteq> Inr None"
  by (auto simp: htable_create_def grants_def Let_def and_then_def assert_that_def
      split: sum.splits if_splits)

context ht_key begin

lemma set_refines:
  fixes t :: "('k, 'v) htable"
  assumes "ht_holds ops n t f" "n < ht_limit"
  shows "\<exists>t'. ht_perform ops m (Op_set k v) t = Inr t' \<and>
    (ht_holds ops (Suc n) t' (f(k \<mapsto> v)) \<or> \<not> grants m \<and> ht_holds ops (Suc n) t' f)"
proof -
  have few: "ht_count t + 1 < 3 * 2 ^ 29" using assms by (simp add: ht_holds_def ht_limit_def)
  have inv: "ht_inv ops t" and f: "f = map_of (ht_alist t)" using assms(1) by (simp_all add: ht_holds_def)
  then obtain ps where "ht_rep ops t ps" by (auto simp: ht_inv_def)
  from htable_set_with_flag_correct [OF this few, of m k v] obtain ret flag t' base where
    run: "htable_set_with_flag ops m t k v = Inr (ret, flag, t')" "ht_inv ops t'" and
    base: "mset base = mset (ht_alist t)" and out: "set_outcome base k v ret flag (ht_alist t')" and
    ok: "(\<forall>n s. calloc_ok m n s) \<and> (\<forall>n. malloc_ok m n) \<and> strdup_ok m \<longrightarrow> ret" by blast
  have perform: "ht_perform ops m (Op_set k v) t = Inr t'"
    using run(1) by (simp add: ht_perform_def htable_set_def)
  have b: "map_of base = f" "length base = ht_count t"
    using map_of_mset [OF _ base] base inv_distinct [OF inv] inv_count [OF inv] f
    by (metis mset_eq_imp_distinct_iff mset_map, metis mset_eq_length)
  have "length (AList.update k v base) \<le> Suc (length base)"
    by (induction base) auto
  then have n: "ht_count t' \<le> Suc n"
    using out b(2) assms(1) inv_count [OF run(2)] by (simp add: set_outcome_def ht_holds_def split: if_splits)
  show ?thesis
  proof (cases ret)
    case True
    then have "map_of (ht_alist t') = f(k \<mapsto> v)"
      using out b(1) by (simp add: set_outcome_def update_conv')
    then show ?thesis using perform run(2) n by (simp add: ht_holds_def)
  next
    case False
    then have "\<not> grants m" "map_of (ht_alist t') = f"
      using out ok b(1) by (auto simp: set_outcome_def grants_def)
    then show ?thesis using perform run(2) n by (simp add: ht_holds_def)
  qed
qed

lemma delete_refines:
  fixes t :: "('k, 'v) htable"
  assumes "ht_holds ops n t f"
  shows "\<exists>t'. ht_perform ops m (Op_delete k) t = Inr t' \<and>
    (ht_holds ops (Suc n) t' (f(k := None)) \<or> \<not> (\<forall>n. realloc_ok m n) \<and> ht_holds ops (Suc n) t' f)"
proof -
  have inv: "ht_inv ops t" and f: "f = map_of (ht_alist t)" using assms(1) by (simp_all add: ht_holds_def)
  then obtain ps where "ht_rep ops t ps" by (auto simp: ht_inv_def)
  from htable_delete_with_flag_correct [OF this, of m k] obtain d flag released t' where
    run: "htable_delete_with_flag ops m t k = Inr (d, flag, released, t')" "ht_inv ops t'" and
    out: "delete_outcome ops (ht_alist t) k d flag released (ht_alist t')" and
    ok: "(\<forall>n. realloc_ok m n) \<longrightarrow> flag = (k \<in> fst ` set (ht_alist t))" by blast
  have perform: "ht_perform ops m (Op_delete k) t = Inr t'"
    using run(1) by (simp add: ht_perform_def htable_delete_def)
  have n: "ht_count t' \<le> Suc n"
    using out assms(1) inv_count [OF run(2)] inv_count [OF inv]
    by (auto simp: delete_outcome_def ht_holds_def AList.delete_eq split: if_splits
        intro: order_trans [OF length_filter_le])
  show ?thesis
  proof (cases "flag \<or> k \<notin> fst ` set (ht_alist t)")
    case True
    then have "map_of (ht_alist t') = f(k := None)"
      using out f by (auto simp: delete_outcome_def delete_conv' map_of_eq_None_iff split: if_splits)
    then show ?thesis using perform run(2) n by (simp add: ht_holds_def)
  next
    case False
    then have "\<not> (\<forall>n. realloc_ok m n)" "map_of (ht_alist t') = f"
      using out ok f by (auto simp: delete_outcome_def)
    then show ?thesis using perform run(2) n by (simp add: ht_holds_def)
  qed
qed

lemma set_holds:
  fixes t :: "('k, 'v) htable"
  assumes "ht_holds ops n t f" "n < ht_limit"
  shows "\<exists>ret t'. htable_set ops m t k v = Inr (ret, t') \<and>
    (ht_holds ops (Suc n) t' (f(k \<mapsto> v)) \<or> \<not> grants m \<and> ht_holds ops (Suc n) t' f)"
  using set_refines [OF assms, of m k v] by (auto simp: ht_perform_def and_then_Inr_iff)

text \<open>A new key goes in, and comes out with its data.\<close>

lemma set_pairs:
  fixes t :: "('k, 'v) htable"
  assumes "ht_inv ops t" "ht_count t + 1 < 3 * 2 ^ 29"
  shows "\<exists>ret flag t' base. htable_set_with_flag ops m t k v = Inr (ret, flag, t') \<and> ht_inv ops t' \<and>
    mset base = mset (ht_alist t) \<and> (\<not> needs_room t \<longrightarrow> base = ht_alist t) \<and>
    (if ret then flag = Some (k \<notin> fst ` set base) \<and> ht_alist t' = AList.update k v base
     else flag \<noteq> Some True \<and> ht_alist t' = base \<and> \<not> grants m)"
proof -
  obtain ps where "ht_rep ops t ps" using assms(1) by (auto simp: ht_inv_def)
  from htable_set_with_flag_correct [OF this assms(2), of m k v]
  show ?thesis by (fastforce simp: set_outcome_def grants_def)
qed

lemma set_new:
  fixes t :: "('k, 'v) htable"
  assumes "ht_inv ops t" "ht_count t + 1 < 3 * 2 ^ 29" "grants m" "k \<notin> fst ` set (ht_alist t)"
  obtains t1 base where "htable_set_with_flag ops m t k v = Inr (True, Some True, t1)" "ht_inv ops t1"
    "mset base = mset (ht_alist t)" "ht_alist t1 = AList.update k v base"
proof -
  obtain ret flag t1 base where
    r: "htable_set_with_flag ops m t k v = Inr (ret, flag, t1)" "ht_inv ops t1" "mset base = mset (ht_alist t)"
      "if ret then flag = Some (k \<notin> fst ` set base) \<and> ht_alist t1 = AList.update k v base
       else flag \<noteq> Some True \<and> ht_alist t1 = base \<and> \<not> grants m"
    using set_pairs [OF assms(1,2), of m k v] by blast
  have "k \<notin> fst ` set base" using assms(4) r(3) by (metis set_mset_mset)
  then show thesis using r assms(3) by (intro that [of t1 base]) (auto split: if_splits)
qed

lemma delete_found:
  fixes t :: "('k, 'v) htable"
  assumes "ht_inv ops t" "map_of (ht_alist t) k = Some d" "grants m"
  obtains released t' where "htable_delete_with_flag ops m t k = Inr (d, True, released, t')" "ht_inv ops t'"
    "ht_alist t' = AList.delete k (ht_alist t)"
proof -
  obtain ps where "ht_rep ops t ps" using assms(1) by (auto simp: ht_inv_def)
  moreover have "k \<in> fst ` set (ht_alist t)" using map_of_SomeD [OF assms(2)] by force
  ultimately show thesis using htable_delete_with_flag_correct [of t ps m k] assms(2,3) that
    by (auto simp: delete_outcome_def grants_def split: if_splits)
qed

text \<open>When memory is granted, insertion and deletion take effect.\<close>

lemma set_answers:
  fixes t :: "('k, 'v) htable"
  assumes "ht_holds ops n t f" "n < ht_limit"
  shows "\<exists>ret t'. htable_set ops m t k v = Inr (ret, t') \<and>
    (if ret then ht_holds ops (Suc n) t' (f(k \<mapsto> v)) else \<not> grants m)"
proof -
  have few: "ht_count t + 1 < 3 * 2 ^ 29" using assms by (simp add: ht_holds_def ht_limit_def)
  have inv: "ht_inv ops t" and f: "f = map_of (ht_alist t)" using assms(1) by (simp_all add: ht_holds_def)
  obtain ret flag t' base where
    r: "htable_set_with_flag ops m t k v = Inr (ret, flag, t')" "ht_inv ops t'" "mset base = mset (ht_alist t)"
      "if ret then flag = Some (k \<notin> fst ` set base) \<and> ht_alist t' = AList.update k v base
       else flag \<noteq> Some True \<and> ht_alist t' = base \<and> \<not> grants m"
    using set_pairs [OF inv few, of m k v] by blast
  have run: "htable_set ops m t k v = Inr (ret, t')" using r(1) by (simp add: htable_set_def)
  have "map_of base = f" using map_of_mset [OF _ r(3)] r(3) inv_distinct [OF inv] f
    by (metis mset_eq_imp_distinct_iff mset_map)
  moreover have "length (AList.update k v base) \<le> Suc (length base)" by (induction base) auto
  moreover have "length base = ht_count t" using r(3) inv_count [OF inv] by (metis mset_eq_length)
  ultimately show ?thesis using run r(2,4) assms(1) inv_count [OF r(2)]
    by (auto simp: ht_holds_def update_conv')
qed

lemma set_granted:
  fixes t :: "('k, 'v) htable"
  assumes "ht_holds ops n t f" "n < ht_limit" "grants m"
  shows "\<exists>t'. htable_set ops m t k v = Inr (True, t') \<and> ht_holds ops (Suc n) t' (f(k \<mapsto> v))"
  using set_answers [OF assms(1,2), of m k v] assms(3) by (auto split: if_splits)

lemma delete_granted:
  fixes t :: "('k, 'v) htable"
  assumes "ht_holds ops n t f" "\<forall>n. realloc_ok m n"
  shows "\<exists>d freed t'. htable_delete ops m t k = Inr (d, freed, t') \<and> ht_holds ops (Suc n) t' (f(k := None))"
  using delete_refines [OF assms(1), of m k] assms(2) by (auto simp: ht_perform_def and_then_Inr_iff)

lemma get_holds:
  fixes t :: "('k, 'v) htable"
  assumes "ht_holds ops n t f"
  shows "htable_get ops t k = Inr (case f k of None \<Rightarrow> None | Some d \<Rightarrow> d)"
  using assms htable_get_with_flag_correct [of t _ k]
  by (auto simp: ht_holds_def ht_inv_def htable_get_def split: option.splits)

lemma create_holds:
  assumes "2 \<le> cap" "unat cap \<le> 2 ^ 32"
  shows "htable_create (m :: ('k, 'v) ht_mem) cap = Inr None \<or>
    (\<exists>t. htable_create m cap = Inr (Some t) \<and> ht_holds ops n t (\<lambda>k. None))"
  using htable_create_correct [OF assms, of m ops]
  by (auto simp: ht_holds_def ht_inv_def rep_alist pairs_of_def rep_count fun_eq_iff)

lemma holds_mono: "ht_holds ops n t f \<Longrightarrow> n \<le> n' \<Longrightarrow> ht_holds ops n' t f"
  by (simp add: ht_holds_def)

lemma perform_refines:
  fixes t :: "('k, 'v) htable"
  assumes "ht_holds ops n t f" "n < ht_limit"
  shows "\<exists>t'. ht_perform ops m c t = Inr t' \<and>
    (ht_holds ops (Suc n) t' (map_step c f) \<or> \<not> grants m \<and> ht_holds ops (Suc n) t' f)"
  using set_refines [OF assms] delete_refines [OF assms(1)] by (cases c) (fastforce simp: grants_def)+

lemma lookup_refines:
  fixes t :: "('k, 'v) htable"
  assumes "ht_holds ops n t f"
  shows "ht_lookup ops t k = Inr (f k)"
  using assms htable_get_with_flag_correct [of t _ k]
  by (auto simp: ht_holds_def ht_inv_def ht_lookup_def split: option.splits)

end

text \<open>
  One contract gives the other: the key macros' contract makes the table a store. The
  interpretations \<open>int_ht\<close> and \<open>str_ht\<close> of \<open>ht_key\<close> are thereby interpretations of \<open>map_store\<close> on
  the two tables of the program, with the facts \<open>int_ht.store.run_ok\<close>, \<open>str_ht.store.run_granted\<close>
  and so on.
\<close>

sublocale ht_key \<subseteq> store: map_store "ht_holds ops" ht_limit grants "ht_perform ops" "ht_lookup ops"
  by unfold_locales (rule perform_refines, assumption+, rule lookup_refines)

context ht_key begin

lemma ht_run_ok:
  fixes t :: "('k, 'v) htable"
  assumes "ht_holds ops n t f" "n + length cs \<le> ht_limit"
  shows "\<exists>t' dn. ht_run ops cs t = Inr t' \<and> ht_holds ops (n + length cs) t' (map_run dn f) \<and>
    subseq dn (map snd cs) \<and> ((\<forall>m \<in> fst ` set cs. grants m) \<longrightarrow> dn = map snd cs)"
  unfolding ht_run_perform by (rule store.run_ok [OF assms])

lemma ht_run_frame:
  fixes t :: "('k, 'v) htable"
  assumes "ht_holds ops n t f" "n + length cs \<le> ht_limit" "k \<notin> op_key ` snd ` set cs"
  shows "\<exists>t'. ht_run ops cs t = Inr t' \<and> ht_lookup ops t' k = Inr (f k)"
  unfolding ht_run_perform by (rule store.run_frame [OF assms])

lemma ht_run_granted:
  fixes t :: "('k, 'v) htable"
  assumes "ht_holds ops n t f" "n + length cs \<le> ht_limit" "\<forall>m \<in> fst ` set cs. grants m"
  shows "\<exists>t'. ht_run ops cs t = Inr t' \<and> ht_holds ops (n + length cs) t' (map_run (map snd cs) f) \<and>
    (\<forall>k. ht_lookup ops t' k = Inr (map_run (map snd cs) f k))"
  unfolding ht_run_perform by (rule store.run_granted [OF assms])

end

end
