(* ===== verification/Samples.thy ===== *)
theory Samples
  imports Htable_Map
begin

text \<open>
  Concrete tables and allocators, at which the theorems with hypotheses are applied.
\<close>

section \<open>Allocators\<close>

definition sample_entry :: "(u64, nat) ht_entry" where
  "sample_entry = \<lparr>key = 0, data = None, cached_hash = 0, prev_idx = 7, next_idx = 7\<rparr>"

text \<open>One grants everything, the other one nothing.\<close>

definition sample_mem :: "(u64, nat) ht_mem" where
  "sample_mem = \<lparr>calloc_ok = (\<lambda>_ _. True), malloc_ok = (\<lambda>_. True), realloc_ok = (\<lambda>_. True),
     strdup_ok = True, fresh_entry = (\<lambda>_. sample_entry), fresh_u32 = (\<lambda>_. 9)\<rparr>"

definition starved_mem :: "(u64, nat) ht_mem" where
  "starved_mem = \<lparr>calloc_ok = (\<lambda>_ _. False), malloc_ok = (\<lambda>_. False), realloc_ok = (\<lambda>_. False),
     strdup_ok = False, fresh_entry = (\<lambda>_. sample_entry), fresh_u32 = (\<lambda>_. 9)\<rparr>"

lemma sample_mem_grants [simp]: "grants sample_mem" "\<not> grants starved_mem"
  by (simp_all add: grants_def sample_mem_def starved_mem_def)

definition any_mem :: "('k, 'v) ht_entry \<Rightarrow> ('k, 'v) ht_mem" where
  "any_mem e = \<lparr>calloc_ok = (\<lambda>_ _. True), malloc_ok = (\<lambda>_. True), realloc_ok = (\<lambda>_. True),
     strdup_ok = True, fresh_entry = (\<lambda>_. e), fresh_u32 = (\<lambda>_. 0)\<rparr>"

lemma any_mem_grants [simp]: "grants (any_mem e)"
  by (simp add: grants_def any_mem_def)

section \<open>An empty table of four slots\<close>

definition sample_table :: "(u64, nat) htable" where
  "sample_table = \<lparr>entries = replicate 3 sample_entry, index_list = replicate 4 HT_EMPTY,
     deleted_index_list = [], ht_count = 0, entry_next_insert = 0, head_idx = UINT32_MAX,
     tail_idx = UINT32_MAX, index_capacity = 4, entry_capacity = 3, deleted_count = 0,
     deleted_capacity = 0\<rparr>"

lemma round_ceil2_3: "util_round_ceil2_ull 3 = Inr 4"
  by (simp add: util_round_ceil2_ull_def builtin_clzll_def bit_numeral_rec push_bit_eq_mult)

lemma sample_table_create: "htable_create sample_mem 3 = Inr (Some sample_table)"
  by (simp add: htable_create_def round_ceil2_3 Let_def sample_mem_def sample_table_def
      malloc_entries_def SIZEOF_HT_ENTRY_def SIZEOF_HTABLE_def map_replicate_const)

lemma sample_table_rep: "ht_rep int_ops sample_table []"
  using htable_create_correct [of 3 sample_mem int_ops] sample_table_create by simp

lemma sample_table_inv: "ht_inv int_ops sample_table"
  using sample_table_rep by (auto simp: ht_inv_def)

lemma sample_table_empty: "ht_alist sample_table = []" "ht_count sample_table = 0"
  by (simp add: rep_alist [OF sample_table_rep] pairs_of_def) (simp add: sample_table_def)

section \<open>A table in use\<close>

text \<open>Three keys are inserted, which makes the table grow, and one of them is deleted.\<close>

definition sample_calls :: "((u64, nat) ht_mem \<times> (u64, nat option) ht_op) list" where
  "sample_calls = [(sample_mem, Op_set 5 (Some 50)), (sample_mem, Op_set 6 (Some 60)),
     (sample_mem, Op_set 7 None), (sample_mem, Op_delete 6)]"

lemma sample_calls_fit:
  "length sample_calls = 4" "\<forall>m \<in> fst ` set sample_calls. grants m" "4 \<le> ht_limit"
  by (simp_all add: sample_calls_def ht_limit_def)

definition used_table :: "(u64, nat) htable" where
  "used_table = (case ht_run int_ops sample_calls sample_table of Inr t \<Rightarrow> t | Inl _ \<Rightarrow> sample_table)"

lemma used_table_holds:
  "ht_run int_ops sample_calls sample_table = Inr used_table"
  "ht_holds int_ops 4 used_table [5 \<mapsto> Some 50, 7 \<mapsto> None]"
proof -
  have "ht_holds int_ops 0 sample_table (\<lambda>_. None)"
    using sample_table_inv sample_table_empty by (simp add: ht_holds_def)
  then obtain t where t: "ht_run int_ops sample_calls sample_table = Inr t"
    "ht_holds int_ops 4 t (map_run (map snd sample_calls) (\<lambda>_. None))"
    using int_ht.ht_run_granted [of 0 sample_table "\<lambda>_. None" sample_calls] sample_calls_fit by auto
  moreover have "map_run (map snd sample_calls) (\<lambda>_. None) = [5 \<mapsto> Some 50, 7 \<mapsto> None]"
    by (auto simp: sample_calls_def)
  ultimately show "ht_run int_ops sample_calls sample_table = Inr used_table"
    "ht_holds int_ops 4 used_table [5 \<mapsto> Some 50, 7 \<mapsto> None]"
    by (simp_all add: used_table_def)
qed

lemma used_table_inv: "ht_inv int_ops used_table"
  and used_table_count: "ht_count used_table \<le> 4"
  and used_table_map: "map_of (ht_alist used_table) = [5 \<mapsto> Some 50, 7 \<mapsto> None]"
  using used_table_holds(2) by (simp_all add: ht_holds_def)

end
