(* ===== verification/Htable_Order.thy ===== *)
theory Htable_Order
  imports Htable_Map
begin

text \<open>
  The order of iteration. While no insertion needs room, the table keeps the entries in the order in
  which their keys were inserted: it stands for an association list, not only for a map.
\<close>

section \<open>What an insertion without growth leaves alone\<close>

lemma take_index_frame:
  assumes "htable_take_index m t = Inr (idx, t')"
  shows "index_capacity t' = index_capacity t \<and> entry_next_insert t' = entry_next_insert t + (if deleted_count t = 0 then 1 else 0)"
  using assms by (auto simp: htable_take_index_def and_then_Inr_iff Let_def split: if_splits)

lemma store_frame:
  "htable_store t target idx k v h = Inr t' \<Longrightarrow> index_capacity t' = index_capacity t \<and> entry_next_insert t' = entry_next_insert t"
  by (auto simp: htable_store_def and_then_Inr_iff)

lemma set_in_room_frame:
  assumes "set_in_room ops m t k v = Inr (True, Some new, t')"
  shows "index_capacity t' = index_capacity t \<and>
    entry_next_insert t' = entry_next_insert t + (if new \<and> deleted_count t = 0 then 1 else 0)"
proof -
  obtain res where r: "(case res of
      Probe_found idx \<Rightarrow> and_then (aupd (entries t) (unat idx) (\<lambda>e. e\<lparr>data := v\<rparr>)) (\<lambda>ents. Inr (True, Some False, t\<lparr>entries := ents\<rparr>))
    | Probe_target target \<Rightarrow>
        if target = UINT64_MAX then Inr (False, Some False, t)
        else case HT_KEY_DUP_CB ops (strdup_ok m) k of
          None \<Rightarrow> Inr (False, None, t)
        | Some dup_key \<Rightarrow>
            and_then (htable_take_index m t) (\<lambda>(idx, t).
            and_then (htable_store t target idx dup_key v (HT_KEY_HASH_CB ops k)) (\<lambda>t. Inr (True, Some True, t)))) =
      Inr (True, Some new, t')"
    using assms unfolding set_in_room_def Let_def and_then_Inr_iff by blast
  show ?thesis
  proof (cases res)
    case (Probe_found idx)
    then show ?thesis using r by (auto simp: and_then_Inr_iff)
  next
    case (Probe_target target)
    then obtain d idx t1 where "htable_take_index m t = Inr (idx, t1)" "new"
      "htable_store t1 target idx d v (HT_KEY_HASH_CB ops k) = Inr t'"
      using r by (auto simp: and_then_Inr_iff split: if_splits option.splits)
    then show ?thesis using take_index_frame store_frame by fastforce
  qed
qed

lemma reserve_frame:
  "htable_reserve_deleted m t = Some t' \<Longrightarrow> index_capacity t' = index_capacity t \<and> entry_next_insert t' = entry_next_insert t"
  by (auto simp: htable_reserve_deleted_def Let_def split: if_splits)

lemma delete_entry_frame:
  assumes "htable_delete_entry ops m t h slot e = Inr (d, flag, rel, t')"
  shows "index_capacity t' = index_capacity t \<and> entry_next_insert t' = entry_next_insert t"
proof (cases "htable_reserve_deleted m t")
  case (Some t1)
  have "index_capacity t' = index_capacity t1 \<and> entry_next_insert t' = entry_next_insert t1"
    using assms unfolding htable_delete_entry_def Some option.case Let_def and_then_Inr_iff by (elim exE conjE) auto
  then show ?thesis using reserve_frame [OF Some] by simp
qed (use assms in \<open>simp add: htable_delete_entry_def\<close>)

lemma delete_frame:
  "htable_delete_loop ops m t k n h = Inr (d, flag, rel, t') \<Longrightarrow>
    index_capacity t' = index_capacity t \<and> entry_next_insert t' = entry_next_insert t"
proof (induction n arbitrary: h)
  case (Suc n)
  obtain slot where r: "(if slot = HT_DELETED then htable_delete_loop ops m t k n ((h + 1) AND ht_mask (index_capacity t))
     else if slot = HT_EMPTY then Inr (None, False, [], t)
     else and_then (aget (entries t) (unat (slot - 1))) (\<lambda>entry.
       if HT_KEY_EQUAL_CB ops (key entry) k then htable_delete_entry ops m t h slot entry
       else htable_delete_loop ops m t k n ((h + 1) AND ht_mask (index_capacity t)))) = Inr (d, flag, rel, t')"
    using Suc.prems unfolding htable_delete_loop.simps and_then_Inr_iff by blast
  then consider "htable_delete_loop ops m t k n ((h + 1) AND ht_mask (index_capacity t)) = Inr (d, flag, rel, t')"
    | entry where "htable_delete_entry ops m t h slot entry = Inr (d, flag, rel, t')" | "t' = t"
    by (auto simp: and_then_Inr_iff split: if_splits)
  then show ?case by cases (use Suc.IH delete_entry_frame in \<open>blast+\<close>)
qed simp

section \<open>A table in order\<close>

text \<open>
  \<open>top_count\<close> is the number of entries ever in use since the index had its size: the number of keys it
  held at most.
\<close>

definition in_order :: "'k ht_key_ops \<Rightarrow> ('k, 'v) htable \<Rightarrow> ('k \<times> 'v option) list \<Rightarrow> nat \<Rightarrow> nat \<Rightarrow> bool" where
  "in_order ops t kvs top_count cap \<longleftrightarrow>
     ht_inv ops t \<and> ht_alist t = kvs \<and> unat (entry_next_insert t) = top_count \<and> index_capacity t = cap"

text \<open>So many keys fit into an index of \<open>cap\<close> slots, of which there are few enough that no product wraps.\<close>

definition fits_index :: "nat \<Rightarrow> nat \<Rightarrow> bool" where
  "fits_index n cap \<longleftrightarrow> n * 4 < cap * 3 \<and> cap \<le> 2 ^ 31"

lemma in_order_counts:
  assumes "in_order ops t kvs n cap"
  shows "distinct (map fst kvs)" "ht_count t = length kvs" "length kvs + deleted_count t = n" "n \<le> 2 ^ 32"
    "entry_capacity t = cap * 3 div 4" "cap \<le> 2 ^ 32"
proof -
  have inv: "ht_inv ops t" and o: "ht_alist t = kvs" "unat (entry_next_insert t) = n" "index_capacity t = cap"
    using assms by (simp_all add: in_order_def)
  obtain ps where rep: "ht_rep ops t ps" using inv by (auto simp: ht_inv_def)
  show "distinct (map fst kvs)" "ht_count t = length kvs" using inv_distinct [OF inv] inv_count [OF inv] o(1) by simp_all
  then show "length kvs + deleted_count t = n" using rep_pool(2) [OF rep] o(2) by simp
  show "n \<le> 2 ^ 32" using o(2) unsigned_less [of "entry_next_insert t", where ?'a = nat] by simp
  show "entry_capacity t = cap * 3 div 4" using rep_caps [OF rep] core_size(3) [OF rep_core [OF rep]] o(3) by simp
  show "cap \<le> 2 ^ 32" using rep_caps(1) [OF rep] core_size(2) [OF rep_core [OF rep]] o(3) by simp
qed

context ht_key begin

text \<open>An insertion for which the keys held, and one more, fit.\<close>

lemma set_in_order:
  fixes t :: "('k, 'v) htable"
  assumes o: "in_order ops t kvs n cap" and n: "fits_index (n + 1) cap" and m: "grants m"
  obtains t' where "htable_set_with_flag ops m t k v = Inr (True, Some (k \<notin> fst ` set kvs), t')"
    "in_order ops t' (AList.update k v kvs) (max n (length (AList.update k v kvs))) cap"
proof -
  note c = in_order_counts [OF o]
  have inv: "ht_inv ops t" and al: "ht_alist t = kvs" and nx: "unat (entry_next_insert t) = n" and cap: "index_capacity t = cap"
    using o by (simp_all add: in_order_def)
  have len: "length kvs \<le> n" using c(3) by simp
  have few: "ht_count t + 1 < 3 * 2 ^ 29" using c(2,6) len n by (simp add: fits_index_def)
  have roomy: "\<not> needs_room t" using c(2,5) len n nx cap by (auto simp: needs_room_def fits_index_def)
  obtain ret flag t' base where r: "htable_set_with_flag ops m t k v = Inr (ret, flag, t')" "ht_inv ops t'"
    "base = ht_alist t"
    "if ret then flag = Some (k \<notin> fst ` set base) \<and> ht_alist t' = AList.update k v base
     else flag \<noteq> Some True \<and> ht_alist t' = base \<and> \<not> grants m"
    using set_pairs [OF inv few, of m k v] roomy by blast
  have ok: "ret" "flag = Some (k \<notin> fst ` set kvs)" "ht_alist t' = AList.update k v kvs" using r(3,4) m al by (auto split: if_splits)
  have N: "length (index_list t) \<le> 4294967296"
    using inv c(6) cap by (auto simp: ht_inv_def dest: rep_caps(1))
  have "unat (entry_next_insert t) < entry_capacity t" "\<not> sz (sz (ht_count t + 1) * 4) \<ge> sz (index_capacity t * 3)"
    using roomy few c(6) cap by (simp_all add: needs_room_def)
  then have "set_in_room ops m t k v = Inr (True, Some (k \<notin> fst ` set kvs), t')"
    using r(1) ok(1,2) unfolding htable_set_with_flag_def set_in_room_def by simp
  note f = set_in_room_frame [OF this]
  have "length (AList.update k v kvs) = length kvs + (if k \<in> fst ` set kvs then 0 else 1)"
    by (induction kvs) auto
  moreover have "unat (entry_next_insert t + 1) = n + 1"
    using nx n c(6) by (subst unat_add_lem [THEN iffD1]) (simp_all add: fits_index_def)
  ultimately have "unat (entry_next_insert t') = max n (length (AList.update k v kvs))"
    using f nx c(3) by auto
  then show thesis using that r(1,2) ok f cap by (simp add: in_order_def)
qed

lemma delete_in_order:
  fixes t :: "('k, 'v) htable"
  assumes o: "in_order ops t kvs n cap" and m: "grants m"
  obtains released t' where
    "htable_delete_with_flag ops m t k = Inr (Option.bind (map_of kvs k) (\<lambda>d. d), map_of kvs k \<noteq> None, released, t')"
    "in_order ops t' (AList.delete k kvs) n cap"
proof -
  have inv: "ht_inv ops t" and al: "ht_alist t = kvs" using o by (simp_all add: in_order_def)
  obtain ps where "ht_rep ops t ps" using inv by (auto simp: ht_inv_def)
  from htable_delete_with_flag_correct [OF this, of m k] obtain d flag released t' where
    run: "htable_delete_with_flag ops m t k = Inr (d, flag, released, t')" "ht_inv ops t'" and
    out: "delete_outcome ops kvs k d flag released (ht_alist t')" and flag: "flag = (k \<in> fst ` set kvs)"
    using m al by (auto simp: grants_def)
  have f: "index_capacity t' = index_capacity t \<and> entry_next_insert t' = entry_next_insert t"
    using run(1) unfolding htable_delete_with_flag_def by (rule delete_frame)
  have known: "flag \<longleftrightarrow> map_of kvs k \<noteq> None" using flag by (metis map_of_eq_None_iff)
  then have "d = Option.bind (map_of kvs k) (\<lambda>d. d)" "ht_alist t' = AList.delete k kvs"
    using out flag by (auto simp: delete_outcome_def delete_id split: if_splits)
  then show thesis using that run f o known by (simp add: in_order_def)
qed

lemma create_in_order:
  assumes cap: "2 \<le> cap" "unat cap \<le> 2 ^ 32" and t: "htable_create (m :: ('k, 'v) ht_mem) cap = Inr (Some t)"
  shows "\<exists>c. util_round_ceil2_ull cap = Inr c \<and> in_order ops t [] 0 (unat c)"
proof -
  have rep: "ht_rep ops t []" using htable_create_correct [OF cap, of m ops] t by simp
  then have "ht_inv ops t" "ht_alist t = []" by (auto simp: ht_inv_def rep_alist pairs_of_def)
  moreover obtain c where "util_round_ceil2_ull cap = Inr c" "index_capacity t = unat c" "entry_next_insert t = 0"
    using t by (auto simp: htable_create_def and_then_Inr_iff Let_def split: if_splits)
  ultimately show ?thesis by (auto simp: in_order_def)
qed

text \<open>Sequences of calls.\<close>

end

fun kv_step :: "('k, 'd) ht_op \<Rightarrow> ('k \<times> 'd) list \<Rightarrow> ('k \<times> 'd) list" where
  "kv_step (Op_set k v) kvs = AList.update k v kvs"
| "kv_step (Op_delete k) kvs = AList.delete k kvs"

definition kv_run :: "('k, 'd) ht_op list \<Rightarrow> ('k \<times> 'd) list \<Rightarrow> ('k \<times> 'd) list" where
  "kv_run cs kvs = fold kv_step cs kvs"

lemma kv_run_simps [simp]: "kv_run [] kvs = kvs" "kv_run (c # cs) kvs = kv_run cs (kv_step c kvs)"
  by (simp_all add: kv_run_def)

context ht_key begin

lemma run_in_order:
  fixes t :: "('k, 'v) htable"
  assumes "in_order ops t kvs n cap" "n \<le> N" "fits_index (N + 1) cap" "\<forall>m \<in> fst ` set cs. grants m"
    and "\<forall>ds. prefix ds (map snd cs) \<longrightarrow> length (kv_run ds kvs) \<le> N"
  shows "\<exists>t' n'. ht_run ops cs t = Inr t' \<and> in_order ops t' (kv_run (map snd cs) kvs) n' cap \<and> n' \<le> N"
  using assms
proof (induction cs arbitrary: t kvs n)
  case (Cons mc cs)
  obtain m c where mc: "mc = (m, c)" by (cases mc)
  have m: "grants m" using Cons.prems(4) by (simp add: mc)
  have fit: "fits_index (n + 1) cap" using Cons.prems(2,3) by (simp add: fits_index_def)
  have more: "\<forall>ds. prefix ds (map snd cs) \<longrightarrow> length (kv_run ds (kv_step c kvs)) \<le> N"
  proof (intro allI impI)
    fix ds assume "prefix ds (map snd cs)"
    then show "length (kv_run ds (kv_step c kvs)) \<le> N" using Cons.prems(5) [rule_format, of "c # ds"] by (simp add: mc)
  qed
  then have l: "length (kv_step c kvs) \<le> N" by (metis kv_run_simps(1) Nil_prefix)
  obtain t' n' where s: "ht_run ops ((m, c) # cs) t = ht_run ops cs t'" "in_order ops t' (kv_step c kvs) n' cap" "n' \<le> N"
  proof (cases c)
    case (Op_set k v)
    obtain t' where "htable_set_with_flag ops m t k v = Inr (True, Some (k \<notin> fst ` set kvs), t')"
      "in_order ops t' (AList.update k v kvs) (max n (length (AList.update k v kvs))) cap"
      by (rule set_in_order [OF Cons.prems(1) fit m])
    then show thesis using that [of t'] l Cons.prems(2) Op_set by (simp add: htable_set_def)
  next
    case (Op_delete k)
    obtain released t' where
      "htable_delete_with_flag ops m t k = Inr (Option.bind (map_of kvs k) (\<lambda>d. d), map_of kvs k \<noteq> None, released, t')"
      "in_order ops t' (AList.delete k kvs) n cap" by (rule delete_in_order [OF Cons.prems(1) m])
    then show thesis using that [of t'] Cons.prems(2) Op_delete by (simp add: htable_delete_def)
  qed
  from Cons.IH [OF s(2,3) Cons.prems(3) _ more] Cons.prems(4) show ?case
    by (simp add: mc s(1))
qed auto

text \<open>Iteration meets the pairs of the list, in order.\<close>

lemma iterate_in_order:
  fixes t :: "('k, 'v) htable"
  assumes "in_order ops t kvs n cap" "length kvs < fuel"
  shows "\<exists>es. ht_foreach fuel t = Inr (Some es) \<and> map entry_pair es = kvs"
proof -
  obtain ps where rep: "ht_rep ops t ps" and al: "ht_alist t = kvs" using assms(1) by (auto simp: in_order_def ht_inv_def)
  have "ht_count t < fuel" using in_order_counts(2) [OF assms(1)] assms(2) by simp
  from rep_foreach [OF rep this] show ?thesis using rep_alist [OF rep] al by (simp add: pairs_of_def comp_def)
qed

end

end
