(* ===== verification/Claims_Hash.thy ===== *)
theory Claims_Hash
  imports Samples Htable_Order
begin

text \<open>
  The properties of the hash tables, of the hash functions and of the power-of-two helper, each
  with its application to a concrete input.
\<close>

section \<open>The tables as maps\<close>

text \<open>
  C1: Any sequence of insertions, updates and deletions on a valid integer-keyed table runs without
  a failed assertion or an access outside an array, whatever the allocator does in each call. The
  resulting table is valid, and its contents are those of a finite map after a subsequence of the
  calls: a call either takes full effect or none. If the allocator grants every request, all calls
  take effect.
\<close>

theorem int_table_sequences:
  fixes t :: "(u64, 'v) htable"
  assumes "ht_inv int_ops t" "ht_count t + length cs \<le> ht_limit"
  shows "\<exists>t' dn. ht_run int_ops cs t = Inr t' \<and> ht_inv int_ops t' \<and> subseq dn (map snd cs) \<and>
    map_of (ht_alist t') = map_run dn (map_of (ht_alist t)) \<and>
    ((\<forall>m \<in> fst ` set cs. grants m) \<longrightarrow> dn = map snd cs)"
proof -
  have "ht_holds int_ops (ht_count t) t (map_of (ht_alist t))"
    using assms(1) by (simp add: ht_holds_def)
  from int_ht.ht_run_ok [OF this assms(2)] show ?thesis
    unfolding ht_holds_def by metis
qed

theorem int_table_sequences_witness:
  "\<exists>t' dn. ht_run int_ops [(sample_mem, Op_set 5 (Some 1)), (starved_mem, Op_delete 5)] sample_table = Inr t' \<and>
    ht_inv int_ops t' \<and> subseq dn [Op_set 5 (Some 1), Op_delete 5] \<and>
    map_of (ht_alist t') = map_run dn (\<lambda>_. None)"
  using int_table_sequences [OF sample_table_inv,
      of "[(sample_mem, Op_set 5 (Some 1)), (starved_mem, Op_delete 5)]"]
  by (auto simp: sample_table_empty ht_limit_def)

text \<open>
  C2: A string-keyed table that \<open>str_htable_create\<close> returned, after any sequence of calls for which
  memory is granted, answers every lookup as the finite map does that starts empty and goes
  through the same calls.
\<close>

theorem str_table_from_creation:
  assumes "2 \<le> cap" "unat cap \<le> 2 ^ 32" "htable_create (m :: (cstr, 'v) ht_mem) cap = Inr (Some t)"
    and "length cs \<le> ht_limit" "\<forall>m \<in> fst ` set cs. grants m"
  shows "\<exists>t'. ht_run str_ops cs t = Inr t' \<and>
    (\<forall>k. ht_lookup str_ops t' k = Inr (map_run (map snd cs) (\<lambda>_. None) k))"
proof -
  have "ht_holds str_ops 0 t (\<lambda>_. None)"
    using str_ht.create_holds [OF assms(1,2), of m 0] assms(3) by simp
  from str_ht.ht_run_granted [OF this _ assms(5)] assms(4) show ?thesis by auto
qed

theorem str_table_from_creation_witness:
  "\<forall>e. \<exists>t t'. htable_create (any_mem e :: (cstr, nat) ht_mem) 3 = Inr (Some t) \<and>
    ht_run str_ops [(any_mem e, Op_set (cstr_of [97]) (Some (1::nat)))] t = Inr t' \<and>
    ht_lookup str_ops t' (cstr_of [97]) = Inr (Some (Some 1))"
proof
  fix e :: "(cstr, nat) ht_entry"
  obtain t where t: "htable_create (any_mem e) 3 = Inr (Some t)"
    using str_ht.create_holds [of 3 "any_mem e" 0] htable_create_granted [of "any_mem e" 3] by auto
  then show "\<exists>t t'. htable_create (any_mem e) 3 = Inr (Some t) \<and>
    ht_run str_ops [(any_mem e, Op_set (cstr_of [97]) (Some (1::nat)))] t = Inr t' \<and>
    ht_lookup str_ops t' (cstr_of [97]) = Inr (Some (Some 1))"
    using str_table_from_creation [OF _ _ t, of "[(any_mem e, Op_set (cstr_of [97]) (Some 1))]"]
    by (auto simp: ht_limit_def)
qed

text \<open>
  C3: \<open>htable_set_with_flag\<close> on a valid table with key macros that meet the contract. It returns
  without a fault and leaves a valid table. If it returns true, the data of a present key was
  updated in place (flag false) or the pair was appended at the end of the iteration order (flag
  true); growing the table may first permute the order of the old pairs. If it returns false the
  pairs are the old ones, and an allocation was refused.
\<close>

theorem table_set:
  fixes t :: "('k, 'v) htable"
  assumes "ht_key ops" "ht_inv ops t" "ht_count t + 1 < 3 * 2 ^ 29"
  shows "\<exists>ret flag t' base. htable_set_with_flag ops m t k v = Inr (ret, flag, t') \<and> ht_inv ops t' \<and>
    mset base = mset (ht_alist t) \<and> (\<not> needs_room t \<longrightarrow> base = ht_alist t) \<and>
    (if ret then flag = Some (k \<notin> fst ` set base) \<and> ht_alist t' = AList.update k v base
     else flag \<noteq> Some True \<and> ht_alist t' = base \<and> \<not> grants m)"
  by (rule ht_key.set_pairs [OF assms])

theorem table_set_witness:
  "\<exists>ret flag t' base. htable_set_with_flag int_ops sample_mem sample_table 5 (Some 1) = Inr (ret, flag, t') \<and>
    ht_inv int_ops t' \<and> mset base = mset (ht_alist sample_table) \<and>
    (\<not> needs_room sample_table \<longrightarrow> base = ht_alist sample_table) \<and>
    (if ret then flag = Some (5 \<notin> fst ` set base) \<and> ht_alist t' = AList.update 5 (Some 1) base
     else flag \<noteq> Some True \<and> ht_alist t' = base \<and> \<not> grants sample_mem)"
  using sample_table_empty
  by (intro table_set [OF int_ht.ht_key_axioms sample_table_inv]) simp

text \<open>
  C4: \<open>htable_delete_with_flag\<close> on a valid table returns without a fault and leaves a valid table.
  With the flag set it returned the data of the key, handed the stored key to the free macro, and
  removed the pair without changing the order of the others; with the flag clear nothing changed.
  If \<open>realloc\<close> succeeds, the flag says whether the key was there.
\<close>

theorem table_delete:
  fixes t :: "('k, 'v) htable"
  assumes "ht_key ops" "ht_inv ops t"
  shows "\<exists>d flag released t'. htable_delete_with_flag ops m t k = Inr (d, flag, released, t') \<and> ht_inv ops t' \<and>
    (if flag then map_of (ht_alist t) k = Some d \<and> released = HT_KEY_FREE_CB ops k \<and>
       ht_alist t' = AList.delete k (ht_alist t)
     else d = None \<and> released = [] \<and> ht_alist t' = ht_alist t) \<and>
    ((\<forall>n. realloc_ok m n) \<longrightarrow> flag = (k \<in> fst ` set (ht_alist t)))"
proof -
  obtain ps where "ht_rep ops t ps" using assms(2) by (auto simp: ht_inv_def)
  from ht_key.htable_delete_with_flag_correct [OF assms(1) this, of m k] show ?thesis
    unfolding delete_outcome_def .
qed

theorem table_delete_witness:
  "\<exists>released t'. htable_delete_with_flag int_ops sample_mem used_table 5 = Inr (Some 50, True, released, t') \<and>
    ht_alist t' = AList.delete 5 (ht_alist used_table)"
proof -
  have m: "map_of (ht_alist used_table) 5 = Some (Some 50)" by (simp add: used_table_map)
  then have "5 \<in> fst ` set (ht_alist used_table)" by (force dest: map_of_SomeD)
  then show ?thesis
    using table_delete [OF int_ht.ht_key_axioms used_table_inv, of sample_mem 5] m
    by (auto simp: sample_mem_def split: if_splits)
qed

text \<open>
  C5: \<open>htable_get_with_flag\<close> on a valid table returns the data of the key, and whether it is there;
  it never leaves an array and always ends.
\<close>

theorem table_get:
  fixes t :: "('k, 'v) htable"
  assumes "ht_key ops" "ht_inv ops t"
  shows "htable_get_with_flag ops t k =
    Inr (case map_of (ht_alist t) k of None \<Rightarrow> (None, False) | Some d \<Rightarrow> (d, True))"
  using assms(2) ht_key.htable_get_with_flag_correct [OF assms(1)] by (auto simp: ht_inv_def)

theorem table_get_witness:
  "htable_get_with_flag int_ops used_table 5 = Inr (Some 50, True) \<and>
   htable_get_with_flag int_ops used_table 7 = Inr (None, True) \<and>
   htable_get_with_flag int_ops used_table 6 = Inr (None, False)"
  using table_get [OF int_ht.ht_key_axioms used_table_inv] by (simp add: used_table_map)

text \<open>
  Inserting a new key into a valid table, with memory granted, and deleting it again is the
  identity: in between, looking it up gives the inserted data; the deletion returns that data; and the
  table left is valid, with the pairs it had before and the same answer to every lookup.
\<close>

theorem table_round_trip:
  fixes t :: "('k, 'v) htable"
  assumes "ht_key ops" "ht_inv ops t" "ht_count t + 1 < 3 * 2 ^ 29" "grants m" "grants m'"
    and "k \<notin> fst ` set (ht_alist t)"
  shows "\<exists>t1 t2 released. htable_set_with_flag ops m t k v = Inr (True, Some True, t1) \<and>
    htable_get_with_flag ops t1 k = Inr (v, True) \<and>
    htable_delete_with_flag ops m' t1 k = Inr (v, True, released, t2) \<and> ht_inv ops t2 \<and>
    mset (ht_alist t2) = mset (ht_alist t) \<and> (\<forall>k'. htable_get_with_flag ops t2 k' = htable_get_with_flag ops t k')"
proof -
  obtain t1 base where set: "htable_set_with_flag ops m t k v = Inr (True, Some True, t1)" "ht_inv ops t1"
    "mset base = mset (ht_alist t)" "ht_alist t1 = AList.update k v base"
    by (rule ht_key.set_new [OF assms(1-4,6), of v])
  have k: "k \<notin> fst ` set base" using assms(6) set(3) by (metis set_mset_mset)
  have get: "htable_get_with_flag ops u x =
      Inr (case map_of (ht_alist u) x of None \<Rightarrow> (None, False) | Some d \<Rightarrow> (d, True))" if "ht_inv ops u" for u x
    using that ht_key.htable_get_with_flag_correct [OF assms(1)] by (auto simp: ht_inv_def)
  have found: "map_of (ht_alist t1) k = Some v" by (simp add: set(4) update_conv')
  obtain released t2 where del: "htable_delete_with_flag ops m' t1 k = Inr (v, True, released, t2)" "ht_inv ops t2"
    "ht_alist t2 = AList.delete k (ht_alist t1)"
    by (rule ht_key.delete_found [OF assms(1) set(2) found assms(5)])
  have "ht_alist t2 = base" using k by (simp add: del(3) set(4) delete_update_new)
  then have "mset (ht_alist t2) = mset (ht_alist t)" "map_of (ht_alist t2) = map_of (ht_alist t)"
    using set(3) map_of_mset [OF inv_distinct [OF del(2)]] by simp_all
  then show ?thesis using set(1) del(1,2) get [OF set(2)] get [OF del(2)] get [OF assms(2)] found by auto
qed

theorem table_round_trip_witness:
  "\<exists>t1 t2 released. htable_set_with_flag int_ops sample_mem sample_table 5 (Some 1) = Inr (True, Some True, t1) \<and>
    htable_get_with_flag int_ops t1 5 = Inr (Some 1, True) \<and>
    htable_delete_with_flag int_ops sample_mem t1 5 = Inr (Some 1, True, released, t2) \<and>
    htable_get_with_flag int_ops t2 6 = htable_get_with_flag int_ops sample_table 6"
  using table_round_trip [OF int_ht.ht_key_axioms sample_table_inv, of sample_mem sample_mem 5 "Some 1"]
    sample_table_empty by auto

text \<open>
  C13: Growing a valid table of at most 2^31 slots keeps exactly its pairs, doubles the index,
  drops every deleted mark and every freed entry number, and leaves a valid table; it fails only
  where an allocation was refused, and then changes nothing.
\<close>

theorem table_grow:
  fixes t :: "('k, 'v) htable"
  assumes "ht_inv ops t" "index_capacity t \<le> 2 ^ 31"
  shows "\<exists>ret t'. htable_grow m t = Inr (ret, t') \<and> ht_inv ops t' \<and>
    mset (ht_alist t') = mset (ht_alist t) \<and> (grants m \<longrightarrow> ret) \<and>
    (if ret then index_capacity t' = 2 * index_capacity t \<and> deleted_count t' = 0 \<and>
       unat (entry_next_insert t') = length (ht_alist t)
     else t' = t)"
proof -
  obtain ps where rep: "ht_rep ops t ps" using assms(1) by (auto simp: ht_inv_def)
  have "ht_count t = length (ht_alist t)" by (rule inv_count [OF assms(1)])
  then show ?thesis
    using htable_grow_correct [OF rep assms(2), of m] assms(1)
    by (fastforce simp: grown_def ht_inv_def grants_def)
qed

theorem table_grow_witness:
  "\<exists>t'. htable_grow sample_mem sample_table = Inr (True, t') \<and> index_capacity t' = 8"
  using table_grow [OF sample_table_inv, of sample_mem] by (auto simp: sample_table_def)

text \<open>
  C14: \<open>htable_free_with_cleanup\<close> on a valid table ends, with as much fuel as there are entries and
  one, and releases each pair of the table exactly once, in iteration order (its key through the
  free macro, its data through the callback if there is one), then the arrays and the table.
\<close>

theorem table_free:
  fixes t :: "('k, 'v) htable"
  assumes "ht_inv ops t"
  shows "htable_free_with_cleanup ops (Suc (ht_count t)) t cb = Inr (Some (
    concat (map (\<lambda>(k, d). map Key_released (HT_KEY_FREE_CB ops k) @
                          (if cb then [Data_released d] else [])) (ht_alist t)) @
    [Deleted_list_released, Index_list_released, Entries_released, Table_released]))"
  using assms htable_free_with_cleanup_correct by (fastforce simp: ht_inv_def)

theorem table_free_witness:
  "htable_free_with_cleanup int_ops (Suc (ht_count sample_table)) sample_table True = Inr (Some
    [Deleted_list_released, Index_list_released, Entries_released, Table_released])"
  using table_free [OF sample_table_inv, of True] by (simp add: sample_table_empty)

text \<open>
  C15: Iterating over a valid table ends and meets as many entries as \<open>htable_count\<close> says, with
  pairwise different keys, each of which a lookup finds with the data met.
\<close>

theorem table_iterates:
  fixes t :: "('k, 'v) htable"
  assumes "ht_key ops" "ht_inv ops t" "htable_count t < fuel"
  shows "\<exists>es. ht_foreach fuel t = Inr (Some es) \<and> length es = htable_count t \<and>
    distinct (map key es) \<and> (\<forall>e \<in> set es. htable_get_with_flag ops t (key e) = Inr (data e, True))"
proof -
  obtain ps where rep: "ht_rep ops t ps" using assms(2) by (auto simp: ht_inv_def)
  let ?es = "map (\<lambda>p. entries t ! unat p) ps"
  have al: "ht_alist t = map entry_pair ?es"
    using rep_alist [OF rep] by (simp add: pairs_of_def comp_def)
  have d: "distinct (map fst (ht_alist t))" by (rule inv_distinct [OF assms(2)])
  have "map_of (ht_alist t) (key e) = Some (data e)" if "e \<in> set ?es" for e
  proof (rule map_of_is_SomeI [OF d])
    show "(key e, data e) \<in> set (ht_alist t)"
      unfolding al set_map [of entry_pair] using imageI [OF that, of entry_pair] by (simp only: entry_pair_def)
  qed
  moreover have "distinct (map key ?es)" using d by (simp add: al entry_pair_def comp_def)
  moreover have "ht_foreach fuel t = Inr (Some ?es)"
    using rep_foreach [OF rep] assms(3) by (simp add: htable_count_def)
  moreover have "length ?es = htable_count t" using rep_count(1) [OF rep] by (simp add: htable_count_def)
  ultimately show ?thesis
    using ht_key.htable_get_with_flag_correct [OF assms(1) rep]
    by (intro exI [of _ ?es]) simp
qed

theorem table_iterates_witness:
  "\<exists>es. ht_foreach 5 used_table = Inr (Some es) \<and> length es = htable_count used_table \<and>
    distinct (map key es) \<and>
    (\<forall>e \<in> set es. htable_get_with_flag int_ops used_table (key e) = Inr (data e, True))"
  using used_table_count
  by (intro table_iterates [OF int_ht.ht_key_axioms used_table_inv]) (simp add: htable_count_def)

text \<open>
  C32: A table whose key macros meet the contract is in the order of insertion as long as it need not
  grow. After creation with an index of \<open>unat c\<close> slots and any sequence of granted calls in which no
  more than \<open>N\<close> keys are held at once, where \<open>N\<close> keys and one more fit under the load limit, iteration
  meets exactly the pairs of the association list that goes through the same calls: an update stays
  in its place, a new key goes to the end, also one that was deleted before, and a deletion keeps the
  order of the rest.
\<close>

theorem table_in_order:
  assumes "ht_key ops" "2 \<le> cap" "unat cap \<le> 2 ^ 32" "htable_create (m :: ('k, 'v) ht_mem) cap = Inr (Some t)"
    and "util_round_ceil2_ull cap = Inr c" "unat c \<le> 2 ^ 31" "(N + 1) * 4 < unat c * 3"
    and "\<forall>m \<in> fst ` set cs. grants m" "\<forall>ds \<in> set (prefixes (map snd cs)). length (kv_run ds []) \<le> N"
  shows "\<exists>t' es. ht_run ops cs t = Inr t' \<and> ht_foreach (N + 1) t' = Inr (Some es) \<and>
    map entry_pair es = kv_run (map snd cs) []"
proof -
  have o: "in_order ops t [] 0 (unat c)" using ht_key.create_in_order [OF assms(1-4)] assms(5) by simp
  have "fits_index (N + 1) (unat c)" using assms(6,7) by (simp add: fits_index_def)
  then obtain t' n' where t': "ht_run ops cs t = Inr t'" "in_order ops t' (kv_run (map snd cs) []) n' (unat c)"
    using ht_key.run_in_order [OF assms(1) o _ _ assms(8), of N] assms(9) by (auto simp: in_set_prefixes)
  have "length (kv_run (map snd cs) []) \<le> N" using assms(9) by simp
  then show ?thesis using ht_key.iterate_in_order [OF assms(1) t'(2), of "N + 1"] t'(1) by simp
qed

theorem table_in_order_witness:
  "\<forall>e. \<exists>t t' es. htable_create (any_mem e :: (cstr, nat) ht_mem) 8 = Inr (Some t) \<and>
    ht_run str_ops (map (Pair (any_mem e))
      [Op_set (cstr_of [97]) (Some 1), Op_set (cstr_of [98]) (Some 2), Op_set (cstr_of [99]) None,
       Op_delete (cstr_of [97]), Op_set (cstr_of [98]) (Some 4), Op_set (cstr_of [97]) (Some 3)]) t = Inr t' \<and>
    ht_foreach 4 t' = Inr (Some es) \<and>
    map entry_pair es = [(cstr_of [98], Some 4), (cstr_of [99], None), (cstr_of [97], Some 3)]"
proof
  fix e :: "(cstr, nat) ht_entry"
  let ?cs = "[Op_set (cstr_of [97]) (Some 1), Op_set (cstr_of [98]) (Some 2), Op_set (cstr_of [99]) None,
       Op_delete (cstr_of [97]), Op_set (cstr_of [98]) (Some 4), Op_set (cstr_of [97]) (Some (3::nat))]"
  obtain t where t: "htable_create (any_mem e) 8 = Inr (Some t)"
    using str_ht.create_holds [of 8 "any_mem e" 0] htable_create_granted [of "any_mem e" 8] by auto
  have c: "util_round_ceil2_ull 8 = Inr 8" by code_simp
  have "cstr_of [97] \<noteq> cstr_of [98]" "cstr_of [97] \<noteq> cstr_of [99]" "cstr_of [98] \<noteq> cstr_of [99]"
    by (simp_all add: cstr_of_inject)
  note ne = this this [symmetric]
  have run: "kv_run ?cs [] = [(cstr_of [98], Some 4), (cstr_of [99], None), (cstr_of [97], Some 3)]"
    and "\<forall>ds \<in> set (prefixes ?cs). length (kv_run ds []) \<le> 3" using ne by simp_all
  then have "\<exists>t' es. ht_run str_ops (map (Pair (any_mem e)) ?cs) t = Inr t' \<and> ht_foreach (3 + 1) t' = Inr (Some es) \<and>
      map entry_pair es = kv_run (map snd (map (Pair (any_mem e)) ?cs)) []"
    by (intro table_in_order [OF str_ht.ht_key_axioms _ _ t c]) (simp_all add: comp_def)
  then show "\<exists>t t' es. htable_create (any_mem e) 8 = Inr (Some t) \<and> ht_run str_ops (map (Pair (any_mem e)) ?cs) t = Inr t' \<and>
    ht_foreach 4 t' = Inr (Some es) \<and> map entry_pair es = [(cstr_of [98], Some 4), (cstr_of [99], None), (cstr_of [97], Some 3)]"
    using t run by (auto simp: comp_def)
qed

text \<open>
  \<open>htable_create\<close> with a capacity from 2 to 2^32 returns \<open>NULL\<close> only if an allocation was
  refused, and otherwise a valid empty table; a capacity below 2 fails its assertion.
\<close>

theorem table_create:
  fixes m :: "('k, 'v) ht_mem"
  assumes "unat cap \<le> 2 ^ 32"
  shows "if 2 \<le> cap
    then (htable_create m cap = Inr None \<and> \<not> grants m) \<or>
      (\<exists>t. htable_create m cap = Inr (Some t) \<and> ht_inv ops t \<and> ht_alist t = [])
    else htable_create m cap = Inl Assertion_failed"
proof (cases "2 \<le> cap")
  case True
  then show ?thesis
    using htable_create_correct [OF True assms, of m ops] htable_create_granted [of m cap]
    by (auto simp: ht_inv_def rep_alist pairs_of_def)
qed (simp add: htable_create_def)

theorem table_create_witness:
  "(\<exists>t. htable_create sample_mem 3 = Inr (Some t) \<and> ht_inv int_ops t \<and> ht_alist t = []) \<and>
   htable_create sample_mem 1 = Inl Assertion_failed"
  using table_create [of 3 sample_mem int_ops] table_create [of 1 sample_mem int_ops]
  by (simp add: word_le_nat_alt)

section \<open>The hash functions\<close>

text \<open>
  C17: The three hash functions return for every seed, every table of secrets and every length not
  exceeding the buffer: no read leaves the buffer and every loop ends.
\<close>

theorem rapidhash_safe:
  assumes "len \<le> length buf"
  shows "returns (rapidhashMicro_internal buf len seed secret) \<and>
    returns (rapidhashNano_internal buf len seed secret) \<and>
    returns (rapidhash_internal is_compact buf len seed secret)"
  using rapidhashMicro_ok [OF assms] rapidhashNano_ok [OF assms] rapidhash_ok [OF assms] by blast

theorem rapidhash_safe_witness:
  "returns (rapidhashMicro_internal (replicate 300 7) 300 0 rapid_secret)"
  using rapidhash_safe [of 300 "replicate 300 7" 0 rapid_secret] by simp

text \<open>
  C18: The branches of \<open>rapidhash.h\<close> agree. The 64-by-64 multiplication out of 32-bit halves, with its
  two carries, gives the low and the high half of the 128-bit product, as the 128-bit multiplication
  does; reading eight or four bytes on a big-endian machine and swapping them, with shifts and masks
  or with the function of the compiler, is the little-endian read; and the unrolled loop, two rounds of 112 bytes at a time with a remainder,
  gives the same hash and the same reads as the compact loop.
\<close>

theorem rapid_portable:
  "rapid_mum_portable A B = rapid_mum A B \<and> rapid_read64_swapped buf p = rapid_read64 buf p \<and>
   rapid_read32_swapped buf p = rapid_read32 buf p \<and>
   rapid_read64_bswap buf p = rapid_read64 buf p \<and> rapid_read32_bswap buf p = rapid_read32 buf p \<and>
   rapidhash_internal False buf len seed secret = rapidhash_internal True buf len seed secret"
  using rapid_mum_portable_eq rapid_read64_swapped_eq rapid_read32_swapped_eq rapid_read_bswap_eq
    rapidhash_internal_compact by blast

text \<open>
  C21: The hash of an integer key is a bijection of the 64-bit words: two different keys never have
  the same cached hash.
\<close>

theorem int_hash_bijective: "bij int_htable_key_hash"
  by (rule int_htable_key_hash_bij)

section \<open>Rounding up to a power of two\<close>

text \<open>
  C22: \<open>util_round_ceil2_ull\<close> returns values up to 2 unchanged, the least power of two that is not
  below a larger value up to 2^63, and shifts a 64-bit value by 64 for any value above 2^63. The
  portable version agrees with it up to 2^63, and returns 0 above.
\<close>

theorem round_ceil2:
  "(if value \<le> 2 then util_round_ceil2_ull value = Inr value
   else if unat value \<le> 2 ^ 63
   then \<exists>k < 64. util_round_ceil2_ull value = Inr (2 ^ k) \<and> unat value \<le> 2 ^ k \<and>
     (\<forall>j. unat value \<le> 2 ^ j \<longrightarrow> k \<le> j)
   else util_round_ceil2_ull value = Inl Shift_overflow) \<and>
   (util_round_ceil2_ull value = Inr (util_round_ceil2_ull_portable value) \<or>
    2 ^ 63 < unat value \<and> util_round_ceil2_ull_portable value = 0)"
  by (rule conjI [OF round_ceil2_values portable_agrees])

theorem round_ceil2_witness:
  "\<exists>k < 64. util_round_ceil2_ull 5 = Inr (2 ^ k) \<and> (5::nat) \<le> 2 ^ k \<and> (\<forall>j. (5::nat) \<le> 2 ^ j \<longrightarrow> k \<le> j)"
  using round_ceil2 [of 5, THEN conjunct1] by simp

end
