(* ===== verification/Xpoll_Poll.thy ===== *)
theory Xpoll_Poll
  imports Prelude
begin

text \<open>
  The \<open>poll\<close> back end of \<open>src/src/event/xpoll.c\<close> (\<open>FH_PLATFORM_UNKNOWN\<close>), the one that keeps its own
  registrations: \<open>pfd_list\<close> and \<open>fd_info_list\<close> hold them densely in their first \<open>pfd_count\<close>
  elements, and \<open>fd_table\<close> maps a descriptor to its place there. \<open>poll\<close> itself is a parameter.
\<close>

section \<open>Data\<close>

text \<open>A descriptor, a C \<open>int\<close>, compared with an unsigned 32-bit value, is converted to one.\<close>

definition fd_u :: "fd \<Rightarrow> nat" where
  "fd_u fd = nat (fd mod 2 ^ 32)"

record pollfd =
  pfd_fd :: fd
  pfd_events :: u16
  pfd_revents :: u16

record 'u xpoll =
  pfd_next_idx :: nat
  pfd_count :: nat
  pfd_cap :: nat
  fd_table_cap :: nat
  pfd_last_wait_index :: nat
  fd_table :: "u32 list"
  pfd_list :: "pollfd list"
  fd_info_list :: "'u list"

datatype errno = EEXIST | ENOENT | EINVAL | ENOMEM | ENOBUFS | ENOTRECOVERABLE

text \<open>
  What the allocator does in one call: which of the three arrays it can reallocate, and what the
  new memory holds.
\<close>

record 'u xp_mem =
  calloc_xp_ok :: bool
  realloc_fds_ok :: bool
  realloc_pfds_ok :: bool
  realloc_infos_ok :: bool
  fresh_pfd :: "nat \<Rightarrow> pollfd"
  fresh_info :: "nat \<Rightarrow> 'u"

definition resized :: "(nat \<Rightarrow> 'a) \<Rightarrow> 'a list \<Rightarrow> nat \<Rightarrow> 'a list" where
  "resized fresh xs n = take n xs @ map fresh [length xs ..< n]"

text \<open>The event masks: \<open>poll.h\<close> and the \<open>enum xpoll_event_type\<close> of this platform.\<close>

definition POLLIN :: u32 where "POLLIN = 0x001"
definition POLLOUT :: u32 where "POLLOUT = 0x004"
definition POLLERR :: u32 where "POLLERR = 0x008"
definition POLLHUP :: u32 where "POLLHUP = 0x010"
definition POLLNVAL :: u32 where "POLLNVAL = 0x020"
definition XPOLL_READ :: u32 where "XPOLL_READ = POLLIN"
definition XPOLL_WRITE :: u32 where "XPOLL_WRITE = POLLOUT"
definition XPOLL_ERROR :: u32 where "XPOLL_ERROR = POLLERR"
definition XPOLL_HANGUP :: u32 where "XPOLL_HANGUP = POLLHUP"
definition XPOLL_READ_HANGUP :: u32 where "XPOLL_READ_HANGUP = POLLHUP"
definition XPOLL_EDGE :: u32 where "XPOLL_EDGE = 0x40000000"

text \<open>The \<open>short\<close> \<open>events\<close> field of a registration.\<close>

definition poll_mask :: "u32 \<Rightarrow> u16" where
  "poll_mask events = ucast (events AND NOT XPOLL_EDGE)"

type_synonym 'u ctl = "(bool \<times> errno option \<times> 'u xpoll) checked"

definition xpoll_create :: "'u xp_mem \<Rightarrow> 'u xpoll option" where
  "xpoll_create m = (if calloc_xp_ok m then Some \<lparr>
     pfd_next_idx = 0, pfd_count = 0, pfd_cap = 0, fd_table_cap = 0, pfd_last_wait_index = 0,
     fd_table = [], pfd_list = [], fd_info_list = []\<rparr> else None)"

section \<open>Registration\<close>

text \<open>An access \<open>xp->fd_table[fd]\<close>.\<close>

definition fd_slot :: "fd \<Rightarrow> nat checked" where
  "fd_slot fd = (if fd < 0 then Inl Out_of_bounds else Inr (nat fd))"

definition fd_table_get :: "'u xpoll \<Rightarrow> fd \<Rightarrow> u32 checked" where
  "fd_table_get xp fd = and_then (fd_slot fd) (aget (fd_table xp))"

definition fd_table_set :: "'u xpoll \<Rightarrow> fd \<Rightarrow> u32 \<Rightarrow> u32 list checked" where
  "fd_table_set xp fd idx = and_then (fd_slot fd) (\<lambda>i. aset (fd_table xp) i idx)"

text \<open>Growing \<open>fd_table\<close>; \<open>None\<close> is \<open>return false\<close>. The \<open>memset\<close> fills from the old capacity on.\<close>

definition xpoll_grow_fd_table :: "'u xp_mem \<Rightarrow> 'u xpoll \<Rightarrow> fd \<Rightarrow> 'u xpoll option checked" where
  "xpoll_grow_fd_table m xp fd =
     (let new_cap = (if fd_table_cap xp < 16 then 16
                     else if fd_table_cap xp < 2 ^ 16 then w32 (fd_table_cap xp * 2)
                     else fd_u (fd + 1))
      in if \<not> realloc_fds_ok m then Inr None
         else if new_cap < fd_table_cap xp then Inl Out_of_bounds
         else Inr (Some (xp\<lparr>
           fd_table := fd_table xp @ replicate (new_cap - fd_table_cap xp) UINT32_MAX,
           fd_table_cap := new_cap\<rparr>)))"

text \<open>Growing \<open>pfd_list\<close> and \<open>fd_info_list\<close>: the flag is false where the code returns false.\<close>

definition xpoll_grow_pfds :: "'u xp_mem \<Rightarrow> 'u xpoll \<Rightarrow> bool \<times> 'u xpoll" where
  "xpoll_grow_pfds m xp =
     (if pfd_count xp \<ge> pfd_cap xp then
        let new_cap = (if pfd_cap xp < 16 then 16 else w32 (pfd_cap xp * 2))
        in if \<not> realloc_pfds_ok m then (False, xp)
           else let xp = xp\<lparr>pfd_list := resized (fresh_pfd m) (pfd_list xp) new_cap\<rparr>
             in if \<not> realloc_infos_ok m then (False, xp)
                else (True, xp\<lparr>fd_info_list := resized (fresh_info m) (fd_info_list xp) new_cap,
                               pfd_cap := new_cap\<rparr>)
      else (True, xp))"

text \<open>Writing the new registration.\<close>

definition xpoll_append_fd :: "'u xpoll \<Rightarrow> fd \<Rightarrow> 'u \<Rightarrow> u32 \<Rightarrow> 'u xpoll checked" where
  "xpoll_append_fd xp fd udata events =
     (let idx = pfd_count xp; xp = xp\<lparr>pfd_count := w32 (pfd_count xp + 1)\<rparr>
      in and_then (aset (pfd_list xp) idx
             \<lparr>pfd_fd = fd, pfd_events = poll_mask events, pfd_revents = 0\<rparr>) (\<lambda>pfds.
         and_then (aset (fd_info_list xp) idx udata) (\<lambda>infos.
         and_then (fd_table_set xp fd (word_of_nat idx)) (\<lambda>fds.
         Inr (xp\<lparr>pfd_list := pfds, fd_info_list := infos, fd_table := fds\<rparr>)))))"

definition xpoll_ctl_add :: "'u xp_mem \<Rightarrow> 'u xpoll \<Rightarrow> fd \<Rightarrow> 'u \<Rightarrow> u32 \<Rightarrow> 'u ctl" where
  "xpoll_ctl_add m xp fd udata events =
     (let finish = (\<lambda>xp.
        let (room, xp) = xpoll_grow_pfds m xp
        in if \<not> room then Inr (False, None, xp)
           else and_then (xpoll_append_fd xp fd udata events) (\<lambda>xp. Inr (True, None, xp)))
      in if fd_u fd \<ge> fd_table_cap xp then
           and_then (xpoll_grow_fd_table m xp fd) (\<lambda>res.
           case res of None \<Rightarrow> Inr (False, None, xp) | Some xp \<Rightarrow> finish xp)
         else
           and_then (fd_table_get xp fd) (\<lambda>cur.
           if cur \<noteq> UINT32_MAX then Inr (False, Some EEXIST, xp) else finish xp))"

text \<open>The guard \<open>XPOLL_CTL_MOD\<close> and \<open>XPOLL_CTL_DEL\<close> share: the place of \<open>fd\<close>, if registered.\<close>

definition xpoll_find :: "'u xpoll \<Rightarrow> fd \<Rightarrow> u32 option checked" where
  "xpoll_find xp fd =
     (if pfd_count xp = 0 \<or> fd_u fd \<ge> fd_table_cap xp then Inr None
      else and_then (fd_table_get xp fd) (\<lambda>idx. Inr (if idx = UINT32_MAX then None else Some idx)))"

definition xpoll_ctl_mod :: "'u xpoll \<Rightarrow> fd \<Rightarrow> 'u \<Rightarrow> u32 \<Rightarrow> 'u ctl" where
  "xpoll_ctl_mod xp fd udata events =
     and_then (xpoll_find xp fd) (\<lambda>res.
     case res of
       None \<Rightarrow> Inr (False, Some ENOENT, xp)
     | Some idx \<Rightarrow>
         and_then (aupd (pfd_list xp) (unat idx) (\<lambda>p. p\<lparr>pfd_events := poll_mask events\<rparr>)) (\<lambda>pfds.
         and_then (aset (fd_info_list xp) (unat idx) udata) (\<lambda>infos.
         Inr (True, None, xp\<lparr>pfd_list := pfds, fd_info_list := infos\<rparr>))))"

text \<open>
  Shrinking after a removal. Each of the two reallocations may fail on its own; a failed one keeps
  its larger array.
\<close>

definition xpoll_shrink_pfds :: "'u xp_mem \<Rightarrow> 'u xpoll \<Rightarrow> 'u xpoll" where
  "xpoll_shrink_pfds m xp =
     (if pfd_cap xp > 16 \<and> pfd_count xp < pfd_cap xp div 4 then
        let new_cap = pfd_cap xp div 4
        in xp\<lparr>pfd_list := (if realloc_pfds_ok m then resized (fresh_pfd m) (pfd_list xp) new_cap
                           else pfd_list xp),
              fd_info_list := (if realloc_infos_ok m then resized (fresh_info m) (fd_info_list xp) new_cap
                               else fd_info_list xp),
              pfd_cap := (if realloc_pfds_ok m \<or> realloc_infos_ok m then new_cap else pfd_cap xp)\<rparr>
      else xp)"

definition xpoll_ctl_del :: "'u xp_mem \<Rightarrow> 'u xpoll \<Rightarrow> fd \<Rightarrow> 'u ctl" where
  "xpoll_ctl_del m xp fd =
     and_then (xpoll_find xp fd) (\<lambda>res.
     case res of
       None \<Rightarrow> Inr (False, Some ENOENT, xp)
     | Some idx \<Rightarrow>
         and_then (fd_table_set xp fd UINT32_MAX) (\<lambda>fds.
         and_then (if pfd_count xp > 1
                   then and_then (aget (pfd_list xp) (pfd_count xp - 1)) (aset (pfd_list xp) (unat idx))
                   else Inr (pfd_list xp)) (\<lambda>pfds.
         and_then (if pfd_count xp > 1
                   then and_then (aget (fd_info_list xp) (pfd_count xp - 1))
                          (aset (fd_info_list xp) (unat idx))
                   else Inr (fd_info_list xp)) (\<lambda>infos.
         Inr (True, None, xpoll_shrink_pfds m (xp\<lparr>fd_table := fds, pfd_list := pfds,
           fd_info_list := infos, pfd_count := pfd_count xp - 1\<rparr>))))))"

datatype xpoll_op = XPOLL_CTL_ADD | XPOLL_CTL_MOD | XPOLL_CTL_DEL

definition xpoll_ctl_fd :: "'u xp_mem \<Rightarrow> 'u xpoll \<Rightarrow> fd \<Rightarrow> 'u \<Rightarrow> xpoll_op \<Rightarrow> u32 \<Rightarrow> 'u ctl" where
  "xpoll_ctl_fd m xp fd udata op_generic events =
     (case op_generic of
        XPOLL_CTL_ADD \<Rightarrow> xpoll_ctl_add m xp fd udata events
      | XPOLL_CTL_MOD \<Rightarrow> xpoll_ctl_mod xp fd udata events
      | XPOLL_CTL_DEL \<Rightarrow> xpoll_ctl_del m xp fd)"

definition xpoll_add_fd :: "'u xp_mem \<Rightarrow> 'u xpoll \<Rightarrow> fd \<Rightarrow> 'u \<Rightarrow> u32 \<Rightarrow> 'u ctl" where
  "xpoll_add_fd m xp fd udata events =
     and_then (assert_that (fd \<ge> 0)) (\<lambda>_. xpoll_ctl_fd m xp fd udata XPOLL_CTL_ADD events)"

definition xpoll_modify_fd :: "'u xp_mem \<Rightarrow> 'u xpoll \<Rightarrow> fd \<Rightarrow> 'u \<Rightarrow> u32 \<Rightarrow> 'u ctl" where
  "xpoll_modify_fd m xp fd udata events = xpoll_ctl_fd m xp fd udata XPOLL_CTL_MOD events"

definition xpoll_remove_fd :: "'u xp_mem \<Rightarrow> 'u xpoll \<Rightarrow> fd \<Rightarrow> 'u \<Rightarrow> 'u ctl" where
  "xpoll_remove_fd m xp fd null =
     xpoll_ctl_fd m xp fd null XPOLL_CTL_DEL (XPOLL_READ OR XPOLL_WRITE)"

definition xpoll_add_or_modify_fd :: "'u xp_mem \<Rightarrow> 'u xpoll \<Rightarrow> fd \<Rightarrow> 'u \<Rightarrow> u32 \<Rightarrow> 'u ctl" where
  "xpoll_add_or_modify_fd m xp fd udata events =
     and_then (xpoll_ctl_fd m xp fd udata XPOLL_CTL_MOD events) (\<lambda>(ret, err, xp).
     if \<not> ret then xpoll_ctl_fd m xp fd udata XPOLL_CTL_ADD events else Inr (True, err, xp))"

section \<open>Waiting\<close>

record 'u xpoll_event =
  ev_events :: u32
  ev_fd :: fd
  ev_udata :: 'u

text \<open>\<open>revents\<close> is a \<open>short\<close>: widening it to \<open>uint32_t\<close> extends its sign.\<close>

definition xpoll_event_mask :: "u16 \<Rightarrow> u32" where
  "xpoll_event_mask revents =
     (if scast revents AND POLLNVAL \<noteq> 0
      then (scast revents AND NOT POLLNVAL) OR XPOLL_ERROR else scast revents)"

definition xpoll_event_of :: "'u xpoll \<Rightarrow> nat \<Rightarrow> 'u xpoll_event" where
  "xpoll_event_of xp i = \<lparr>ev_events = xpoll_event_mask (pfd_revents (pfd_list xp ! i)),
     ev_fd = pfd_fd (pfd_list xp ! i), ev_udata = fd_info_list xp ! i\<rparr>"

text \<open>The loop of \<open>xpoll_wait\<close>; it returns \<open>events_out[0..count-1]\<close> and the final \<open>i\<close>.\<close>

function xpoll_scan ::
  "'u xpoll \<Rightarrow> nat \<Rightarrow> nat \<Rightarrow> nat \<Rightarrow> bool \<Rightarrow> nat \<Rightarrow> 'u xpoll_event list \<Rightarrow>
   ('u xpoll_event list \<times> nat) checked"
where
  "xpoll_scan xp max_events begin limit rotated i out =
     (if i < limit \<and> length out < max_events then
        and_then (aget (pfd_list xp) i) (\<lambda>p.
        and_then (if pfd_revents p \<noteq> 0
                  then and_then (aget (fd_info_list xp) i) (\<lambda>u.
                       Inr (out @ [\<lparr>ev_events = xpoll_event_mask (pfd_revents p),
                                    ev_fd = pfd_fd p, ev_udata = u\<rparr>]))
                  else Inr out) (\<lambda>out.
        if i + 1 \<ge> pfd_count xp \<and> \<not> rotated \<and> begin \<noteq> 0
        then xpoll_scan xp max_events begin begin True 0 out
        else xpoll_scan xp max_events begin limit rotated (i + 1) out))
      else Inr (out, i))"
  by pat_completeness auto
termination
  by (relation "measures [\<lambda>(xp, m, b, limit, rotated, i, out). if rotated then 0 else 1,
                          \<lambda>(xp, m, b, limit, rotated, i, out). limit - i]") auto

declare xpoll_scan.simps [simp del]

text \<open>
  \<open>poll\<close>: from the registered descriptors and masks and the timeout, its return value and the
  \<open>revents\<close> it writes, by position.
\<close>

type_synonym poll_fn = "(fd \<times> u16) list \<Rightarrow> int \<Rightarrow> int \<times> (nat \<Rightarrow> u16)"

definition poll_writes :: "'u xpoll \<Rightarrow> (nat \<Rightarrow> u16) \<Rightarrow> 'u xpoll" where
  "poll_writes xp r = xp\<lparr>pfd_list :=
     map (\<lambda>i. (pfd_list xp ! i)\<lparr>pfd_revents := r i\<rparr>) [0 ..< pfd_count xp] @
     drop (pfd_count xp) (pfd_list xp)\<rparr>"

definition xpoll_wait ::
  "poll_fn \<Rightarrow> 'u xpoll \<Rightarrow> int \<Rightarrow> int \<Rightarrow>
   (int \<times> errno option \<times> 'u xpoll_event list \<times> 'u xpoll) checked"
where
  "xpoll_wait poll xp max_events timeout_ms =
     and_then (assert_that (max_events \<ge> 0)) (\<lambda>_.
     if max_events = 0 then Inr (-1, Some EINVAL, [], xp)
     else if pfd_count xp > length (pfd_list xp) then Inl Out_of_bounds
     else
       let (ret, revents) = poll (map (\<lambda>p. (pfd_fd p, pfd_events p)) (take (pfd_count xp) (pfd_list xp)))
             timeout_ms
       in if ret < 0 then Inr (ret, None, [], xp)
          else let xp = poll_writes xp revents
            in if pfd_count xp = 0 then Inr (0, None, [], xp)
               else let begin = pfd_last_wait_index xp mod pfd_count xp
                 in and_then (xpoll_scan xp (nat max_events) begin (pfd_count xp) False begin [])
                      (\<lambda>(out, i).
                    Inr (int (length out), None, out,
                      xp\<lparr>pfd_last_wait_index := (if i \<ge> pfd_count xp then 0 else i)\<rparr>)))"

section \<open>Closing\<close>

text \<open>What \<open>xpoll_close\<close> hands to \<open>free\<close>, in order.\<close>

datatype 'u xpoll_release =
    Fd_table_released "u32 list"
  | Pfd_list_released "pollfd list"
  | Fd_info_list_released "'u list"
  | Xpoll_released

definition xpoll_close :: "'u xpoll \<Rightarrow> 'u xpoll_release list" where
  "xpoll_close xp = [Fd_table_released (fd_table xp), Pfd_list_released (pfd_list xp),
     Fd_info_list_released (fd_info_list xp), Xpoll_released]"

end
