(* ===== verification/Xpoll_Regs.thy ===== *)
theory Xpoll_Regs
  imports Xpoll_Poll
begin

text \<open>
  The registrations of the \<open>poll\<close> back end: the invariant between \<open>fd_table\<close> and the dense arrays,
  the finite map they stand for, and what adding, modifying and removing do to it.
\<close>

section \<open>The invariant and the map of registrations\<close>

definition xp_arrays :: "'u xpoll \<Rightarrow> bool" where
  "xp_arrays xp \<longleftrightarrow> length (fd_table xp) = fd_table_cap xp \<and> pfd_count xp \<le> pfd_cap xp \<and>
     pfd_cap xp \<le> length (pfd_list xp) \<and> pfd_cap xp \<le> length (fd_info_list xp) \<and> pfd_cap xp \<le> 2 ^ 30"

text \<open>\<open>fd_table\<close> says where a descriptor is, and is right about it.\<close>

definition placed :: "'u xpoll \<Rightarrow> fd \<Rightarrow> nat \<Rightarrow> bool" where
  "placed xp fd i \<longleftrightarrow> 0 \<le> fd \<and> nat fd < fd_table_cap xp \<and> i < pfd_count xp \<and>
     fd_table xp ! nat fd = word_of_nat i \<and> pfd_fd (pfd_list xp ! i) = fd"

definition xp_ok :: "'u xpoll \<Rightarrow> bool" where
  "xp_ok xp \<longleftrightarrow> xp_arrays xp \<and>
     (\<forall>i < pfd_count xp. placed xp (pfd_fd (pfd_list xp ! i)) i) \<and>
     (\<forall>j < fd_table_cap xp. fd_table xp ! j \<noteq> UINT32_MAX \<longrightarrow> placed xp (int j) (unat (fd_table xp ! j)))"

definition xp_place :: "'u xpoll \<Rightarrow> fd \<Rightarrow> nat option" where
  "xp_place xp fd = (if 0 \<le> fd \<and> nat fd < fd_table_cap xp \<and> fd_table xp ! nat fd \<noteq> UINT32_MAX
     then Some (unat (fd_table xp ! nat fd)) else None)"

definition xp_regs :: "'u xpoll \<Rightarrow> fd \<Rightarrow> (u16 \<times> 'u) option" where
  "xp_regs xp fd = map_option (\<lambda>i. (pfd_events (pfd_list xp ! i), fd_info_list xp ! i)) (xp_place xp fd)"

text \<open>What \<open>poll\<close> is asked about.\<close>

definition xp_polled :: "'u xpoll \<Rightarrow> fd list" where
  "xp_polled xp = map pfd_fd (take (pfd_count xp) (pfd_list xp))"

lemma arraysD:
  assumes "xp_arrays xp"
  shows "length (fd_table xp) = fd_table_cap xp" "pfd_count xp \<le> pfd_cap xp"
    "pfd_cap xp \<le> length (pfd_list xp)" "pfd_cap xp \<le> length (fd_info_list xp)" "pfd_cap xp \<le> 1073741824"
    "pfd_count xp \<le> length (pfd_list xp)" "pfd_count xp \<le> length (fd_info_list xp)"
  using assms by (simp_all add: xp_arrays_def)

lemma unat_place: "i \<le> 1073741824 \<Longrightarrow> unat (word_of_nat i :: u32) = i"
  by (rule unat_word32_of_nat) simp

lemma place_not_max: "i \<le> 1073741824 \<Longrightarrow> (word_of_nat i :: u32) \<noteq> UINT32_MAX"
  by (rule word32_below_max) (simp add: unat_place)

lemma xp_place_eq:
  assumes "xp_ok xp"
  shows "xp_place xp fd = Some i \<longleftrightarrow> placed xp fd i"
proof
  assume "xp_place xp fd = Some i"
  then show "placed xp fd i"
    using assms unfolding xp_ok_def xp_place_def by (auto split: if_splits)
next
  assume p: "placed xp fd i"
  then have "i \<le> 1073741824"
    using assms arraysD(2,5) [of xp] by (auto simp: xp_ok_def placed_def)
  with p show "xp_place xp fd = Some i"
    by (simp add: xp_place_def placed_def unat_place place_not_max)
qed

lemma placed_fun: "placed xp fd i \<Longrightarrow> placed xp fd' i \<Longrightarrow> fd = fd'"
  by (simp add: placed_def)

lemma placed_inj: "xp_ok xp \<Longrightarrow> placed xp fd i \<Longrightarrow> placed xp fd j \<Longrightarrow> i = j"
  using xp_place_eq by (metis option.inject)

lemma xp_ok_polled: "xp_ok xp \<Longrightarrow> i < pfd_count xp \<Longrightarrow> placed xp (pfd_fd (pfd_list xp ! i)) i"
  by (simp add: xp_ok_def)

lemma polled_regs:
  assumes ok: "xp_ok xp"
  shows "distinct (xp_polled xp)" "set (xp_polled xp) = dom (xp_regs xp)"
proof -
  have eq: "xp_polled xp = map (\<lambda>i. pfd_fd (pfd_list xp ! i)) [0 ..< pfd_count xp]"
    using arraysD(6) [of xp] ok by (intro nth_equalityI) (simp_all add: xp_polled_def xp_ok_def)
  have "i = j" if "i < pfd_count xp" "j < pfd_count xp"
      "pfd_fd (pfd_list xp ! i) = pfd_fd (pfd_list xp ! j)" for i j
    using placed_inj [OF ok] xp_ok_polled [OF ok] that by metis
  then show "distinct (xp_polled xp)"
    unfolding eq by (auto simp: distinct_map inj_on_def)
  have "set (xp_polled xp) = {pfd_fd (pfd_list xp ! i) |i. i < pfd_count xp}"
    unfolding eq by auto
  also have "\<dots> = {fd. \<exists>i. placed xp fd i}"
    using xp_ok_polled [OF ok] by (auto simp: placed_def)
  also have "\<dots> = dom (xp_regs xp)"
    using xp_place_eq [OF ok] by (auto simp: xp_regs_def dom_def)
  finally show "set (xp_polled xp) = dom (xp_regs xp)" .
qed

section \<open>Finding a registration\<close>

lemma fd_u_id: "0 \<le> fd \<Longrightarrow> fd < 2 ^ 31 \<Longrightarrow> fd_u fd = nat fd"
  by (simp add: fd_u_def)

lemma xpoll_find_correct:
  assumes ok: "xp_ok xp" and fd: "0 \<le> fd" "fd < 2 ^ 31"
  shows "xpoll_find xp fd = Inr (map_option word_of_nat (xp_place xp fd))"
proof -
  note a = arraysD [of xp] and u = fd_u_id [OF fd]
  have arr: "xp_arrays xp" using ok by (simp add: xp_ok_def)
  show ?thesis
  proof (cases "pfd_count xp = 0 \<or> fd_table_cap xp \<le> nat fd")
    case True
    then have "\<not> placed xp fd i" for i by (auto simp: placed_def)
    then have "xp_place xp fd = None"
      using xp_place_eq [OF ok] by (metis not_None_eq)
    then show ?thesis using True u by (simp add: xpoll_find_def)
  next
    case False
    let ?x = "fd_table xp ! nat fd"
    have "xpoll_find xp fd = Inr (if ?x = UINT32_MAX then None else Some ?x)"
      using False a(1) [OF arr] fd(1) u by (simp add: xpoll_find_def fd_table_get_def fd_slot_def)
    moreover have "xp_place xp fd = (if ?x = UINT32_MAX then None else Some (unat ?x))"
      using False fd(1) by (simp add: xp_place_def)
    ultimately show ?thesis by simp
  qed
qed

lemma xp_place_bound: "xp_ok xp \<Longrightarrow> xp_place xp fd = Some i \<Longrightarrow> i < pfd_count xp"
  by (simp add: xp_place_eq placed_def)

lemma regs_None: "xp_regs xp fd = None \<longleftrightarrow> xp_place xp fd = None"
  by (simp add: xp_regs_def)

section \<open>Modifying\<close>

lemma xpoll_modify_fd_correct:
  assumes ok: "xp_ok xp" and fd: "0 \<le> fd" "fd < 2 ^ 31"
  shows "\<exists>ret err xp'. xpoll_modify_fd m xp fd u events = Inr (ret, err, xp') \<and> xp_ok xp' \<and>
    (if xp_regs xp fd = None then \<not> ret \<and> err = Some ENOENT \<and> xp' = xp
     else ret \<and> err = None \<and> xp_regs xp' = (xp_regs xp)(fd \<mapsto> (poll_mask events, u)))"
proof (cases "xp_place xp fd")
  case None
  then show ?thesis
    using xpoll_find_correct [OF ok fd] ok regs_None [of xp fd]
    by (intro exI [of _ False] exI [of _ "Some ENOENT"] exI [of _ xp])
      (simp add: xpoll_modify_fd_def xpoll_ctl_fd_def xpoll_ctl_mod_def)
next
  case (Some i)
  have arr: "xp_arrays xp" using ok by (simp add: xp_ok_def)
  have i: "i < pfd_count xp" "unat (word_of_nat i :: u32) = i"
    using xp_place_bound [OF ok Some] arraysD(2,5) [OF arr] by (simp_all add: unat_place)
  let ?xp = "xp\<lparr>pfd_list := (pfd_list xp)[i := (pfd_list xp ! i)\<lparr>pfd_events := poll_mask events\<rparr>],
                fd_info_list := (fd_info_list xp)[i := u]\<rparr>"
  have len: "i < length (pfd_list xp)" "i < length (fd_info_list xp)"
    using i(1) arraysD(6,7) [OF arr] by simp_all
  have run: "xpoll_modify_fd m xp fd u events = Inr (True, None, ?xp)"
    using xpoll_find_correct [OF ok fd] Some i(2) len
    by (simp add: xpoll_modify_fd_def xpoll_ctl_fd_def xpoll_ctl_mod_def)
  have placed: "placed ?xp = placed xp"
    by (intro ext) (auto simp: placed_def nth_update_if)
  have ok': "xp_ok ?xp"
    using ok unfolding xp_ok_def placed by (auto simp: xp_arrays_def nth_update_if)
  have place: "xp_place ?xp = xp_place xp"
    by (intro ext) (simp add: xp_place_def)
  have "xp_regs ?xp = (xp_regs xp)(fd \<mapsto> (poll_mask events, u))"
  proof
    fix g
    show "xp_regs ?xp g = ((xp_regs xp)(fd \<mapsto> (poll_mask events, u))) g"
    proof (cases "g = fd")
      case True
      then show ?thesis using Some len by (simp add: xp_regs_def place)
    next
      case False
      then have "xp_place xp g \<noteq> Some i"
        using Some xp_place_eq [OF ok] placed_fun by metis
      then show ?thesis using False by (cases "xp_place xp g") (auto simp: xp_regs_def place)
    qed
  qed
  moreover have "xp_regs xp fd \<noteq> None" using Some regs_None [of xp fd] by simp
  ultimately show ?thesis
    using run ok' by (intro exI [of _ True] exI [of _ None] exI [of _ ?xp]) simp
qed

section \<open>Growing the arrays\<close>

text \<open>Larger or smaller arrays, and a longer \<open>fd_table\<close>, are the same registrations.\<close>

lemma xp_resize:
  assumes ok: "xp_ok xp" and arr: "xp_arrays xp'" and cnt: "pfd_count xp' = pfd_count xp"
    and tab: "fd_table xp' = fd_table xp @ replicate n UINT32_MAX"
    and same: "\<And>i. i < pfd_count xp \<Longrightarrow> pfd_list xp' ! i = pfd_list xp ! i"
      "\<And>i. i < pfd_count xp \<Longrightarrow> fd_info_list xp' ! i = fd_info_list xp ! i"
  shows "xp_ok xp'" "xp_regs xp' = xp_regs xp" "xp_place xp' = xp_place xp"
proof -
  have len: "length (fd_table xp) = fd_table_cap xp" "fd_table_cap xp' = fd_table_cap xp + n"
    using ok arr arraysD(1) [of xp] arraysD(1) [of xp'] tab by (simp_all add: xp_ok_def)
  have nth: "fd_table xp' ! j = (if j < fd_table_cap xp then fd_table xp ! j else UINT32_MAX)"
    if "j < fd_table_cap xp'" for j
    using that tab len by (simp add: nth_append)
  show place: "xp_place xp' = xp_place xp"
    by (intro ext) (use nth len in \<open>auto simp: xp_place_def split: if_splits\<close>)
  have sub: "placed xp' fd i" if "placed xp fd i" for fd i
    using that nth [of "nat fd"] len same(1) cnt by (auto simp: placed_def)
  have "placed xp' (int j) (unat (fd_table xp' ! j))"
    if j: "j < fd_table_cap xp'" "fd_table xp' ! j \<noteq> UINT32_MAX" for j
  proof -
    have "j < fd_table_cap xp" "fd_table xp' ! j = fd_table xp ! j"
      using nth [OF j(1)] j(2) by (auto split: if_splits)
    then show ?thesis using ok j(2) sub by (simp add: xp_ok_def)
  qed
  then show "xp_ok xp'"
    using arr ok sub same(1) cnt by (auto simp: xp_ok_def)
  show "xp_regs xp' = xp_regs xp"
  proof
    fix fd show "xp_regs xp' fd = xp_regs xp fd"
      using xp_place_bound [OF ok, of fd] same by (cases "xp_place xp fd") (auto simp: xp_regs_def place)
  qed
qed

definition grown_fd_cap :: "'u xpoll \<Rightarrow> fd \<Rightarrow> nat" where
  "grown_fd_cap xp fd = (if fd_table_cap xp < 16 then 16
     else if fd_table_cap xp < 2 ^ 16 then 2 * fd_table_cap xp else nat fd + 1)"

lemma grow_fd_table_correct:
  assumes ok: "xp_ok xp" and fd: "0 \<le> fd" "fd < 2 ^ 31 - 1" "fd_table_cap xp \<le> nat fd"
  shows "xpoll_grow_fd_table m xp fd = Inr None \<and> \<not> realloc_fds_ok m \<or>
    (\<exists>xp'. xpoll_grow_fd_table m xp fd = Inr (Some xp') \<and> realloc_fds_ok m \<and> xp_ok xp' \<and>
       xp_regs xp' = xp_regs xp \<and> xp_place xp' = xp_place xp \<and>
       fd_table_cap xp' = grown_fd_cap xp fd \<and> pfd_cap xp' = pfd_cap xp)"
proof -
  let ?c = "grown_fd_cap xp fd"
  have c: "fd_table_cap xp \<le> ?c" using fd(3) by (simp add: grown_fd_cap_def)
  let ?xp = "xp\<lparr>fd_table := fd_table xp @ replicate (?c - fd_table_cap xp) UINT32_MAX,
                fd_table_cap := ?c\<rparr>"
  have nc: "(if fd_table_cap xp < 16 then 16 else if fd_table_cap xp < 2 ^ 16
      then w32 (fd_table_cap xp * 2) else fd_u (fd + 1)) = ?c"
    using fd by (simp add: grown_fd_cap_def w32_def fd_u_def nat_add_distrib)
  have run: "xpoll_grow_fd_table m xp fd = Inr (if realloc_fds_ok m then Some ?xp else None)"
    using c by (simp add: xpoll_grow_fd_table_def Let_def nc [simplified])
  have arr: "xp_arrays ?xp" using ok c by (simp add: xp_ok_def xp_arrays_def)
  show ?thesis
    using run xp_resize [OF ok arr, of "?c - fd_table_cap xp"] by simp
qed

lemma nth_resized: "i < n \<Longrightarrow> i < length xs \<Longrightarrow> resized fresh xs n ! i = xs ! i"
  by (simp add: resized_def nth_append)

lemma length_resized [simp]: "length (resized fresh xs n) = n"
  by (simp add: resized_def)

lemma grow_pfds_correct:
  assumes ok: "xp_ok xp" and cap: "pfd_cap xp \<le> 2 ^ 29"
  obtains room xp' where "xpoll_grow_pfds m xp = (room, xp')" "xp_ok xp'" "xp_regs xp' = xp_regs xp"
    "xp_place xp' = xp_place xp" "fd_table_cap xp' = fd_table_cap xp"
    "room \<Longrightarrow> pfd_count xp' < pfd_cap xp'"
    "realloc_pfds_ok m \<and> realloc_infos_ok m \<Longrightarrow> room"
proof (cases "pfd_count xp < pfd_cap xp")
  case True
  then show ?thesis using that [of True xp] ok by (simp add: xpoll_grow_pfds_def)
next
  case False
  have arr: "xp_arrays xp" using ok by (simp add: xp_ok_def)
  let ?c = "if pfd_cap xp < 16 then 16 else 2 * pfd_cap xp"
  have nc: "(if pfd_cap xp < 16 then 16 else w32 (pfd_cap xp * 2)) = ?c"
    using cap by (simp add: w32_def)
  have c: "pfd_count xp < ?c" "?c \<le> 1073741824" "pfd_cap xp \<le> ?c"
    using cap arraysD(2) [OF arr] by auto
  let ?xp1 = "xp\<lparr>pfd_list := resized (fresh_pfd m) (pfd_list xp) ?c\<rparr>"
  let ?xp2 = "?xp1\<lparr>fd_info_list := resized (fresh_info m) (fd_info_list xp) ?c, pfd_cap := ?c\<rparr>"
  have run: "xpoll_grow_pfds m xp = (if \<not> realloc_pfds_ok m then (False, xp)
      else if \<not> realloc_infos_ok m then (False, ?xp1) else (True, ?xp2))"
    using False unfolding xpoll_grow_pfds_def Let_def nc by simp
  have arr1: "xp_arrays ?xp1" and arr2: "xp_arrays ?xp2"
    using arr c by (simp_all add: xp_arrays_def)
  have pfd: "resized (fresh_pfd m) (pfd_list xp) ?c ! i = pfd_list xp ! i" if "i < pfd_count xp" for i
    using that c arraysD(6) [OF arr] by (intro nth_resized) auto
  have info: "resized (fresh_info m) (fd_info_list xp) ?c ! i = fd_info_list xp ! i"
    if "i < pfd_count xp" for i
    using that c arraysD(7) [OF arr] by (intro nth_resized) auto
  note r1 = xp_resize [OF ok arr1, of 0] and r2 = xp_resize [OF ok arr2, of 0]
  consider "\<not> realloc_pfds_ok m" | "realloc_pfds_ok m" "\<not> realloc_infos_ok m"
    | "realloc_pfds_ok m" "realloc_infos_ok m" by blast
  then show ?thesis
  proof cases
    case 1
    then show ?thesis using that [of False xp] ok run by simp
  next
    case 2
    then show ?thesis using that [of False ?xp1] r1 pfd run by simp
  next
    case 3
    then show ?thesis using that [of True ?xp2] r2 pfd info run c(1) by simp
  qed
qed

section \<open>Adding\<close>

lemma append_fd_correct:
  assumes ok: "xp_ok xp" and room: "pfd_count xp < pfd_cap xp" and new: "xp_place xp fd = None"
    and fd: "0 \<le> fd" "nat fd < fd_table_cap xp"
  shows "\<exists>xp'. xpoll_append_fd xp fd u events = Inr xp' \<and> xp_ok xp' \<and>
    xp_regs xp' = (xp_regs xp)(fd \<mapsto> (poll_mask events, u))"
proof -
  have arr: "xp_arrays xp" using ok by (simp add: xp_ok_def)
  let ?n = "pfd_count xp"
  have n: "?n < 1073741824" "?n < length (pfd_list xp)" "?n < length (fd_info_list xp)"
    using room arraysD [OF arr] by simp_all
  let ?p = "\<lparr>pfd_fd = fd, pfd_events = poll_mask events, pfd_revents = 0\<rparr>"
  let ?xp = "xp\<lparr>pfd_count := Suc ?n, pfd_list := (pfd_list xp)[?n := ?p],
     fd_info_list := (fd_info_list xp)[?n := u],
     fd_table := (fd_table xp)[nat fd := word_of_nat ?n]\<rparr>"
  have run: "xpoll_append_fd xp fd u events = Inr ?xp"
    using n fd arraysD(1) [OF arr]
    by (simp add: xpoll_append_fd_def Let_def w32_def fd_table_set_def fd_slot_def)
  have here: "placed ?xp fd ?n"
    using n fd arraysD(1) [OF arr] by (simp add: placed_def)
  have other: "placed ?xp g i" if "placed xp g i" for g i
  proof -
    have "g \<noteq> fd" using that new xp_place_eq [OF ok, of fd i] by auto
    then have "nat g \<noteq> nat fd" using that fd(1) by (auto simp: placed_def)
    then show ?thesis using that by (auto simp: placed_def)
  qed
  have "placed ?xp (pfd_fd (pfd_list ?xp ! i)) i" if "i < Suc ?n" for i
    using that here other xp_ok_polled [OF ok, of i] n(2) by (cases "i = ?n") auto
  moreover have "placed ?xp (int j) (unat (fd_table ?xp ! j))"
    if j: "j < fd_table_cap xp" "fd_table ?xp ! j \<noteq> UINT32_MAX" for j
  proof (cases "j = nat fd")
    case True
    then show ?thesis using here n fd arraysD(1) [OF arr] by (simp add: unat_place)
  next
    case False
    then have "fd_table ?xp ! j = fd_table xp ! j" by simp
    moreover from this have "placed xp (int j) (unat (fd_table xp ! j))"
      using j ok by (simp add: xp_ok_def)
    ultimately show ?thesis using other by simp
  qed
  moreover have "xp_arrays ?xp" using arr room by (simp add: xp_arrays_def)
  ultimately have ok': "xp_ok ?xp" unfolding xp_ok_def by simp
  have "xp_regs ?xp g = ((xp_regs xp)(fd \<mapsto> (poll_mask events, u))) g" for g
  proof (cases "g = fd")
    case True
    then have "xp_place ?xp g = Some ?n" using xp_place_eq [OF ok'] here by simp
    then show ?thesis using True n by (simp add: xp_regs_def)
  next
    case False
    have "xp_place ?xp g = xp_place xp g"
      using False fd by (auto simp: xp_place_def nth_update_if)
    moreover have "xp_place xp g \<noteq> Some ?n" using xp_place_bound [OF ok, of g ?n] by auto
    ultimately show ?thesis using False by (cases "xp_place xp g") (auto simp: xp_regs_def)
  qed
  then show ?thesis using run ok' by blast
qed

lemma append_fd_out_of_bounds:
  assumes "xp_arrays xp" "pfd_count xp < pfd_cap xp" "fd_table_cap xp \<le> nat fd"
  shows "xpoll_append_fd xp fd u events = Inl Out_of_bounds"
  using assms arraysD(1,6,7) [OF assms(1)]
  by (auto simp: xpoll_append_fd_def Let_def fd_table_set_def fd_slot_def aset_oob xp_arrays_def)

text \<open>The descriptors one growth of \<open>fd_table\<close> makes room for.\<close>

definition fd_fits :: "'u xpoll \<Rightarrow> fd \<Rightarrow> bool" where
  "fd_fits xp fd \<longleftrightarrow> nat fd < fd_table_cap xp \<or> nat fd < grown_fd_cap xp fd"

definition add_outcome ::
  "'u xp_mem \<Rightarrow> 'u xpoll \<Rightarrow> fd \<Rightarrow> 'u \<Rightarrow> u32 \<Rightarrow> bool \<Rightarrow> errno option \<Rightarrow> 'u xpoll \<Rightarrow> bool"
where
  "add_outcome m xp fd u events ret err xp' \<longleftrightarrow>
     (if ret then xp_regs xp fd = None \<and> err = None \<and>
        xp_regs xp' = (xp_regs xp)(fd \<mapsto> (poll_mask events, u))
      else xp_regs xp' = xp_regs xp \<and>
        (if xp_regs xp fd = None then err = None \<and> \<not> (realloc_fds_ok m \<and> realloc_pfds_ok m \<and> realloc_infos_ok m)
         else err = Some EEXIST))"

lemma add_finish_correct:
  assumes ok: "xp_ok xp" and cap: "pfd_cap xp \<le> 2 ^ 29" and new: "xp_place xp fd = None"
    and fd: "0 \<le> fd" "nat fd < fd_table_cap xp"
  shows "\<exists>ret xp'. (let (room, xp) = xpoll_grow_pfds m xp
        in if \<not> room then Inr (False, None, xp)
           else and_then (xpoll_append_fd xp fd u events) (\<lambda>xp. Inr (True, None, xp))) =
      Inr (ret, None :: errno option, xp') \<and> xp_ok xp' \<and>
    (if ret then xp_regs xp' = (xp_regs xp)(fd \<mapsto> (poll_mask events, u)) else xp_regs xp' = xp_regs xp) \<and>
    (realloc_pfds_ok m \<and> realloc_infos_ok m \<longrightarrow> ret)"
proof -
  obtain room xp1 where g: "xpoll_grow_pfds m xp = (room, xp1)" "xp_ok xp1" "xp_regs xp1 = xp_regs xp"
    "xp_place xp1 = xp_place xp" "fd_table_cap xp1 = fd_table_cap xp" and
    r: "room \<Longrightarrow> pfd_count xp1 < pfd_cap xp1" "realloc_pfds_ok m \<and> realloc_infos_ok m \<Longrightarrow> room"
    using grow_pfds_correct [OF ok cap, of m] by blast
  show ?thesis
  proof (cases room)
    case True
    obtain xp2 where "xpoll_append_fd xp1 fd u events = Inr xp2" "xp_ok xp2"
      "xp_regs xp2 = (xp_regs xp1)(fd \<mapsto> (poll_mask events, u))"
      using append_fd_correct [OF g(2) r(1) [OF True], of fd u events] new fd g(4,5) by auto
    then show ?thesis
      using True g by (intro exI [of _ True] exI [of _ xp2]) simp
  next
    case False
    then show ?thesis
      using g r(2) by (intro exI [of _ False] exI [of _ xp1]) auto
  qed
qed

text \<open>A descriptor beyond the table of descriptors, which grows first, and one inside it.\<close>

lemma add_fd_grows:
  assumes ok: "xp_ok xp" and cap: "pfd_cap xp \<le> 2 ^ 29" and fd: "0 \<le> fd" "fd < 2 ^ 31 - 1" "fd_fits xp fd"
    and out: "fd_table_cap xp \<le> nat fd"
  shows "\<exists>ret err xp'. xpoll_ctl_add m xp fd u events = Inr (ret, err, xp') \<and> xp_ok xp' \<and>
    add_outcome m xp fd u events ret err xp'"
proof -
  have u: "fd_u fd = nat fd" using fd by (intro fd_u_id) simp_all
  have none: "xp_place xp fd = None" using out by (simp add: xp_place_def)
  from grow_fd_table_correct [OF ok fd(1,2) out, of m] show ?thesis
  proof (elim disjE exE conjE)
    assume "xpoll_grow_fd_table m xp fd = Inr None" "\<not> realloc_fds_ok m"
    then show ?thesis
      using out u ok none
      by (intro exI [of _ False] exI [of _ None] exI [of _ xp])
        (simp add: xpoll_ctl_add_def add_outcome_def regs_None)
  next
    fix xp1
    assume g: "xpoll_grow_fd_table m xp fd = Inr (Some xp1)" "realloc_fds_ok m" "xp_ok xp1"
      "xp_regs xp1 = xp_regs xp" "xp_place xp1 = xp_place xp" "fd_table_cap xp1 = grown_fd_cap xp fd"
      "pfd_cap xp1 = pfd_cap xp"
    have cap1: "pfd_cap xp1 \<le> 2 ^ 29" and none1: "xp_place xp1 fd = None" and in1: "nat fd < fd_table_cap xp1"
      using cap none g(5-7) out fd(3) by (simp_all add: fd_fits_def)
    obtain ret xp2 where f: "(let (room, xp) = xpoll_grow_pfds m xp1
      in if \<not> room then Inr (False, None, xp)
         else and_then (xpoll_append_fd xp fd u events) (\<lambda>xp. Inr (True, None, xp))) =
        Inr (ret, None :: errno option, xp2)" "xp_ok xp2"
      "if ret then xp_regs xp2 = (xp_regs xp1)(fd \<mapsto> (poll_mask events, u)) else xp_regs xp2 = xp_regs xp1"
      "realloc_pfds_ok m \<and> realloc_infos_ok m \<longrightarrow> ret"
      using add_finish_correct [OF g(3) cap1 none1 fd(1) in1] by blast
    have "xpoll_ctl_add m xp fd u events = Inr (ret, None, xp2)"
      unfolding xpoll_ctl_add_def using out u g(1) f(1) by simp
    moreover have "add_outcome m xp fd u events ret None xp2"
      using f(3,4) g(4) none by (auto simp: add_outcome_def regs_None)
    ultimately show ?thesis using f(2) by blast
  qed
qed

lemma add_fd_inside:
  assumes ok: "xp_ok xp" and cap: "pfd_cap xp \<le> 2 ^ 29" and fd: "0 \<le> fd" "fd < 2 ^ 31 - 1"
    and in0: "nat fd < fd_table_cap xp"
  shows "\<exists>ret err xp'. xpoll_ctl_add m xp fd u events = Inr (ret, err, xp') \<and> xp_ok xp' \<and>
    add_outcome m xp fd u events ret err xp'"
proof -
  have u: "fd_u fd = nat fd" using fd by (intro fd_u_id) simp_all
  have arr: "xp_arrays xp" using ok by (simp add: xp_ok_def)
  have get: "fd_table_get xp fd = Inr (fd_table xp ! nat fd)"
    using in0 fd(1) arraysD(1) [OF arr] by (simp add: fd_table_get_def fd_slot_def)
  show ?thesis
  proof (cases "xp_place xp fd")
    case None
    then have free: "fd_table xp ! nat fd = UINT32_MAX"
      using in0 fd(1) by (simp add: xp_place_def split: if_splits)
    obtain ret xp2 where f: "(let (room, xp) = xpoll_grow_pfds m xp
      in if \<not> room then Inr (False, None, xp)
         else and_then (xpoll_append_fd xp fd u events) (\<lambda>xp. Inr (True, None, xp))) =
        Inr (ret, None :: errno option, xp2)" "xp_ok xp2"
      "if ret then xp_regs xp2 = (xp_regs xp)(fd \<mapsto> (poll_mask events, u)) else xp_regs xp2 = xp_regs xp"
      "realloc_pfds_ok m \<and> realloc_infos_ok m \<longrightarrow> ret"
      using add_finish_correct [OF ok cap None fd(1) in0] by blast
    have "xpoll_ctl_add m xp fd u events = Inr (ret, None, xp2)"
      unfolding xpoll_ctl_add_def using in0 u get free f(1) by simp
    moreover have "add_outcome m xp fd u events ret None xp2"
      using f(3,4) None by (auto simp: add_outcome_def regs_None)
    ultimately show ?thesis using f(2) by blast
  next
    case (Some i)
    then have "fd_table xp ! nat fd \<noteq> UINT32_MAX" by (simp add: xp_place_def split: if_splits)
    then have "xpoll_ctl_add m xp fd u events = Inr (False, Some EEXIST, xp)"
      unfolding xpoll_ctl_add_def using in0 u get by simp
    moreover have "add_outcome m xp fd u events False (Some EEXIST) xp"
      using Some regs_None [of xp fd] by (simp add: add_outcome_def)
    ultimately show ?thesis using ok by blast
  qed
qed

lemma xpoll_add_fd_correct:
  assumes ok: "xp_ok xp" and cap: "pfd_cap xp \<le> 2 ^ 29" and fd: "0 \<le> fd" "fd < 2 ^ 31 - 1" "fd_fits xp fd"
  shows "\<exists>ret err xp'. xpoll_add_fd m xp fd u events = Inr (ret, err, xp') \<and> xp_ok xp' \<and>
    add_outcome m xp fd u events ret err xp'"
proof -
  have "xpoll_add_fd m xp fd u events = xpoll_ctl_add m xp fd u events"
    using fd(1) by (simp add: xpoll_add_fd_def xpoll_ctl_fd_def)
  then show ?thesis
    using add_fd_grows [OF ok cap fd] add_fd_inside [OF ok cap fd(1,2)]
    by (cases "fd_table_cap xp \<le> nat fd") (simp_all add: not_le)
qed

text \<open>A descriptor that one growth does not reach is written outside \<open>fd_table\<close>.\<close>

lemma xpoll_add_fd_overflow:
  assumes ok: "xp_ok xp" and cap: "pfd_cap xp \<le> 2 ^ 29" and fd: "0 \<le> fd" "fd < 2 ^ 31 - 1" "\<not> fd_fits xp fd"
    and mem: "realloc_fds_ok m" "realloc_pfds_ok m" "realloc_infos_ok m"
  shows "xpoll_add_fd m xp fd u events = Inl Out_of_bounds"
proof -
  have u: "fd_u fd = nat fd" using fd by (intro fd_u_id) simp_all
  have out: "fd_table_cap xp \<le> nat fd" "grown_fd_cap xp fd \<le> nat fd"
    using fd(3) by (simp_all add: fd_fits_def)
  obtain xp1 where g: "xpoll_grow_fd_table m xp fd = Inr (Some xp1)" "xp_ok xp1"
    "fd_table_cap xp1 = grown_fd_cap xp fd" "pfd_cap xp1 = pfd_cap xp"
    using grow_fd_table_correct [OF ok fd(1,2) out(1), of m] mem(1) by blast
  have cap1: "pfd_cap xp1 \<le> 2 ^ 29" using cap g(4) by simp
  obtain xp2 where h: "xpoll_grow_pfds m xp1 = (True, xp2)" "xp_ok xp2"
    "fd_table_cap xp2 = fd_table_cap xp1" "pfd_count xp2 < pfd_cap xp2"
    using grow_pfds_correct [OF g(2) cap1, of m] mem(2,3) by metis
  have "xpoll_append_fd xp2 fd u events = Inl Out_of_bounds"
    using h g(3) out(2) by (intro append_fd_out_of_bounds) (simp_all add: xp_ok_def)
  then show ?thesis
    using fd(1) out(1) u g(1) h(1) by (simp add: xpoll_add_fd_def xpoll_ctl_fd_def xpoll_ctl_add_def)
qed

end
