(* ===== verification/Xpoll_Remove.thy ===== *)
theory Xpoll_Remove
  imports Xpoll_Regs
begin

text \<open>
  Removal in the \<open>poll\<close> back end. Removing the descriptor registered last is correct. Removing
  another one moves the last registration into its place without telling \<open>fd_table\<close>, which breaks
  the invariant in every case.
\<close>

section \<open>Shrinking\<close>

lemma shrink_pfds_correct:
  assumes ok: "xp_ok xp"
  shows "xp_ok (xpoll_shrink_pfds m xp)" "xp_regs (xpoll_shrink_pfds m xp) = xp_regs xp"
proof -
  have arr: "xp_arrays xp" using ok by (simp add: xp_ok_def)
  have "xp_ok (xpoll_shrink_pfds m xp) \<and> xp_regs (xpoll_shrink_pfds m xp) = xp_regs xp"
  proof (cases "pfd_cap xp > 16 \<and> pfd_count xp < pfd_cap xp div 4")
    case False
    then show ?thesis using ok unfolding xpoll_shrink_pfds_def by (simp only: if_False)
  next
    case True
    let ?c = "pfd_cap xp div 4" and ?xp = "xpoll_shrink_pfds m xp"
    have eq: "?xp = xp\<lparr>
        pfd_list := (if realloc_pfds_ok m then resized (fresh_pfd m) (pfd_list xp) ?c else pfd_list xp),
        fd_info_list := (if realloc_infos_ok m then resized (fresh_info m) (fd_info_list xp) ?c
                         else fd_info_list xp),
        pfd_cap := (if realloc_pfds_ok m \<or> realloc_infos_ok m then ?c else pfd_cap xp)\<rparr>"
      using True unfolding xpoll_shrink_pfds_def Let_def by simp
    have arr': "xp_arrays ?xp"
      unfolding eq using arr True by (auto simp: xp_arrays_def)
    have pfd: "pfd_list ?xp ! i = pfd_list xp ! i" if "i < pfd_count xp" for i
      unfolding eq using that True arraysD(6) [OF arr] by (auto intro!: nth_resized)
    have info: "fd_info_list ?xp ! i = fd_info_list xp ! i" if "i < pfd_count xp" for i
      unfolding eq using that True arraysD(7) [OF arr] by (auto intro!: nth_resized)
    have "pfd_count ?xp = pfd_count xp" "fd_table ?xp = fd_table xp @ replicate 0 UINT32_MAX"
      unfolding eq by simp_all
    from xp_resize(1,2) [OF ok arr' this pfd info] show ?thesis by simp
  qed
  then show "xp_ok (xpoll_shrink_pfds m xp)" "xp_regs (xpoll_shrink_pfds m xp) = xp_regs xp" by simp_all
qed

lemma shrink_pfds_fields [simp]:
  "fd_table (xpoll_shrink_pfds m xp) = fd_table xp"
  "fd_table_cap (xpoll_shrink_pfds m xp) = fd_table_cap xp"
  "pfd_count (xpoll_shrink_pfds m xp) = pfd_count xp"
  by (simp_all add: xpoll_shrink_pfds_def Let_def)

section \<open>Removing\<close>

text \<open>The state before shrinking, when \<open>fd\<close> is registered at place \<open>i\<close>.\<close>

definition xp_removed :: "'u xpoll \<Rightarrow> fd \<Rightarrow> nat \<Rightarrow> 'u xpoll" where
  "xp_removed xp fd i =
     (let last = pfd_count xp - 1
      in xp\<lparr>fd_table := (fd_table xp)[nat fd := UINT32_MAX],
            pfd_list := (if pfd_count xp > 1 then (pfd_list xp)[i := pfd_list xp ! last] else pfd_list xp),
            fd_info_list := (if pfd_count xp > 1 then (fd_info_list xp)[i := fd_info_list xp ! last]
                             else fd_info_list xp),
            pfd_count := last\<rparr>)"

lemma xpoll_remove_fd_eq:
  assumes ok: "xp_ok xp" and fd: "0 \<le> fd" "fd < 2 ^ 31"
  shows "xpoll_remove_fd m xp fd u = Inr (case xp_place xp fd of
      None \<Rightarrow> (False, Some ENOENT, xp)
    | Some i \<Rightarrow> (True, None, xpoll_shrink_pfds m (xp_removed xp fd i)))"
proof (cases "xp_place xp fd")
  case None
  then show ?thesis
    using xpoll_find_correct [OF ok fd]
    by (simp add: xpoll_remove_fd_def xpoll_ctl_fd_def xpoll_ctl_del_def)
next
  case (Some i)
  have arr: "xp_arrays xp" using ok by (simp add: xp_ok_def)
  have p: "placed xp fd i" using Some xp_place_eq [OF ok] by simp
  have i: "i < pfd_count xp" "unat (word_of_nat i :: u32) = i"
    using p arraysD(2,5) [OF arr] by (simp_all add: placed_def unat_place)
  have len: "i < length (pfd_list xp)" "i < length (fd_info_list xp)"
    "pfd_count xp - 1 < length (pfd_list xp)" "pfd_count xp - 1 < length (fd_info_list xp)"
    using i(1) arraysD(6,7) [OF arr] by simp_all
  have set: "fd_table_set xp fd UINT32_MAX = Inr ((fd_table xp)[nat fd := UINT32_MAX])"
    using p arraysD(1) [OF arr] by (simp add: fd_table_set_def fd_slot_def placed_def)
  show ?thesis
    using xpoll_find_correct [OF ok fd] Some i(2) len set
    by (simp add: xpoll_remove_fd_def xpoll_ctl_fd_def xpoll_ctl_del_def xp_removed_def Let_def)
qed

lemma removed_last_correct:
  assumes ok: "xp_ok xp" and p: "xp_place xp fd = Some i" "i = pfd_count xp - 1"
  shows "xp_ok (xp_removed xp fd i)" "xp_regs (xp_removed xp fd i) = (xp_regs xp)(fd := None)"
proof -
  let ?xp = "xp_removed xp fd i"
  have arr: "xp_arrays xp" using ok by (simp add: xp_ok_def)
  have pl: "placed xp fd i" using p xp_place_eq [OF ok] by simp
  then have i: "i < pfd_count xp" "0 \<le> fd" "nat fd < fd_table_cap xp" by (simp_all add: placed_def)
  have eq: "?xp = xp\<lparr>fd_table := (fd_table xp)[nat fd := UINT32_MAX], pfd_count := i\<rparr>"
    using p(2) by (simp add: xp_removed_def Let_def)
  have place: "xp_place ?xp g = (if g = fd then None else xp_place xp g)" for g
    using i arraysD(1) [OF arr] by (auto simp: eq xp_place_def nth_update_if)
  have keep: "placed ?xp g j" if "placed xp g j" "g \<noteq> fd" for g j
  proof -
    have "j \<noteq> i" using that pl placed_fun by metis
    moreover have "j < pfd_count xp" using that(1) by (simp add: placed_def)
    ultimately have "j < i" using p(2) by linarith
    moreover have "nat g \<noteq> nat fd" using that i(2) by (auto simp: placed_def)
    ultimately show ?thesis using that(1) by (simp add: placed_def eq)
  qed
  have "placed ?xp (pfd_fd (pfd_list ?xp ! j)) j" if "j < i" for j
  proof -
    have q: "placed xp (pfd_fd (pfd_list xp ! j)) j" using that i xp_ok_polled [OF ok] by simp
    then have "pfd_fd (pfd_list xp ! j) \<noteq> fd" using placed_inj [OF ok] pl that by (metis less_irrefl)
    then show ?thesis using keep q by (simp add: eq)
  qed
  moreover have "placed ?xp (int j) (unat (fd_table ?xp ! j))"
    if j: "j < fd_table_cap xp" "fd_table ?xp ! j \<noteq> UINT32_MAX" for j
  proof -
    have "j \<noteq> nat fd" using j i arraysD(1) [OF arr] by (auto simp: eq)
    then have "fd_table ?xp ! j = fd_table xp ! j" "int j \<noteq> fd" by (auto simp: eq)
    then show ?thesis using j ok keep by (simp add: xp_ok_def)
  qed
  moreover have "xp_arrays ?xp" using arr i(1) by (simp add: eq xp_arrays_def)
  moreover have "pfd_count ?xp = i" "fd_table_cap ?xp = fd_table_cap xp" by (simp_all add: eq)
  ultimately show "xp_ok ?xp" unfolding xp_ok_def by simp
  show "xp_regs ?xp = (xp_regs xp)(fd := None)"
  proof
    fix g show "xp_regs ?xp g = ((xp_regs xp)(fd := None)) g"
      unfolding xp_regs_def place by (simp add: eq)
  qed
qed

lemma removed_other_breaks:
  assumes ok: "xp_ok xp" and p: "xp_place xp fd = Some i" "i \<noteq> pfd_count xp - 1"
  shows "\<not> xp_ok (xpoll_shrink_pfds m (xp_removed xp fd i))"
proof
  let ?last = "pfd_count xp - 1" and ?xp = "xpoll_shrink_pfds m (xp_removed xp fd i)"
  let ?g = "pfd_fd (pfd_list xp ! ?last)"
  assume bad: "xp_ok ?xp"
  have pl: "placed xp fd i" using p xp_place_eq [OF ok] by simp
  then have cnt: "i < ?last" "?last < pfd_count xp" using p(2) by (auto simp: placed_def)
  have g: "placed xp ?g ?last" using xp_ok_polled [OF ok cnt(2)] .
  then have "?g \<noteq> fd" using placed_inj [OF ok pl] cnt(1) by auto
  moreover have "0 \<le> fd" "0 \<le> ?g" using pl g by (simp_all add: placed_def)
  ultimately have "nat ?g \<noteq> nat fd" by (simp add: eq_nat_nat_iff)
  then have place: "xp_place ?xp ?g = xp_place xp ?g"
    by (auto simp: xp_place_def xp_removed_def Let_def)
  also have "\<dots> = Some ?last" using g xp_place_eq [OF ok] by simp
  finally have "?last < pfd_count ?xp" using xp_place_bound [OF bad] by blast
  then show False by (simp add: xp_removed_def Let_def)
qed

definition remove_outcome :: "'u xpoll \<Rightarrow> fd \<Rightarrow> bool \<Rightarrow> errno option \<Rightarrow> 'u xpoll \<Rightarrow> bool" where
  "remove_outcome xp fd ret err xp' \<longleftrightarrow>
     (if xp_regs xp fd = None then \<not> ret \<and> err = Some ENOENT \<and> xp' = xp
      else ret \<and> err = None \<and> (xp_ok xp' \<longleftrightarrow> fd = last (xp_polled xp)) \<and>
        (fd = last (xp_polled xp) \<longrightarrow> xp_regs xp' = (xp_regs xp)(fd := None)))"

lemma last_polled:
  assumes ok: "xp_ok xp" and p: "xp_place xp fd = Some i"
  shows "fd = last (xp_polled xp) \<longleftrightarrow> i = pfd_count xp - 1"
proof -
  have arr: "xp_arrays xp" using ok by (simp add: xp_ok_def)
  have pl: "placed xp fd i" using p xp_place_eq [OF ok] by simp
  then have i: "i < pfd_count xp" "pfd_fd (pfd_list xp ! i) = fd" by (simp_all add: placed_def)
  have len: "length (xp_polled xp) = pfd_count xp"
    using arraysD(6) [OF arr] by (simp add: xp_polled_def)
  then have "xp_polled xp \<noteq> []" using i(1) by auto
  then have "last (xp_polled xp) = xp_polled xp ! (pfd_count xp - 1)"
    using len by (simp add: last_conv_nth)
  also have "\<dots> = pfd_fd (pfd_list xp ! (pfd_count xp - 1))"
    using i(1) arraysD(6) [OF arr] by (simp add: xp_polled_def)
  finally have l: "last (xp_polled xp) = pfd_fd (pfd_list xp ! (pfd_count xp - 1))" .
  show ?thesis
  proof
    assume "fd = last (xp_polled xp)"
    then show "i = pfd_count xp - 1"
      using l xp_ok_polled [OF ok, of "pfd_count xp - 1"] placed_inj [OF ok pl] i(1) by simp
  qed (use l i in simp)
qed

lemma xpoll_remove_fd_correct:
  assumes ok: "xp_ok xp" and fd: "0 \<le> fd" "fd < 2 ^ 31"
  shows "\<exists>ret err xp'. xpoll_remove_fd m xp fd u = Inr (ret, err, xp') \<and> remove_outcome xp fd ret err xp'"
proof (cases "xp_place xp fd")
  case None
  then show ?thesis
    using xpoll_remove_fd_eq [OF ok fd]
    by (intro exI [of _ False] exI [of _ "Some ENOENT"] exI [of _ xp])
      (simp add: remove_outcome_def regs_None)
next
  case (Some i)
  let ?xp = "xpoll_shrink_pfds m (xp_removed xp fd i)"
  have "xp_regs xp fd \<noteq> None" using Some regs_None [of xp fd] by simp
  moreover have "xp_ok ?xp \<longleftrightarrow> fd = last (xp_polled xp)"
    using removed_last_correct(1) [OF ok Some] removed_other_breaks [OF ok Some]
      last_polled [OF ok Some] shrink_pfds_correct(1) by blast
  moreover have "xp_regs ?xp = (xp_regs xp)(fd := None)" if "fd = last (xp_polled xp)"
    using removed_last_correct [OF ok Some] shrink_pfds_correct(2) last_polled [OF ok Some] that by metis
  ultimately have "remove_outcome xp fd True None ?xp"
    by (simp add: remove_outcome_def)
  then show ?thesis
    using xpoll_remove_fd_eq [OF ok fd] Some
    by (intro exI [of _ True] exI [of _ None] exI [of _ ?xp]) simp
qed

end
