(* ===== verification/Xpoll_Wait.thy ===== *)
theory Xpoll_Wait
  imports Xpoll_Regs
begin

text \<open>
  \<open>xpoll_wait\<close> of the \<open>poll\<close> back end: the scan goes once round the registrations, from where the
  previous call stopped, and reports the ready ones in that order until the buffer is full.
\<close>

section \<open>A bounded round of a list\<close>

text \<open>The first \<open>q\<close> elements that are ready, and what is left of the list after the last of them.\<close>

fun round_take :: "('a \<Rightarrow> bool) \<Rightarrow> nat \<Rightarrow> 'a list \<Rightarrow> 'a list \<times> 'a list" where
  "round_take ready q [] = ([], [])"
| "round_take ready q (x # xs) =
     (if q = 0 then ([], x # xs)
      else if ready x then (let (ys, zs) = round_take ready (q - 1) xs in (x # ys, zs))
      else round_take ready q xs)"

lemma round_take_fst: "fst (round_take ready q xs) = take q (filter ready xs)"
  by (induction ready q xs rule: round_take.induct) (auto simp: take_Cons' split: prod.splits)

lemma round_take_snd_suffix: "\<exists>ys. xs = ys @ snd (round_take ready q xs)"
proof (induction ready q xs rule: round_take.induct)
  case (2 ready q x xs)
  show ?case
  proof (cases "q = 0")
    case False
    then obtain ys where ys: "xs = ys @ snd (round_take ready (if ready x then q - 1 else q) xs)"
      using 2 by (cases "ready x") auto
    have "x # xs = (x # ys) @ snd (round_take ready q (x # xs))"
      by (subst ys) (use False in \<open>auto simp: split_def Let_def\<close>)
    then show ?thesis by blast
  qed simp
qed simp

section \<open>The scan\<close>

text \<open>The positions still to visit: from \<open>i\<close> to the end and on to \<open>start\<close>, or from \<open>i\<close> to \<open>start\<close>.\<close>

definition to_visit :: "nat \<Rightarrow> nat \<Rightarrow> bool \<Rightarrow> nat \<Rightarrow> nat list" where
  "to_visit n start rotated i = (if rotated then [i ..< start] else [i ..< n] @ [0 ..< start])"

definition xp_ready :: "'u xpoll \<Rightarrow> nat \<Rightarrow> bool" where
  "xp_ready xp i \<longleftrightarrow> pfd_revents (pfd_list xp ! i) \<noteq> 0"

text \<open>Where the scan stands: a position of the first or of the second part of the round.\<close>

definition scan_state :: "'u xpoll \<Rightarrow> nat \<Rightarrow> nat \<Rightarrow> bool \<Rightarrow> nat \<Rightarrow> bool" where
  "scan_state xp start limit rotated i \<longleftrightarrow>
     start < pfd_count xp \<and> limit = (if rotated then start else pfd_count xp) \<and>
     (if rotated then start \<noteq> 0 \<and> i \<le> start else i < pfd_count xp \<or> start = 0 \<and> i = pfd_count xp)"

definition scan_end :: "'u xpoll \<Rightarrow> nat \<Rightarrow> nat list \<Rightarrow> nat" where
  "scan_end xp start rest = (case rest of y # _ \<Rightarrow> y | [] \<Rightarrow> if start = 0 then pfd_count xp else start)"

lemma to_visit_step:
  assumes "scan_state xp start limit rotated i" "i < limit"
  shows "to_visit (pfd_count xp) start rotated i = i #
    (if i + 1 \<ge> pfd_count xp \<and> \<not> rotated \<and> start \<noteq> 0 then to_visit (pfd_count xp) start True 0
     else to_visit (pfd_count xp) start rotated (i + 1))"
  using assms by (auto simp: to_visit_def scan_state_def upt_conv_Cons split: if_splits)

lemma scan_state_step:
  assumes "scan_state xp start limit rotated i" "i < limit"
  shows "if i + 1 \<ge> pfd_count xp \<and> \<not> rotated \<and> start \<noteq> 0 then scan_state xp start start True 0
     else scan_state xp start limit rotated (i + 1)"
  using assms by (auto simp: scan_state_def split: if_splits)

lemma to_visit_end:
  assumes "scan_state xp start limit rotated i" "\<not> i < limit"
  shows "to_visit (pfd_count xp) start rotated i = []" "scan_end xp start [] = i"
  using assms by (auto simp: to_visit_def scan_state_def scan_end_def split: if_splits)

lemma xpoll_scan_correct:
  assumes "xp_arrays xp" "scan_state xp start limit rotated i" "length out \<le> max_events"
  shows "xpoll_scan xp max_events start limit rotated i out =
    (let (is, rest) = round_take (xp_ready xp) (max_events - length out)
           (to_visit (pfd_count xp) start rotated i)
     in Inr (out @ map (xpoll_event_of xp) is, scan_end xp start rest))"
  using assms
proof (induction xp max_events start limit rotated i out rule: xpoll_scan.induct)
  case (1 xp max_events start limit rotated i out)
  note state = 1(4) and arr = 1(3) and len = 1(5)
  show ?case
  proof (cases "i < limit \<and> length out < max_events")
    case False
    then have "xpoll_scan xp max_events start limit rotated i out = Inr (out, i)"
      unfolding xpoll_scan.simps [of xp max_events start limit rotated i out] by (rule if_not_P)
    moreover have "round_take (xp_ready xp) (max_events - length out)
        (to_visit (pfd_count xp) start rotated i) = ([], to_visit (pfd_count xp) start rotated i)"
      using False to_visit_end(1) [OF state] len
      by (cases "to_visit (pfd_count xp) start rotated i") auto
    moreover have "scan_end xp start (to_visit (pfd_count xp) start rotated i) = i"
      using to_visit_end [OF state] to_visit_step [OF state] by (cases "i < limit") (auto simp: scan_end_def)
    ultimately show ?thesis by simp
  next
    case True
    have i: "i < pfd_count xp" using True state by (auto simp: scan_state_def split: if_splits)
    then have bounds: "i < length (pfd_list xp)" "i < length (fd_info_list xp)"
      using arraysD(6,7) [OF arr] by simp_all
    let ?rot = "i + 1 \<ge> pfd_count xp \<and> \<not> rotated \<and> start \<noteq> 0"
    let ?out = "if xp_ready xp i then out @ [xpoll_event_of xp i] else out"
    let ?vis = "if ?rot then to_visit (pfd_count xp) start True 0
                else to_visit (pfd_count xp) start rotated (i + 1)"
    have upd: "(if pfd_revents (pfd_list xp ! i) \<noteq> 0
        then and_then (aget (fd_info_list xp) i) (\<lambda>u. Inr (out @ [\<lparr>ev_events =
               xpoll_event_mask (pfd_revents (pfd_list xp ! i)), ev_fd = pfd_fd (pfd_list xp ! i),
               ev_udata = u\<rparr>])) else Inr out) = Inr ?out"
      using bounds(2) by (simp add: xp_ready_def xpoll_event_of_def)
    have step: "xpoll_scan xp max_events start limit rotated i out =
        (if ?rot then xpoll_scan xp max_events start start True 0 ?out
         else xpoll_scan xp max_events start limit rotated (i + 1) ?out)"
      unfolding xpoll_scan.simps [of xp max_events start limit rotated i out] aget_ok [OF bounds(1)]
        and_then_simps upd using True by simp
    have len': "length ?out \<le> max_events" using True by simp
    have next_state: "if ?rot then scan_state xp start start True 0
        else scan_state xp start limit rotated (i + 1)"
      using True by (intro scan_state_step [OF state]) simp
    have "xpoll_scan xp max_events start limit rotated i out =
      (let (is, rest) = round_take (xp_ready xp) (max_events - length ?out) ?vis
       in Inr (?out @ map (xpoll_event_of xp) is, scan_end xp start rest))"
    proof (cases ?rot)
      case rot: True
      have "scan_state xp start start True 0" using next_state unfolding if_P [OF rot] .
      then show ?thesis
        using 1(1) [OF True rot arr _ len'] unfolding step if_P [OF rot] by blast
    next
      case rot: False
      have "scan_state xp start limit rotated (i + 1)" using next_state unfolding if_not_P [OF rot] .
      then show ?thesis
        using 1(2) [OF True rot arr _ len'] unfolding step if_not_P [OF rot] by blast
    qed
    moreover have "max_events - length out \<noteq> 0" using True by simp
    ultimately show ?thesis
      using to_visit_step [OF state] True by (simp add: split_def Let_def)
  qed
qed

section \<open>The wait\<close>

definition wait_order :: "'u xpoll \<Rightarrow> nat list" where
  "wait_order xp = (let start = pfd_last_wait_index xp mod pfd_count xp
     in [start ..< pfd_count xp] @ [0 ..< start])"

lemma poll_writes_arrays: "xp_arrays xp \<Longrightarrow> xp_arrays (poll_writes xp r)"
  by (auto simp: xp_arrays_def poll_writes_def)

lemma poll_writes_fields [simp]:
  "pfd_count (poll_writes xp r) = pfd_count xp"
  "pfd_last_wait_index (poll_writes xp r) = pfd_last_wait_index xp"
  "fd_info_list (poll_writes xp r) = fd_info_list xp"
  by (simp_all add: poll_writes_def)

lemma poll_writes_nth:
  "i < pfd_count xp \<Longrightarrow> pfd_list (poll_writes xp r) ! i = (pfd_list xp ! i)\<lparr>pfd_revents := r i\<rparr>"
  by (simp add: poll_writes_def nth_append)

definition wait_event :: "'u xpoll \<Rightarrow> (nat \<Rightarrow> u16) \<Rightarrow> nat \<Rightarrow> 'u xpoll_event" where
  "wait_event xp r i = \<lparr>ev_events = xpoll_event_mask (r i), ev_fd = pfd_fd (pfd_list xp ! i),
     ev_udata = fd_info_list xp ! i\<rparr>"

definition wait_asks :: "'u xpoll \<Rightarrow> (fd \<times> u16) list" where
  "wait_asks xp = map (\<lambda>p. (pfd_fd p, pfd_events p)) (take (pfd_count xp) (pfd_list xp))"

lemma round_take_cong:
  "(\<And>x. x \<in> set xs \<Longrightarrow> P x = Q x) \<Longrightarrow> round_take P q xs = round_take Q q xs"
  by (induction P q xs rule: round_take.induct) auto

lemma xpoll_wait_correct:
  assumes arr: "xp_arrays xp" and some: "0 < pfd_count xp" and max: "0 < max_events"
    and poll: "poll (wait_asks xp) timeout_ms = (ret, r)" "0 \<le> ret"
  shows "\<exists>rest xp'. xpoll_wait poll xp max_events timeout_ms =
      (let is = take (nat max_events) (filter (\<lambda>i. r i \<noteq> 0) (wait_order xp))
       in Inr (int (length is), None, map (wait_event xp r) is, xp')) \<and>
    round_take (\<lambda>i. r i \<noteq> 0) (nat max_events) (wait_order xp) =
      (take (nat max_events) (filter (\<lambda>i. r i \<noteq> 0) (wait_order xp)), rest) \<and>
    xp' = (poll_writes xp r)\<lparr>pfd_last_wait_index :=
      (case rest of y # _ \<Rightarrow> y | [] \<Rightarrow> pfd_last_wait_index xp mod pfd_count xp)\<rparr>"
proof -
  let ?xp = "poll_writes xp r" and ?n = "pfd_count xp" and ?b = "pfd_last_wait_index xp mod pfd_count xp"
  let ?is = "take (nat max_events) (filter (\<lambda>i. r i \<noteq> 0) (wait_order xp))"
  have b: "?b < ?n" using some by simp
  have visit: "to_visit ?n ?b False ?b = wait_order xp"
    by (simp add: to_visit_def wait_order_def Let_def)
  have pos: "i < ?n" if "i \<in> set (wait_order xp)" for i
    using that b by (auto simp: wait_order_def Let_def)
  have ready: "round_take (xp_ready ?xp) q (wait_order xp) = round_take (\<lambda>i. r i \<noteq> 0) q (wait_order xp)" for q
    by (rule round_take_cong) (simp add: xp_ready_def poll_writes_nth pos)
  obtain rest where rest: "round_take (\<lambda>i. r i \<noteq> 0) (nat max_events) (wait_order xp) = (?is, rest)"
    using round_take_fst [of "\<lambda>i. r i \<noteq> 0" "nat max_events" "wait_order xp"]
    by (metis prod.collapse)
  have state: "scan_state ?xp ?b (pfd_count ?xp) False ?b" using b by (simp add: scan_state_def)
  have ev: "map (xpoll_event_of ?xp) ?is = map (wait_event xp r) ?is"
    using pos by (auto simp: xpoll_event_of_def wait_event_def poll_writes_nth
        dest!: in_set_takeD)
  have "xpoll_scan ?xp (nat max_events) ?b ?n False ?b [] =
      Inr (map (xpoll_event_of ?xp) ?is, scan_end ?xp ?b rest)"
    using xpoll_scan_correct [OF poll_writes_arrays [OF arr] state, of "[]" "nat max_events"]
    by (simp add: visit ready rest)
  then have scan: "xpoll_scan ?xp (nat max_events) ?b ?n False ?b [] =
      Inr (map (wait_event xp r) ?is, scan_end ?xp ?b rest)"
    unfolding ev .
  have "set rest \<subseteq> set (wait_order xp)"
    using round_take_snd_suffix [of "wait_order xp" "\<lambda>i. r i \<noteq> 0" "nat max_events"] rest by force
  then have "(if scan_end ?xp ?b rest \<ge> ?n then 0 else scan_end ?xp ?b rest) =
      (case rest of y # _ \<Rightarrow> y | [] \<Rightarrow> ?b)"
    using pos b by (cases rest) (fastforce simp: scan_end_def)+
  then have "xpoll_wait poll xp max_events timeout_ms =
      Inr (int (length ?is), None, map (wait_event xp r) ?is, ?xp\<lparr>pfd_last_wait_index :=
        (case rest of y # _ \<Rightarrow> y | [] \<Rightarrow> ?b)\<rparr>)"
    using max some poll arraysD(6) [OF arr] scan
    by (simp add: xpoll_wait_def wait_asks_def)
  then show ?thesis using rest by (intro exI [of _ rest]) (simp add: Let_def)
qed

section \<open>No ready descriptor is starved\<close>

text \<open>A sequence of waits, each with the \<open>poll\<close> it meets; the events each of them reports.\<close>

fun xpoll_waits ::
  "poll_fn list \<Rightarrow> 'u xpoll \<Rightarrow> int \<Rightarrow> int \<Rightarrow> 'u xpoll_event list list checked"
where
  "xpoll_waits [] xp max_events timeout_ms = Inr []"
| "xpoll_waits (p # ps) xp max_events timeout_ms =
     and_then (xpoll_wait p xp max_events timeout_ms) (\<lambda>(ret, err, out, xp).
     and_then (xpoll_waits ps xp max_events timeout_ms) (\<lambda>outs. Inr (out # outs)))"

lemma wait_order_rotate:
  assumes "0 < pfd_count xp"
  shows "wait_order xp = rotate (pfd_last_wait_index xp) [0 ..< pfd_count xp]"
  using assms by (simp add: wait_order_def Let_def rotate_drop_take take_upt)

text \<open>Starting where the round stopped, the next round is the rest and then what was visited.\<close>

lemma wait_order_next:
  assumes some: "0 < pfd_count xp" and split: "wait_order xp = visited @ y # rest"
    and xp': "pfd_count xp' = pfd_count xp" "pfd_last_wait_index xp' = y"
  shows "wait_order xp' = y # rest @ visited"
proof -
  let ?n = "pfd_count xp" and ?b = "pfd_last_wait_index xp" and ?c = "length visited"
  have len: "length (wait_order xp) = ?n" using wait_order_rotate [OF some] by simp
  then have c: "?c < ?n" using split by simp
  have "y = wait_order xp ! ?c" using split by simp
  also have "\<dots> = (?b + ?c) mod ?n"
    using c some by (simp add: wait_order_rotate nth_rotate)
  finally have y: "y = (?b + ?c) mod ?n" .
  have "wait_order xp' = rotate ((?c + ?b) mod ?n) [0 ..< ?n]"
    using wait_order_rotate [of xp'] some xp' y by (simp add: add.commute)
  also have "\<dots> = rotate (?c + ?b) [0 ..< ?n]" by (metis rotate_conv_mod length_upt minus_nat.diff_0)
  also have "\<dots> = rotate ?c (wait_order xp)" using wait_order_rotate [OF some] by (simp add: rotate_rotate)
  also have "\<dots> = y # rest @ visited" using c len split by (simp add: rotate_drop_take)
  finally show ?thesis .
qed

lemma round_take_split:
  "round_take ready q xs = (ys, zs) \<Longrightarrow> \<exists>vs. xs = vs @ zs \<and> filter ready vs = ys"
proof (induction ready q xs arbitrary: ys rule: round_take.induct)
  case (2 ready q x xs)
  show ?case
  proof (cases "q = 0")
    case False
    note q = this
    show ?thesis
    proof (cases "ready x")
      case True
      obtain ys' where "round_take ready (q - 1) xs = (ys', zs)" "ys = x # ys'"
        using 2(3) q True by (auto simp: Let_def split: prod.splits)
      then obtain vs where "xs = vs @ zs" "filter ready vs = ys'" using 2(1) [OF q True] by blast
      then show ?thesis using True \<open>ys = x # ys'\<close> by (intro exI [of _ "x # vs"]) simp
    next
      case False
      then obtain vs where "xs = vs @ zs" "filter ready vs = ys" using 2(2) [OF q False] 2(3) q by auto
      then show ?thesis using False by (intro exI [of _ "x # vs"]) simp
    qed
  qed (use 2(3) in \<open>auto intro: exI [of _ "[]"]\<close>)
qed simp

lemma round_take_visits: "0 < q \<Longrightarrow> xs \<noteq> [] \<Longrightarrow> length (snd (round_take ready q xs)) < length xs"
proof (induction ready q xs rule: round_take.induct)
  case (2 ready q x xs)
  then show ?case
    using round_take_snd_suffix [of xs ready "q - 1"] round_take_snd_suffix [of xs ready q]
    by (auto simp: Let_def split_def) (metis length_append less_Suc_eq_le le_add2)+
qed simp

text \<open>What a wait leaves unchanged, and hence what the next one asks \<open>poll\<close>.\<close>

lemma wait_writes_same:
  assumes "xp_arrays xp" "xp' = (poll_writes xp r)\<lparr>pfd_last_wait_index := w\<rparr>"
  shows "xp_arrays xp'" "pfd_count xp' = pfd_count xp" "pfd_last_wait_index xp' = w"
    "wait_asks xp' = wait_asks xp" "wait_event xp' s i = (if i < pfd_count xp then wait_event xp s i
       else wait_event xp' s i)"
proof -
  show "xp_arrays xp'" using poll_writes_arrays [OF assms(1), of r] by (simp add: assms(2) xp_arrays_def)
  show "pfd_count xp' = pfd_count xp" "pfd_last_wait_index xp' = w" by (simp_all add: assms(2))
  show "wait_asks xp' = wait_asks xp"
    using arraysD(6) [OF assms(1)]
    by (intro nth_equalityI) (auto simp: wait_asks_def assms(2) poll_writes_def nth_append)
  show "wait_event xp' s i = (if i < pfd_count xp then wait_event xp s i else wait_event xp' s i)"
    by (simp add: wait_event_def assms(2) poll_writes_nth)
qed

definition reports :: "poll_fn \<Rightarrow> 'u xpoll \<Rightarrow> int \<Rightarrow> nat \<Rightarrow> bool" where
  "reports p xp timeout_ms j \<longleftrightarrow>
     (case p (wait_asks xp) timeout_ms of (ret, r) \<Rightarrow> 0 \<le> ret \<and> r j \<noteq> 0)"

definition is_event_of :: "'u xpoll \<Rightarrow> nat \<Rightarrow> 'u xpoll_event \<Rightarrow> bool" where
  "is_event_of xp j e \<longleftrightarrow> ev_fd e = pfd_fd (pfd_list xp ! j) \<and> ev_udata e = fd_info_list xp ! j"

text \<open>One wait of the sequence.\<close>

lemma wait_reports:
  assumes arr: "xp_arrays xp" and max: "0 < max_events" and j: "j < pfd_count xp"
    and rep: "reports p xp timeout_ms j"
  obtains ret out xp' visited rest where
    "xpoll_wait p xp max_events timeout_ms = Inr (ret, None, out, xp')"
    "xp_arrays xp'" "pfd_count xp' = pfd_count xp" "wait_asks xp' = wait_asks xp"
    "is_event_of xp' j = is_event_of xp j" "wait_order xp = visited @ rest" "visited \<noteq> []"
    "rest \<noteq> [] \<Longrightarrow> wait_order xp' = rest @ visited"
    "j \<in> set visited \<Longrightarrow> \<exists>e \<in> set out. is_event_of xp j e"
proof -
  have some: "0 < pfd_count xp" using j by simp
  obtain ret r where p: "p (wait_asks xp) timeout_ms = (ret, r)" by fastforce
  then have r: "0 \<le> ret" "r j \<noteq> 0" using rep by (auto simp: reports_def)
  let ?is = "take (nat max_events) (filter (\<lambda>i. r i \<noteq> 0) (wait_order xp))"
  obtain rest xp' where w: "xpoll_wait p xp max_events timeout_ms =
      Inr (int (length ?is), None, map (wait_event xp r) ?is, xp')"
    "round_take (\<lambda>i. r i \<noteq> 0) (nat max_events) (wait_order xp) = (?is, rest)"
    "xp' = (poll_writes xp r)\<lparr>pfd_last_wait_index :=
      (case rest of y # _ \<Rightarrow> y | [] \<Rightarrow> pfd_last_wait_index xp mod pfd_count xp)\<rparr>"
    using xpoll_wait_correct [where poll = p, OF arr some max p r(1)] unfolding Let_def by blast
  note same = wait_writes_same [OF arr w(3)]
  have len: "length (wait_order xp) = pfd_count xp" using wait_order_rotate [OF some] by simp
  obtain vs where vs: "wait_order xp = vs @ rest" "filter (\<lambda>i. r i \<noteq> 0) vs = ?is"
    using round_take_split [OF w(2)] by blast
  have "vs \<noteq> []"
  proof -
    have "wait_order xp \<noteq> []" using len some by auto
    then have "length rest < length (wait_order xp)"
      using round_take_visits [of "nat max_events" "wait_order xp" "\<lambda>i. r i \<noteq> 0"] w(2) max by simp
    then show ?thesis using vs(1) by auto
  qed
  moreover have "wait_order xp' = rest @ vs" if ne: "rest \<noteq> []"
  proof -
    obtain y ys where rest: "rest = y # ys" using ne by (cases rest) auto
    have split: "wait_order xp = vs @ y # ys" using vs(1) rest by simp
    have "pfd_last_wait_index xp' = y" using same(3) rest by simp
    then show ?thesis using wait_order_next [OF some split same(2)] rest by simp
  qed
  moreover have "\<exists>e \<in> set (map (wait_event xp r) ?is). is_event_of xp j e" if "j \<in> set vs"
  proof -
    have "j \<in> set ?is" using that r(2) unfolding vs(2) [symmetric] by simp
    then show ?thesis by (auto simp: is_event_of_def wait_event_def)
  qed
  moreover have "is_event_of xp' j = is_event_of xp j"
    using j by (intro ext) (simp add: is_event_of_def w(3) poll_writes_nth)
  ultimately show ?thesis using that w(1) same(1,2,4) vs(1) by blast
qed

lemma xpoll_waits_fair_at:
  assumes "xp_arrays xp" "0 < max_events" "\<forall>p \<in> set ps. reports p xp timeout_ms j"
    and "j < pfd_count xp"
  shows "\<exists>outs. xpoll_waits ps xp max_events timeout_ms = Inr outs \<and>
    (\<forall>i < length ps. i < pfd_count xp \<and> wait_order xp ! i = j \<longrightarrow>
       (\<exists>e \<in> set (concat outs). is_event_of xp j e))"
  using assms
proof (induction ps arbitrary: xp)
  case (Cons p ps)
  obtain ret out xp' vs rest where
    w: "xpoll_wait p xp max_events timeout_ms = Inr (ret, None, out, xp')" and
    same: "xp_arrays xp'" "pfd_count xp' = pfd_count xp" "wait_asks xp' = wait_asks xp"
    "is_event_of xp' j = is_event_of xp j" and
    order: "wait_order xp = vs @ rest" "vs \<noteq> []" "rest \<noteq> [] \<Longrightarrow> wait_order xp' = rest @ vs" and
    hit: "j \<in> set vs \<Longrightarrow> \<exists>e \<in> set out. is_event_of xp j e"
    using wait_reports [OF Cons.prems(1,2,4), of p timeout_ms] Cons.prems(3)
    by (metis list.set_intros(1))
  have "\<forall>p \<in> set ps. reports p xp' timeout_ms j"
    using Cons.prems(3) same(3) by (simp add: reports_def)
  then obtain outs where outs: "xpoll_waits ps xp' max_events timeout_ms = Inr outs"
    "\<forall>i < length ps. i < pfd_count xp \<and> wait_order xp' ! i = j \<longrightarrow>
       (\<exists>e \<in> set (concat outs). is_event_of xp j e)"
    using Cons.IH [OF same(1) Cons.prems(2)] Cons.prems(4) same(2,4) by auto
  have "\<exists>e \<in> set (concat (out # outs)). is_event_of xp j e"
    if i: "i < Suc (length ps)" "i < pfd_count xp" "wait_order xp ! i = j" for i
  proof (cases "i < length vs")
    case True
    then have "j \<in> set vs" using i(3) order(1) by (auto simp: nth_append)
    then show ?thesis using hit by auto
  next
    case False
    have len: "length (wait_order xp) = pfd_count xp"
      using wait_order_rotate [of xp] Cons.prems(4) by simp
    let ?i = "i - length vs"
    have pos: "0 < length vs" using order(2) by simp
    have "?i < length rest" using False i(2) len order(1) by simp
    moreover from this have "rest \<noteq> []" by auto
    ultimately have "wait_order xp' ! ?i = j" using i(3) False order(1,3) by (simp add: nth_append)
    moreover have "?i < length ps" "?i < pfd_count xp" using i(1,2) False pos by linarith+
    ultimately have "\<exists>e \<in> set (concat outs). is_event_of xp j e" using outs(2) by blast
    then show ?thesis by auto
  qed
  moreover have "xpoll_waits (p # ps) xp max_events timeout_ms = Inr (out # outs)"
    using w outs(1) by simp
  ultimately show ?case by (simp only: list.size) fastforce
qed simp

lemma xpoll_waits_fair:
  assumes "xp_arrays xp" "0 < max_events" "\<forall>p \<in> set ps. reports p xp timeout_ms j"
    and "j < pfd_count xp" "length ps = pfd_count xp"
  shows "\<exists>outs. xpoll_waits ps xp max_events timeout_ms = Inr outs \<and>
    (\<exists>e \<in> set (concat outs). is_event_of xp j e)"
proof -
  have some: "0 < pfd_count xp" using assms(4) by simp
  have "j \<in> set (wait_order xp)"
    using assms(4) by (simp add: wait_order_rotate [OF some])
  then obtain i where "i < pfd_count xp" "wait_order xp ! i = j"
    using wait_order_rotate [OF some] unfolding in_set_conv_nth by auto
  then show ?thesis using xpoll_waits_fair_at [OF assms(1-4)] assms(5) by auto
qed

end
