(* ===== verification/Xpoll_Kqueue.thy ===== *)
theory Xpoll_Kqueue
  imports Prelude
begin

text \<open>
  The other two back ends of \<open>src/src/event/xpoll.c\<close> and \<open>xpoll.h\<close>: \<open>kqueue\<close> (\<open>FH_PLATFORM_BSDLIKE\<close>)
  and \<open>epoll\<close> (\<open>FH_PLATFORM_LINUX\<close>). Both keep the registrations in the kernel, so the model is the
  list of calls made and what follows from their answers, which are parameters. Functions that the
  \<open>poll\<close> back end has too have the suffix \<open>_bsd\<close> or \<open>_linux\<close>.
\<close>

section \<open>\<open>kqueue\<close>\<close>

text \<open>
  The filters of \<open>sys/event.h\<close> are small negative numbers on FreeBSD, OpenBSD and macOS (on NetBSD they
  are 0 and 1, which this theory does not cover). As members of \<open>enum xpoll_event_type\<close>, an \<open>int\<close>, they are extended with ones.
\<close>

definition EVFILT_READ :: u16 where "EVFILT_READ = - 1"
definition EVFILT_WRITE :: u16 where "EVFILT_WRITE = - 2"
definition EV_ADD :: u16 where "EV_ADD = 0x1"
definition EV_DELETE :: u16 where "EV_DELETE = 0x2"
definition EV_CLEAR :: u16 where "EV_CLEAR = 0x20"
definition EV_ERROR :: u16 where "EV_ERROR = 0x4000"
definition EV_EOF :: u16 where "EV_EOF = 0x8000"

definition XPOLL_MAX_EVENTS :: nat where "XPOLL_MAX_EVENTS = 1024"
definition XPOLL_READ_bsd :: u32 where "XPOLL_READ_bsd = scast EVFILT_READ"
definition XPOLL_WRITE_bsd :: u32 where "XPOLL_WRITE_bsd = scast EVFILT_WRITE"
definition XPOLL_ERROR_bsd :: u32 where "XPOLL_ERROR_bsd = 4"
definition XPOLL_HANGUP_bsd :: u32 where "XPOLL_HANGUP_bsd = 8"
definition XPOLL_READ_HANGUP_bsd :: u32 where "XPOLL_READ_HANGUP_bsd = 16"
definition XPOLL_EDGE_bsd :: u32 where "XPOLL_EDGE_bsd = 32"
definition XPOLL_CLOEXEC_bsd :: u32 where "XPOLL_CLOEXEC_bsd = 1"
definition FD_CLOEXEC :: int where "FD_CLOEXEC = 1"
definition bsd_EINVAL :: int where "bsd_EINVAL = 22"

record kevent =
  kev_ident :: fd
  kev_filter :: u16
  kev_flags :: u16
  kev_udata :: nat

text \<open>
  The changes submitted so far and \<open>errno\<close>. The kernel answers a change, given the earlier ones, with
  an error number or with success.
\<close>

type_synonym kq_state = "kevent list \<times> int"
type_synonym kq_kernel = "kevent list \<Rightarrow> kevent \<Rightarrow> int option"

definition kq_change :: "kq_kernel \<Rightarrow> kevent \<Rightarrow> kq_state \<Rightarrow> bool \<times> kq_state" where
  "kq_change kn kev st = (case st of (calls, err) \<Rightarrow>
     (case kn calls kev of
        None \<Rightarrow> (True, (calls @ [kev], err))
      | Some e \<Rightarrow> (False, (calls @ [kev], e))))"

definition xpoll_ctl_fd_bsd ::
  "kq_kernel \<Rightarrow> fd \<Rightarrow> nat \<Rightarrow> u16 \<Rightarrow> u32 \<Rightarrow> bool \<Rightarrow> kq_state \<Rightarrow> bool \<times> kq_state"
where
  "xpoll_ctl_fd_bsd kn fd udata op_bsd events ret_on_partial_failure st =
     (let mask = (if events AND XPOLL_EDGE_bsd = XPOLL_EDGE_bsd then EV_CLEAR else 0);
          rd = \<lparr>kev_ident = fd, kev_filter = EVFILT_READ, kev_flags = op_bsd OR mask, kev_udata = udata\<rparr>;
          wr = \<lparr>kev_ident = fd, kev_filter = EVFILT_WRITE, kev_flags = op_bsd OR mask, kev_udata = udata\<rparr>;
          reads = (events AND XPOLL_READ_bsd \<noteq> 0);
          writes = (events AND XPOLL_WRITE_bsd \<noteq> 0);
          (ok, st) = (if reads then kq_change kn rd st else (False, st))
      in if reads \<and> \<not> ok \<and> ret_on_partial_failure then (False, st)
         else if writes then
           (case kq_change kn wr st of
              (True, st) \<Rightarrow> (True, st)
            | (False, st) \<Rightarrow>
                if ret_on_partial_failure then
                  if op_bsd = EV_ADD \<and> reads
                  then (False, fst (snd (kq_change kn (rd\<lparr>kev_flags := EV_DELETE\<rparr>) st)), snd st)
                  else (False, st)
                else (ok, st))
         else if \<not> reads then (False, fst st, bsd_EINVAL)
         else (ok, st))"

definition xpoll_add_fd_bsd :: "kq_kernel \<Rightarrow> fd \<Rightarrow> nat \<Rightarrow> u32 \<Rightarrow> kq_state \<Rightarrow> (bool \<times> kq_state) checked" where
  "xpoll_add_fd_bsd kn fd udata events st =
     and_then (assert_that (fd \<ge> 0)) (\<lambda>_. Inr (xpoll_ctl_fd_bsd kn fd udata EV_ADD events True st))"

definition xpoll_modify_fd_bsd :: "kq_kernel \<Rightarrow> fd \<Rightarrow> nat \<Rightarrow> u32 \<Rightarrow> kq_state \<Rightarrow> bool \<times> kq_state" where
  "xpoll_modify_fd_bsd kn fd udata events st =
     (let mask = (if events AND XPOLL_READ_bsd \<noteq> 0 then 0 else XPOLL_READ_bsd) OR
            (if events AND XPOLL_WRITE_bsd \<noteq> 0 then 0 else XPOLL_WRITE_bsd);
          st = (if mask \<noteq> 0 then snd (xpoll_ctl_fd_bsd kn fd 0 EV_DELETE mask False st) else st)
      in xpoll_ctl_fd_bsd kn fd udata EV_ADD events True st)"

definition xpoll_remove_fd_bsd :: "kq_kernel \<Rightarrow> fd \<Rightarrow> kq_state \<Rightarrow> bool \<times> kq_state" where
  "xpoll_remove_fd_bsd kn fd st =
     xpoll_ctl_fd_bsd kn fd 0 EV_DELETE (XPOLL_READ_bsd OR XPOLL_WRITE_bsd) False st"

definition xpoll_add_or_modify_fd_bsd :: "kq_kernel \<Rightarrow> fd \<Rightarrow> nat \<Rightarrow> u32 \<Rightarrow> kq_state \<Rightarrow> bool \<times> kq_state" where
  "xpoll_add_or_modify_fd_bsd kn fd udata events st = xpoll_ctl_fd_bsd kn fd udata EV_ADD events True st"

text \<open>
  Waiting: the kernel is asked for at most so many events, with a timeout or without, and answers with
  a number and as many events. The \<open>fd\<close> of an entry of \<open>events_out\<close> is not written.
\<close>

type_synonym kq_wait = "nat \<Rightarrow> (int \<times> int) option \<Rightarrow> int \<times> kevent list"

definition kq_event :: "kevent \<Rightarrow> u32 \<times> nat" where
  "kq_event kev =
     (let events = scast (kev_filter kev);
          events = (if kev_flags kev AND EV_ERROR \<noteq> 0 then events OR XPOLL_ERROR_bsd else events);
          events = (if kev_flags kev AND EV_EOF \<noteq> 0 then events OR XPOLL_HANGUP_bsd else events)
      in (events, kev_udata kev))"

definition xpoll_wait_bsd :: "kq_wait \<Rightarrow> int \<Rightarrow> int \<Rightarrow> (int \<times> int option \<times> (u32 \<times> nat) list) checked" where
  "xpoll_wait_bsd kn max_events timeout_ms =
     and_then (assert_that (max_events \<ge> 0)) (\<lambda>_.
     if max_events = 0 then Inr (-1, Some bsd_EINVAL, [])
     else
       let max_events = min max_events (int XPOLL_MAX_EVENTS);
           ts = (if timeout_ms \<ge> 0 then Some (timeout_ms div 1000, (timeout_ms mod 1000) * 1000000) else None);
           (ret, event_list) = kn (nat max_events) ts
       in if ret < 0 then Inr (ret, None, [])
          else and_then (assert_that (max_events \<ge> ret)) (\<lambda>_.
            Inr (ret, None, map kq_event (take (nat ret) event_list))))"

text \<open>Creation and closing, with the answers of \<open>kqueue\<close> and of the two \<open>fcntl\<close> calls.\<close>

datatype kq_release = Kq_closed fd | Xp_freed

definition xpoll_create_bsd :: "bool \<Rightarrow> int \<Rightarrow> int \<Rightarrow> (int \<Rightarrow> int) \<Rightarrow> u32 \<Rightarrow> fd option \<times> kq_release list" where
  "xpoll_create_bsd calloc_ok kqueue getfd setfd flags =
     (if \<not> calloc_ok then (None, [])
      else if kqueue < 0 then (None, [Xp_freed])
      else if getfd < 0 then (None, [Xp_freed, Kq_closed kqueue])
      else if setfd (if flags AND XPOLL_CLOEXEC_bsd \<noteq> 0 then getfd OR FD_CLOEXEC else getfd AND NOT FD_CLOEXEC) < 0
      then (None, [Xp_freed, Kq_closed kqueue])
      else (Some kqueue, []))"

definition xpoll_close_bsd :: "fd \<Rightarrow> kq_release list" where
  "xpoll_close_bsd kq = [Kq_closed kq, Xp_freed]"

section \<open>\<open>epoll\<close>\<close>

datatype epoll_op = EPOLL_CTL_ADD | EPOLL_CTL_MOD | EPOLL_CTL_DEL

text \<open>The event masks, of \<open>sys/epoll.h\<close>.\<close>

definition XPOLL_READ_linux :: u32 where "XPOLL_READ_linux = 0x001"
definition XPOLL_WRITE_linux :: u32 where "XPOLL_WRITE_linux = 0x004"
definition XPOLL_ERROR_linux :: u32 where "XPOLL_ERROR_linux = 0x008"
definition XPOLL_HANGUP_linux :: u32 where "XPOLL_HANGUP_linux = 0x010"
definition XPOLL_READ_HANGUP_linux :: u32 where "XPOLL_READ_HANGUP_linux = 0x2000"
definition XPOLL_EDGE_linux :: u32 where "XPOLL_EDGE_linux = push_bit 31 1"

text \<open>Creation, with the answer of \<open>epoll_create1\<close>; a negative one is an error (\<open>XPOLL_XP_ERR\<close>).\<close>

definition xpoll_create_linux :: "int \<Rightarrow> fd option" where
  "xpoll_create_linux epoll_create1 = (if epoll_create1 < 0 then None else Some epoll_create1)"

text \<open>A call of \<open>epoll_ctl\<close> with its event, if any; the kernel's answer, given the earlier calls.\<close>

type_synonym epoll_call = "epoll_op \<times> fd \<times> (u32 \<times> nat) option"
type_synonym epoll_kernel = "epoll_call list \<Rightarrow> epoll_call \<Rightarrow> bool"

definition epoll_ctl :: "epoll_kernel \<Rightarrow> epoll_call \<Rightarrow> epoll_call list \<Rightarrow> bool \<times> epoll_call list" where
  "epoll_ctl kn c calls = (kn calls c, calls @ [c])"

definition xpoll_ctl_fd_linux where
  "xpoll_ctl_fd_linux kn op fd udata events calls = epoll_ctl kn (op, fd, Some (events, udata)) calls"

definition xpoll_add_fd_linux where
  "xpoll_add_fd_linux kn fd udata events calls = xpoll_ctl_fd_linux kn EPOLL_CTL_ADD fd udata events calls"

definition xpoll_modify_fd_linux where
  "xpoll_modify_fd_linux kn fd udata events calls = xpoll_ctl_fd_linux kn EPOLL_CTL_MOD fd udata events calls"

definition xpoll_remove_fd_linux where
  "xpoll_remove_fd_linux kn fd calls = epoll_ctl kn (EPOLL_CTL_DEL, fd, None) calls"

definition xpoll_add_or_modify_fd_linux ::
  "epoll_kernel \<Rightarrow> fd \<Rightarrow> nat \<Rightarrow> u32 \<Rightarrow> epoll_call list \<Rightarrow> bool \<times> epoll_call list"
where
  "xpoll_add_or_modify_fd_linux kn fd udata events calls =
     (let (ok, calls) = epoll_ctl kn (EPOLL_CTL_MOD, fd, Some (events, udata)) calls
      in if \<not> ok then epoll_ctl kn (EPOLL_CTL_ADD, fd, Some (events, udata)) calls else (True, calls))"

section \<open>What a sequence of calls registers\<close>

text \<open>
  The registrations after the calls made on a new instance, by the kernel's answers: what it accepted
  changes them, what it refused does not. The last call comes first.
\<close>

type_synonym epoll_regs = "fd \<rightharpoonup> u32 \<times> nat"

primrec epoll_regs_rev :: "epoll_kernel \<Rightarrow> epoll_call list \<Rightarrow> epoll_regs" where
  "epoll_regs_rev kn [] = (\<lambda>_. None)"
| "epoll_regs_rev kn (c # past) = (case c of (op, fd, e) \<Rightarrow>
     if kn (rev past) c then (epoll_regs_rev kn past)(fd := if op = EPOLL_CTL_DEL then None else e)
     else epoll_regs_rev kn past)"

definition epoll_now :: "epoll_kernel \<Rightarrow> epoll_call list \<Rightarrow> epoll_regs" where
  "epoll_now kn calls = epoll_regs_rev kn (rev calls)"

lemma epoll_now_append:
  "epoll_now kn (calls @ [(op, fd, e)]) = (if kn calls (op, fd, e)
     then (epoll_now kn calls)(fd := if op = EPOLL_CTL_DEL then None else e) else epoll_now kn calls)"
  by (simp add: epoll_now_def)

text \<open>
  \<open>epoll\<close> keeps one registration per descriptor: adding fails for a registered one (\<open>EEXIST\<close>), modifying
  and deleting fail for any other (\<open>ENOENT\<close>). These are the only errors of \<open>epoll_ctl\<close> on a descriptor that
  is open and can be polled while the kernel has memory and watches left; on any other descriptor the
  kernel may refuse what it likes (\<open>EBADF\<close>, \<open>EPERM\<close>, \<open>ENOMEM\<close>, \<open>ENOSPC\<close>). \<open>epoll_obeys kn S\<close> says that the
  descriptors of \<open>S\<close> are of the first kind throughout.
\<close>

definition epoll_accepts :: "epoll_regs \<Rightarrow> epoll_call \<Rightarrow> bool" where
  "epoll_accepts regs c = (case c of
      (EPOLL_CTL_ADD, fd, e) \<Rightarrow> regs fd = None \<and> e \<noteq> None
    | (EPOLL_CTL_MOD, fd, e) \<Rightarrow> regs fd \<noteq> None \<and> e \<noteq> None
    | (EPOLL_CTL_DEL, fd, e) \<Rightarrow> regs fd \<noteq> None)"

definition epoll_obeys :: "epoll_kernel \<Rightarrow> fd set \<Rightarrow> bool" where
  "epoll_obeys kn S \<longleftrightarrow> (\<forall>calls op fd e. fd \<in> S \<longrightarrow>
     kn calls (op, fd, e) = epoll_accepts (epoll_now kn calls) (op, fd, e))"

text \<open>For such a descriptor, adding or modifying always succeeds and registers, whatever was there.\<close>

lemma epoll_add_or_modify:
  assumes "epoll_obeys kn S" "fd \<in> S"
  shows "\<exists>calls'. xpoll_add_or_modify_fd_linux kn fd u ev calls = (True, calls') \<and>
    epoll_now kn calls' = (epoll_now kn calls)(fd \<mapsto> (ev, u))"
  using assms
  by (cases "epoll_now kn calls fd")
    (auto simp del: append_assoc
      simp: xpoll_add_or_modify_fd_linux_def epoll_ctl_def epoll_obeys_def epoll_now_append epoll_accepts_def)

text \<open>
  A kernel in which the descriptors of \<open>S\<close> are open: its registrations from the calls alone, and its
  answers.
\<close>

primrec epoll_open_rev :: "fd set \<Rightarrow> epoll_call list \<Rightarrow> epoll_regs" where
  "epoll_open_rev S [] = (\<lambda>_. None)"
| "epoll_open_rev S (c # past) = (case c of (op, fd, e) \<Rightarrow>
     if fd \<in> S \<and> epoll_accepts (epoll_open_rev S past) c
     then (epoll_open_rev S past)(fd := if op = EPOLL_CTL_DEL then None else e) else epoll_open_rev S past)"

definition epoll_open :: "fd set \<Rightarrow> epoll_kernel" where
  "epoll_open S calls c \<longleftrightarrow> fst (snd c) \<in> S \<and> epoll_accepts (epoll_open_rev S (rev calls)) c"

lemma epoll_open_obeys: "epoll_obeys (epoll_open S) S"
proof -
  have "epoll_regs_rev (epoll_open S) past = epoll_open_rev S past" for past
    by (induction past) (auto simp: epoll_open_def)
  then show ?thesis by (simp add: epoll_obeys_def epoll_now_def) (simp add: epoll_open_def)
qed

section \<open>The \<open>kqueue\<close> back end\<close>

text \<open>A change as \<open>xpoll_ctl_fd\<close> makes it.\<close>

definition kq_kev :: "fd \<Rightarrow> u16 \<Rightarrow> u16 \<Rightarrow> u32 \<Rightarrow> nat \<Rightarrow> kevent" where
  "kq_kev fd filt op events u = \<lparr>kev_ident = fd, kev_filter = filt,
     kev_flags = op OR (if events AND XPOLL_EDGE_bsd = XPOLL_EDGE_bsd then EV_CLEAR else 0), kev_udata = u\<rparr>"

lemma bsd_masks: "XPOLL_READ_bsd = - 1" "XPOLL_WRITE_bsd = - 2"
  by (simp_all add: XPOLL_READ_bsd_def XPOLL_WRITE_bsd_def EVFILT_READ_def EVFILT_WRITE_def)

text \<open>
  The masks overlap: \<open>events & XPOLL_READ\<close> is zero only for no events at all, and
  \<open>events & XPOLL_WRITE\<close> only if no bit but the lowest is set.
\<close>

lemma bsd_reads: "events AND XPOLL_READ_bsd \<noteq> 0 \<longleftrightarrow> events \<noteq> 0"
  by (simp add: bsd_masks)

lemma bsd_writes_read: "XPOLL_READ_bsd AND XPOLL_WRITE_bsd \<noteq> 0" "XPOLL_WRITE_bsd AND XPOLL_WRITE_bsd \<noteq> 0"
  "XPOLL_READ_bsd AND XPOLL_EDGE_bsd = XPOLL_EDGE_bsd" "XPOLL_WRITE_bsd AND XPOLL_EDGE_bsd = XPOLL_EDGE_bsd"
  by (simp_all add: bsd_masks XPOLL_EDGE_bsd_def)

text \<open>
  Adding: it succeeds exactly if all its changes do; if the second one fails, the first is taken back
  and \<open>errno\<close> is that of the failure.
\<close>

lemma kq_add_correct:
  assumes "0 \<le> fd" and ev: "events AND XPOLL_READ_bsd \<noteq> 0" "events AND XPOLL_WRITE_bsd \<noteq> 0"
  shows "xpoll_add_fd_bsd kn fd u events (calls, err) = Inr
    (let rd = kq_kev fd EVFILT_READ EV_ADD events u; wr = kq_kev fd EVFILT_WRITE EV_ADD events u
     in case kn calls rd of
          Some e \<Rightarrow> (False, calls @ [rd], e)
        | None \<Rightarrow> (case kn (calls @ [rd]) wr of
            Some e \<Rightarrow> (False, calls @ [rd, wr, rd\<lparr>kev_flags := EV_DELETE\<rparr>], e)
          | None \<Rightarrow> (True, calls @ [rd, wr], err)))"
  using assms
  by (auto simp: xpoll_add_fd_bsd_def assert_that_def xpoll_ctl_fd_bsd_def kq_change_def kq_kev_def Let_def
      split: option.splits)

text \<open>
  Modifying: with any filter asked for the masks say that no other one is left to delete, so nothing
  is deleted, and modifying is adding.
\<close>

lemma kq_modify_correct:
  assumes "events AND XPOLL_READ_bsd \<noteq> 0" "events AND XPOLL_WRITE_bsd \<noteq> 0"
  shows "xpoll_modify_fd_bsd kn fd u events st = xpoll_add_or_modify_fd_bsd kn fd u events st"
  using assms by (simp add: xpoll_modify_fd_bsd_def xpoll_add_or_modify_fd_bsd_def)

end
