(* ===== verification/Xpoll_Registry.thy ===== *)
theory Xpoll_Registry
  imports Xpoll_Regs Xpoll_Kqueue
begin

text \<open>
  What a client of \<open>xpoll.h\<close> may rely on when it registers descriptors, whatever the back end: adding
  and modifying act as on a finite map. The locale \<open>fd_registry\<close> is this contract; the \<open>poll\<close> back end,
  for descriptors within its table, and the \<open>epoll\<close> back end are instances of it.
\<close>

section \<open>Calls of a client\<close>

datatype reg_call = Reg_add fd nat u32 | Reg_modify fd nat u32 | Reg_add_or_modify fd nat u32

primrec reg_fd :: "reg_call \<Rightarrow> fd" where
  "reg_fd (Reg_add fd u ev) = fd"
| "reg_fd (Reg_modify fd u ev) = fd"
| "reg_fd (Reg_add_or_modify fd u ev) = fd"

type_synonym 's reg_op = "fd \<Rightarrow> nat \<Rightarrow> u32 \<Rightarrow> 's \<Rightarrow> (bool \<times> 's) checked"

primrec reg_perform :: "'s reg_op \<Rightarrow> 's reg_op \<Rightarrow> 's reg_op \<Rightarrow> reg_call \<Rightarrow> 's \<Rightarrow> (bool \<times> 's) checked" where
  "reg_perform add modify both (Reg_add fd u ev) s = add fd u ev s"
| "reg_perform add modify both (Reg_modify fd u ev) s = modify fd u ev s"
| "reg_perform add modify both (Reg_add_or_modify fd u ev) s = both fd u ev s"

fun reg_run :: "'s reg_op \<Rightarrow> 's reg_op \<Rightarrow> 's reg_op \<Rightarrow> reg_call list \<Rightarrow> 's \<Rightarrow> (bool list \<times> 's) checked" where
  "reg_run add modify both [] s = Inr ([], s)"
| "reg_run add modify both (c # cs) s =
     and_then (reg_perform add modify both c s) (\<lambda>(flag, s).
     and_then (reg_run add modify both cs s) (\<lambda>(flags, s). Inr (flag # flags, s)))"

text \<open>The specification: the same calls on a finite map.\<close>

type_synonym fd_map = "fd \<rightharpoonup> u32 \<times> nat"

primrec reg_spec_call :: "reg_call \<Rightarrow> fd_map \<Rightarrow> bool \<times> fd_map" where
  "reg_spec_call (Reg_add fd u ev) f = (if f fd = None then (True, f(fd \<mapsto> (ev, u))) else (False, f))"
| "reg_spec_call (Reg_modify fd u ev) f = (if f fd = None then (False, f) else (True, f(fd \<mapsto> (ev, u))))"
| "reg_spec_call (Reg_add_or_modify fd u ev) f = (True, f(fd \<mapsto> (ev, u)))"

fun reg_spec :: "reg_call list \<Rightarrow> fd_map \<Rightarrow> bool list \<times> fd_map" where
  "reg_spec [] f = ([], f)"
| "reg_spec (c # cs) f =
     (let (flag, f) = reg_spec_call c f; (flags, f) = reg_spec cs f in (flag # flags, f))"

section \<open>The contract\<close>

text \<open>
  \<open>regs\<close> is what a state registers; of the events asked for and the user data it keeps \<open>kept\<close>.
\<close>

locale fd_registry =
  fixes ready :: "'s \<Rightarrow> bool"
    and regs :: "'s \<Rightarrow> fd \<Rightarrow> 'r option"
    and fits :: "fd \<Rightarrow> bool"
    and kept :: "u32 \<Rightarrow> nat \<Rightarrow> 'r"
    and add :: "fd \<Rightarrow> nat \<Rightarrow> u32 \<Rightarrow> 's \<Rightarrow> (bool \<times> 's) checked"
    and modify :: "fd \<Rightarrow> nat \<Rightarrow> u32 \<Rightarrow> 's \<Rightarrow> (bool \<times> 's) checked"
    and both :: "fd \<Rightarrow> nat \<Rightarrow> u32 \<Rightarrow> 's \<Rightarrow> (bool \<times> 's) checked"
  assumes add_law: "ready s \<Longrightarrow> fits fd \<Longrightarrow> \<exists>s'. add fd u ev s = Inr (regs s fd = None, s') \<and> ready s' \<and>
      regs s' = (if regs s fd = None then (regs s)(fd \<mapsto> kept ev u) else regs s)"
    and modify_law: "ready s \<Longrightarrow> fits fd \<Longrightarrow> \<exists>s'. modify fd u ev s = Inr (regs s fd \<noteq> None, s') \<and> ready s' \<and>
      regs s' = (if regs s fd = None then regs s else (regs s)(fd \<mapsto> kept ev u))"
    and both_calls: "fits fd \<Longrightarrow> both fd u ev s = and_then (modify fd u ev s) (\<lambda>(flag, s).
      if flag then Inr (True, s) else add fd u ev s)"
begin

text \<open>Adding or modifying registers, whatever was there.\<close>

lemma both_law:
  assumes "ready s" "fits fd"
  shows "\<exists>s'. both fd u ev s = Inr (True, s') \<and> ready s' \<and> regs s' = (regs s)(fd \<mapsto> kept ev u)"
proof -
  obtain s1 where s1: "modify fd u ev s = Inr (regs s fd \<noteq> None, s1)" "ready s1"
    "regs s1 = (if regs s fd = None then regs s else (regs s)(fd \<mapsto> kept ev u))"
    using modify_law [OF assms] by blast
  show ?thesis
  proof (cases "regs s fd")
    case None
    obtain s2 where "add fd u ev s1 = Inr (regs s1 fd = None, s2)" "ready s2"
      "regs s2 = (if regs s1 fd = None then (regs s1)(fd \<mapsto> kept ev u) else regs s1)"
      using add_law [OF s1(2) assms(2)] by blast
    then show ?thesis using s1 None by (simp add: both_calls [OF assms(2)])
  qed (use s1 in \<open>simp add: both_calls [OF assms(2)]\<close>)
qed

definition stands_for :: "'s \<Rightarrow> fd_map \<Rightarrow> bool" where
  "stands_for s f \<longleftrightarrow> ready s \<and> (\<forall>fd. regs s fd = map_option (\<lambda>(ev, u). kept ev u) (f fd))"

lemma stands_for_regs: "stands_for s f \<Longrightarrow> regs s = (\<lambda>fd. map_option (\<lambda>(ev, u). kept ev u) (f fd))"
  by (auto simp: stands_for_def)

lemma perform_refines:
  assumes s: "stands_for s f" and fd: "fits (reg_fd c)"
  shows "\<exists>s'. reg_perform add modify both c s = Inr (fst (reg_spec_call c f), s') \<and>
    stands_for s' (snd (reg_spec_call c f))"
proof -
  have ready: "ready s" and regs: "\<And>x. regs s x = map_option (\<lambda>(ev, u). kept ev u) (f x)"
    using s by (simp_all add: stands_for_def)
  show ?thesis
  proof (cases c)
    case (Reg_add x u ev)
    then show ?thesis using add_law [OF ready, of x u ev] fd regs
      by (fastforce simp: stands_for_def)
  next
    case (Reg_modify x u ev)
    then show ?thesis using modify_law [OF ready, of x u ev] fd regs
      by (fastforce simp: stands_for_def)
  next
    case (Reg_add_or_modify x u ev)
    then show ?thesis using both_law [OF ready, of x u ev] fd regs
      by (fastforce simp: stands_for_def)
  qed
qed

lemma run_refines:
  assumes "stands_for s f" "\<forall>c \<in> set cs. fits (reg_fd c)"
  shows "\<exists>s'. reg_run add modify both cs s = Inr (fst (reg_spec cs f), s') \<and>
    stands_for s' (snd (reg_spec cs f))"
  using assms
proof (induction cs arbitrary: s f)
  case (Cons c cs)
  obtain s1 where s1: "reg_perform add modify both c s = Inr (fst (reg_spec_call c f), s1)"
    "stands_for s1 (snd (reg_spec_call c f))"
    using perform_refines [OF Cons.prems(1), of c] Cons.prems(2) by auto
  from Cons.IH [OF s1(2)] Cons.prems(2) s1(1) show ?case by (auto simp: split_def Let_def)
qed simp

end

section \<open>The \<open>poll\<close> back end\<close>

text \<open>Without \<open>errno\<close>, which the contract does not mention.\<close>

definition without_errno :: "'u ctl \<Rightarrow> (bool \<times> 'u xpoll) checked" where
  "without_errno r = and_then r (\<lambda>(ret, err, xp). Inr (ret, xp))"

definition poll_ready :: "nat xp_mem \<Rightarrow> nat \<Rightarrow> nat xpoll \<Rightarrow> bool" where
  "poll_ready m n xp \<longleftrightarrow> realloc_fds_ok m \<and> realloc_pfds_ok m \<and> realloc_infos_ok m \<and> xp_ok xp \<and>
     n \<le> max 16 (fd_table_cap xp) \<and> fd_table_cap xp \<le> 2 ^ 28 \<and> pfd_cap xp \<le> 2 ^ 29"

definition poll_fits :: "nat \<Rightarrow> fd \<Rightarrow> bool" where
  "poll_fits n fd \<longleftrightarrow> 0 \<le> fd \<and> nat fd < n"

text \<open>The capacities after adding: the arrays grow only when they are full.\<close>

lemma append_fd_caps:
  "xpoll_append_fd xp fd u events = Inr xp' \<Longrightarrow> pfd_cap xp' = pfd_cap xp \<and> fd_table_cap xp' = fd_table_cap xp"
  by (auto simp: xpoll_append_fd_def Let_def and_then_Inr_iff)

lemma grow_pfds_caps:
  "xpoll_grow_pfds m xp = (room, xp') \<Longrightarrow> fd_table_cap xp' = fd_table_cap xp \<and>
    (pfd_cap xp' = pfd_cap xp \<or> pfd_cap xp \<le> pfd_count xp \<and> pfd_cap xp' \<le> max 16 (2 * pfd_cap xp))"
  by (auto simp: xpoll_grow_pfds_def Let_def w32_def split: if_splits)

lemma grow_fd_table_caps:
  "xpoll_grow_fd_table m xp fd = Inr (Some xp') \<Longrightarrow> fd_table_cap xp < 16 \<Longrightarrow>
    fd_table_cap xp' = 16 \<and> pfd_cap xp' = pfd_cap xp \<and> pfd_count xp' = pfd_count xp"
  by (auto simp: xpoll_grow_fd_table_def Let_def split: if_splits)

lemma add_caps:
  assumes "xpoll_add_fd m xp fd u events = Inr (ret, err, xp')" "nat fd < max 16 (fd_table_cap xp)" "fd < 2 ^ 31"
  shows "(fd_table_cap xp' = fd_table_cap xp \<or> fd_table_cap xp < 16 \<and> fd_table_cap xp' = 16) \<and>
    (pfd_cap xp' = pfd_cap xp \<or> pfd_cap xp \<le> pfd_count xp \<and> pfd_cap xp' \<le> max 16 (2 * pfd_cap xp))"
proof -
  have fd: "0 \<le> fd" using assms(1) by (auto simp: xpoll_add_fd_def assert_that_def split: if_splits)
  have run: "xpoll_ctl_add m xp fd u events = Inr (ret, err, xp')"
    using assms(1) fd by (simp add: xpoll_add_fd_def xpoll_ctl_fd_def)
  have step: "fd_table_cap xp' = fd_table_cap a \<and>
      (pfd_cap xp' = pfd_cap a \<or> pfd_cap a \<le> pfd_count a \<and> pfd_cap xp' \<le> max 16 (2 * pfd_cap a))"
    if "(let (room, b) = xpoll_grow_pfds m a
        in if \<not> room then Inr (False, None, b)
           else and_then (xpoll_append_fd b fd u events) (\<lambda>b. Inr (True, None, b))) = Inr (ret, err, xp')" for a
  proof -
    obtain room b where g: "xpoll_grow_pfds m a = (room, b)" by fastforce
    then show ?thesis using that grow_pfds_caps [OF g] append_fd_caps [of b fd u events]
      by (auto simp: and_then_Inr_iff split: if_splits)
  qed
  show ?thesis
  proof (cases "fd_table_cap xp \<le> nat fd")
    case True
    then have small: "fd_table_cap xp < 16" using assms(2) by simp
    have "and_then (xpoll_grow_fd_table m xp fd) (\<lambda>res.
        case res of None \<Rightarrow> Inr (False, None, xp) | Some xp \<Rightarrow>
          (let (room, b) = xpoll_grow_pfds m xp
          in if \<not> room then Inr (False, None, b)
             else and_then (xpoll_append_fd b fd u events) (\<lambda>b. Inr (True, None, b)))) = Inr (ret, err, xp')"
      using run True fd_u_id [OF fd assms(3)] unfolding xpoll_ctl_add_def Let_def by simp
    then obtain res where res: "xpoll_grow_fd_table m xp fd = Inr res"
      "(case res of None \<Rightarrow> Inr (False, None, xp) | Some xp \<Rightarrow>
        (let (room, b) = xpoll_grow_pfds m xp
        in if \<not> room then Inr (False, None, b)
           else and_then (xpoll_append_fd b fd u events) (\<lambda>b. Inr (True, None, b)))) = Inr (ret, err, xp')"
      unfolding and_then_Inr_iff by blast
    show ?thesis
    proof (cases res)
      case (Some a)
      then show ?thesis using step [of a] res grow_fd_table_caps [of m xp fd a] small by auto
    qed (use res in auto)
  next
    case False
    then show ?thesis using run fd_u_id [OF fd assms(3)] step [of xp]
      by (auto simp: xpoll_ctl_add_def and_then_Inr_iff split: if_splits)
  qed
qed

lemma modify_caps:
  "xpoll_modify_fd m xp fd u events = Inr (ret, err, xp') \<Longrightarrow>
    pfd_cap xp' = pfd_cap xp \<and> fd_table_cap xp' = fd_table_cap xp"
  by (auto simp: xpoll_modify_fd_def xpoll_ctl_fd_def xpoll_ctl_mod_def and_then_Inr_iff split: option.splits)

text \<open>There are no more registrations than places in \<open>fd_table\<close>.\<close>

lemma count_below_table:
  assumes "xp_ok xp"
  shows "pfd_count xp \<le> fd_table_cap xp"
proof -
  have "dom (xp_regs xp) \<subseteq> int ` {..< fd_table_cap xp}"
  proof
    fix x assume "x \<in> dom (xp_regs xp)"
    then have "0 \<le> x \<and> nat x < fd_table_cap xp" by (auto simp: xp_regs_def xp_place_def split: if_splits)
    then show "x \<in> int ` {..< fd_table_cap xp}" by (intro image_eqI [of _ _ "nat x"]) simp_all
  qed
  then have "card (dom (xp_regs xp)) \<le> fd_table_cap xp"
    by (metis card_image_le card_lessThan card_mono finite_imageI finite_lessThan order_trans)
  moreover have "length (xp_polled xp) = pfd_count xp"
    using assms arraysD(6) [of xp] by (simp add: xp_polled_def xp_ok_def)
  ultimately show ?thesis using polled_regs [OF assms] by (metis distinct_card)
qed

lemma poll_ready_add:
  assumes "poll_ready m n xp" "poll_fits n fd" "xpoll_add_fd m xp fd u events = Inr (ret, err, xp')" "xp_ok xp'"
  shows "poll_ready m n xp'"
proof -
  have r: "n \<le> max 16 (fd_table_cap xp)" "fd_table_cap xp \<le> 2 ^ 28" "pfd_cap xp \<le> 2 ^ 29" "xp_ok xp"
    "realloc_fds_ok m" "realloc_pfds_ok m" "realloc_infos_ok m"
    using assms(1) by (simp_all add: poll_ready_def)
  have fd: "nat fd < max 16 (fd_table_cap xp)" "fd < 2 ^ 31"
    using assms(2) r(1,2) by (auto simp: poll_fits_def)
  show ?thesis
    using add_caps [OF assms(3) fd] count_below_table [OF r(4)] r assms(4) by (auto simp: poll_ready_def)
qed

lemma poll_ready_modify:
  assumes "poll_ready m n xp" "xpoll_modify_fd m' xp fd u events = Inr (ret, err, xp')" "xp_ok xp'"
  shows "poll_ready m n xp'"
  using assms(1,3) modify_caps [OF assms(2)] by (simp add: poll_ready_def)

definition poll_add :: "nat xp_mem \<Rightarrow> nat xpoll reg_op" where
  "poll_add m fd u ev xp = without_errno (xpoll_add_fd m xp fd u ev)"

definition poll_modify :: "nat xp_mem \<Rightarrow> nat xpoll reg_op" where
  "poll_modify m fd u ev xp = without_errno (xpoll_modify_fd m xp fd u ev)"

definition poll_add_or_modify :: "nat xp_mem \<Rightarrow> nat xpoll reg_op" where
  "poll_add_or_modify m fd u ev xp = without_errno (xpoll_add_or_modify_fd m xp fd u ev)"

lemma poll_add_law:
  assumes "poll_ready m n xp" "poll_fits n fd"
  shows "\<exists>xp'. poll_add m fd u ev xp = Inr (xp_regs xp fd = None, xp') \<and> poll_ready m n xp' \<and>
    xp_regs xp' = (if xp_regs xp fd = None then (xp_regs xp)(fd \<mapsto> (poll_mask ev, u)) else xp_regs xp)"
proof -
  have r: "n \<le> max 16 (fd_table_cap xp)" "fd_table_cap xp \<le> 2 ^ 28" "pfd_cap xp \<le> 2 ^ 29" "xp_ok xp"
    "realloc_fds_ok m" "realloc_pfds_ok m" "realloc_infos_ok m"
    using assms(1) by (simp_all add: poll_ready_def)
  have fd: "0 \<le> fd" "fd < 2 ^ 31 - 1" "fd_fits xp fd"
    using assms(2) r(1,2) by (auto simp: poll_fits_def fd_fits_def grown_fd_cap_def)
  obtain ret err xp' where a: "xpoll_add_fd m xp fd u ev = Inr (ret, err, xp')" "xp_ok xp'"
    "add_outcome m xp fd u ev ret err xp'"
    using xpoll_add_fd_correct [OF r(4,3) fd, of m u ev] by blast
  have "ret = (xp_regs xp fd = None)" using a(3) r(5-7) by (simp add: add_outcome_def split: if_splits)
  then show ?thesis using a poll_ready_add [OF assms a(1,2)]
    by (auto simp: poll_add_def without_errno_def add_outcome_def)
qed

lemma poll_modify_law:
  assumes "poll_ready m n xp" "poll_fits n fd"
  shows "\<exists>xp'. poll_modify m fd u ev xp = Inr (xp_regs xp fd \<noteq> None, xp') \<and> poll_ready m n xp' \<and>
    xp_regs xp' = (if xp_regs xp fd = None then xp_regs xp else (xp_regs xp)(fd \<mapsto> (poll_mask ev, u)))"
proof -
  have ok: "xp_ok xp" and fd: "0 \<le> fd" "fd < 2 ^ 31"
    using assms by (auto simp: poll_ready_def poll_fits_def)
  obtain ret err xp' where a: "xpoll_modify_fd m xp fd u ev = Inr (ret, err, xp')" "xp_ok xp'"
    "if xp_regs xp fd = None then \<not> ret \<and> err = Some ENOENT \<and> xp' = xp
     else ret \<and> err = None \<and> xp_regs xp' = (xp_regs xp)(fd \<mapsto> (poll_mask ev, u))"
    using xpoll_modify_fd_correct [OF ok fd, of m u ev] by blast
  then show ?thesis using poll_ready_modify [OF assms(1) a(1,2)]
    by (auto simp: poll_modify_def without_errno_def split: if_splits)
qed

lemma poll_both_calls:
  assumes "poll_fits n fd"
  shows "poll_add_or_modify m fd u ev xp = and_then (poll_modify m fd u ev xp) (\<lambda>(flag, xp).
    if flag then Inr (True, xp) else poll_add m fd u ev xp)"
  using assms
  by (cases "xpoll_ctl_fd m xp fd u XPOLL_CTL_MOD ev")
    (auto simp: poll_fits_def poll_add_or_modify_def poll_modify_def poll_add_def without_errno_def
      xpoll_add_or_modify_fd_def xpoll_modify_fd_def xpoll_add_fd_def)

interpretation poll_reg: fd_registry "poll_ready m n" xp_regs "poll_fits n" "\<lambda>ev u. (poll_mask ev, u)"
  "poll_add m" "poll_modify m" "poll_add_or_modify m"
  for m n
  by unfold_locales (fact poll_add_law poll_modify_law poll_both_calls)+

section \<open>The \<open>epoll\<close> back end\<close>

text \<open>The calls made so far are the state; the descriptors of \<open>S\<close> are open and can be polled.\<close>

definition epoll_add :: "epoll_kernel \<Rightarrow> epoll_call list reg_op" where
  "epoll_add kn fd u ev calls = Inr (xpoll_add_fd_linux kn fd u ev calls)"

definition epoll_modify :: "epoll_kernel \<Rightarrow> epoll_call list reg_op" where
  "epoll_modify kn fd u ev calls = Inr (xpoll_modify_fd_linux kn fd u ev calls)"

definition epoll_add_or_modify :: "epoll_kernel \<Rightarrow> epoll_call list reg_op" where
  "epoll_add_or_modify kn fd u ev calls = Inr (xpoll_add_or_modify_fd_linux kn fd u ev calls)"

definition epoll_ready :: "epoll_kernel \<Rightarrow> fd set \<Rightarrow> epoll_call list \<Rightarrow> bool" where
  "epoll_ready kn S calls \<longleftrightarrow> epoll_obeys kn S"

lemmas epoll_defs = epoll_add_def epoll_modify_def epoll_add_or_modify_def xpoll_add_fd_linux_def
  xpoll_modify_fd_linux_def xpoll_add_or_modify_fd_linux_def xpoll_ctl_fd_linux_def epoll_ctl_def

interpretation epoll_reg: fd_registry "epoll_ready kn S" "epoll_now kn" "\<lambda>fd. fd \<in> S" Pair
  "epoll_add kn" "epoll_modify kn" "epoll_add_or_modify kn"
  for kn S
  by unfold_locales
    (auto simp: epoll_defs epoll_ready_def epoll_obeys_def epoll_now_append epoll_accepts_def)

section \<open>The two back ends agree\<close>

text \<open>What a \<open>poll\<close> instance registers when \<open>epoll\<close> registers \<open>f\<close>.\<close>

definition poll_view :: "fd_map \<Rightarrow> fd \<Rightarrow> (u16 \<times> nat) option" where
  "poll_view f fd = map_option (\<lambda>(ev, u). (poll_mask ev, u)) (f fd)"

lemma backends_run:
  assumes "poll_ready m n xp" "epoll_obeys kn S" "xp_regs xp = poll_view (epoll_now kn calls)"
    and "\<forall>c \<in> set cs. poll_fits n (reg_fd c) \<and> reg_fd c \<in> S"
  shows "\<exists>flags xp' calls'.
    reg_run (poll_add m) (poll_modify m) (poll_add_or_modify m) cs xp = Inr (flags, xp') \<and>
    reg_run (epoll_add kn) (epoll_modify kn) (epoll_add_or_modify kn) cs calls = Inr (flags, calls') \<and>
    (flags, epoll_now kn calls') = reg_spec cs (epoll_now kn calls) \<and>
    xp_regs xp' = poll_view (epoll_now kn calls') \<and> poll_ready m n xp'"
proof -
  let ?f = "epoll_now kn calls"
  have "poll_reg.stands_for m n xp ?f"
    using assms(1,3) by (simp add: poll_reg.stands_for_def poll_view_def)
  then obtain xp' where p:
    "reg_run (poll_add m) (poll_modify m) (poll_add_or_modify m) cs xp = Inr (fst (reg_spec cs ?f), xp')"
    "poll_reg.stands_for m n xp' (snd (reg_spec cs ?f))"
    using poll_reg.run_refines assms(4) by blast
  have "epoll_reg.stands_for kn S calls ?f"
    using assms(2) by (simp add: epoll_reg.stands_for_def epoll_ready_def option.map_ident split_def)
  then obtain calls' where e:
    "reg_run (epoll_add kn) (epoll_modify kn) (epoll_add_or_modify kn) cs calls = Inr (fst (reg_spec cs ?f), calls')"
    "epoll_reg.stands_for kn S calls' (snd (reg_spec cs ?f))"
    using epoll_reg.run_refines assms(4) by blast
  have "epoll_now kn calls' = snd (reg_spec cs ?f)"
    using epoll_reg.stands_for_regs [OF e(2)] by (simp add: option.map_ident split_def)
  moreover have "xp_regs xp' = poll_view (snd (reg_spec cs ?f))"
    using poll_reg.stands_for_regs [OF p(2)] by (simp add: poll_view_def fun_eq_iff)
  moreover have "poll_ready m n xp'" using p(2) by (simp add: poll_reg.stands_for_def)
  ultimately show ?thesis using p(1) e(1) by (simp add: prod_eq_iff)
qed

text \<open>
  For a descriptor that \<open>epoll\<close> refuses, a closed one, they do not agree: \<open>poll\<close> stores it and
  reports success.
\<close>

lemma backends_differ:
  assumes "poll_ready m n xp" "poll_fits n fd" "xp_regs xp fd = None" "\<not> kn calls (EPOLL_CTL_ADD, fd, Some (ev, u))"
  shows "\<exists>xp' calls'. poll_add m fd u ev xp = Inr (True, xp') \<and>
    xp_regs xp' = (xp_regs xp)(fd \<mapsto> (poll_mask ev, u)) \<and>
    epoll_add kn fd u ev calls = Inr (False, calls') \<and> epoll_now kn calls' = epoll_now kn calls"
  using poll_add_law [OF assms(1,2), of u ev] assms(3,4) by (auto simp: epoll_defs epoll_now_append)

end
