(* ===== verification/Xpoll_Ops.thy ===== *)
theory Xpoll_Ops
  imports Xpoll_Poll
begin

text \<open>
  \<open>src/src/event/xpoll.h\<close> as \<open>xio_xpoll.c\<close> uses it: the calls and masks a platform provides, as a record,
  and what of a back end a client can see. \<open>Xpoll_Backend\<close> fills the record for each platform.
\<close>

text \<open>
  The operations of an instance of type \<open>'p\<close>, with what the system answers in one call. Waiting yields
  the return value, the error code if \<open>xpoll\<close> sets one, and of each event \<open>XPOLL_EVENT_MASK\<close> and
  \<open>XPOLL_EVENT_UDATA\<close>.
\<close>

record 'p xpoll_ops =
  op_create :: "'p option"
  op_add :: "'p \<Rightarrow> fd \<Rightarrow> nat \<Rightarrow> u32 \<Rightarrow> (bool \<times> 'p) checked"
  op_modify :: "'p \<Rightarrow> fd \<Rightarrow> nat \<Rightarrow> u32 \<Rightarrow> (bool \<times> 'p) checked"
  op_wait :: "'p \<Rightarrow> int \<Rightarrow> int \<Rightarrow> (int \<times> errno option \<times> (u32 \<times> nat) list \<times> 'p) checked"
  op_READ :: u32
  op_WRITE :: u32
  op_ERROR :: u32
  op_HANGUP :: u32
  op_READ_HANGUP :: u32
  op_EDGE :: u32

text \<open>
  What a client can know of an instance: that it is well-formed, which descriptors it watches with
  which user data, and which descriptors it has room for.
\<close>

record 'p xpoll_view =
  xv_ready :: "'p \<Rightarrow> bool"
  xv_watches :: "'p \<Rightarrow> (fd \<times> nat) set"
  xv_fits :: "'p \<Rightarrow> fd \<Rightarrow> bool"

text \<open>Which events a call asks for: reading, writing or both, whatever else.\<close>

definition op_asks :: "'p xpoll_ops \<Rightarrow> u32 \<Rightarrow> bool" where
  "op_asks ops ev \<longleftrightarrow> ev AND op_READ ops = op_READ ops \<or> ev AND op_WRITE ops = op_WRITE ops"

text \<open>
  What a call that registers \<open>fd\<close> with user data \<open>u\<close> leaves watched of \<open>W\<close>. Every other descriptor keeps
  exactly its user data. On success \<open>fd\<close> has the data \<open>u\<close>, and no other data if the call asked for reading
  or writing; on failure \<open>fd\<close> has no data it did not have.
\<close>

definition of_others :: "fd \<Rightarrow> (fd \<times> nat) set \<Rightarrow> (fd \<times> nat) set" where
  "of_others fd W = {w \<in> W. fst w \<noteq> fd}"

definition registered :: "bool \<Rightarrow> bool \<Rightarrow> fd \<Rightarrow> nat \<Rightarrow> (fd \<times> nat) set \<Rightarrow> (fd \<times> nat) set \<Rightarrow> bool" where
  "registered asks r fd u W W' \<longleftrightarrow> of_others fd W' = of_others fd W \<and>
     (if r then (fd, u) \<in> W' \<and> W' \<subseteq> insert (fd, u) W \<and> (asks \<longrightarrow> W' = insert (fd, u) (of_others fd W))
      else W' \<subseteq> W)"

text \<open>The contract of a back end.\<close>

locale xpoll_backend =
  fixes ops :: "'p xpoll_ops"
    and V :: "'p xpoll_view"
  assumes create_law: "op_create ops = Some p \<Longrightarrow> xv_ready V p \<and> xv_watches V p = {}"
    and add_law: "xv_ready V p \<Longrightarrow> xv_fits V p fd \<Longrightarrow> \<exists>r p'. op_add ops p fd u ev = Inr (r, p') \<and>
      xv_ready V p' \<and> registered (op_asks ops ev) r fd u (xv_watches V p) (xv_watches V p')"
    and modify_law: "xv_ready V p \<Longrightarrow> xv_fits V p fd \<Longrightarrow> \<exists>r p'. op_modify ops p fd u ev = Inr (r, p') \<and>
      xv_ready V p' \<and> registered (op_asks ops ev) r fd u (xv_watches V p) (xv_watches V p')"
    and wait_law: "xv_ready V p \<Longrightarrow> 0 \<le> k \<Longrightarrow> \<exists>n err evs p'. op_wait ops p k t = Inr (n, err, evs, p') \<and>
      xv_ready V p' \<and> xv_watches V p' = xv_watches V p \<and> snd ` set evs \<subseteq> snd ` xv_watches V p \<and>
      (0 \<le> n \<longrightarrow> int (length evs) = n \<and> n \<le> k)"
    and masks_law: "(op_EDGE ops OR op_READ_HANGUP ops OR op_HANGUP ops) AND op_READ ops \<noteq> op_READ ops"
      "(op_EDGE ops OR op_READ_HANGUP ops OR op_HANGUP ops) AND op_WRITE ops \<noteq> op_WRITE ops"

lemma registeredD:
  assumes "registered asks r fd u W W'"
  shows "W' \<subseteq> insert (fd, u) W" "if r then (fd, u) \<in> W' else W' \<subseteq> W"
    and "r \<Longrightarrow> asks \<Longrightarrow> W' = insert (fd, u) (of_others fd W)"
    and "\<not> r \<Longrightarrow> of_others fd W = W \<Longrightarrow> W' = W"
  using assms by (auto simp: registered_def of_others_def split: if_splits)

lemma registered_after_loss:
  assumes "registered asks r fd u Wa W'" "of_others fd Wa = of_others fd W" "Wa \<subseteq> W"
  shows "registered asks r fd u W W'"
  using assms by (auto simp: registered_def split: if_splits)

lemma only_entry:
  assumes "(fd, u) \<in> W" "\<And>w. (fd, w) \<in> W \<Longrightarrow> w = u"
  shows "W = insert (fd, u) (of_others fd W)"
proof -
  have "(g, w) \<in> W \<longleftrightarrow> (g, w) \<in> insert (fd, u) (of_others fd W)" for g w
    using assms(1) assms(2) [of w] by (cases "g = fd") (auto simp: of_others_def)
  then show ?thesis by auto
qed

text \<open>One entry per descriptor: success replaces it, failure changes nothing.\<close>

lemma registeredI:
  assumes "W' = (if r then insert (fd, u) (of_others fd W) else W)"
  shows "registered asks r fd u W W'"
  using assms by (auto simp: registered_def of_others_def)

text \<open>
  A platform: the operations it may offer in a call, which differ in what the system answers, all with
  the same view.
\<close>

locale xpoll_system =
  fixes P :: "'p xpoll_ops \<Rightarrow> bool"
    and V :: "'p xpoll_view"
  assumes backend_law: "P ops \<Longrightarrow> xpoll_backend ops V"

end
