(* ===== verification/Xpoll_Backend.thy ===== *)
theory Xpoll_Backend
  imports Xpoll_Ops Xpoll_Registry Xpoll_Wait
begin

text \<open>
  The \<open>poll\<close> and \<open>epoll\<close> back ends of \<open>src/src/event/xpoll.c\<close> and \<open>xpoll.h\<close> as \<open>xio_xpoll.c\<close> uses them,
  and that each meets the contract \<open>xpoll_backend\<close>: \<open>poll\<close> whatever the system answers; \<open>epoll\<close>, which
  keeps the registrations in the kernel, if the kernel reports registered descriptors only.
\<close>

section \<open>The \<open>poll\<close> back end\<close>

definition poll_ops :: "nat xp_mem \<Rightarrow> poll_fn \<Rightarrow> nat xpoll xpoll_ops" where
  "poll_ops m poll = \<lparr>op_create = xpoll_create m,
     op_add = (\<lambda>xp fd u ev. poll_add m fd u ev xp),
     op_modify = (\<lambda>xp fd u ev. poll_modify m fd u ev xp),
     op_wait = (\<lambda>xp k t. and_then (xpoll_wait poll xp k t) (\<lambda>(n, err, evs, xp).
       Inr (n, err, map (\<lambda>e. (ev_events e, ev_udata e)) evs, xp))),
     op_READ = XPOLL_READ, op_WRITE = XPOLL_WRITE, op_ERROR = XPOLL_ERROR, op_HANGUP = XPOLL_HANGUP,
     op_READ_HANGUP = XPOLL_READ_HANGUP, op_EDGE = XPOLL_EDGE\<rparr>"

definition poll_watches :: "nat xpoll \<Rightarrow> (fd \<times> nat) set" where
  "poll_watches xp = {(fd, u). \<exists>e. xp_regs xp fd = Some (e, u)}"

definition poll_room :: "nat xpoll \<Rightarrow> fd \<Rightarrow> bool" where
  "poll_room xp fd \<longleftrightarrow> 0 \<le> fd \<and> fd < 2 ^ 31 - 1 \<and> fd_fits xp fd \<and> pfd_cap xp \<le> 2 ^ 29"

definition poll_sees :: "nat xpoll xpoll_view" where
  "poll_sees = \<lparr>xv_ready = xp_ok, xv_watches = poll_watches, xv_fits = poll_room\<rparr>"

text \<open>What a wait leaves of an instance.\<close>

lemma wait_regs:
  fixes r :: "nat \<Rightarrow> u16" and n :: nat
  assumes ok: "xp_ok xp"
  defines "xp' \<equiv> (poll_writes xp r)\<lparr>pfd_last_wait_index := n\<rparr>"
  shows "xp_ok xp'" "xp_regs xp' = xp_regs xp" "pfd_cap xp' = pfd_cap xp" "fd_table_cap xp' = fd_table_cap xp"
proof -
  have arr: "xp_arrays xp" using ok by (simp add: xp_ok_def)
  have len: "length (pfd_list xp') = length (pfd_list xp)"
    using arraysD(6) [OF arr] by (simp add: xp'_def poll_writes_def)
  have nth: "pfd_fd (pfd_list xp' ! i) = pfd_fd (pfd_list xp ! i)" "pfd_events (pfd_list xp' ! i) = pfd_events (pfd_list xp ! i)"
    if "i < pfd_count xp" for i using that poll_writes_nth [of i xp r] by (simp_all add: xp'_def)
  have same: "pfd_count xp' = pfd_count xp" "fd_table xp' = fd_table xp" "fd_info_list xp' = fd_info_list xp"
    "pfd_cap xp' = pfd_cap xp" "fd_table_cap xp' = fd_table_cap xp"
    by (simp_all add: xp'_def poll_writes_def)
  show "pfd_cap xp' = pfd_cap xp" "fd_table_cap xp' = fd_table_cap xp" by (fact same)+
  have pl: "placed xp' fd i = placed xp fd i" for fd i
    using nth [of i] by (auto simp: placed_def same)
  show ok': "xp_ok xp'"
    using ok arr len nth(1) unfolding xp_ok_def pl same by (simp add: xp_arrays_def same)
  have "xp_place xp' = xp_place xp" by (simp add: xp_place_def same fun_eq_iff)
  then show "xp_regs xp' = xp_regs xp"
    using xp_place_bound [OF ok] nth(2) by (auto simp: xp_regs_def same fun_eq_iff map_option_case split: option.splits)
qed

lemma xpoll_wait_keeps:
  assumes ok: "xp_ok xp" and k: "0 \<le> k"
  shows "\<exists>ret err evs xp'. xpoll_wait poll xp k timeout_ms = Inr (ret, err, evs, xp') \<and> xp_ok xp' \<and>
    xp_regs xp' = xp_regs xp \<and> pfd_cap xp' = pfd_cap xp \<and> fd_table_cap xp' = fd_table_cap xp \<and>
    (\<forall>e \<in> set evs. \<exists>mask. xp_regs xp (ev_fd e) = Some (mask, ev_udata e)) \<and>
    (0 \<le> ret \<longrightarrow> int (length evs) = ret \<and> ret \<le> k)"
proof -
  have arr: "xp_arrays xp" using ok by (simp add: xp_ok_def)
  have le: "pfd_count xp \<le> length (pfd_list xp)" by (rule arraysD(6) [OF arr])
  obtain ret r where p: "poll (wait_asks xp) timeout_ms = (ret, r)" by fastforce
  consider "k = 0" | "k \<noteq> 0" "ret < 0" | "k \<noteq> 0" "0 \<le> ret" "pfd_count xp = 0"
    | "0 < k" "0 \<le> ret" "0 < pfd_count xp" using k by fastforce
  then show ?thesis
  proof cases
    case 1
    then show ?thesis using ok by (simp add: xpoll_wait_def)
  next
    case 2
    then show ?thesis using ok k le p by (simp add: xpoll_wait_def wait_asks_def)
  next
    case 3
    have "poll_writes xp r = (poll_writes xp r)\<lparr>pfd_last_wait_index := pfd_last_wait_index xp\<rparr>"
      by (simp add: poll_writes_def)
    note w = wait_regs [OF ok, where r = r and n = "pfd_last_wait_index xp", folded this]
    show ?thesis using 3 k le p w by (simp add: xpoll_wait_def wait_asks_def Let_def)
  next
    case 4
    let ?is = "take (nat k) (filter (\<lambda>i. r i \<noteq> 0) (wait_order xp))"
    from xpoll_wait_correct [where poll = poll, OF arr 4(3,1) p 4(2)] obtain n where
      run: "xpoll_wait poll xp k timeout_ms = Inr (int (length ?is), None, map (wait_event xp r) ?is,
        (poll_writes xp r)\<lparr>pfd_last_wait_index := n\<rparr>)" unfolding Let_def by blast
    have "\<exists>mask. xp_regs xp (ev_fd (wait_event xp r i)) = Some (mask, ev_udata (wait_event xp r i))" if "i \<in> set ?is" for i
    proof -
      have "i < pfd_count xp"
        using in_set_takeD [OF that] by (simp add: wait_order_rotate [OF 4(3)])
      then have "xp_place xp (pfd_fd (pfd_list xp ! i)) = Some i"
        using xp_ok_polled [OF ok] xp_place_eq [OF ok] by blast
      then show ?thesis by (simp add: wait_event_def xp_regs_def)
    qed
    then show ?thesis using run wait_regs [OF ok, where r = r and n = n] 4(1)
      by (intro exI conjI) (assumption, auto simp: min_le_iff_disj)
  qed
qed

lemma poll_create_contract:
  "xpoll_create m = Some xp \<Longrightarrow> xp_ok xp \<and> poll_watches xp = {}"
  by (auto simp: xpoll_create_def poll_watches_def xp_ok_def xp_arrays_def placed_def xp_regs_def xp_place_def
      split: if_splits)

lemma poll_add_contract:
  assumes "xp_ok xp" "poll_room xp fd"
  shows "\<exists>r xp'. poll_add m fd u ev xp = Inr (r, xp') \<and> xp_ok xp' \<and>
    registered asks r fd u (poll_watches xp) (poll_watches xp')"
proof -
  obtain r err xp' where a: "xpoll_add_fd m xp fd u ev = Inr (r, err, xp')" "xp_ok xp'"
    "add_outcome m xp fd u ev r err xp'"
    using xpoll_add_fd_correct [OF assms(1), of fd m u ev] assms(2) by (auto simp: poll_room_def)
  then have "xp_regs xp' = (if r then (xp_regs xp)(fd \<mapsto> (poll_mask ev, u)) else xp_regs xp)"
    by (auto simp: add_outcome_def split: if_splits)
  then have "poll_watches xp' = (if r then insert (fd, u) (of_others fd (poll_watches xp)) else poll_watches xp)"
    by (auto simp: poll_watches_def of_others_def split: if_splits)
  then show ?thesis using a(1,2) by (simp add: poll_add_def without_errno_def registeredI)
qed

lemma poll_modify_contract:
  assumes "xp_ok xp" "poll_room xp fd"
  shows "\<exists>r xp'. poll_modify m fd u ev xp = Inr (r, xp') \<and> xp_ok xp' \<and>
    registered asks r fd u (poll_watches xp) (poll_watches xp')"
proof -
  obtain r err xp' where a: "xpoll_modify_fd m xp fd u ev = Inr (r, err, xp')" "xp_ok xp'"
    "if xp_regs xp fd = None then \<not> r \<and> err = Some ENOENT \<and> xp' = xp
     else r \<and> err = None \<and> xp_regs xp' = (xp_regs xp)(fd \<mapsto> (poll_mask ev, u))"
    using xpoll_modify_fd_correct [OF assms(1), of fd m u ev] assms(2) by (auto simp: poll_room_def)
  then have "poll_watches xp' = (if r then insert (fd, u) (of_others fd (poll_watches xp)) else poll_watches xp)"
    by (auto simp: poll_watches_def of_others_def split: if_splits)
  then show ?thesis using a(1,2) by (simp add: poll_modify_def without_errno_def registeredI)
qed

lemma poll_wait_contract:
  assumes "xp_ok xp" "0 \<le> k"
  shows "\<exists>n err evs xp'. op_wait (poll_ops m poll) xp k t = Inr (n, err, evs, xp') \<and> xp_ok xp' \<and>
    poll_watches xp' = poll_watches xp \<and> snd ` set evs \<subseteq> snd ` poll_watches xp \<and>
    (0 \<le> n \<longrightarrow> int (length evs) = n \<and> n \<le> k)"
proof -
  obtain n err evs xp' where w: "xpoll_wait poll xp k t = Inr (n, err, evs, xp')" "xp_ok xp'"
    "xp_regs xp' = xp_regs xp" "\<forall>e \<in> set evs. \<exists>mask. xp_regs xp (ev_fd e) = Some (mask, ev_udata e)"
    "0 \<le> n \<longrightarrow> int (length evs) = n \<and> n \<le> k"
    using xpoll_wait_keeps [OF assms, of poll t] by blast
  have "ev_udata e \<in> snd ` poll_watches xp" if "e \<in> set evs" for e
    using w(4) that by (force simp: poll_watches_def)
  then show ?thesis using w(1-3,5) by (auto simp: poll_ops_def poll_watches_def)
qed

text \<open>The fields of the two records, to state the contract over the functions they hold.\<close>

lemmas poll_fields = poll_ops_def poll_sees_def xpoll_ops.simps xpoll_view.simps

lemma poll_masks:
  "(XPOLL_EDGE OR XPOLL_READ_HANGUP OR XPOLL_HANGUP) AND XPOLL_READ \<noteq> XPOLL_READ"
  "(XPOLL_EDGE OR XPOLL_READ_HANGUP OR XPOLL_HANGUP) AND XPOLL_WRITE \<noteq> XPOLL_WRITE"
  by (simp_all add: XPOLL_READ_def XPOLL_WRITE_def XPOLL_HANGUP_def XPOLL_READ_HANGUP_def XPOLL_EDGE_def
      POLLIN_def POLLOUT_def POLLHUP_def)

interpretation poll_backend: xpoll_backend "poll_ops m poll" poll_sees
  for m poll
  by (rule xpoll_backend.intro; unfold poll_fields;
      fact poll_create_contract poll_add_contract poll_modify_contract poll_masks
        poll_wait_contract [unfolded poll_fields])

text \<open>When adding and modifying succeed.\<close>

lemma poll_answers:
  assumes "xp_ok xp" "poll_room xp fd"
  shows "\<exists>r xp'. op_add (poll_ops m poll) xp fd u ev = Inr (r, xp') \<and> (r \<longrightarrow> xp_regs xp fd = None) \<and>
      (xp_regs xp fd = None \<and> realloc_fds_ok m \<and> realloc_pfds_ok m \<and> realloc_infos_ok m \<longrightarrow> r)"
    and "\<exists>xp'. op_modify (poll_ops m poll) xp fd u ev = Inr (xp_regs xp fd \<noteq> None, xp')"
proof -
  have room: "0 \<le> fd" "fd < 2 ^ 31 - 1" "fd_fits xp fd" "pfd_cap xp \<le> 2 ^ 29"
    using assms(2) by (simp_all add: poll_room_def)
  obtain r err xp' where a: "xpoll_add_fd m xp fd u ev = Inr (r, err, xp')" "add_outcome m xp fd u ev r err xp'"
    using xpoll_add_fd_correct [OF assms(1) room(4,1-3), of m u ev] by blast
  then show "\<exists>r xp'. op_add (poll_ops m poll) xp fd u ev = Inr (r, xp') \<and> (r \<longrightarrow> xp_regs xp fd = None) \<and>
      (xp_regs xp fd = None \<and> realloc_fds_ok m \<and> realloc_pfds_ok m \<and> realloc_infos_ok m \<longrightarrow> r)"
    by (auto simp: poll_ops_def poll_add_def without_errno_def add_outcome_def split: if_splits)
  obtain r err xp' where b: "xpoll_modify_fd m xp fd u ev = Inr (r, err, xp')" "r = (xp_regs xp fd \<noteq> None)"
    using xpoll_modify_fd_correct [OF assms(1), of fd m u ev] room by (auto split: if_splits)
  then show "\<exists>xp'. op_modify (poll_ops m poll) xp fd u ev = Inr (xp_regs xp fd \<noteq> None, xp')"
    by (simp add: poll_ops_def poll_modify_def without_errno_def)
qed

definition poll_platform :: "nat xpoll xpoll_ops \<Rightarrow> bool" where
  "poll_platform ops \<longleftrightarrow> (\<exists>m poll. ops = poll_ops m poll)"

interpretation poll_system: xpoll_system poll_platform poll_sees
  by (rule xpoll_system.intro) (auto simp: poll_platform_def intro: poll_backend.xpoll_backend_axioms)

section \<open>The \<open>epoll\<close> back end\<close>

text \<open>What \<open>epoll_wait\<close> answers depends on the calls made so far.\<close>

type_synonym epoll_waiter = "epoll_call list \<Rightarrow> int \<Rightarrow> int \<Rightarrow> int \<times> (u32 \<times> nat) list"

definition epoll_ops :: "int \<Rightarrow> epoll_kernel \<Rightarrow> epoll_waiter \<Rightarrow> epoll_call list xpoll_ops" where
  "epoll_ops epfd kn ew = \<lparr>op_create = map_option (\<lambda>_. []) (xpoll_create_linux epfd),
     op_add = (\<lambda>calls fd u ev. Inr (xpoll_add_fd_linux kn fd u ev calls)),
     op_modify = (\<lambda>calls fd u ev. Inr (xpoll_modify_fd_linux kn fd u ev calls)),
     op_wait = (\<lambda>calls k t. case ew calls k t of (ret, evs) \<Rightarrow> Inr (ret, None, take (nat ret) evs, calls)),
     op_READ = XPOLL_READ_linux, op_WRITE = XPOLL_WRITE_linux, op_ERROR = XPOLL_ERROR_linux,
     op_HANGUP = XPOLL_HANGUP_linux, op_READ_HANGUP = XPOLL_READ_HANGUP_linux, op_EDGE = XPOLL_EDGE_linux\<rparr>"

definition epoll_watches :: "epoll_kernel \<Rightarrow> epoll_call list \<Rightarrow> (fd \<times> nat) set" where
  "epoll_watches kn calls = {(fd, u). \<exists>e. epoll_now kn calls fd = Some (e, u)}"

definition epoll_sees :: "epoll_kernel \<Rightarrow> epoll_call list xpoll_view" where
  "epoll_sees kn = \<lparr>xv_ready = (\<lambda>_. True), xv_watches = epoll_watches kn, xv_fits = (\<lambda>_ _. True)\<rparr>"

text \<open>\<open>epoll_wait\<close> fills at most as many entries as it is asked for, with data of registrations.\<close>

definition epoll_reports :: "epoll_kernel \<Rightarrow> epoll_waiter \<Rightarrow> bool" where
  "epoll_reports kn ew \<longleftrightarrow> (\<forall>calls k t ret evs. ew calls k t = (ret, evs) \<longrightarrow> 0 \<le> ret \<longrightarrow>
     ret \<le> k \<and> nat ret \<le> length evs \<and> snd ` set (take (nat ret) evs) \<subseteq> snd ` epoll_watches kn calls)"

lemmas epoll_fields = epoll_ops_def epoll_sees_def xpoll_ops.simps xpoll_view.simps

lemma epoll_masks:
  "(XPOLL_EDGE_linux OR XPOLL_READ_HANGUP_linux OR XPOLL_HANGUP_linux) AND XPOLL_READ_linux \<noteq> XPOLL_READ_linux"
  "(XPOLL_EDGE_linux OR XPOLL_READ_HANGUP_linux OR XPOLL_HANGUP_linux) AND XPOLL_WRITE_linux \<noteq> XPOLL_WRITE_linux"
  by (simp_all add: XPOLL_READ_linux_def XPOLL_WRITE_linux_def XPOLL_HANGUP_linux_def
      XPOLL_READ_HANGUP_linux_def XPOLL_EDGE_linux_def)

lemma epoll_ctl_contract:
  assumes "epoll_ctl kn (op, fd, Some (ev, u)) calls = (r, calls')" "op \<noteq> EPOLL_CTL_DEL"
  shows "registered asks r fd u (epoll_watches kn calls) (epoll_watches kn calls')"
  using assms by (intro registeredI)
    (auto simp: epoll_ctl_def epoll_watches_def of_others_def epoll_now_append split: if_splits)

lemma epoll_backend:
  assumes "epoll_reports kn ew"
  shows "xpoll_backend (epoll_ops epfd kn ew) (epoll_sees kn)"
proof (rule xpoll_backend.intro; unfold epoll_fields)
  show "\<exists>r p'. Inr (xpoll_add_fd_linux kn fd u ev calls) = Inr (r, p') \<and> True \<and>
      registered asks r fd u (epoll_watches kn calls) (epoll_watches kn p')" for calls fd u ev asks
    using epoll_ctl_contract [of kn EPOLL_CTL_ADD fd ev u calls]
    by (cases "xpoll_add_fd_linux kn fd u ev calls") (simp add: xpoll_add_fd_linux_def xpoll_ctl_fd_linux_def)
  show "\<exists>r p'. Inr (xpoll_modify_fd_linux kn fd u ev calls) = Inr (r, p') \<and> True \<and>
      registered asks r fd u (epoll_watches kn calls) (epoll_watches kn p')" for calls fd u ev asks
    using epoll_ctl_contract [of kn EPOLL_CTL_MOD fd ev u calls]
    by (cases "xpoll_modify_fd_linux kn fd u ev calls") (simp add: xpoll_modify_fd_linux_def xpoll_ctl_fd_linux_def)
  show "\<exists>n err evs p'. (case ew calls k t of (ret, evs) \<Rightarrow> Inr (ret, None, take (nat ret) evs, calls)) =
      Inr (n, err, evs, p') \<and> True \<and> epoll_watches kn p' = epoll_watches kn calls \<and>
      snd ` set evs \<subseteq> snd ` epoll_watches kn calls \<and> (0 \<le> n \<longrightarrow> int (length evs) = n \<and> n \<le> k)"
    if "0 \<le> k" for calls k t
  proof (cases "ew calls k t")
    case (Pair ret evs)
    then have "ret \<le> k" "nat ret \<le> length evs" "snd ` set (take (nat ret) evs) \<subseteq> snd ` epoll_watches kn calls"
      if "0 \<le> ret" using that assms by (simp_all add: epoll_reports_def)
    then show ?thesis using Pair by (cases "0 \<le> ret") simp_all
  qed
qed (auto simp: xpoll_create_linux_def epoll_defs epoll_watches_def epoll_now_append epoll_masks
    epoll_now_def [of kn "[]"] split: if_splits)

lemma epoll_answers:
  "\<exists>calls'. op_add (epoll_ops epfd kn ew) calls fd u ev = Inr (kn calls (EPOLL_CTL_ADD, fd, Some (ev, u)), calls')"
  "\<exists>calls'. op_modify (epoll_ops epfd kn ew) calls fd u ev = Inr (kn calls (EPOLL_CTL_MOD, fd, Some (ev, u)), calls')"
  by (simp_all add: epoll_ops_def epoll_defs)

definition epoll_platform :: "epoll_kernel \<Rightarrow> epoll_call list xpoll_ops \<Rightarrow> bool" where
  "epoll_platform kn ops \<longleftrightarrow> (\<exists>epfd ew. ops = epoll_ops epfd kn ew \<and> epoll_reports kn ew)"

interpretation epoll_system: xpoll_system "epoll_platform kn" "epoll_sees kn"
  for kn
  by (rule xpoll_system.intro) (auto simp: epoll_platform_def intro: epoll_backend)

end
