(* ===== verification/Xpoll_Kq_Backend.thy ===== *)
theory Xpoll_Kq_Backend
  imports Xpoll_Ops Xpoll_Kqueue
begin

text \<open>
  The \<open>kqueue\<close> back end as \<open>xio_xpoll.c\<close> uses it: it meets the contract \<open>xpoll_backend\<close> if the kernel
  takes back what it registered and reports registered filters only; and every event it reports has
  the error bit.
\<close>

section \<open>Registrations\<close>

text \<open>
  A kernel queue registers pairs of a descriptor and a filter, each with its own user data. In
  the list of changes the last one comes first.
\<close>

type_synonym kq_regs = "fd \<times> u16 \<rightharpoonup> nat"

primrec kq_regs_rev :: "kq_kernel \<Rightarrow> kevent list \<Rightarrow> kq_regs" where
  "kq_regs_rev kn [] = (\<lambda>_. None)"
| "kq_regs_rev kn (kev # past) =
     (if kn (rev past) kev \<noteq> None then kq_regs_rev kn past
      else (kq_regs_rev kn past)((kev_ident kev, kev_filter kev) :=
        if kev_flags kev AND EV_DELETE \<noteq> 0 then None else Some (kev_udata kev)))"

definition kq_now :: "kq_kernel \<Rightarrow> kq_state \<Rightarrow> kq_regs" where
  "kq_now kn st = kq_regs_rev kn (rev (fst st))"

type_synonym kq_waiter = "kevent list \<Rightarrow> kq_wait"

text \<open>What the system answers when an instance is created.\<close>

record kq_birth =
  kb_calloc_ok :: bool
  kb_kqueue :: int
  kb_getfd :: int
  kb_setfd :: "int \<Rightarrow> int"

definition kqueue_ops :: "kq_birth \<Rightarrow> kq_kernel \<Rightarrow> kq_waiter \<Rightarrow> kq_state xpoll_ops" where
  "kqueue_ops b kn kw = \<lparr>op_create = map_option (\<lambda>_. ([], 0))
       (fst (xpoll_create_bsd (kb_calloc_ok b) (kb_kqueue b) (kb_getfd b) (kb_setfd b) XPOLL_CLOEXEC_bsd)),
     op_add = (\<lambda>st fd u ev. xpoll_add_fd_bsd kn fd u ev st),
     op_modify = (\<lambda>st fd u ev. Inr (xpoll_modify_fd_bsd kn fd u ev st)),
     op_wait = (\<lambda>st k t. and_then (xpoll_wait_bsd (kw (fst st)) k t) (\<lambda>(n, err, evs).
       Inr (n, map_option (\<lambda>_. EINVAL) err, evs, st))),
     op_READ = XPOLL_READ_bsd, op_WRITE = XPOLL_WRITE_bsd, op_ERROR = XPOLL_ERROR_bsd,
     op_HANGUP = XPOLL_HANGUP_bsd, op_READ_HANGUP = XPOLL_READ_HANGUP_bsd, op_EDGE = XPOLL_EDGE_bsd\<rparr>"

definition kq_watches :: "kq_kernel \<Rightarrow> kq_state \<Rightarrow> (fd \<times> nat) set" where
  "kq_watches kn st = {(fd, u). \<exists>f. kq_now kn st (fd, f) = Some u}"

text \<open>Every change this back end makes is of one of the two filters.\<close>

definition kq_filters :: "kq_state \<Rightarrow> bool" where
  "kq_filters st \<longleftrightarrow> (\<forall>kev \<in> set (fst st). kev_filter kev = EVFILT_READ \<or> kev_filter kev = EVFILT_WRITE)"

definition kqueue_sees :: "kq_kernel \<Rightarrow> kq_state xpoll_view" where
  "kqueue_sees kn = \<lparr>xv_ready = kq_filters, xv_watches = kq_watches kn, xv_fits = (\<lambda>_ fd. 0 \<le> fd)\<rparr>"

text \<open>
  A kernel takes back what it registers, and reports at most as many events as it is asked for, each
  of a registered pair with its user data.
\<close>

definition kq_reports :: "kq_kernel \<Rightarrow> kq_waiter \<Rightarrow> bool" where
  "kq_reports kn kw \<longleftrightarrow>
     (\<forall>st kev. kev_flags kev = EV_DELETE \<longrightarrow> kq_now kn st (kev_ident kev, kev_filter kev) \<noteq> None \<longrightarrow>
        kn (fst st) kev = None) \<and>
     (\<forall>st n ts ret evs. kw (fst st) n ts = (ret, evs) \<longrightarrow> 0 \<le> ret \<longrightarrow> ret \<le> int n \<and> nat ret \<le> length evs \<and>
        (\<forall>e \<in> set (take (nat ret) evs). kq_now kn st (kev_ident e, kev_filter e) = Some (kev_udata e)))"

section \<open>Changes\<close>

lemmas kqueue_fields = kqueue_ops_def kqueue_sees_def xpoll_ops.simps xpoll_view.simps

lemma kq_change_now:
  "kq_change kn kev st = (ok, st') \<Longrightarrow> kq_now kn st' = (if ok then (kq_now kn st)((kev_ident kev, kev_filter kev) :=
      if kev_flags kev AND EV_DELETE \<noteq> 0 then None else Some (kev_udata kev)) else kq_now kn st)"
  by (auto simp: kq_change_def kq_now_def split: prod.splits option.splits)

lemma kq_add_flags: "(EV_ADD OR (if b then EV_CLEAR else 0)) AND EV_DELETE = 0"
  by (simp add: EV_ADD_def EV_CLEAR_def EV_DELETE_def)

lemma kq_delete_flags: "(EV_DELETE OR (if b then EV_CLEAR else 0)) AND EV_DELETE \<noteq> 0" "EV_DELETE AND EV_DELETE \<noteq> 0"
  by (simp_all add: EV_CLEAR_def EV_DELETE_def)

lemma kq_change_adds:
  assumes "kq_change kn kev st = (ok, st')" "kev_flags kev AND EV_DELETE = 0"
  shows "kq_watches kn st' \<subseteq> insert (kev_ident kev, kev_udata kev) (kq_watches kn st)"
    and "ok \<Longrightarrow> (kev_ident kev, kev_udata kev) \<in> kq_watches kn st'"
    and "\<not> ok \<Longrightarrow> kq_watches kn st' = kq_watches kn st"
  using kq_change_now [OF assms(1)] assms(2) by (auto simp: kq_watches_def split: if_splits)

text \<open>A change of both filters, by the answers to each single one.\<close>

lemma kq_ctl_folded:
  "xpoll_ctl_fd_bsd kn fd u op_bsd ev part st =
     (let rd = kq_kev fd EVFILT_READ op_bsd ev u; wr = kq_kev fd EVFILT_WRITE op_bsd ev u;
          reads = (ev AND XPOLL_READ_bsd \<noteq> 0); writes = (ev AND XPOLL_WRITE_bsd \<noteq> 0);
          (ok, sa) = (if reads then kq_change kn rd st else (False, st))
      in if reads \<and> \<not> ok \<and> part then (False, sa)
         else if writes then
           (case kq_change kn wr sa of
              (True, sb) \<Rightarrow> (True, sb)
            | (False, sb) \<Rightarrow>
                if part then
                  if op_bsd = EV_ADD \<and> reads
                  then (False, fst (snd (kq_change kn (rd\<lparr>kev_flags := EV_DELETE\<rparr>) sb)), snd sb)
                  else (False, sb)
                else (ok, sb))
         else if \<not> reads then (False, fst sa, bsd_EINVAL) else (ok, sa))"
  unfolding xpoll_ctl_fd_bsd_def kq_kev_def Let_def by (rule refl)

lemma kq_ctl_add:
  assumes obeys: "kq_reports kn kw" and run: "xpoll_ctl_fd_bsd kn fd u EV_ADD ev True st = (r, st')"
  shows "kq_watches kn st' \<subseteq> insert (fd, u) (kq_watches kn st) \<and>
    (if r then (fd, u) \<in> kq_watches kn st' else kq_watches kn st' \<subseteq> kq_watches kn st)"
proof -
  define rd where "rd = kq_kev fd EVFILT_READ EV_ADD ev u"
  define wr where "wr = kq_kev fd EVFILT_WRITE EV_ADD ev u"
  have kevs: "kev_ident rd = fd" "kev_udata rd = u" "kev_flags rd AND EV_DELETE = 0"
    "kev_ident wr = fd" "kev_udata wr = u" "kev_flags wr AND EV_DELETE = 0"
    by (simp_all add: rd_def wr_def kq_kev_def kq_add_flags)
  obtain ok1 st1 where c1: "kq_change kn rd st = (ok1, st1)" by (cases "kq_change kn rd st")
  obtain ok2 st2 where c2: "kq_change kn wr st1 = (ok2, st2)" by (cases "kq_change kn wr st1")
  obtain ok3 st3 where c3: "kq_change kn wr st = (ok3, st3)" by (cases "kq_change kn wr st")
  let ?del = "rd\<lparr>kev_flags := EV_DELETE\<rparr>"
  obtain ok4 st4 where c4: "kq_change kn ?del st2 = (ok4, st4)" by (cases "kq_change kn ?del st2")
  note now = kq_change_now [OF c1] kq_change_now [OF c2] kq_change_now [OF c3] kq_change_now [OF c4]
  have undo: ok4 if "ok1" "\<not> ok2"
  proof -
    have "kq_now kn st2 (kev_ident ?del, kev_filter ?del) \<noteq> None" using that now(1,2) kevs by simp
    moreover have "kev_flags ?del = EV_DELETE" by simp
    ultimately have "kn (fst st2) ?del = None" using obeys unfolding kq_reports_def by blast
    then show ?thesis using c4 by (simp add: kq_change_def split: prod.splits)
  qed
  have errno: "kq_watches kn (fst s, e) = kq_watches kn s" for s e by (simp add: kq_watches_def kq_now_def)
  have run': "(let reads = (ev AND XPOLL_READ_bsd \<noteq> 0); writes = (ev AND XPOLL_WRITE_bsd \<noteq> 0) in
      if reads \<and> \<not> ok1 then (False, st1)
      else if writes then
        if reads then if ok2 then (True, st2) else (False, fst st4, snd st2)
        else if ok3 then (True, st3) else (False, st3)
      else if reads then (ok1, st1) else (False, fst st, bsd_EINVAL)) = (r, st')"
    using run c1 c2 c3 c4 unfolding kq_ctl_folded rd_def [symmetric] wr_def [symmetric]
    by (cases "ev AND XPOLL_READ_bsd = 0"; cases "ev AND XPOLL_WRITE_bsd = 0"; cases ok1; cases ok2; cases ok3)
      (simp_all add: Let_def)
  have undone: "kq_watches kn st4 \<subseteq> kq_watches kn st" if "ok1" "\<not> ok2"
  proof -
    have "kq_now kn st4 = (kq_now kn st)((kev_ident rd, kev_filter rd) := None)"
      using now(1,2,4) that undo [OF that] kq_delete_flags(2) by simp
    then show ?thesis by (auto simp: kq_watches_def split: if_splits)
  qed
  note w1 = kq_change_adds [OF c1 kevs(3), unfolded kevs]
  note w2 = kq_change_adds [OF c2 kevs(6), unfolded kevs]
  note w3 = kq_change_adds [OF c3 kevs(6), unfolded kevs]
  consider "r" "st' = st2" "ok2" | "r" "st' = st3" "ok3" | "r" "st' = st1" "ok1"
    | "\<not> r" "st' = st1" "\<not> ok1" | "\<not> r" "st' = (fst st4, snd st2)" "ok1" "\<not> ok2"
    | "\<not> r" "st' = st3" "\<not> ok3" | "\<not> r" "st' = (fst st, bsd_EINVAL)"
    using run' by (auto simp: Let_def split: if_splits)
  then show ?thesis
  proof cases
    case 1
    then show ?thesis using w1(1) w2(1) w2(2) by auto
  next
    case 5
    then show ?thesis using undone by (auto simp: errno [of st4])
  next
    case 7
    then show ?thesis by (auto simp: errno)
  qed (use w1 w3 in auto)
qed

lemma kq_change_filters:
  "kq_filters st \<Longrightarrow> kev_filter kev = EVFILT_READ \<or> kev_filter kev = EVFILT_WRITE \<Longrightarrow>
    kq_filters (snd (kq_change kn kev st))"
  by (auto simp: kq_filters_def kq_change_def split: prod.splits option.splits)

lemma kq_ctl_filters:
  assumes "kq_filters st"
  shows "kq_filters (snd (xpoll_ctl_fd_bsd kn fd u op_bsd ev part st))"
proof -
  define rd where "rd = kq_kev fd EVFILT_READ op_bsd ev u"
  define wr where "wr = kq_kev fd EVFILT_WRITE op_bsd ev u"
  have f: "kev_filter rd = EVFILT_READ \<or> kev_filter rd = EVFILT_WRITE"
    "kev_filter wr = EVFILT_READ \<or> kev_filter wr = EVFILT_WRITE"
    "kev_filter (rd\<lparr>kev_flags := EV_DELETE\<rparr>) = EVFILT_READ \<or> kev_filter (rd\<lparr>kev_flags := EV_DELETE\<rparr>) = EVFILT_WRITE"
    by (simp_all add: rd_def wr_def kq_kev_def)
  have errno: "kq_filters (fst s, e) = kq_filters s" for s e by (simp add: kq_filters_def)
  obtain ok sa where a: "(if ev AND XPOLL_READ_bsd \<noteq> 0 then kq_change kn rd st else (False, st)) = (ok, sa)"
    by (cases "if ev AND XPOLL_READ_bsd \<noteq> 0 then kq_change kn rd st else (False, st)")
  have fa: "kq_filters sa"
    using kq_change_filters [OF assms f(1), of kn] a assms by (cases "ev AND XPOLL_READ_bsd = 0") auto
  obtain ok' sb where b: "kq_change kn wr sa = (ok', sb)" by (cases "kq_change kn wr sa")
  have fb: "kq_filters sb" using kq_change_filters [OF fa f(2), of kn] b by simp
  note fc = kq_change_filters [OF fb f(3), of kn]
  show ?thesis
    unfolding kq_ctl_folded rd_def [symmetric] wr_def [symmetric] Let_def a
    using fa fb fc by (cases ok') (simp_all add: b errno)
qed

lemma kq_now_filter:
  assumes "kq_filters st" "kq_now kn st (fd, f) \<noteq> None"
  shows "f = EVFILT_READ \<or> f = EVFILT_WRITE"
proof -
  have "kq_regs_rev kn l (fd, f) \<noteq> None \<Longrightarrow> \<exists>kev \<in> set l. kev_filter kev = f" for l
    by (induction l) (auto split: if_splits)
  from this [of "rev (fst st)"] assms show ?thesis by (auto simp: kq_filters_def kq_now_def)
qed

text \<open>A change of one descriptor leaves the others, and a successful one of both filters sets both.\<close>

lemma kq_change_others:
  "kq_change kn kev st = (ok, st') \<Longrightarrow> g \<noteq> kev_ident kev \<Longrightarrow> kq_now kn st' (g, f) = kq_now kn st (g, f)"
  using kq_change_now by fastforce

lemma kq_ctl_others:
  assumes run: "xpoll_ctl_fd_bsd kn fd u op_bsd ev part st = (r, st')" and g: "g \<noteq> fd"
  shows "kq_now kn st' (g, f) = kq_now kn st (g, f)"
proof -
  define rd where "rd = kq_kev fd EVFILT_READ op_bsd ev u"
  define wr where "wr = kq_kev fd EVFILT_WRITE op_bsd ev u"
  have ident: "kev_ident rd = fd" "kev_ident wr = fd" "kev_ident (rd\<lparr>kev_flags := EV_DELETE\<rparr>) = fd"
    by (simp_all add: rd_def wr_def kq_kev_def)
  obtain ok sa where a: "(if ev AND XPOLL_READ_bsd \<noteq> 0 then kq_change kn rd st else (False, st)) = (ok, sa)"
    by (cases "if ev AND XPOLL_READ_bsd \<noteq> 0 then kq_change kn rd st else (False, st)")
  obtain ok' sb where b: "kq_change kn wr sa = (ok', sb)" by (cases "kq_change kn wr sa")
  obtain ok'' sc where c: "kq_change kn (rd\<lparr>kev_flags := EV_DELETE\<rparr>) sb = (ok'', sc)"
    by (cases "kq_change kn (rd\<lparr>kev_flags := EV_DELETE\<rparr>) sb")
  have "kq_now kn sa (g, f) = kq_now kn st (g, f)"
    using a g ident kq_change_others [of kn rd st ok sa g f] by (cases "ev AND XPOLL_READ_bsd = 0") auto
  moreover have "kq_now kn sb (g, f) = kq_now kn sa (g, f)" "kq_now kn sc (g, f) = kq_now kn sb (g, f)"
    using g ident kq_change_others [OF b] kq_change_others [OF c] by simp_all
  moreover have "kq_now kn (fst s, e) = kq_now kn s" for s e by (simp add: kq_now_def)
  moreover have "fst st' \<in> fst ` {st, sa, sb, sc}"
    using run unfolding kq_ctl_folded rd_def [symmetric] wr_def [symmetric] Let_def a
    by (cases ok'; cases "ev AND XPOLL_READ_bsd = 0"; cases "ev AND XPOLL_WRITE_bsd = 0")
      (auto simp: b c a split: if_splits)
  ultimately show ?thesis by (auto simp: kq_now_def)
qed

lemma kq_ctl_both:
  assumes run: "xpoll_ctl_fd_bsd kn fd u EV_ADD ev True st = (True, st')"
    and ev: "ev AND XPOLL_READ_bsd \<noteq> 0" "ev AND XPOLL_WRITE_bsd \<noteq> 0"
  shows "kq_now kn st' = (kq_now kn st)((fd, EVFILT_READ) \<mapsto> u, (fd, EVFILT_WRITE) \<mapsto> u)"
proof -
  define rd where "rd = kq_kev fd EVFILT_READ EV_ADD ev u"
  define wr where "wr = kq_kev fd EVFILT_WRITE EV_ADD ev u"
  have kevs: "kev_ident rd = fd" "kev_filter rd = EVFILT_READ" "kev_udata rd = u" "kev_flags rd AND EV_DELETE = 0"
    "kev_ident wr = fd" "kev_filter wr = EVFILT_WRITE" "kev_udata wr = u" "kev_flags wr AND EV_DELETE = 0"
    by (simp_all add: rd_def wr_def kq_kev_def kq_add_flags)
  obtain ok1 st1 where c1: "kq_change kn rd st = (ok1, st1)" by (cases "kq_change kn rd st")
  obtain ok2 st2 where c2: "kq_change kn wr st1 = (ok2, st2)" by (cases "kq_change kn wr st1")
  have "ok1 \<and> ok2 \<and> st' = st2"
    using run ev c1 c2 unfolding kq_ctl_folded rd_def [symmetric] wr_def [symmetric]
    by (cases ok1; cases ok2) (simp_all add: Let_def)
  then show ?thesis using kq_change_now [OF c1] kq_change_now [OF c2] kevs by simp
qed

lemma of_others_kq: "(\<And>g f. g \<noteq> fd \<Longrightarrow> kq_now kn st' (g, f) = kq_now kn st (g, f)) \<Longrightarrow>
    of_others fd (kq_watches kn st') = of_others fd (kq_watches kn st)"
  by (auto simp: of_others_def kq_watches_def)

lemma bsd_asks:
  assumes "ev AND XPOLL_READ_bsd = XPOLL_READ_bsd \<or> ev AND XPOLL_WRITE_bsd = XPOLL_WRITE_bsd"
  shows "ev AND XPOLL_READ_bsd \<noteq> 0" "ev AND XPOLL_WRITE_bsd \<noteq> 0"
proof -
  have "ev AND XPOLL_WRITE_bsd = XPOLL_WRITE_bsd"
    using assms by (auto simp: bsd_masks)
  then show "ev AND XPOLL_WRITE_bsd \<noteq> 0" by (simp add: bsd_masks)
  then show "ev AND XPOLL_READ_bsd \<noteq> 0" by (auto simp: bsd_masks)
qed

lemma kq_ctl_registered:
  assumes obeys: "kq_reports kn kw" and ok: "kq_filters st"
    and run: "xpoll_ctl_fd_bsd kn fd u EV_ADD ev True st = (r, st')"
    and asks: "asks \<longrightarrow> ev AND XPOLL_READ_bsd = XPOLL_READ_bsd \<or> ev AND XPOLL_WRITE_bsd = XPOLL_WRITE_bsd"
  shows "registered asks r fd u (kq_watches kn st) (kq_watches kn st')"
proof -
  have others: "of_others fd (kq_watches kn st') = of_others fd (kq_watches kn st)"
    by (rule of_others_kq) (rule kq_ctl_others [OF run])
  have "kq_watches kn st' = insert (fd, u) (of_others fd (kq_watches kn st))" if "r" "asks"
  proof -
    note now = kq_ctl_both [OF run [unfolded eqTrueI [OF that(1)]] bsd_asks [OF asks [rule_format, OF that(2)]]]
    have "kq_filters st'" using kq_ctl_filters [OF ok, of kn fd u EV_ADD ev True] run by simp
    then have f: "f = EVFILT_READ \<or> f = EVFILT_WRITE" if "kq_now kn st' (fd, f) = Some w" for f w
      using kq_now_filter [of st' kn fd f] that by simp
    have "w = u" if w: "(fd, w) \<in> kq_watches kn st'" for w
    proof -
      obtain f' where f': "kq_now kn st' (fd, f') = Some w" using w by (auto simp: kq_watches_def)
      then show ?thesis using f [OF f'] by (auto simp: now split: if_splits)
    qed
    moreover have "(fd, u) \<in> kq_watches kn st'" unfolding kq_watches_def now by auto
    ultimately show ?thesis unfolding others [symmetric] by (intro only_entry)
  qed
  then show ?thesis using kq_ctl_add [OF obeys run] others unfolding registered_def by (cases r) simp_all
qed

lemma kq_ctl_delete:
  assumes run: "xpoll_ctl_fd_bsd kn fd u EV_DELETE ev False st = (r, st')"
  shows "kq_watches kn st' \<subseteq> kq_watches kn st"
proof -
  define rd where "rd = kq_kev fd EVFILT_READ EV_DELETE ev u"
  define wr where "wr = kq_kev fd EVFILT_WRITE EV_DELETE ev u"
  obtain ok1 st1 where c1: "kq_change kn rd st = (ok1, st1)" by (cases "kq_change kn rd st")
  obtain ok2 st2 where c2: "kq_change kn wr st1 = (ok2, st2)" by (cases "kq_change kn wr st1")
  obtain ok3 st3 where c3: "kq_change kn wr st = (ok3, st3)" by (cases "kq_change kn wr st")
  have del: "kev_flags rd AND EV_DELETE \<noteq> 0" "kev_flags wr AND EV_DELETE \<noteq> 0"
    using kq_delete_flags by (simp_all add: rd_def wr_def kq_kev_def)
  have "kq_watches kn st1 \<subseteq> kq_watches kn st" "kq_watches kn st2 \<subseteq> kq_watches kn st1"
    "kq_watches kn st3 \<subseteq> kq_watches kn st"
    using kq_change_now [OF c1] kq_change_now [OF c2] kq_change_now [OF c3] del
    by (auto simp: kq_watches_def split: if_splits)
  moreover have "st' \<in> {st, st1, st2, st3, (fst st, bsd_EINVAL)}"
    using run c1 c2 c3 unfolding kq_ctl_folded rd_def [symmetric] wr_def [symmetric]
    by (cases "ev AND XPOLL_READ_bsd = 0"; cases "ev AND XPOLL_WRITE_bsd = 0"; cases ok1; cases ok2; cases ok3)
      (simp_all add: Let_def)
  moreover have "kq_watches kn (fst st, bsd_EINVAL) = kq_watches kn st" by (simp add: kq_watches_def kq_now_def)
  ultimately show ?thesis by auto
qed

section \<open>The contract\<close>

lemma kq_masks:
  "(XPOLL_EDGE_bsd OR XPOLL_READ_HANGUP_bsd OR XPOLL_HANGUP_bsd) AND XPOLL_READ_bsd \<noteq> XPOLL_READ_bsd"
  "(XPOLL_EDGE_bsd OR XPOLL_READ_HANGUP_bsd OR XPOLL_HANGUP_bsd) AND XPOLL_WRITE_bsd \<noteq> XPOLL_WRITE_bsd"
  by (simp_all add: bsd_masks XPOLL_HANGUP_bsd_def XPOLL_READ_HANGUP_bsd_def XPOLL_EDGE_bsd_def)

lemma kq_wait_contract:
  assumes obeys: "kq_reports kn kw" and k: "0 \<le> k"
  shows "\<exists>n err evs. xpoll_wait_bsd (kw (fst st)) k t = Inr (n, err, evs) \<and>
    snd ` set evs \<subseteq> snd ` kq_watches kn st \<and> (0 \<le> n \<longrightarrow> int (length evs) = n \<and> n \<le> k)"
proof (cases "k = 0")
  case True
  then show ?thesis by (simp add: xpoll_wait_bsd_def)
next
  case False
  let ?ts = "if t \<ge> 0 then Some (t div 1000, (t mod 1000) * 1000000) else None"
  let ?k = "min k (int XPOLL_MAX_EVENTS)"
  obtain ret evs where w: "kw (fst st) (nat ?k) ?ts = (ret, evs)" by (cases "kw (fst st) (nat ?k) ?ts")
  show ?thesis
  proof (cases "ret < 0")
    case True
    then show ?thesis using w k False by (simp add: xpoll_wait_bsd_def Let_def)
  next
    case pos: False
    have r: "ret \<le> int (nat ?k)" "nat ret \<le> length evs"
      "\<forall>e \<in> set (take (nat ret) evs). kq_now kn st (kev_ident e, kev_filter e) = Some (kev_udata e)"
      using obeys w pos unfolding kq_reports_def by (metis not_less)+
    have "kev_udata e \<in> snd ` kq_watches kn st" if "e \<in> set (take (nat ret) evs)" for e
      using r(3) that by (force simp: kq_watches_def)
    then have "snd ` set (map kq_event (take (nat ret) evs)) \<subseteq> snd ` kq_watches kn st"
      by (auto simp: kq_event_def Let_def)
    moreover have "xpoll_wait_bsd (kw (fst st)) k t = Inr (ret, None, map kq_event (take (nat ret) evs))"
      using w k False pos r(1) by (simp add: xpoll_wait_bsd_def Let_def)
    ultimately show ?thesis using r(1,2) pos k by auto
  qed
qed

lemma kq_modify_filters: "kq_filters st \<Longrightarrow> kq_filters (snd (xpoll_modify_fd_bsd kn fd u ev st))"
  by (simp add: xpoll_modify_fd_bsd_def Let_def kq_ctl_filters)

lemma kqueue_asks:
  "op_asks (kqueue_ops b kn kw) ev \<longleftrightarrow> ev AND XPOLL_READ_bsd = XPOLL_READ_bsd \<or> ev AND XPOLL_WRITE_bsd = XPOLL_WRITE_bsd"
  by (simp add: op_asks_def kqueue_ops_def)

lemma kqueue_backend:
  assumes obeys: "kq_reports kn kw"
  shows "xpoll_backend (kqueue_ops b kn kw) (kqueue_sees kn)"
proof (rule xpoll_backend.intro; (unfold kqueue_asks)?; unfold kqueue_fields)
  let ?asks = "\<lambda>ev. ev AND XPOLL_READ_bsd = XPOLL_READ_bsd \<or> ev AND XPOLL_WRITE_bsd = XPOLL_WRITE_bsd"
  show "\<exists>r p'. xpoll_add_fd_bsd kn fd u ev st = Inr (r, p') \<and> kq_filters p' \<and>
      registered (?asks ev) r fd u (kq_watches kn st) (kq_watches kn p')"
    if "kq_filters st" "0 \<le> fd" for st fd u ev
    using that kq_ctl_filters [OF that(1), of kn fd u EV_ADD ev True]
      kq_ctl_registered [OF obeys that(1), of fd u ev _ _ "?asks ev"]
    by (cases "xpoll_ctl_fd_bsd kn fd u EV_ADD ev True st") (simp add: xpoll_add_fd_bsd_def)
  show "\<exists>r p'. Inr (xpoll_modify_fd_bsd kn fd u ev st) = Inr (r, p') \<and> kq_filters p' \<and>
      registered (?asks ev) r fd u (kq_watches kn st) (kq_watches kn p')" if "kq_filters st" for st fd u ev
  proof -
    define mk where "mk = (if ev AND XPOLL_READ_bsd \<noteq> 0 then 0 else XPOLL_READ_bsd) OR
      (if ev AND XPOLL_WRITE_bsd \<noteq> 0 then 0 else XPOLL_WRITE_bsd)"
    define sa where "sa = (if mk \<noteq> 0 then snd (xpoll_ctl_fd_bsd kn fd 0 EV_DELETE mk False st) else st)"
    obtain rd sd where d: "xpoll_ctl_fd_bsd kn fd 0 EV_DELETE mk False st = (rd, sd)" by (rule prod.exhaust)
    have sa: "kq_watches kn sa \<subseteq> kq_watches kn st" "of_others fd (kq_watches kn sa) = of_others fd (kq_watches kn st)"
      "kq_filters sa"
      using kq_ctl_delete [OF d] of_others_kq [OF kq_ctl_others [OF d]] kq_ctl_filters [OF that, of kn fd 0 EV_DELETE mk False]
        that by (simp_all add: sa_def d)
    obtain r p' where a: "xpoll_ctl_fd_bsd kn fd u EV_ADD ev True sa = (r, p')" by (rule prod.exhaust)
    have "xpoll_modify_fd_bsd kn fd u ev st = (r, p')"
      by (simp add: xpoll_modify_fd_bsd_def a [symmetric] mk_def sa_def Let_def)
    moreover have "registered (?asks ev) r fd u (kq_watches kn sa) (kq_watches kn p')"
      using kq_ctl_registered [OF obeys sa(3) a] by simp
    moreover have "kq_filters p'" using kq_ctl_filters [OF sa(3), of kn fd u EV_ADD ev True] by (simp add: a)
    ultimately show ?thesis using registered_after_loss sa(1,2) by auto
  qed
  show "\<exists>n err evs p'. and_then (xpoll_wait_bsd (kw (fst st)) k t) (\<lambda>(n, err, evs).
        Inr (n, map_option (\<lambda>_. EINVAL) err, evs, st)) = Inr (n, err, evs, p') \<and> kq_filters p' \<and>
      kq_watches kn p' = kq_watches kn st \<and> snd ` set evs \<subseteq> snd ` kq_watches kn st \<and>
      (0 \<le> n \<longrightarrow> int (length evs) = n \<and> n \<le> k)" if "kq_filters st" "0 \<le> k" for st k t
    using kq_wait_contract [OF obeys that(2), of st t] that(1) by (cases st) auto
qed (auto simp: xpoll_create_bsd_def kq_filters_def kq_watches_def kq_now_def kq_masks split: if_splits)

text \<open>A call that asks for reading or writing succeeds exactly if the kernel takes both filters.\<close>

lemma kqueue_answers:
  fixes st :: kq_state and u :: nat
  assumes "0 \<le> fd" "op_asks (kqueue_ops b kn kw) ev"
  defines "r \<equiv> kn (fst st) (kq_kev fd EVFILT_READ EV_ADD ev u) = None \<and>
      kn (fst st @ [kq_kev fd EVFILT_READ EV_ADD ev u]) (kq_kev fd EVFILT_WRITE EV_ADD ev u) = None"
  shows "\<exists>st'. op_add (kqueue_ops b kn kw) st fd u ev = Inr (r, st')"
    and "\<exists>st'. op_modify (kqueue_ops b kn kw) st fd u ev = Inr (r, st')"
proof -
  note ev = bsd_asks [OF assms(2) [unfolded kqueue_asks]]
  obtain st' where add: "xpoll_add_fd_bsd kn fd u ev st = Inr (r, st')"
    using kq_add_correct [OF assms(1) ev, of kn u "fst st" "snd st"]
    by (auto simp: r_def Let_def split: option.splits)
  then show "\<exists>st'. op_add (kqueue_ops b kn kw) st fd u ev = Inr (r, st')" by (simp add: kqueue_ops_def)
  have "xpoll_modify_fd_bsd kn fd u ev st = (r, st')"
    using add kq_modify_correct [OF ev, of kn fd u st] assms(1)
    by (simp add: xpoll_add_fd_bsd_def xpoll_add_or_modify_fd_bsd_def)
  then show "\<exists>st'. op_modify (kqueue_ops b kn kw) st fd u ev = Inr (r, st')" by (simp add: kqueue_ops_def)
qed

definition kqueue_platform :: "kq_kernel \<Rightarrow> kq_state xpoll_ops \<Rightarrow> bool" where
  "kqueue_platform kn ops \<longleftrightarrow> (\<exists>b kw. ops = kqueue_ops b kn kw \<and> kq_reports kn kw)"

interpretation kqueue_system: xpoll_system "kqueue_platform kn" "kqueue_sees kn"
  for kn
  by (rule xpoll_system.intro) (auto simp: kqueue_platform_def intro: kqueue_backend)

section \<open>Every event is an error\<close>

text \<open>The masks of \<open>kqueue\<close> overlap: an event that a filter reports has the error bit.\<close>

lemma kq_event_error:
  assumes "kev_filter kev = EVFILT_READ \<or> kev_filter kev = EVFILT_WRITE"
  shows "fst (kq_event kev) AND XPOLL_ERROR_bsd \<noteq> 0"
proof -
  have "bit (fst (kq_event kev)) 2"
    using assms by (auto simp: kq_event_def Let_def bit_simps EVFILT_READ_def EVFILT_WRITE_def)
  then have "bit (fst (kq_event kev) AND XPOLL_ERROR_bsd) 2"
    by (simp add: bit_and_iff XPOLL_ERROR_bsd_def)
  then show ?thesis by (metis bit_0_eq bot_apply bot_bool_def)
qed

lemma kq_wait_errors:
  assumes obeys: "kq_reports kn kw" and ok: "kq_filters st"
    and w: "op_wait (kqueue_ops b kn kw) st k t = Inr (n, err, evs, st')" and e: "e \<in> set evs"
  shows "fst e AND XPOLL_ERROR_bsd \<noteq> 0"
proof -
  obtain err' where x: "xpoll_wait_bsd (kw (fst st)) k t = Inr (n, err', evs)"
    using w by (auto simp: kqueue_ops_def and_then_Inr_iff)
  then obtain ts m ret kevs where kw: "kw (fst st) m ts = (ret, kevs)" "0 \<le> ret" "evs = map kq_event (take (nat ret) kevs)"
    using e by (auto simp: xpoll_wait_bsd_def assert_that_def Let_def split: if_splits prod.splits)
  then obtain kev where kev: "kev \<in> set (take (nat ret) kevs)" "e = kq_event kev" using e by auto
  have "kq_now kn st (kev_ident kev, kev_filter kev) = Some (kev_udata kev)"
    using obeys kw(1,2) kev(1) unfolding kq_reports_def by blast
  then show ?thesis using kq_now_filter [OF ok, of kn "kev_ident kev" "kev_filter kev"] kq_event_error kev(2) by simp
qed

end
