(* ===== verification/Claims_Event.thy ===== *)
theory Claims_Event
  imports Xpoll_Remove Xpoll_Wait Xpoll_Registry Xpoll_Backend Xpoll_Kq_Backend
begin

text \<open>
  The properties of the back ends of \<open>xpoll\<close>, each with its application to concrete registrations.
\<close>

section \<open>Concrete registrations\<close>

definition ev_mem :: "nat xp_mem" where
  "ev_mem = \<lparr>calloc_xp_ok = True, realloc_fds_ok = True, realloc_pfds_ok = True, realloc_infos_ok = True,
     fresh_pfd = (\<lambda>_. \<lparr>pfd_fd = 99, pfd_events = 9, pfd_revents = 9\<rparr>), fresh_info = (\<lambda>_. 0)\<rparr>"

definition ev_new :: "nat xpoll" where
  "ev_new = \<lparr>pfd_next_idx = 0, pfd_count = 0, pfd_cap = 0, fd_table_cap = 0, pfd_last_wait_index = 0,
     fd_table = [], pfd_list = [], fd_info_list = []\<rparr>"

lemma ev_new_ok: "xp_ok ev_new" "xp_regs ev_new = (\<lambda>_. None)" "xpoll_create ev_mem = Some ev_new"
  by (simp_all add: xp_ok_def xp_arrays_def xp_regs_def xp_place_def ev_new_def xpoll_create_def
      ev_mem_def fun_eq_iff)

text \<open>Descriptors 5 and 6 are registered, in this order.\<close>

definition ev_two :: "nat xpoll" where
  "ev_two = \<lparr>pfd_next_idx = 0, pfd_count = 2, pfd_cap = 2, fd_table_cap = 7, pfd_last_wait_index = 1,
     fd_table = replicate 5 UINT32_MAX @ [0, 1],
     pfd_list = [\<lparr>pfd_fd = 5, pfd_events = 1, pfd_revents = 0\<rparr>, \<lparr>pfd_fd = 6, pfd_events = 4, pfd_revents = 0\<rparr>],
     fd_info_list = [50, 60]\<rparr>"

lemma ev_two_table:
  "j < 7 \<Longrightarrow> fd_table ev_two ! j = (if j < 5 then UINT32_MAX else if j = 5 then 0 else 1)"
  by (auto simp: ev_two_def nth_append nth_Cons')

lemma ev_two_fields: "fd_table_cap ev_two = 7" "pfd_count ev_two = 2"
  "pfd_list ev_two ! 0 = \<lparr>pfd_fd = 5, pfd_events = 1, pfd_revents = 0\<rparr>"
  "pfd_list ev_two ! Suc 0 = \<lparr>pfd_fd = 6, pfd_events = 4, pfd_revents = 0\<rparr>"
  by (simp_all add: ev_two_def)

lemma ev_two_ok: "xp_ok ev_two"
proof -
  have p: "placed ev_two 5 0" "placed ev_two 6 1"
    by (simp_all add: placed_def ev_two_fields ev_two_table)
  have "placed ev_two (pfd_fd (pfd_list ev_two ! i)) i" if "i < 2" for i
    using that p less_2_cases [OF that] by (auto simp: ev_two_fields)
  moreover have "placed ev_two (int j) (unat (fd_table ev_two ! j))"
    if j: "j < 7" "fd_table ev_two ! j \<noteq> UINT32_MAX" for j
  proof -
    have "j = 5 \<or> j = 6" using j ev_two_table [OF j(1)] by (auto split: if_splits)
    then show ?thesis using p by (auto simp: ev_two_table)
  qed
  moreover have "xp_arrays ev_two" by (simp add: xp_arrays_def ev_two_def)
  ultimately show ?thesis by (simp add: xp_ok_def ev_two_fields)
qed

lemma ev_two_regs: "xp_regs ev_two 5 = Some (1, 50)" "xp_regs ev_two 6 = Some (4, 60)"
  "xp_regs ev_two 4 = None" "xp_polled ev_two = [5, 6]"
  by (simp_all add: xp_regs_def xp_place_def ev_two_fields ev_two_table)
    (simp_all add: ev_two_def UINT32_MAX_def xp_polled_def)

section \<open>Registrations\<close>

text \<open>
  C9: Adding a descriptor to a valid instance. One that one growth of \<open>fd_table\<close> reaches: adding returns
  and leaves a valid instance. True means that the descriptor was not registered and now is, with the
  requested events and user data, and nothing else changed; false changes no registration, and happens
  for a registered descriptor, with \<open>EEXIST\<close>, or where an allocation was refused, with no error code of
  its own. Any other descriptor is written outside the table, once the allocations are granted: the
  table grows once, to 16 or twice its capacity, and is then indexed with the descriptor.
\<close>

theorem poll_add:
  assumes "xp_ok xp" "pfd_cap xp \<le> 2 ^ 29" "0 \<le> fd" "fd < 2 ^ 31 - 1"
  shows "if nat fd < fd_table_cap xp \<or> nat fd < grown_fd_cap xp fd
    then \<exists>ret err xp'. xpoll_add_fd m xp fd u events = Inr (ret, err, xp') \<and> xp_ok xp' \<and>
      (if ret then xp_regs xp fd = None \<and> err = None \<and>
         xp_regs xp' = (xp_regs xp)(fd \<mapsto> (poll_mask events, u))
       else xp_regs xp' = xp_regs xp \<and>
         (if xp_regs xp fd = None then err = None \<and> \<not> (realloc_fds_ok m \<and> realloc_pfds_ok m \<and> realloc_infos_ok m)
          else err = Some EEXIST))
    else realloc_fds_ok m \<and> realloc_pfds_ok m \<and> realloc_infos_ok m \<longrightarrow>
      xpoll_add_fd m xp fd u events = Inl Out_of_bounds"
  using xpoll_add_fd_correct [OF assms, of m u events] xpoll_add_fd_overflow [OF assms, of m u events]
  unfolding add_outcome_def fd_fits_def by (cases "nat fd < fd_table_cap xp \<or> nat fd < grown_fd_cap xp fd") simp_all

theorem poll_add_witness:
  "(\<exists>err xp'. xpoll_add_fd ev_mem ev_new 15 30 XPOLL_READ = Inr (True, err, xp') \<and> xp_ok xp' \<and>
     xp_regs xp' = [15 \<mapsto> (poll_mask XPOLL_READ, 30)]) \<and>
   xpoll_add_fd ev_mem ev_new 16 30 XPOLL_READ = Inl Out_of_bounds"
proof -
  have new: "fd_table_cap ev_new = 0" "pfd_cap ev_new = 0" "xp_ok ev_new" "xp_regs ev_new = Map.empty"
    by (simp_all add: ev_new_ok) (simp_all add: ev_new_def)
  have "\<exists>err xp'. xpoll_add_fd ev_mem ev_new 15 30 XPOLL_READ = Inr (True, err, xp') \<and> xp_ok xp' \<and>
     xp_regs xp' = [15 \<mapsto> (poll_mask XPOLL_READ, 30)]"
    using poll_add [of ev_new 15 ev_mem 30 XPOLL_READ]
    by (simp add: new grown_fd_cap_def ev_mem_def split: if_splits)
  moreover have "xpoll_add_fd ev_mem ev_new 16 30 XPOLL_READ = Inl Out_of_bounds"
    using poll_add [of ev_new 16 ev_mem 30 XPOLL_READ] by (simp add: new grown_fd_cap_def ev_mem_def)
  ultimately show ?thesis by blast
qed



text \<open>
  On a descriptor that \<open>epoll\<close> refuses they do not agree: \<open>poll\<close> stores it and reports success. A
  closed descriptor is one (\<open>EBADF\<close>), as \<open>test_xpoll_badfd.c\<close> notes.
\<close>

theorem xpoll_backends_differ:
  assumes "poll_ready m n xp" "poll_fits n fd" "xp_regs xp fd = None" "\<not> kn calls (EPOLL_CTL_ADD, fd, Some (ev, u))"
  shows "\<exists>xp' calls'. poll_add m fd u ev xp = Inr (True, xp') \<and>
    xp_regs xp' = (xp_regs xp)(fd \<mapsto> (poll_mask ev, u)) \<and>
    epoll_add kn fd u ev calls = Inr (False, calls') \<and> epoll_now kn calls' = epoll_now kn calls"
  using backends_differ assms by blast

text \<open>
  C11: Each platform gives a client of \<open>xpoll.h\<close> the same contract: \<open>poll\<close> whatever the system answers,
  \<open>epoll\<close> and \<open>kqueue\<close> whatever the kernel accepts or refuses. A new instance watches nothing. Adding or
  modifying a descriptor that the instance has room for ends without a fault, and every other descriptor
  stays watched with exactly the user data it had. If it succeeds the descriptor is watched with the
  user data of the call, and with no other if the call asked for reading or writing; if it fails the
  descriptor has no user data it did not have. Waiting changes nothing that is watched, yields as many
  events as it returns and at most as many as asked for, each with the user data of a watched
  descriptor. No platform has the bits of reading or writing in the mask for edges and hang-ups.

  Where the kernel keeps the registrations, what a wait may report is the documented behaviour of
  \<open>epoll_wait\<close> and \<open>kevent\<close>, the hypotheses \<open>epoll_reports\<close> and \<open>kq_reports\<close> in the two platforms; the
  latter also has a kernel queue take back what it registered. For \<open>poll\<close> it is proved.

  When a call that asks for reading or writing succeeds: \<open>poll\<close> adds exactly unregistered descriptors
  (with memory granted) and modifies exactly registered ones; with \<open>epoll\<close> it is the kernel's answer;
  with \<open>kqueue\<close> exactly if the kernel takes both filters.
\<close>

theorem xpoll_contract:
  "xpoll_system poll_platform poll_sees \<and> xpoll_system (epoll_platform kn) (epoll_sees kn) \<and>
    xpoll_system (kqueue_platform kq) (kqueue_sees kq) \<and>
    (xp_ok xp \<and> poll_room xp fd \<longrightarrow>
      (\<exists>r xp'. op_add (poll_ops m poll) xp fd u ev = Inr (r, xp') \<and> (r \<longrightarrow> xp_regs xp fd = None) \<and>
        (xp_regs xp fd = None \<and> realloc_fds_ok m \<and> realloc_pfds_ok m \<and> realloc_infos_ok m \<longrightarrow> r)) \<and>
      (\<exists>xp'. op_modify (poll_ops m poll) xp fd u ev = Inr (xp_regs xp fd \<noteq> None, xp'))) \<and>
    (\<exists>calls'. op_add (epoll_ops epfd kn ew) calls fd u ev = Inr (kn calls (EPOLL_CTL_ADD, fd, Some (ev, u)), calls')) \<and>
    (\<exists>calls'. op_modify (epoll_ops epfd kn ew) calls fd u ev = Inr (kn calls (EPOLL_CTL_MOD, fd, Some (ev, u)), calls')) \<and>
    (0 \<le> fd \<and> op_asks (kqueue_ops b kq kw) ev \<longrightarrow>
      (let r = kq (fst st) (kq_kev fd EVFILT_READ EV_ADD ev u) = None \<and>
           kq (fst st @ [kq_kev fd EVFILT_READ EV_ADD ev u]) (kq_kev fd EVFILT_WRITE EV_ADD ev u) = None
       in (\<exists>st'. op_add (kqueue_ops b kq kw) st fd u ev = Inr (r, st')) \<and>
          (\<exists>st'. op_modify (kqueue_ops b kq kw) st fd u ev = Inr (r, st'))))"
  unfolding Let_def
  using poll_answers [of xp fd m poll u ev] kqueue_answers [of fd b kq kw ev st u]
  by (intro conjI impI poll_system.xpoll_system_axioms epoll_system.xpoll_system_axioms
      kqueue_system.xpoll_system_axioms epoll_answers) blast+

text \<open>
  At work on \<open>poll\<close>: a new instance watches 5 once it is added; modifying 5 with 5 and 6 registered
  replaces its data and keeps those of 6; modifying 4, which is not registered, fails and changes nothing.
\<close>

theorem xpoll_contract_witness:
  "(\<exists>xp. op_add (poll_ops ev_mem (\<lambda>_ _. (0, \<lambda>_. 0))) ev_new 5 50 XPOLL_READ = Inr (True, xp) \<and>
      poll_watches xp = {(5, 50)}) \<and>
   (\<exists>xp. op_modify (poll_ops ev_mem (\<lambda>_ _. (0, \<lambda>_. 0))) ev_two 5 51 XPOLL_WRITE = Inr (True, xp) \<and>
      poll_watches xp = {(5, 51), (6, 60)}) \<and>
   (\<exists>xp. op_modify (poll_ops ev_mem (\<lambda>_ _. (0, \<lambda>_. 0))) ev_two 4 41 XPOLL_READ = Inr (False, xp) \<and>
      poll_watches xp = {(5, 50), (6, 60)})"
proof -
  let ?ops = "poll_ops ev_mem (\<lambda>_ _. (0, \<lambda>_. 0))"
  note c = xpoll_contract [where m = ev_mem and poll = "\<lambda>_ _. (0, \<lambda>_. 0)"]
  have backend: "xpoll_backend ?ops poll_sees"
    using xpoll_system.backend_law [OF c [THEN conjunct1]] by (auto simp: poll_platform_def)
  have asks: "op_asks ?ops XPOLL_READ" "op_asks ?ops XPOLL_WRITE" by (simp_all add: op_asks_def poll_ops_def)
  have "xp_regs ev_two fd = None" if "fd \<notin> {5, 6}" for fd
    using polled_regs [OF ev_two_ok] ev_two_regs(4) that by auto
  then have "xp_regs ev_two fd = Some (e, u) \<longleftrightarrow> (fd, e, u) \<in> {(5, 1, 50), (6, 4, 60)}" for fd e u
    using ev_two_regs(1,2) by (cases "fd \<in> {5, 6}") auto
  then have w: "poll_watches ev_new = {}" "poll_watches ev_two = {(5, 50), (6, 60)}"
    by (auto simp: poll_watches_def ev_new_ok)
  have new: "xp_ok ev_new" "poll_room ev_new 5" "xp_regs ev_new 5 = None"
    by (simp_all add: ev_new_ok) (simp add: poll_room_def fd_fits_def grown_fd_cap_def ev_new_def)
  have two: "xp_ok ev_two" "poll_room ev_two 5" "poll_room ev_two 4"
    by (simp_all add: ev_two_ok poll_room_def fd_fits_def) (simp_all add: ev_two_def)
  have mem: "realloc_fds_ok ev_mem" "realloc_pfds_ok ev_mem" "realloc_infos_ok ev_mem" by (simp_all add: ev_mem_def)
  have see: "xv_ready poll_sees = xp_ok" "xv_fits poll_sees = poll_room" "xv_watches poll_sees = poll_watches"
    by (simp_all add: poll_sees_def)
  note add = xpoll_backend.add_law [OF backend, unfolded see]
  note modify = xpoll_backend.modify_law [OF backend, unfolded see]
  note answers = c [THEN conjunct2, THEN conjunct2, THEN conjunct2, THEN conjunct1, rule_format]
  have o: "of_others 5 {} = ({} :: (fd \<times> nat) set)" "of_others 5 {(5::fd, 50::nat), (6, 60)} = {(6, 60)}"
    "of_others 4 {(5::fd, 50::nat), (6, 60)} = {(5, 50), (6, 60)}" by (auto simp: of_others_def)
  obtain r1 x1 where 1: "op_add ?ops ev_new 5 50 XPOLL_READ = Inr (r1, x1)"
    "registered True r1 5 50 {} (poll_watches x1)"
    using add [OF new(1,2), of 50 XPOLL_READ] unfolding w asks [THEN eqTrueI] by blast
  obtain r x where "op_add ?ops ev_new 5 50 XPOLL_READ = Inr (r, x)"
    "xp_regs ev_new 5 = None \<and> realloc_fds_ok ev_mem \<and> realloc_pfds_ok ev_mem \<and> realloc_infos_ok ev_mem \<longrightarrow> r"
    using answers [OF conjI [OF new(1,2)], THEN conjunct1, of 50 XPOLL_READ] by (elim exE conjE)
  then have r: r1 using 1(1) new(3) mem by simp
  note 1 = 1(1) [unfolded eqTrueI [OF r]] registeredD(3) [OF 1(2) r TrueI, unfolded o]
  obtain r2 x2 where 2: "op_modify ?ops ev_two 5 51 XPOLL_WRITE = Inr (r2, x2)"
    "registered True r2 5 51 {(5, 50), (6, 60)} (poll_watches x2)"
    using modify [OF two(1,2), of 51 XPOLL_WRITE] unfolding w asks [THEN eqTrueI] by blast
  obtain x where "op_modify ?ops ev_two 5 51 XPOLL_WRITE = Inr (xp_regs ev_two 5 \<noteq> None, x)"
    using answers [OF conjI [OF two(1,2)], THEN conjunct2, of 51 XPOLL_WRITE] by (elim exE)
  then have r: r2 using 2(1) ev_two_regs(1) by simp
  note 2 = 2(1) [unfolded eqTrueI [OF r]] registeredD(3) [OF 2(2) r TrueI, unfolded o]
  obtain r3 x3 where 3: "op_modify ?ops ev_two 4 41 XPOLL_READ = Inr (r3, x3)"
    "registered True r3 4 41 {(5, 50), (6, 60)} (poll_watches x3)"
    using modify [OF two(1,3), of 41 XPOLL_READ] unfolding w asks [THEN eqTrueI] by blast
  obtain x where "op_modify ?ops ev_two 4 41 XPOLL_READ = Inr (xp_regs ev_two 4 \<noteq> None, x)"
    using answers [OF conjI [OF two(1,3)], THEN conjunct2, of 41 XPOLL_READ] by (elim exE)
  then have r: "r3 = False" using 3(1) ev_two_regs(3) by simp
  note 3 = 3(1) [unfolded r] registeredD(4) [OF 3(2) _ o(3)]
  show ?thesis using 1 2 3 r by (intro conjI exI) (assumption | simp)+
qed

text \<open>
  Modifying a registered descriptor of a valid instance replaces its events and user data and
  nothing else; for any other descriptor it changes nothing and reports \<open>ENOENT\<close>.
\<close>

theorem poll_modify:
  assumes "xp_ok xp" "0 \<le> fd" "fd < 2 ^ 31"
  shows "\<exists>ret err xp'. xpoll_modify_fd m xp fd u events = Inr (ret, err, xp') \<and> xp_ok xp' \<and>
    (if xp_regs xp fd = None then \<not> ret \<and> err = Some ENOENT \<and> xp' = xp
     else ret \<and> err = None \<and> xp_regs xp' = (xp_regs xp)(fd \<mapsto> (poll_mask events, u)))"
  by (rule xpoll_modify_fd_correct [OF assms])

theorem poll_modify_witness:
  "\<exists>xp'. xpoll_modify_fd ev_mem ev_two 5 51 XPOLL_WRITE = Inr (True, None, xp') \<and>
    xp_regs xp' = (xp_regs ev_two)(5 \<mapsto> (poll_mask XPOLL_WRITE, 51))"
  using poll_modify [OF ev_two_ok, of 5 ev_mem 51 XPOLL_WRITE] ev_two_regs by auto

text \<open>
  C10: Removing a descriptor from a valid instance. An unregistered one changes nothing and reports
  \<open>ENOENT\<close>. A registered one is removed, and the instance stays valid, exactly if the descriptor
  was the one registered last; otherwise the registration moved into its place is lost to
  \<open>fd_table\<close> and the instance is no longer valid.
\<close>

theorem poll_remove:
  assumes "xp_ok xp" "0 \<le> fd" "fd < 2 ^ 31"
  shows "\<exists>ret err xp'. xpoll_remove_fd m xp fd u = Inr (ret, err, xp') \<and>
    (if xp_regs xp fd = None then \<not> ret \<and> err = Some ENOENT \<and> xp' = xp
     else ret \<and> err = None \<and> (xp_ok xp' \<longleftrightarrow> fd = last (xp_polled xp)) \<and>
       (fd = last (xp_polled xp) \<longrightarrow> xp_regs xp' = (xp_regs xp)(fd := None)))"
  using xpoll_remove_fd_correct [OF assms, of m u] unfolding remove_outcome_def .

theorem poll_remove_witness:
  "(\<exists>xp'. xpoll_remove_fd ev_mem ev_two 6 0 = Inr (True, None, xp') \<and> xp_ok xp' \<and>
      xp_regs xp' = (xp_regs ev_two)(6 := None)) \<and>
   (\<exists>xp'. xpoll_remove_fd ev_mem ev_two 5 0 = Inr (True, None, xp') \<and> \<not> xp_ok xp')"
  using poll_remove [OF ev_two_ok, of 6 ev_mem 0] poll_remove [OF ev_two_ok, of 5 ev_mem 0] ev_two_regs
  by auto

text \<open>
  What the loss leads to. With 5, 6 and 7 registered, removing 5 and then 7 reports success
  twice and leaves 7 polled instead of 6.
\<close>

theorem poll_remove_wrong_descriptor:
  "and_then (xpoll_add_fd ev_mem ev_new 5 50 XPOLL_READ) (\<lambda>(r1, _, xp).
   and_then (xpoll_add_fd ev_mem xp 6 60 XPOLL_READ) (\<lambda>(r2, _, xp).
   and_then (xpoll_add_fd ev_mem xp 7 70 XPOLL_READ) (\<lambda>(r3, _, xp).
   and_then (xpoll_remove_fd ev_mem xp 5 0) (\<lambda>(r4, _, xp).
   and_then (xpoll_remove_fd ev_mem xp 7 0) (\<lambda>(r5, _, xp).
   Inr ([r1, r2, r3, r4, r5], xp_polled xp)))))) = Inr ([True, True, True, True, True], [7])"
  by (simp add: xpoll_add_fd_def xpoll_remove_fd_def xpoll_ctl_fd_def xpoll_ctl_add_def xpoll_ctl_del_def
      xpoll_find_def xpoll_grow_fd_table_def xpoll_grow_pfds_def xpoll_append_fd_def xpoll_shrink_pfds_def
      fd_table_get_def fd_table_set_def fd_slot_def fd_u_def w32_def resized_def ev_new_def ev_mem_def
      Let_def UINT32_MAX_def xp_polled_def take_Suc_conv_app_nth)
    (simp add: numeral_2_eq_2)

section \<open>Waiting\<close>

text \<open>
  C7: A successful wait on at least one registration reports, in the order that starts where the
  last wait stopped and goes once round the registrations, the first ready ones, as many as the
  buffer holds, each with its descriptor, its user data and its event mask; it stores the position
  after the last registration it looked at, where the next wait will start.
\<close>

theorem poll_wait:
  assumes "xp_arrays xp" "0 < pfd_count xp" "0 < max_events"
    and "poll (wait_asks xp) timeout_ms = (ret, r)" "0 \<le> ret"
  shows "\<exists>rest xp'. xpoll_wait poll xp max_events timeout_ms =
      (let is = take (nat max_events) (filter (\<lambda>i. r i \<noteq> 0) (wait_order xp))
       in Inr (int (length is), None, map (wait_event xp r) is, xp')) \<and>
    snd (round_take (\<lambda>i. r i \<noteq> 0) (nat max_events) (wait_order xp)) = rest \<and>
    xp' = (poll_writes xp r)\<lparr>pfd_last_wait_index :=
      (case rest of y # _ \<Rightarrow> y | [] \<Rightarrow> pfd_last_wait_index xp mod pfd_count xp)\<rparr>"
  using xpoll_wait_correct [where poll = poll, OF assms] by auto

theorem poll_wait_witness:
  "\<exists>xp'. xpoll_wait (\<lambda>_ _. (2, \<lambda>i. 1)) ev_two 1 0 =
    Inr (1, None, [\<lparr>ev_events = 1, ev_fd = 6, ev_udata = 60\<rparr>], xp') \<and> pfd_last_wait_index xp' = 0"
proof -
  have order: "wait_order ev_two = [1, 0]" by (simp add: wait_order_def ev_two_def upt_rec)
  have mask: "xpoll_event_mask 1 = 1" by (simp add: xpoll_event_mask_def POLLNVAL_def)
  have "xp_arrays ev_two" "0 < pfd_count ev_two" using ev_two_ok by (simp_all add: xp_ok_def ev_two_def)
  from poll_wait [OF this, of 1 "\<lambda>_ _. (2, \<lambda>i. 1)" 0 2 "\<lambda>i. 1"] show ?thesis
    by (auto simp: order wait_event_def mask) (simp_all add: ev_two_def)
qed

text \<open>
  C8: No ready descriptor is starved. If \<open>poll\<close> reports a registered descriptor ready in each of as
  many waits as there are registrations, one of them passes it on, however small the buffer and
  whatever else is ready.
\<close>

theorem poll_fair:
  assumes "xp_arrays xp" "0 < max_events" "j < pfd_count xp" "length ps = pfd_count xp"
    and "\<forall>p \<in> set ps. case p (wait_asks xp) timeout_ms of (ret, r) \<Rightarrow> 0 \<le> ret \<and> r j \<noteq> 0"
  shows "\<exists>outs. xpoll_waits ps xp max_events timeout_ms = Inr outs \<and>
    (\<exists>e \<in> set (concat outs). ev_fd e = pfd_fd (pfd_list xp ! j) \<and> ev_udata e = fd_info_list xp ! j)"
proof -
  have "\<forall>p \<in> set ps. reports p xp timeout_ms j" using assms(5) by (simp add: reports_def)
  from xpoll_waits_fair [OF assms(1,2) this assms(3,4)] show ?thesis unfolding is_event_of_def .
qed

theorem poll_fair_witness:
  "\<exists>outs. xpoll_waits [\<lambda>_ _. (2, \<lambda>i. 1), \<lambda>_ _. (1, \<lambda>i. if i = 0 then 1 else 0)] ev_two 1 0 = Inr outs \<and>
    (\<exists>e \<in> set (concat outs). ev_fd e = 5 \<and> ev_udata e = 50)"
proof -
  have "xp_arrays ev_two" using ev_two_ok by (simp add: xp_ok_def)
  from poll_fair [OF this, of 1 0 "[\<lambda>_ _. (2, \<lambda>i. 1), \<lambda>_ _. (1, \<lambda>i. if i = 0 then 1 else 0)]" 0]
  show ?thesis by (simp add: ev_two_def)
qed

section \<open>The \<open>kqueue\<close> back end\<close>

text \<open>
  C20: Where \<open>EVFILT_READ\<close> is -1 and \<open>EVFILT_WRITE\<close> is -2, adding a descriptor for reading, for writing or
  for both, through the \<open>kqueue\<close> back end, makes the same two changes: it registers both filters, edge
  triggered, although only one was asked for and neither edge triggering. It is all or nothing: it
  succeeds exactly if both changes do, and if the second one fails the first is deleted again and
  \<open>errno\<close> is that of the failure. Modifying to reading or writing alone does the same and deletes
  no filter.
\<close>

theorem kqueue_add:
  assumes "0 \<le> fd" "events \<in> {XPOLL_READ_bsd, XPOLL_WRITE_bsd, XPOLL_READ_bsd OR XPOLL_WRITE_bsd}"
  shows "xpoll_add_fd_bsd kn fd u events (calls, err) = Inr
    (let rd = \<lparr>kev_ident = fd, kev_filter = EVFILT_READ, kev_flags = EV_ADD OR EV_CLEAR, kev_udata = u\<rparr>;
         wr = \<lparr>kev_ident = fd, kev_filter = EVFILT_WRITE, kev_flags = EV_ADD OR EV_CLEAR, kev_udata = u\<rparr>
     in case kn calls rd of
          Some e \<Rightarrow> (False, calls @ [rd], e)
        | None \<Rightarrow> (case kn (calls @ [rd]) wr of
            Some e \<Rightarrow> (False, calls @ [rd, wr, rd\<lparr>kev_flags := EV_DELETE\<rparr>], e)
          | None \<Rightarrow> (True, calls @ [rd, wr], err))) \<and>
    xpoll_add_fd_bsd kn fd u events (calls, err) = Inr (xpoll_modify_fd_bsd kn fd u events (calls, err))"
proof -
  have ev: "events AND XPOLL_READ_bsd \<noteq> 0" "events AND XPOLL_WRITE_bsd \<noteq> 0"
    "events AND XPOLL_EDGE_bsd = XPOLL_EDGE_bsd"
    using assms(2) by (auto simp: bsd_masks XPOLL_EDGE_bsd_def)
  have "xpoll_add_fd_bsd kn fd u events (calls, err) = Inr (xpoll_modify_fd_bsd kn fd u events (calls, err))"
    using kq_modify_correct [OF ev(1,2), of kn fd u "(calls, err)"] assms(1)
    by (simp add: xpoll_add_fd_bsd_def xpoll_add_or_modify_fd_bsd_def)
  then show ?thesis using kq_add_correct [OF assms(1) ev(1,2), of kn u calls err] ev(3)
    by (simp add: kq_kev_def)
qed

theorem kqueue_add_witness:
  "xpoll_add_fd_bsd (\<lambda>calls _. if calls = [] then None else Some 12) 5 7 XPOLL_READ_bsd ([], 0) = Inr
    (let rd = \<lparr>kev_ident = 5, kev_filter = EVFILT_READ, kev_flags = EV_ADD OR EV_CLEAR, kev_udata = 7\<rparr>;
         wr = \<lparr>kev_ident = 5, kev_filter = EVFILT_WRITE, kev_flags = EV_ADD OR EV_CLEAR, kev_udata = 7\<rparr>
     in (False, [rd, wr, rd\<lparr>kev_flags := EV_DELETE\<rparr>], 12))"
  by (subst kqueue_add [THEN conjunct1]) simp_all

end
