(* ===== verification/Xio_Header.thy ===== *)
theory Xio_Header
  imports Utils
begin

text \<open>
  \<open>src/src/event/xio.h\<close>: the types that both implementations of asynchronous requests share.
\<close>

datatype fh_xio_op = XIO_OP_READ | XIO_OP_WRITE | XIO_OP_RECV | XIO_OP_SEND | XIO_OP_ACCEPT

primrec xio_op_code :: "fh_xio_op \<Rightarrow> 'a::len word" where
  "xio_op_code XIO_OP_READ = 1"
| "xio_op_code XIO_OP_WRITE = 2"
| "xio_op_code XIO_OP_RECV = 3"
| "xio_op_code XIO_OP_SEND = 4"
| "xio_op_code XIO_OP_ACCEPT = 5"

text \<open>The flags of a task, a \<open>uint16_t\<close>, and of a result, a \<open>uint32_t\<close>.\<close>

definition XIO_TASK_F_BUFFER :: u16 where "XIO_TASK_F_BUFFER = 1"
definition XIO_TASK_F_MORE :: u32 where "XIO_TASK_F_MORE = 2"
definition XIO_TASK_F_INTERNAL_ERROR :: u32 where "XIO_TASK_F_INTERNAL_ERROR = 4"

text \<open>A pointer of the caller, or into the buffer memory of the instance.\<close>

datatype xio_ptr = User_ptr nat | Pool_ptr nat

record fh_xio_result =
  res_op :: u32
  res_flags :: u32
  res_res :: int
  res_buf :: "xio_ptr option"
  res_udata :: nat

end
