(* ===== verification/Xio.thy ===== *)
theory Xio
  imports Xpoll_Ops Int_Htable Xio_Header
begin

text \<open>
  \<open>src/src/event/xio_xpoll.c\<close>: asynchronous requests on top of \<open>xpoll\<close>, on whatever platform \<open>ops\<close> is
  the record of; the user data of a descriptor is its descriptor state. The three pools are arrays inside \<open>struct fh_xio\<close>, so
  a pointer to a slice, a task or a descriptor state is its number there; a pointer into the buffer
  memory is its distance from \<open>mem_base\<close>.
\<close>

section \<open>Data\<close>

definition XIO_XPOLL_MAX_EVENTS :: nat where "XIO_XPOLL_MAX_EVENTS = 2048"
definition XIO_XPOLL_MAX_TASK_COUNT :: nat where "XIO_XPOLL_MAX_TASK_COUNT = 2048"
definition XIO_BUF_SIZE :: nat where "XIO_BUF_SIZE = 4096"
definition XIO_BUF_COUNT :: nat where "XIO_BUF_COUNT = 2048"

text \<open>The numbers of slices and tasks fit the 16-bit fields that hold them, the pool a 32-bit offset.\<close>

definition xio_static_asserts :: "bool list" where
  "xio_static_asserts = map static_assert
     [XIO_XPOLL_MAX_EVENTS AND (XIO_XPOLL_MAX_EVENTS - 1) = 0,
      XIO_BUF_SIZE AND (XIO_BUF_SIZE - 1) = 0,
      XIO_BUF_COUNT AND (XIO_BUF_COUNT - 1) = 0,
      XIO_BUF_COUNT \<le> UINT16_MAX,
      XIO_BUF_COUNT * XIO_BUF_SIZE \<le> 2 ^ 32 - 1,
      XIO_XPOLL_MAX_TASK_COUNT AND (XIO_XPOLL_MAX_TASK_COUNT - 1) = 0,
      XIO_XPOLL_MAX_TASK_COUNT \<le> UINT16_MAX]"

lemma xio_compiles: "list_all (\<lambda>ok. ok) xio_static_asserts"
  by (simp add: xio_static_asserts_def static_assert_def UINT16_MAX_def XIO_XPOLL_MAX_EVENTS_def XIO_BUF_SIZE_def
      XIO_BUF_COUNT_def XIO_XPOLL_MAX_TASK_COUNT_def)

record xio_slice =
  sl_buf :: nat
  sl_off :: nat
  sl_bid :: nat
  sl_refs :: u16

record xio_recv =
  rv_fd :: fd
  rv_buf :: "xio_ptr option"
  rv_size :: nat
  rv_flags :: int

record xio_task =
  tk_op :: u16
  tk_flags :: u16
  tk_idx :: nat
  tk_bid :: nat
  tk_udata :: nat
  tk_recv :: xio_recv
  tk_next :: "nat option"

record xio_fd_state =
  fs_fd :: fd
  fs_events :: u32
  task_in_head :: "nat option"
  task_out_head :: "nat option"
  fs_idx :: nat

text \<open>
  \<open>events\<close>, the buffer \<open>fh_xio_wait\<close> hands to \<open>xpoll_wait\<close>, holds nothing between two calls and is
  left out.
\<close>

record 'p fh_xio =
  xio_xp :: 'p
  fd_state_table :: "(u64, nat) htable"
  buf_list :: "xio_slice list"
  free_buf_list :: "nat list"
  fd_state_list :: "xio_fd_state list"
  free_fd_state_list :: "nat list"
  task_list :: "xio_task list"
  free_task_list :: "nat list"
  free_buf_list_top :: nat
  free_task_list_top :: nat
  free_fd_state_list_top :: nat

text \<open>What the allocator and \<open>mmap\<close> do in one call.\<close>

record xio_mem =
  xio_calloc_ok :: bool
  xio_mmap_ok :: bool
  xio_create_mem :: "(u64, nat) ht_mem"
  xio_set_mem :: "(u64, nat) ht_mem"
  xio_delete_mem :: "(u64, nat) ht_mem"

section \<open>The task pool and the descriptor state pool\<close>

definition fh_xio_acquire_task :: "'p fh_xio \<Rightarrow> (nat option \<times> 'p fh_xio) checked" where
  "fh_xio_acquire_task xio =
     (if free_task_list_top xio = 0 then Inr (None, xio)
      else let top = free_task_list_top xio - 1
        in and_then (aget (free_task_list xio) top) (\<lambda>i.
           Inr (Some i, xio\<lparr>free_task_list_top := top\<rparr>)))"

definition fh_xio_release_task :: "'p fh_xio \<Rightarrow> nat \<Rightarrow> 'p fh_xio checked" where
  "fh_xio_release_task xio task =
     and_then (assert_that (free_task_list_top xio < XIO_XPOLL_MAX_TASK_COUNT)) (\<lambda>_.
     and_then (aget (task_list xio) task) (\<lambda>tk.
     and_then (aset (free_task_list xio) (free_task_list_top xio) (tk_idx tk)) (\<lambda>free.
     Inr (xio\<lparr>free_task_list := free, free_task_list_top := free_task_list_top xio + 1\<rparr>))))"

definition fh_xio_acquire_fd_state :: "'p fh_xio \<Rightarrow> (nat option \<times> 'p fh_xio) checked" where
  "fh_xio_acquire_fd_state xio =
     (if free_fd_state_list_top xio = 0 then Inr (None, xio)
      else let top = free_fd_state_list_top xio - 1
        in and_then (aget (free_fd_state_list xio) top) (\<lambda>i.
           Inr (Some i, xio\<lparr>free_fd_state_list_top := top\<rparr>)))"

definition fh_xio_release_fd_state :: "'p fh_xio \<Rightarrow> nat \<Rightarrow> 'p fh_xio checked" where
  "fh_xio_release_fd_state xio state =
     and_then (assert_that (free_fd_state_list_top xio < XIO_XPOLL_MAX_TASK_COUNT)) (\<lambda>_.
     and_then (aget (fd_state_list xio) state) (\<lambda>st.
     and_then (aset (free_fd_state_list xio) (free_fd_state_list_top xio) (fs_idx st)) (\<lambda>free.
     Inr (xio\<lparr>free_fd_state_list := free, free_fd_state_list_top := free_fd_state_list_top xio + 1\<rparr>))))"

section \<open>The slice pool\<close>

text \<open>The loop of \<open>fh_xio_acquire_slice\<close>: \<open>n\<close> places of the free list are left, the next is \<open>n - 1\<close>.\<close>

fun fh_xio_acquire_slice_loop :: "'p fh_xio \<Rightarrow> nat \<Rightarrow> nat \<Rightarrow> (nat option \<times> 'p fh_xio) checked" where
  "fh_xio_acquire_slice_loop xio nbytes 0 = Inr (None, xio)"
| "fh_xio_acquire_slice_loop xio nbytes (Suc n) =
     and_then (aget (free_buf_list xio) n) (\<lambda>idx.
     and_then (aget (buf_list xio) idx) (\<lambda>sl.
     if sl_off sl + nbytes > XIO_BUF_SIZE then fh_xio_acquire_slice_loop xio nbytes n
     else
       let off = w32 (sl_off sl + nbytes);
           xio = xio\<lparr>buf_list := (buf_list xio)[idx := sl\<lparr>sl_off := off, sl_refs := sl_refs sl + 1\<rparr>]\<rparr>
       in if off = XIO_BUF_SIZE then
            and_then (aget (free_buf_list xio) (free_buf_list_top xio - 1)) (\<lambda>moved.
            and_then (aset (free_buf_list xio) n moved) (\<lambda>free.
            Inr (Some idx, xio\<lparr>free_buf_list := free, free_buf_list_top := free_buf_list_top xio - 1\<rparr>)))
          else Inr (Some idx, xio)))"

definition fh_xio_acquire_slice :: "'p fh_xio \<Rightarrow> nat \<Rightarrow> (nat option \<times> 'p fh_xio) checked" where
  "fh_xio_acquire_slice xio nbytes =
     and_then (assert_that (nbytes \<le> XIO_BUF_SIZE)) (\<lambda>_.
     fh_xio_acquire_slice_loop xio nbytes (free_buf_list_top xio))"

definition fh_xio_release_slice :: "'p fh_xio \<Rightarrow> nat \<Rightarrow> 'p fh_xio checked" where
  "fh_xio_release_slice xio slc =
     and_then (assert_that (free_buf_list_top xio < XIO_BUF_COUNT)) (\<lambda>_.
     and_then (aget (buf_list xio) slc) (\<lambda>sl.
     and_then (assert_that (sl_refs sl > 0)) (\<lambda>_.
       let refs = sl_refs sl - 1
       in if refs \<noteq> 0 then Inr (xio\<lparr>buf_list := (buf_list xio)[slc := sl\<lparr>sl_refs := refs\<rparr>]\<rparr>)
          else and_then (aset (free_buf_list xio) (free_buf_list_top xio) (sl_bid sl)) (\<lambda>free.
            Inr (xio\<lparr>buf_list := (buf_list xio)[slc := sl\<lparr>sl_refs := refs, sl_off := 0\<rparr>],
                     free_buf_list := free, free_buf_list_top := free_buf_list_top xio + 1\<rparr>)))))"

section \<open>Creation and release\<close>

text \<open>What \<open>calloc\<close> returns, with the event instance and the table made after it.\<close>

definition xio_zero :: "'p \<Rightarrow> (u64, nat) htable \<Rightarrow> 'p fh_xio" where
  "xio_zero p t = \<lparr>xio_xp = p, fd_state_table = t,
     buf_list = replicate XIO_BUF_COUNT \<lparr>sl_buf = 0, sl_off = 0, sl_bid = 0, sl_refs = 0\<rparr>,
     free_buf_list = replicate XIO_BUF_COUNT 0,
     fd_state_list = replicate XIO_XPOLL_MAX_TASK_COUNT
       \<lparr>fs_fd = 0, fs_events = 0, task_in_head = None, task_out_head = None, fs_idx = 0\<rparr>,
     free_fd_state_list = replicate XIO_XPOLL_MAX_TASK_COUNT 0,
     task_list = replicate XIO_XPOLL_MAX_TASK_COUNT
       \<lparr>tk_op = 0, tk_flags = 0, tk_idx = 0, tk_bid = 0, tk_udata = 0,
        tk_recv = \<lparr>rv_fd = 0, rv_buf = None, rv_size = 0, rv_flags = 0\<rparr>, tk_next = None\<rparr>,
     free_task_list = replicate XIO_XPOLL_MAX_TASK_COUNT 0,
     free_buf_list_top = 0, free_task_list_top = 0, free_fd_state_list_top = 0\<rparr>"

definition fh_xio_slices_alloc :: "bool \<Rightarrow> 'p fh_xio \<Rightarrow> bool \<times> 'p fh_xio" where
  "fh_xio_slices_alloc mmap_ok xio =
     (if \<not> mmap_ok then (False, xio)
      else (True, xio\<lparr>
        buf_list := map (\<lambda>i. (buf_list xio ! i)
          \<lparr>sl_buf := i * XIO_BUF_SIZE, sl_bid := i, sl_off := 0, sl_refs := 0\<rparr>) [0 ..< XIO_BUF_COUNT],
        free_buf_list := [0 ..< XIO_BUF_COUNT],
        task_list := map (\<lambda>i. (task_list xio ! i)\<lparr>tk_flags := 0, tk_idx := i\<rparr>)
          [0 ..< XIO_XPOLL_MAX_TASK_COUNT],
        fd_state_list := map (\<lambda>i. (fd_state_list xio ! i)\<lparr>fs_idx := i\<rparr>) [0 ..< XIO_XPOLL_MAX_TASK_COUNT],
        free_task_list := [0 ..< XIO_XPOLL_MAX_TASK_COUNT],
        free_fd_state_list := [0 ..< XIO_XPOLL_MAX_TASK_COUNT],
        free_buf_list_top := XIO_BUF_COUNT,
        free_task_list_top := XIO_XPOLL_MAX_TASK_COUNT,
        free_fd_state_list_top := XIO_XPOLL_MAX_TASK_COUNT\<rparr>))"

datatype 'p xio_release =
    State_table_part "(u64, nat) ht_release"
  | Buffers_unmapped
  | Xpoll_closed 'p
  | Xio_released

text \<open>\<open>fh_xio_create\<close>: the instance, or \<open>NULL\<close> with what was released before.\<close>

datatype 'p xio_created = Xio_created "'p fh_xio" | Xio_failed "'p xio_release list"

definition fh_xio_create :: "'p xpoll_ops \<Rightarrow> xio_mem \<Rightarrow> 'p xio_created option checked" where
  "fh_xio_create ops m =
     (if \<not> xio_calloc_ok m then Inr (Some (Xio_failed []))
      else case op_create ops of
        None \<Rightarrow> Inr (Some (Xio_failed [Xio_released]))
      | Some p \<Rightarrow>
          and_then (htable_create (xio_create_mem m) 16) (\<lambda>table.
          case table of
            None \<Rightarrow> Inr (Some (Xio_failed [Xpoll_closed p, Xio_released]))
          | Some t \<Rightarrow>
              (let (ok, xio) = fh_xio_slices_alloc (xio_mmap_ok m) (xio_zero p t)
               in if ok then Inr (Some (Xio_created xio))
                  else and_then (htable_free int_ops (Suc (ht_count t)) t) (\<lambda>rs.
                    Inr (map_option (\<lambda>rs. Xio_failed (map State_table_part rs
                      @ [Xpoll_closed p, Xio_released])) rs)))))"

definition fh_xio_free :: "'p fh_xio \<Rightarrow> 'p xio_release list option checked" where
  "fh_xio_free xio =
     and_then (htable_free int_ops (Suc (ht_count (fd_state_table xio))) (fd_state_table xio)) (\<lambda>rs.
     Inr (map_option (\<lambda>rs. map State_table_part rs @ [Buffers_unmapped, Xpoll_closed (xio_xp xio), Xio_released]) rs))"

definition fh_xio_submit_requests :: "'p fh_xio \<Rightarrow> bool" where
  "fh_xio_submit_requests xio = True"

section \<open>Requests\<close>

text \<open>
  The result of a preparation: the task and the slice, if one was taken, or a \<open>NULL\<close> task with the
  error code set on the way, if one was.
\<close>

datatype xio_request_prep = Prepared nat "nat option" | Not_prepared "errno option"

datatype xio_request_prep_type = XIO_PREP_IN | XIO_PREP_OUT

definition fh_xio_request_prep_slice_get_buffer :: "'p fh_xio \<Rightarrow> nat \<Rightarrow> nat \<Rightarrow> xio_ptr checked" where
  "fh_xio_request_prep_slice_get_buffer xio slc alloc_size =
     and_then (assert_that (alloc_size \<le> 2 ^ 16 - 1)) (\<lambda>_.
     and_then (aget (buf_list xio) slc) (\<lambda>sl.
     and_then (assert_that (sl_off sl \<ge> w32 alloc_size)) (\<lambda>_.
     Inr (Pool_ptr (sl_buf sl + sl_off sl - alloc_size)))))"

text \<open>The buffer of a task: \<open>None\<close> when a slice is needed and there is none.\<close>

definition fh_xio_prep_buffer ::
  "'p fh_xio \<Rightarrow> nat \<Rightarrow> nat option \<Rightarrow> nat \<Rightarrow> (nat option option \<times> 'p fh_xio) checked"
where
  "fh_xio_prep_buffer xio task buf nbytes =
     (case buf of
        Some _ \<Rightarrow>
          and_then (aupd (task_list xio) task (\<lambda>tk. tk\<lparr>tk_flags := 0\<rparr>)) (\<lambda>tasks.
          Inr (Some None, xio\<lparr>task_list := tasks\<rparr>))
      | None \<Rightarrow>
          and_then (fh_xio_acquire_slice xio nbytes) (\<lambda>(slc, xio).
          case slc of
            None \<Rightarrow> Inr (None, xio)
          | Some i \<Rightarrow>
              and_then (aget (buf_list xio) i) (\<lambda>sl.
              and_then (aupd (task_list xio) task
                (\<lambda>tk. tk\<lparr>tk_flags := XIO_TASK_F_BUFFER, tk_bid := sl_bid sl\<rparr>)) (\<lambda>tasks.
              Inr (Some (Some i), xio\<lparr>task_list := tasks\<rparr>)))))"

text \<open>
  The state of a descriptor and whether it is new; \<open>None\<close> when the pool is empty. The insertion is
  the argument of an \<open>assert\<close>.
\<close>

definition fh_xio_prep_state ::
  "'p xpoll_ops \<Rightarrow> xio_mem \<Rightarrow> 'p fh_xio \<Rightarrow> fd \<Rightarrow> ((nat \<times> bool) option \<times> 'p fh_xio) checked"
where
  "fh_xio_prep_state ops m xio fd =
     and_then (htable_get int_ops (fd_state_table xio) (word_of_int fd)) (\<lambda>state.
     case state of
       Some s \<Rightarrow> Inr (Some (s, False), xio)
     | None \<Rightarrow>
         and_then (fh_xio_acquire_fd_state xio) (\<lambda>(state, xio).
         case state of
           None \<Rightarrow> Inr (None, xio)
         | Some s \<Rightarrow>
             and_then (aupd (fd_state_list xio) s (\<lambda>st. st
               \<lparr>fs_events := op_EDGE ops OR op_READ_HANGUP ops OR op_HANGUP ops, fs_fd := fd,
                task_in_head := None, task_out_head := None\<rparr>)) (\<lambda>states.
             and_then (htable_set int_ops (xio_set_mem m) (fd_state_table xio) (word_of_int fd) (Some s))
               (\<lambda>(ret, table).
             and_then (assert_that ret) (\<lambda>_.
             Inr (Some (s, True), xio\<lparr>fd_state_list := states, fd_state_table := table\<rparr>))))))"

text \<open>Giving back the task and the slice of a preparation that failed.\<close>

definition fh_xio_prep_undo :: "'p fh_xio \<Rightarrow> nat \<Rightarrow> nat option \<Rightarrow> 'p fh_xio checked" where
  "fh_xio_prep_undo xio task slc =
     and_then (fh_xio_release_task xio task) (\<lambda>xio.
     case slc of None \<Rightarrow> Inr xio | Some i \<Rightarrow> fh_xio_release_slice xio i)"

text \<open>
  Asking \<open>xpoll\<close> for the events of the request. As in the code, a non-zero \<open>rc\<close> is taken for a
  failure although \<open>xpoll_add_fd\<close> and \<open>xpoll_modify_fd\<close> return true on success. The flag says whether
  the preparation goes on.
\<close>

definition fh_xio_prep_watch ::
  "'p xpoll_ops \<Rightarrow> xio_mem \<Rightarrow> 'p fh_xio \<Rightarrow> fd \<Rightarrow> nat \<Rightarrow> bool \<Rightarrow> u32 \<Rightarrow> nat \<Rightarrow> nat option \<Rightarrow> (bool \<times> 'p fh_xio) checked"
where
  "fh_xio_prep_watch ops m xio fd state created events task slc =
     and_then (aget (fd_state_list xio) state) (\<lambda>st.
     if fs_events st AND events \<noteq> events then
       and_then (if created
           then op_add ops (xio_xp xio) fd state (fs_events st OR events)
           else op_modify ops (xio_xp xio) fd state (fs_events st OR events))
         (\<lambda>(rc, p).
       let xio = xio\<lparr>xio_xp := p\<rparr>
       in if rc then
            and_then (if created then
                and_then (htable_delete int_ops (xio_delete_mem m) (fd_state_table xio) (word_of_int fd))
                  (\<lambda>(d, freed, table).
                fh_xio_release_fd_state (xio\<lparr>fd_state_table := table\<rparr>) state)
              else Inr xio) (\<lambda>xio.
            and_then (fh_xio_prep_undo xio task slc) (\<lambda>xio. Inr (False, xio)))
          else
            and_then (aupd (fd_state_list xio) state (\<lambda>st. st\<lparr>fs_events := fs_events st OR events\<rparr>))
              (\<lambda>states. Inr (True, xio\<lparr>fd_state_list := states\<rparr>)))
     else Inr (True, xio))"

text \<open>Putting the task at the head of the state's queue.\<close>

definition fh_xio_prep_push :: "'p fh_xio \<Rightarrow> xio_request_prep_type \<Rightarrow> nat \<Rightarrow> nat \<Rightarrow> 'p fh_xio checked" where
  "fh_xio_prep_push xio prep_type state task =
     and_then (aget (fd_state_list xio) state) (\<lambda>st.
     let head = (case prep_type of XIO_PREP_IN \<Rightarrow> task_in_head st | XIO_PREP_OUT \<Rightarrow> task_out_head st);
         st = (case prep_type of XIO_PREP_IN \<Rightarrow> st\<lparr>task_in_head := Some task\<rparr>
                               | XIO_PREP_OUT \<Rightarrow> st\<lparr>task_out_head := Some task\<rparr>)
     in and_then (aupd (task_list xio) task (\<lambda>tk. tk\<lparr>tk_next := head\<rparr>)) (\<lambda>tasks.
        Inr (xio\<lparr>task_list := tasks, fd_state_list := (fd_state_list xio)[state := st]\<rparr>)))"

text \<open>The second half of a preparation: from the task to its place in the queue of the descriptor.\<close>

definition fh_xio_prep_attach ::
  "'p xpoll_ops \<Rightarrow> xio_mem \<Rightarrow> 'p fh_xio \<Rightarrow> xio_request_prep_type \<Rightarrow> fd \<Rightarrow> nat \<Rightarrow> nat option \<Rightarrow> (xio_request_prep \<times> 'p fh_xio) checked"
where
  "fh_xio_prep_attach ops m xio prep_type fd task slc =
     (let events = (case prep_type of XIO_PREP_IN \<Rightarrow> op_READ ops | XIO_PREP_OUT \<Rightarrow> op_WRITE ops)
      in and_then (fh_xio_prep_state ops m xio fd) (\<lambda>(found, xio).
         case found of
           None \<Rightarrow>
             and_then (fh_xio_prep_undo xio task slc) (\<lambda>xio. Inr (Not_prepared (Some ENOMEM), xio))
         | Some (state, created) \<Rightarrow>
             and_then (fh_xio_prep_watch ops m xio fd state created events task slc) (\<lambda>(goes_on, xio).
             if \<not> goes_on then Inr (Not_prepared None, xio)
             else and_then (fh_xio_prep_push xio prep_type state task) (\<lambda>xio.
               Inr (Prepared task slc, xio)))))"

definition fh_xio_request_prep_with_size ::
  "'p xpoll_ops \<Rightarrow> xio_mem \<Rightarrow> 'p fh_xio \<Rightarrow> fh_xio_op \<Rightarrow> xio_request_prep_type \<Rightarrow> fd \<Rightarrow> nat \<Rightarrow> nat option \<Rightarrow> nat \<Rightarrow>
   (xio_request_prep \<times> 'p fh_xio) checked"
where
  "fh_xio_request_prep_with_size ops m xio op prep_type fd udata buf nbytes =
     and_then (assert_that (buf \<noteq> None \<or> nbytes \<le> XIO_BUF_SIZE)) (\<lambda>_.
     and_then (fh_xio_acquire_task xio) (\<lambda>(task, xio).
     case task of
       None \<Rightarrow> Inr (Not_prepared (Some ENOMEM), xio)
     | Some t \<Rightarrow>
         and_then (fh_xio_prep_buffer xio t buf nbytes) (\<lambda>(buffer, xio).
         case buffer of
           None \<Rightarrow>
             and_then (fh_xio_release_task xio t) (\<lambda>xio. Inr (Not_prepared (Some ENOBUFS), xio))
         | Some slc \<Rightarrow>
             and_then (aupd (task_list xio) t (\<lambda>tk. tk\<lparr>tk_op := xio_op_code op, tk_udata := udata\<rparr>))
               (\<lambda>tasks. fh_xio_prep_attach ops m (xio\<lparr>task_list := tasks\<rparr>) prep_type fd t slc))))"

text \<open>\<open>errno\<close>, when nothing set it, is what the call found; \<open>None\<close> is 0.\<close>

definition fh_xio_errno :: "errno option \<Rightarrow> errno" where
  "fh_xio_errno err = (case err of Some e \<Rightarrow> e | None \<Rightarrow> ENOTRECOVERABLE)"

text \<open>\<open>None\<close> is the return value 0, \<open>Some e\<close> the return value \<open>-e\<close>.\<close>

definition fh_xio_request_recv ::
  "'p xpoll_ops \<Rightarrow> xio_mem \<Rightarrow> errno option \<Rightarrow> 'p fh_xio \<Rightarrow> nat \<Rightarrow> fd \<Rightarrow> nat option \<Rightarrow> nat \<Rightarrow> int \<Rightarrow>
   (errno option \<times> 'p fh_xio) checked"
where
  "fh_xio_request_recv ops m err xio udata fd buf nbytes flags =
     and_then (fh_xio_request_prep_with_size ops m xio XIO_OP_RECV XIO_PREP_IN fd udata buf nbytes)
       (\<lambda>(prep, xio).
     case prep of
       Not_prepared e \<Rightarrow> Inr (Some (fh_xio_errno (case e of Some _ \<Rightarrow> e | None \<Rightarrow> err)), xio)
     | Prepared t slc \<Rightarrow>
         and_then (case (buf, slc) of
             (Some b, _) \<Rightarrow> Inr (User_ptr b)
           | (None, Some i) \<Rightarrow> fh_xio_request_prep_slice_get_buffer xio i nbytes
           | (None, None) \<Rightarrow> Inl Out_of_bounds) (\<lambda>p.
         and_then (aupd (task_list xio) t (\<lambda>tk. tk\<lparr>tk_recv :=
             \<lparr>rv_fd = fd, rv_buf = Some p, rv_size = nbytes, rv_flags = flags\<rparr>\<rparr>)) (\<lambda>tasks.
         Inr (None, xio\<lparr>task_list := tasks\<rparr>))))"

section \<open>Waiting\<close>

text \<open>\<open>fh_xio_add_result\<close>: \<open>None\<close> when the results are full.\<close>

definition fh_xio_add_result ::
  "fh_xio_result list \<Rightarrow> fh_xio_result \<Rightarrow> nat \<Rightarrow> fh_xio_result list option"
where
  "fh_xio_add_result results result max_results =
     (if length results \<ge> max_results then None else Some (results @ [result]))"

definition xio_queue_head :: "xio_request_prep_type \<Rightarrow> xio_fd_state \<Rightarrow> nat option" where
  "xio_queue_head q st = (case q of XIO_PREP_IN \<Rightarrow> task_in_head st | XIO_PREP_OUT \<Rightarrow> task_out_head st)"

definition xio_set_queue_head ::
  "xio_request_prep_type \<Rightarrow> nat option \<Rightarrow> xio_fd_state \<Rightarrow> xio_fd_state"
where
  "xio_set_queue_head q h st =
     (case q of XIO_PREP_IN \<Rightarrow> st\<lparr>task_in_head := h\<rparr> | XIO_PREP_OUT \<Rightarrow> st\<lparr>task_out_head := h\<rparr>)"

text \<open>
  The loop that fails the tasks of a queue. Each round needs a free place in the results, so it ends.
  The flag says that the results are full, where the code leaves all loops.
\<close>

function fh_xio_fail_queue ::
  "xio_request_prep_type \<Rightarrow> nat \<Rightarrow> nat \<Rightarrow> 'p fh_xio \<Rightarrow> fh_xio_result list \<Rightarrow>
   (bool \<times> fh_xio_result list \<times> 'p fh_xio) checked"
where
  "fh_xio_fail_queue q state max_results xio results =
     and_then (aget (fd_state_list xio) state) (\<lambda>st.
     case xio_queue_head q st of
       None \<Rightarrow> Inr (False, results, xio)
     | Some t \<Rightarrow>
         and_then (aget (task_list xio) t) (\<lambda>tk.
         case fh_xio_add_result results
             \<lparr>res_op = ucast (tk_op tk), res_flags = XIO_TASK_F_INTERNAL_ERROR, res_res = -1, res_buf = None, res_udata = tk_udata tk\<rparr>
             max_results of
           None \<Rightarrow> Inr (True, results, xio)
         | Some results \<Rightarrow>
             and_then (fh_xio_release_task (xio\<lparr>fd_state_list :=
                 (fd_state_list xio)[state := xio_set_queue_head q (tk_next tk) st]\<rparr>) t) (\<lambda>xio.
             fh_xio_fail_queue q state max_results xio results)))"
  by pat_completeness auto
termination
  by (relation "measure (\<lambda>(q, state, max_results, xio, results). max_results - length results)")
    (auto simp: fh_xio_add_result_def split: if_splits)

declare fh_xio_fail_queue.simps [simp del]

text \<open>The loop over the events.\<close>

fun fh_xio_process_events ::
  "'p xpoll_ops \<Rightarrow> nat \<Rightarrow> (u32 \<times> nat) list \<Rightarrow> 'p fh_xio \<Rightarrow> fh_xio_result list \<Rightarrow> (fh_xio_result list \<times> 'p fh_xio) checked"
where
  "fh_xio_process_events ops max_results [] xio results = Inr (results, xio)"
| "fh_xio_process_events ops max_results ((bits, state) # events) xio results =
     (if bits AND op_ERROR ops \<noteq> 0 then
        and_then (fh_xio_fail_queue XIO_PREP_IN state max_results xio results)
          (\<lambda>(full, results, xio).
        if full then Inr (results, xio)
        else and_then (fh_xio_fail_queue XIO_PREP_OUT state max_results xio results)
          (\<lambda>(full, results, xio).
        if full then Inr (results, xio)
        else fh_xio_process_events ops max_results events xio results))
      else fh_xio_process_events ops max_results events xio results)"

text \<open>The timeout is converted to \<open>int\<close> by the call of \<open>xpoll_wait\<close>.\<close>

definition fh_xio_wait ::
  "'p xpoll_ops \<Rightarrow> 'p fh_xio \<Rightarrow> nat \<Rightarrow> u64 \<Rightarrow>
   (int \<times> errno option \<times> fh_xio_result list \<times> 'p fh_xio) checked"
where
  "fh_xio_wait ops xio max_results timeout_ms =
     (let max_results = MIN_VALUE max_results XIO_XPOLL_MAX_EVENTS
      in and_then (op_wait ops (xio_xp xio) (int max_results) (sint (ucast timeout_ms :: u32)))
           (\<lambda>(count, err, events, p).
         let xio = xio\<lparr>xio_xp := p\<rparr>
         in if count < 0 then Inr (count, err, [], xio)
            else and_then (fh_xio_process_events ops max_results events xio []) (\<lambda>(results, xio).
              Inr (int (length results), None, results, xio))))"

end
