(* ===== verification/Xio_Pool.thy ===== *)
theory Xio_Pool
  imports Xio "HOL-Library.Multiset"
begin

text \<open>
  The pools of \<open>xio_xpoll.c\<close>: the two stacks of free numbers, for tasks and for descriptor states,
  as one interface, and the slices with the buffer memory they hand out.
\<close>

section \<open>The interface of a stack of free numbers\<close>

text \<open>
  A client that takes numbers out of a pool and gives back numbers it holds: \<open>Give n\<close> gives back the
  \<open>n\<close>-th one it holds, if there is one.
\<close>

datatype pool_op = Take | Give nat

fun pool_run ::
  "('s \<Rightarrow> (nat option \<times> 's) checked) \<Rightarrow> ('s \<Rightarrow> nat \<Rightarrow> 's checked) \<Rightarrow> pool_op list \<Rightarrow> nat list \<Rightarrow> 's \<Rightarrow>
   (nat list \<times> 's) checked"
where
  "pool_run acquire release [] held s = Inr (held, s)"
| "pool_run acquire release (Take # ops) held s =
     and_then (acquire s) (\<lambda>(got, s).
     pool_run acquire release ops (case got of None \<Rightarrow> held | Some i \<Rightarrow> i # held) s)"
| "pool_run acquire release (Give n # ops) held s =
     (if n < length held then
        and_then (release s (held ! n)) (\<lambda>s. pool_run acquire release ops (remove1 (held ! n) held) s)
      else pool_run acquire release ops held s)"

locale stack_pool =
  fixes valid :: "'s \<Rightarrow> bool"
    and free :: "'s \<Rightarrow> nat list"
    and acquire :: "'s \<Rightarrow> (nat option \<times> 's) checked"
    and release :: "'s \<Rightarrow> nat \<Rightarrow> 's checked"
    and cap :: nat
  assumes acquire_empty: "valid s \<Longrightarrow> free s = [] \<Longrightarrow> acquire s = Inr (None, s)"
    and acquire_top: "valid s \<Longrightarrow> free s = i # is \<Longrightarrow>
      \<exists>s'. acquire s = Inr (Some i, s') \<and> valid s' \<and> free s' = is"
    and release_ok: "valid s \<Longrightarrow> i < cap \<Longrightarrow> i \<notin> set (free s) \<Longrightarrow>
      \<exists>s'. release s i = Inr s' \<and> valid s' \<and> free s' = i # free s"

context stack_pool begin

text \<open>No number is held twice, none is lost, and no call faults.\<close>

lemma run_partition:
  assumes "valid s" "mset (held @ free s) = mset [0 ..< cap]"
  shows "\<exists>held' s'. pool_run acquire release ops held s = Inr (held', s') \<and> valid s' \<and>
    mset (held' @ free s') = mset [0 ..< cap]"
  using assms
proof (induction ops arbitrary: held s)
  case Nil
  then show ?case by simp
next
  case (Cons op ops)
  show ?case
  proof (cases op)
    case Take
    show ?thesis
    proof (cases "free s")
      case Nil
      then show ?thesis using Cons acquire_empty Take by simp
    next
      case (Cons i rest)
      from acquire_top [OF Cons.prems(1) this] obtain s' where
        s': "acquire s = Inr (Some i, s')" "valid s'" "free s' = rest" by blast
      have "mset ((i # held) @ free s') = mset [0 ..< cap]" using Cons.prems(2) Cons s'(3) by simp
      from Cons.IH [OF s'(2) this] show ?thesis using Take s'(1) by simp
    qed
  next
    case (Give n)
    show ?thesis
    proof (cases "n < length held")
      case True
      let ?i = "held ! n"
      have held: "?i \<in> set held" using True by simp
      have d: "distinct (held @ free s)" using Cons.prems(2) by (metis distinct_upt mset_eq_imp_distinct_iff)
      have "set (held @ free s) = {0 ..< cap}" using Cons.prems(2) by (metis set_mset_mset set_upt)
      then have i: "?i < cap" "?i \<notin> set (free s)" using held d by auto
      from release_ok [OF Cons.prems(1) i] obtain s' where
        s': "release s ?i = Inr s'" "valid s'" "free s' = ?i # free s" by blast
      have "mset (remove1 ?i held @ free s') = mset (held @ free s)"
        using held by (simp add: s'(3))
      then have "mset (remove1 ?i held @ free s') = mset [0 ..< cap]" by (simp only: Cons.prems(2))
      from Cons.IH [OF s'(2) this] show ?thesis using Give True s'(1) by simp
    next
      case False
      then show ?thesis using Cons Give by simp
    qed
  qed
qed

end

section \<open>Arrays used as stacks\<close>

lemma stack_pop:
  assumes "rev (take tp xs) = i # is" "tp \<le> length xs"
  shows "0 < tp" "tp - 1 < length xs" "xs ! (tp - 1) = i" "rev (take (tp - 1) xs) = is"
proof -
  show t: "0 < tp" using assms by (cases tp) auto
  then show l: "tp - 1 < length xs" using assms(2) by simp
  have "take tp xs = take (tp - 1) xs @ [xs ! (tp - 1)]"
    using t l by (metis Suc_diff_1 take_Suc_conv_app_nth)
  then show "xs ! (tp - 1) = i" "rev (take (tp - 1) xs) = is" using assms(1) by simp_all
qed

lemma stack_push:
  assumes "tp < length xs"
  shows "rev (take (Suc tp) (xs[tp := i])) = i # rev (take tp xs)"
  using assms by (simp add: take_Suc_conv_app_nth)

lemma stack_not_full:
  assumes "distinct (take tp xs)" "set (take tp xs) \<subseteq> {..<n}" "i < n" "i \<notin> set (take tp xs)"
    "tp \<le> length xs"
  shows "tp < n"
proof -
  have "card (set (take tp xs)) = tp" using assms(1,5) by (simp add: distinct_card)
  moreover have "set (take tp xs) \<subset> {..<n}" using assms(2-4) by auto
  then have "card (set (take tp xs)) < card {..<n}" by (intro psubset_card_mono) auto
  ultimately show ?thesis by simp
qed

section \<open>Tasks\<close>

definition free_tasks :: "'p fh_xio \<Rightarrow> nat list" where
  "free_tasks xio = rev (take (free_task_list_top xio) (free_task_list xio))"

definition tasks_ok :: "'p fh_xio \<Rightarrow> bool" where
  "tasks_ok xio \<longleftrightarrow> length (task_list xio) = XIO_XPOLL_MAX_TASK_COUNT \<and>
     length (free_task_list xio) = XIO_XPOLL_MAX_TASK_COUNT \<and>
     free_task_list_top xio \<le> XIO_XPOLL_MAX_TASK_COUNT \<and>
     (\<forall>i < XIO_XPOLL_MAX_TASK_COUNT. tk_idx (task_list xio ! i) = i) \<and>
     distinct (free_tasks xio) \<and> set (free_tasks xio) \<subseteq> {..<XIO_XPOLL_MAX_TASK_COUNT}"

lemma acquire_task_empty:
  assumes "tasks_ok xio" "free_tasks xio = []"
  shows "fh_xio_acquire_task xio = Inr (None, xio)"
  using assms
  by (auto simp: fh_xio_acquire_task_def tasks_ok_def free_tasks_def XIO_XPOLL_MAX_TASK_COUNT_def)

lemma acquire_task_top:
  assumes "tasks_ok xio" "free_tasks xio = i # is"
  shows "fh_xio_acquire_task xio = Inr (Some i, xio\<lparr>free_task_list_top := free_task_list_top xio - 1\<rparr>)"
    "tasks_ok (xio\<lparr>free_task_list_top := free_task_list_top xio - 1\<rparr>)"
    "free_tasks (xio\<lparr>free_task_list_top := free_task_list_top xio - 1\<rparr>) = is"
proof -
  have "free_task_list_top xio \<le> length (free_task_list xio)" using assms(1) by (simp add: tasks_ok_def)
  note p = stack_pop [OF assms(2) [unfolded free_tasks_def] this]
  then show "fh_xio_acquire_task xio = Inr (Some i, xio\<lparr>free_task_list_top := free_task_list_top xio - 1\<rparr>)"
    by (simp add: fh_xio_acquire_task_def)
  show f: "free_tasks (xio\<lparr>free_task_list_top := free_task_list_top xio - 1\<rparr>) = is"
    using p by (simp add: free_tasks_def)
  show "tasks_ok (xio\<lparr>free_task_list_top := free_task_list_top xio - 1\<rparr>)"
    using assms f unfolding tasks_ok_def by auto
qed

lemma release_task_ok:
  assumes "tasks_ok xio" "i < XIO_XPOLL_MAX_TASK_COUNT" "i \<notin> set (free_tasks xio)"
  shows "\<exists>fl. let xio' = xio\<lparr>free_task_list := fl, free_task_list_top := free_task_list_top xio + 1\<rparr> in
    fh_xio_release_task xio i = Inr xio' \<and> tasks_ok xio' \<and> free_tasks xio' = i # free_tasks xio"
proof -
  let ?top = "free_task_list_top xio" and ?fl = "free_task_list xio"
  let ?xio = "xio\<lparr>free_task_list := ?fl[?top := i], free_task_list_top := ?top + 1\<rparr>"
  have ok: "length (task_list xio) = XIO_XPOLL_MAX_TASK_COUNT" "length ?fl = XIO_XPOLL_MAX_TASK_COUNT"
    "?top \<le> XIO_XPOLL_MAX_TASK_COUNT" "tk_idx (task_list xio ! i) = i"
    using assms(1,2) by (simp_all add: tasks_ok_def)
  have top: "?top < XIO_XPOLL_MAX_TASK_COUNT"
    using assms ok by (intro stack_not_full [of ?top ?fl _ i]) (auto simp: tasks_ok_def free_tasks_def)
  have "fh_xio_release_task xio i = Inr ?xio"
    using top ok assms(2) by (simp add: fh_xio_release_task_def)
  moreover have f: "free_tasks ?xio = i # free_tasks xio"
    using top ok by (simp add: free_tasks_def stack_push)
  moreover have "tasks_ok ?xio" using assms top f unfolding tasks_ok_def by auto
  ultimately show ?thesis unfolding Let_def by blast
qed

interpretation tasks: stack_pool tasks_ok free_tasks fh_xio_acquire_task fh_xio_release_task
  XIO_XPOLL_MAX_TASK_COUNT
proof
  fix s i "is"
  assume "tasks_ok s" "free_tasks s = i # is"
  from acquire_task_top [OF this]
  show "\<exists>s'. fh_xio_acquire_task s = Inr (Some i, s') \<and> tasks_ok s' \<and> free_tasks s' = is" by blast
next
  fix s i
  assume "tasks_ok s" "i < XIO_XPOLL_MAX_TASK_COUNT" "i \<notin> set (free_tasks s)"
  from release_task_ok [OF this]
  show "\<exists>s'. fh_xio_release_task s i = Inr s' \<and> tasks_ok s' \<and> free_tasks s' = i # free_tasks s"
    by (auto simp: Let_def)
qed (rule acquire_task_empty)

section \<open>Descriptor states\<close>

definition free_states :: "'p fh_xio \<Rightarrow> nat list" where
  "free_states xio = rev (take (free_fd_state_list_top xio) (free_fd_state_list xio))"

definition states_ok :: "'p fh_xio \<Rightarrow> bool" where
  "states_ok xio \<longleftrightarrow> length (fd_state_list xio) = XIO_XPOLL_MAX_TASK_COUNT \<and>
     length (free_fd_state_list xio) = XIO_XPOLL_MAX_TASK_COUNT \<and>
     free_fd_state_list_top xio \<le> XIO_XPOLL_MAX_TASK_COUNT \<and>
     (\<forall>i < XIO_XPOLL_MAX_TASK_COUNT. fs_idx (fd_state_list xio ! i) = i) \<and>
     distinct (free_states xio) \<and> set (free_states xio) \<subseteq> {..<XIO_XPOLL_MAX_TASK_COUNT}"

lemma acquire_state_empty:
  assumes "states_ok xio" "free_states xio = []"
  shows "fh_xio_acquire_fd_state xio = Inr (None, xio)"
  using assms
  by (auto simp: fh_xio_acquire_fd_state_def states_ok_def free_states_def XIO_XPOLL_MAX_TASK_COUNT_def)

lemma acquire_state_top:
  assumes "states_ok xio" "free_states xio = i # is"
  shows "fh_xio_acquire_fd_state xio =
      Inr (Some i, xio\<lparr>free_fd_state_list_top := free_fd_state_list_top xio - 1\<rparr>)"
    "states_ok (xio\<lparr>free_fd_state_list_top := free_fd_state_list_top xio - 1\<rparr>)"
    "free_states (xio\<lparr>free_fd_state_list_top := free_fd_state_list_top xio - 1\<rparr>) = is"
proof -
  have "free_fd_state_list_top xio \<le> length (free_fd_state_list xio)" using assms(1) by (simp add: states_ok_def)
  note p = stack_pop [OF assms(2) [unfolded free_states_def] this]
  then show "fh_xio_acquire_fd_state xio =
      Inr (Some i, xio\<lparr>free_fd_state_list_top := free_fd_state_list_top xio - 1\<rparr>)"
    by (simp add: fh_xio_acquire_fd_state_def)
  show f: "free_states (xio\<lparr>free_fd_state_list_top := free_fd_state_list_top xio - 1\<rparr>) = is"
    using p by (simp add: free_states_def)
  show "states_ok (xio\<lparr>free_fd_state_list_top := free_fd_state_list_top xio - 1\<rparr>)"
    using assms f unfolding states_ok_def by auto
qed

lemma release_state_ok:
  assumes "states_ok xio" "i < XIO_XPOLL_MAX_TASK_COUNT" "i \<notin> set (free_states xio)"
  shows "\<exists>fl. let xio' = xio\<lparr>free_fd_state_list := fl, free_fd_state_list_top := free_fd_state_list_top xio + 1\<rparr> in
    fh_xio_release_fd_state xio i = Inr xio' \<and> states_ok xio' \<and> free_states xio' = i # free_states xio"
proof -
  let ?top = "free_fd_state_list_top xio" and ?fl = "free_fd_state_list xio"
  let ?xio = "xio\<lparr>free_fd_state_list := ?fl[?top := i], free_fd_state_list_top := ?top + 1\<rparr>"
  have ok: "length (fd_state_list xio) = XIO_XPOLL_MAX_TASK_COUNT" "length ?fl = XIO_XPOLL_MAX_TASK_COUNT"
    "?top \<le> XIO_XPOLL_MAX_TASK_COUNT" "fs_idx (fd_state_list xio ! i) = i"
    using assms(1,2) by (simp_all add: states_ok_def)
  have top: "?top < XIO_XPOLL_MAX_TASK_COUNT"
    using assms ok by (intro stack_not_full [of ?top ?fl _ i]) (auto simp: states_ok_def free_states_def)
  have "fh_xio_release_fd_state xio i = Inr ?xio"
    using top ok assms(2) by (simp add: fh_xio_release_fd_state_def)
  moreover have f: "free_states ?xio = i # free_states xio"
    using top ok by (simp add: free_states_def stack_push)
  moreover have "states_ok ?xio" using assms top f unfolding states_ok_def by auto
  ultimately show ?thesis unfolding Let_def by blast
qed

interpretation states: stack_pool states_ok free_states fh_xio_acquire_fd_state fh_xio_release_fd_state
  XIO_XPOLL_MAX_TASK_COUNT
proof
  fix s i "is"
  assume "states_ok s" "free_states s = i # is"
  from acquire_state_top [OF this]
  show "\<exists>s'. fh_xio_acquire_fd_state s = Inr (Some i, s') \<and> states_ok s' \<and> free_states s' = is" by blast
next
  fix s i
  assume "states_ok s" "i < XIO_XPOLL_MAX_TASK_COUNT" "i \<notin> set (free_states s)"
  from release_state_ok [OF this]
  show "\<exists>s'. fh_xio_release_fd_state s i = Inr s' \<and> states_ok s' \<and> free_states s' = i # free_states s"
    by (auto simp: Let_def)
qed (rule acquire_state_empty)

end
