(* ===== verification/Xio_Slice.thy ===== *)
theory Xio_Slice
  imports Xio_Pool
begin

text \<open>
  The slices: which part of the buffer memory is handed out, that no byte of it is handed out twice,
  and what giving a slice back does.
\<close>

definition slices_ok :: "'p fh_xio \<Rightarrow> bool" where
  "slices_ok xio \<longleftrightarrow> length (buf_list xio) = XIO_BUF_COUNT \<and> length (free_buf_list xio) = XIO_BUF_COUNT \<and>
     free_buf_list_top xio \<le> XIO_BUF_COUNT \<and>
     (\<forall>i < XIO_BUF_COUNT. sl_bid (buf_list xio ! i) = i \<and> sl_buf (buf_list xio ! i) = i * XIO_BUF_SIZE \<and>
        sl_off (buf_list xio ! i) \<le> XIO_BUF_SIZE) \<and>
     (\<forall>k < free_buf_list_top xio. free_buf_list xio ! k < XIO_BUF_COUNT)"

definition listed_slices :: "'p fh_xio \<Rightarrow> nat set" where
  "listed_slices xio = set (take (free_buf_list_top xio) (free_buf_list xio))"

text \<open>The bytes of a buffer, and the bytes handed out, as distances from \<open>mem_base\<close>.\<close>

definition buffer_bytes :: "nat \<Rightarrow> nat \<Rightarrow> nat set" where
  "buffer_bytes p n = {p ..< p + n}"

definition used_bytes :: "'p fh_xio \<Rightarrow> nat set" where
  "used_bytes xio = (\<Union>i < XIO_BUF_COUNT. buffer_bytes (i * XIO_BUF_SIZE) (sl_off (buf_list xio ! i)))"

definition slice_taken :: "nat \<Rightarrow> xio_slice \<Rightarrow> xio_slice" where
  "slice_taken n sl = sl\<lparr>sl_off := sl_off sl + n, sl_refs := sl_refs sl + 1\<rparr>"

lemma slice_loop:
  assumes ok: "slices_ok xio" and n: "n \<le> free_buf_list_top xio"
  shows "(fh_xio_acquire_slice_loop xio m n = Inr (None, xio) \<and>
      (\<forall>k < n. XIO_BUF_SIZE < sl_off (buf_list xio ! (free_buf_list xio ! k)) + m)) \<or>
    (\<exists>i fl tp. i < XIO_BUF_COUNT \<and> i \<in> listed_slices xio \<and> sl_off (buf_list xio ! i) + m \<le> XIO_BUF_SIZE \<and>
      fh_xio_acquire_slice_loop xio m n = Inr (Some i, xio\<lparr>buf_list := (buf_list xio)
        [i := slice_taken m (buf_list xio ! i)], free_buf_list := fl, free_buf_list_top := tp\<rparr>) \<and>
      length fl = XIO_BUF_COUNT \<and> tp \<le> free_buf_list_top xio \<and> (\<forall>k < tp. fl ! k < XIO_BUF_COUNT) \<and>
      (sl_off (buf_list xio ! i) + m < XIO_BUF_SIZE \<longrightarrow> tp = free_buf_list_top xio \<and> fl = free_buf_list xio))"
  using n
proof (induction n)
  case 0
  then show ?case by simp
next
  case (Suc n)
  let ?idx = "free_buf_list xio ! n"
  let ?sl = "buf_list xio ! ?idx"
  have n: "n < XIO_BUF_COUNT" "n < free_buf_list_top xio" "free_buf_list_top xio \<le> XIO_BUF_COUNT"
    and len: "length (buf_list xio) = XIO_BUF_COUNT" "length (free_buf_list xio) = XIO_BUF_COUNT"
    using ok Suc.prems by (auto simp: slices_ok_def)
  have listed: "\<forall>k < free_buf_list_top xio. free_buf_list xio ! k < XIO_BUF_COUNT"
    using ok by (simp add: slices_ok_def)
  then have idx: "?idx < XIO_BUF_COUNT" using n by simp
  have mem: "?idx \<in> listed_slices xio"
    unfolding listed_slices_def in_set_conv_nth using n len by (intro exI [of _ n]) simp
  show ?case
  proof (cases "sl_off ?sl + m > XIO_BUF_SIZE")
    case True
    then have "fh_xio_acquire_slice_loop xio m (Suc n) = fh_xio_acquire_slice_loop xio m n"
      using n idx len by simp
    then show ?thesis using Suc True by (auto simp: less_Suc_eq)
  next
    case False
    have w: "w32 (sl_off ?sl + m) = sl_off ?sl + m"
      using False by (simp add: w32_def XIO_BUF_SIZE_def)
    let ?bl = "(buf_list xio)[?idx := slice_taken m ?sl]"
    show ?thesis
    proof (cases "sl_off ?sl + m = XIO_BUF_SIZE")
      case full: True
      let ?tp = "free_buf_list_top xio - 1"
      let ?fl = "(free_buf_list xio)[n := free_buf_list xio ! ?tp]"
      have run: "fh_xio_acquire_slice_loop xio m (Suc n) = Inr (Some ?idx,
          xio\<lparr>buf_list := ?bl, free_buf_list := ?fl, free_buf_list_top := ?tp\<rparr>)"
        using False full w n idx len by (simp add: Let_def slice_taken_def)
      have "\<forall>k < ?tp. ?fl ! k < XIO_BUF_COUNT" using listed n by (simp add: nth_update_if)
      then show ?thesis using run False full idx mem len
        by (intro disjI2 exI [of _ ?idx] exI [of _ ?fl] exI [of _ ?tp]) simp
    next
      case more: False
      have run: "fh_xio_acquire_slice_loop xio m (Suc n) = Inr (Some ?idx,
          xio\<lparr>buf_list := ?bl, free_buf_list := free_buf_list xio,
              free_buf_list_top := free_buf_list_top xio\<rparr>)"
        using False more w n idx len by (simp add: Let_def slice_taken_def)
      then show ?thesis using False idx mem len listed
        by (intro disjI2 exI [of _ ?idx] exI [of _ "free_buf_list xio"] exI [of _ "free_buf_list_top xio"]) simp
    qed
  qed
qed

text \<open>One slice taken: its bytes are new.\<close>

lemma used_bytes_taken:
  assumes ok: "slices_ok xio" and i: "i < XIO_BUF_COUNT" "sl_off (buf_list xio ! i) + n \<le> XIO_BUF_SIZE"
  defines "new \<equiv> buffer_bytes (i * XIO_BUF_SIZE + sl_off (buf_list xio ! i)) n"
  shows "used_bytes (xio\<lparr>buf_list := (buf_list xio)[i := slice_taken n (buf_list xio ! i)],
      free_buf_list := fl, free_buf_list_top := tp\<rparr>) = used_bytes xio \<union> new"
    and "used_bytes xio \<inter> new = {}" and "new \<subseteq> {..<XIO_BUF_COUNT * XIO_BUF_SIZE}"
proof -
  let ?off = "\<lambda>i. sl_off (buf_list xio ! i)"
  let ?part = "\<lambda>off i. buffer_bytes (i * XIO_BUF_SIZE) (off i)"
  let ?off' = "?off(i := ?off i + n)"
  have len: "length (buf_list xio) = XIO_BUF_COUNT" and "\<forall>j < XIO_BUF_COUNT. ?off j \<le> XIO_BUF_SIZE"
    using ok by (simp_all add: slices_ok_def)
  note off = this(2) [rule_format]
  have "sl_off ((buf_list xio)[i := slice_taken n (buf_list xio ! i)] ! j) = ?off' j"
    if "j < XIO_BUF_COUNT" for j
    using that len by (simp add: nth_update_if slice_taken_def)
  then have "used_bytes (xio\<lparr>buf_list := (buf_list xio)[i := slice_taken n (buf_list xio ! i)],
      free_buf_list := fl, free_buf_list_top := tp\<rparr>) = (\<Union>j < XIO_BUF_COUNT. ?part ?off' j)"
    by (simp add: used_bytes_def)
  also have "\<dots> = (\<Union>j < XIO_BUF_COUNT. ?part ?off j \<union> (if j = i then new else {}))"
    by (intro SUP_cong refl) (auto simp: buffer_bytes_def new_def)
  also have "\<dots> = used_bytes xio \<union> new"
    using i(1) by (auto simp: used_bytes_def split: if_splits)
  finally show "used_bytes (xio\<lparr>buf_list := (buf_list xio)[i := slice_taken n (buf_list xio ! i)],
      free_buf_list := fl, free_buf_list_top := tp\<rparr>) = used_bytes xio \<union> new" .
  have "?part ?off j \<inter> new = {}" if j: "j < XIO_BUF_COUNT" for j
  proof (cases "j = i")
    case True
    then show ?thesis by (auto simp: buffer_bytes_def new_def)
  next
    case False
    have "Suc j * XIO_BUF_SIZE \<le> i * XIO_BUF_SIZE \<or> Suc i * XIO_BUF_SIZE \<le> j * XIO_BUF_SIZE"
      using False by (metis Suc_leI linorder_neqE_nat mult_le_mono1)
    then show ?thesis using off [OF j] i(2) by (auto simp: buffer_bytes_def new_def)
  qed
  then show "used_bytes xio \<inter> new = {}" by (auto simp: used_bytes_def)
  have "Suc i * XIO_BUF_SIZE \<le> XIO_BUF_COUNT * XIO_BUF_SIZE" using i(1) by (intro mult_le_mono1) simp
  then show "new \<subseteq> {..<XIO_BUF_COUNT * XIO_BUF_SIZE}" using i(2) by (auto simp: buffer_bytes_def new_def)
qed

text \<open>The outcome of an acquisition.\<close>

definition slice_outcome :: "'p fh_xio \<Rightarrow> nat \<Rightarrow> nat option \<Rightarrow> 'p fh_xio \<Rightarrow> bool" where
  "slice_outcome xio n got xio' \<longleftrightarrow>
     (case got of
        None \<Rightarrow> xio' = xio \<and> (\<forall>i \<in> listed_slices xio. XIO_BUF_SIZE < sl_off (buf_list xio ! i) + n)
      | Some i \<Rightarrow> i < XIO_BUF_COUNT \<and> i \<in> listed_slices xio \<and>
          (\<exists>p. fh_xio_request_prep_slice_get_buffer xio' i n = Inr (Pool_ptr p) \<and>
             used_bytes xio' = used_bytes xio \<union> buffer_bytes p n \<and> used_bytes xio \<inter> buffer_bytes p n = {} \<and>
             buffer_bytes p n \<subseteq> {..<XIO_BUF_COUNT * XIO_BUF_SIZE}))"

definition same_but_slices :: "'p fh_xio \<Rightarrow> 'p fh_xio \<Rightarrow> bool" where
  "same_but_slices xio xio' \<longleftrightarrow> (\<exists>bl fl tp. xio' = xio\<lparr>buf_list := bl, free_buf_list := fl, free_buf_list_top := tp\<rparr>)"

lemma acquire_slice_correct:
  assumes ok: "slices_ok xio" and n: "n \<le> XIO_BUF_SIZE"
  shows "\<exists>got xio'. fh_xio_acquire_slice xio n = Inr (got, xio') \<and> slices_ok xio' \<and>
    same_but_slices xio xio' \<and> slice_outcome xio n got xio'"
proof -
  have run: "fh_xio_acquire_slice xio n = fh_xio_acquire_slice_loop xio n (free_buf_list_top xio)"
    using n by (simp add: fh_xio_acquire_slice_def)
  have len: "length (buf_list xio) = XIO_BUF_COUNT" using ok by (simp add: slices_ok_def)
  from slice_loop [OF ok order_refl, of n] show ?thesis
  proof (elim disjE exE conjE)
    assume "fh_xio_acquire_slice_loop xio n (free_buf_list_top xio) = Inr (None, xio)"
      and short: "\<forall>k < free_buf_list_top xio. XIO_BUF_SIZE < sl_off (buf_list xio ! (free_buf_list xio ! k)) + n"
    moreover have "\<forall>i \<in> listed_slices xio. XIO_BUF_SIZE < sl_off (buf_list xio ! i) + n"
      using short by (auto simp: listed_slices_def in_set_conv_nth)
    moreover have "same_but_slices xio xio"
      unfolding same_but_slices_def
      by (intro exI [of _ "buf_list xio"] exI [of _ "free_buf_list xio"] exI [of _ "free_buf_list_top xio"]) simp
    ultimately show ?thesis using run ok by (auto simp: slice_outcome_def)
  next
    fix i fl tp
    let ?sl = "buf_list xio ! i"
    let ?xio = "xio\<lparr>buf_list := (buf_list xio)[i := slice_taken n ?sl], free_buf_list := fl,
      free_buf_list_top := tp\<rparr>"
    assume i: "i < XIO_BUF_COUNT" "i \<in> listed_slices xio" "sl_off ?sl + n \<le> XIO_BUF_SIZE"
      and res: "fh_xio_acquire_slice_loop xio n (free_buf_list_top xio) = Inr (Some i, ?xio)"
      and fl: "length fl = XIO_BUF_COUNT" "tp \<le> free_buf_list_top xio" "\<forall>k < tp. fl ! k < XIO_BUF_COUNT"
    have "slices_ok ?xio"
      using ok i fl unfolding slices_ok_def by (auto simp: nth_update_if slice_taken_def)
    moreover have "same_but_slices xio ?xio" unfolding same_but_slices_def by blast
    moreover have "fh_xio_request_prep_slice_get_buffer ?xio i n =
        Inr (Pool_ptr (i * XIO_BUF_SIZE + sl_off ?sl))"
      using n i ok len
      by (simp add: fh_xio_request_prep_slice_get_buffer_def slice_taken_def w32_def XIO_BUF_SIZE_def slices_ok_def)
    then have "slice_outcome xio n (Some i) ?xio"
      unfolding slice_outcome_def using i used_bytes_taken [OF ok i(1,3)] by auto
    ultimately show ?thesis using run res by auto
  qed
qed

text \<open>Releasing a slice fails an assertion or keeps the pool well-formed.\<close>

lemma release_slice_correct:
  assumes ok: "slices_ok xio" and i: "i < XIO_BUF_COUNT"
  shows "or_aborts True (fh_xio_release_slice xio i) (\<lambda>xio'. slices_ok xio' \<and> same_but_slices xio xio')"
proof (cases "free_buf_list_top xio < XIO_BUF_COUNT \<and> 0 < sl_refs (buf_list xio ! i)")
  case False
  then have "fh_xio_release_slice xio i = Inl Assertion_failed"
    using ok i by (cases "free_buf_list_top xio < XIO_BUF_COUNT") (simp_all add: fh_xio_release_slice_def slices_ok_def)
  then show ?thesis by (simp add: or_aborts_def)
next
  case True
  let ?sl = "buf_list xio ! i"
  let ?one = "xio\<lparr>buf_list := (buf_list xio)[i := ?sl\<lparr>sl_refs := sl_refs ?sl - 1\<rparr>]\<rparr>"
  let ?all = "xio\<lparr>buf_list := (buf_list xio)[i := ?sl\<lparr>sl_refs := sl_refs ?sl - 1, sl_off := 0\<rparr>],
    free_buf_list := (free_buf_list xio)[free_buf_list_top xio := i], free_buf_list_top := free_buf_list_top xio + 1\<rparr>"
  have "fh_xio_release_slice xio i = Inr (if sl_refs ?sl - 1 \<noteq> 0 then ?one else ?all)"
    using ok i True by (simp add: fh_xio_release_slice_def slices_ok_def Let_def)
  moreover have "slices_ok ?one" "slices_ok ?all"
    using ok i True by (auto simp: slices_ok_def nth_update_if)
  moreover have "same_but_slices xio ?one" "same_but_slices xio ?all"
    unfolding same_but_slices_def
    by (intro exI [of _ "(buf_list xio)[i := ?sl\<lparr>sl_refs := sl_refs ?sl - 1\<rparr>]"] exI [of _ "free_buf_list xio"]
        exI [of _ "free_buf_list_top xio"], simp) blast
  ultimately show ?thesis by (simp only: or_aborts_simps(1) split: if_split) blast
qed

text \<open>Releasing while no slice has left the free list fails the first assertion.\<close>

lemma release_slice_full_list:
  "free_buf_list_top xio = XIO_BUF_COUNT \<Longrightarrow> fh_xio_release_slice xio i = Inl Assertion_failed"
  by (simp add: fh_xio_release_slice_def)

lemma acquire_part_then_release:
  assumes ok: "slices_ok xio" and top: "free_buf_list_top xio = XIO_BUF_COUNT" and n: "n < XIO_BUF_SIZE"
    and fresh: "\<forall>i \<in> listed_slices xio. sl_off (buf_list xio ! i) = 0"
  shows "\<exists>i xio'. fh_xio_acquire_slice xio n = Inr (Some i, xio') \<and> slices_ok xio' \<and>
    same_but_slices xio xio' \<and> free_buf_list_top xio' = XIO_BUF_COUNT"
proof -
  have run: "fh_xio_acquire_slice xio n = fh_xio_acquire_slice_loop xio n (free_buf_list_top xio)"
    using n by (simp add: fh_xio_acquire_slice_def)
  have "free_buf_list xio ! 0 \<in> listed_slices xio"
    unfolding listed_slices_def in_set_conv_nth using ok top
    by (intro exI [of _ 0]) (simp add: slices_ok_def XIO_BUF_COUNT_def)
  then have room: "\<not> (\<forall>k < free_buf_list_top xio. XIO_BUF_SIZE < sl_off (buf_list xio ! (free_buf_list xio ! k)) + n)"
    using fresh n top by (intro notI) (auto simp: XIO_BUF_COUNT_def dest!: spec [of _ 0])
  obtain got xio' where a: "fh_xio_acquire_slice xio n = Inr (got, xio')" "slices_ok xio'" "same_but_slices xio xio'"
    using acquire_slice_correct [OF ok, of n] n by auto
  with slice_loop [OF ok order_refl, of n] run room fresh n top show ?thesis by auto
qed

end
