(* ===== verification/Xio_Inv.thy ===== *)
theory Xio_Inv
  imports Xio_Slice Htable_Map
begin

text \<open>
  The invariant of an instance: every task is free or queued on exactly one descriptor state, the
  table of descriptors and the pool of states agree, and every registration names a state. A
  function \<open>q\<close> gives the tasks of the two queues of each state.
\<close>

section \<open>Queues\<close>

fun task_chain :: "xio_task list \<Rightarrow> nat option \<Rightarrow> nat list \<Rightarrow> bool" where
  "task_chain ts h [] \<longleftrightarrow> h = None"
| "task_chain ts h (t # l) \<longleftrightarrow> h = Some t \<and> t < length ts \<and> task_chain ts (tk_next (ts ! t)) l"

type_synonym xio_queues = "nat \<Rightarrow> xio_request_prep_type \<Rightarrow> nat list"

definition both_queues :: "xio_queues \<Rightarrow> nat \<Rightarrow> nat list" where
  "both_queues q s = q s XIO_PREP_IN @ q s XIO_PREP_OUT"

definition queued :: "xio_queues \<Rightarrow> nat list" where
  "queued q = concat (map (both_queues q) [0 ..< XIO_XPOLL_MAX_TASK_COUNT])"

lemma task_chain_cong:
  "(\<And>t. t \<in> set l \<Longrightarrow> t < length ts \<Longrightarrow> t < length ts' \<and> tk_next (ts' ! t) = tk_next (ts ! t)) \<Longrightarrow>
    task_chain ts h l \<Longrightarrow> task_chain ts' h l"
  by (induction ts h l rule: task_chain.induct) auto

lemma task_chain_update:
  assumes "task_chain ts h l" "t \<notin> set l"
  shows "task_chain (ts[t := tk]) h l"
  by (rule task_chain_cong [OF _ assms(1)]) (use assms(2) in \<open>auto simp: nth_update_if\<close>)

lemma task_chain_bound: "task_chain ts h l \<Longrightarrow> set l \<subseteq> {..<length ts}"
  by (induction ts h l rule: task_chain.induct) auto

lemma set_queued: "set (queued q) = (\<Union>s < XIO_XPOLL_MAX_TASK_COUNT. \<Union>p. set (q s p))"
proof -
  have "(\<Union>p. set (q s p)) = set (both_queues q s)" for s
    by (auto simp: both_queues_def) (metis (full_types) xio_request_prep_type.exhaust)
  then show ?thesis by (simp add: queued_def lessThan_atLeast0)
qed

lemma mset_queued: "mset (queued q) = (\<Sum>s < XIO_XPOLL_MAX_TASK_COUNT. mset (both_queues q s))"
proof -
  have "mset (concat (map g xs)) = (\<Sum>s \<leftarrow> xs. mset (g s))" for g :: "nat \<Rightarrow> nat list" and xs
    by (induction xs) simp_all
  then show ?thesis by (simp add: queued_def interv_sum_list_conv_sum_set_nat lessThan_atLeast0)
qed

text \<open>Changing one queue.\<close>

lemma mset_queued_update:
  assumes "s < XIO_XPOLL_MAX_TASK_COUNT"
  shows "mset (queued (q(s := (q s)(p := l)))) + mset (q s p) = mset (queued q) + mset l"
proof -
  let ?q = "q(s := (q s)(p := l))" and ?I = "{..<XIO_XPOLL_MAX_TASK_COUNT}"
  have b: "mset (both_queues ?q s) + mset (q s p) = mset (both_queues q s) + mset l"
    by (cases p) (simp_all add: both_queues_def)
  have sum: "(\<Sum>i \<in> ?I. mset (both_queues q' i)) = mset (both_queues q' s) + (\<Sum>i \<in> ?I - {s}. mset (both_queues q' i))"
    for q' using assms by (intro sum.remove) auto
  have rest: "(\<Sum>i \<in> ?I - {s}. mset (both_queues ?q i)) = (\<Sum>i \<in> ?I - {s}. mset (both_queues q i))"
    by (intro sum.cong refl) (simp add: both_queues_def)
  show ?thesis unfolding mset_queued sum [of ?q] sum [of q] rest using b by (simp add: ac_simps)
qed

section \<open>The invariant\<close>

definition queues_ok :: "xio_queues \<Rightarrow> 'p fh_xio \<Rightarrow> bool" where
  "queues_ok q xio \<longleftrightarrow> (\<forall>s < XIO_XPOLL_MAX_TASK_COUNT. \<forall>p.
     task_chain (task_list xio) (xio_queue_head p (fd_state_list xio ! s)) (q s p))"

text \<open>\<open>held\<close> are tasks a request under way has taken.\<close>

definition tasks_shared :: "nat list \<Rightarrow> xio_queues \<Rightarrow> 'p fh_xio \<Rightarrow> bool" where
  "tasks_shared held q xio \<longleftrightarrow> tasks_ok xio \<and> queues_ok q xio \<and>
     mset (held @ free_tasks xio @ queued q) = mset [0 ..< XIO_XPOLL_MAX_TASK_COUNT]"

definition state_key :: "'p fh_xio \<Rightarrow> nat \<Rightarrow> u64" where
  "state_key xio s = word_of_int (fs_fd (fd_state_list xio ! s))"

definition table_ok :: "'p fh_xio \<Rightarrow> bool" where
  "table_ok xio \<longleftrightarrow> ht_inv int_ops (fd_state_table xio) \<and>
     (\<forall>k d. map_of (ht_alist (fd_state_table xio)) k = Some d \<longleftrightarrow>
       (\<exists>s < XIO_XPOLL_MAX_TASK_COUNT. s \<notin> set (free_states xio) \<and> k = state_key xio s \<and> d = Some s))"

definition watched_ok :: "'p xpoll_view \<Rightarrow> 'p fh_xio \<Rightarrow> bool" where
  "watched_ok V xio \<longleftrightarrow> xv_ready V (xio_xp xio) \<and>
     snd ` xv_watches V (xio_xp xio) \<subseteq> {..<XIO_XPOLL_MAX_TASK_COUNT}"

definition xio_inv :: "'p xpoll_view \<Rightarrow> nat list \<Rightarrow> xio_queues \<Rightarrow> 'p fh_xio \<Rightarrow> bool" where
  "xio_inv V held q xio \<longleftrightarrow> tasks_shared held q xio \<and> states_ok xio \<and> slices_ok xio \<and> table_ok xio \<and>
     watched_ok V xio \<and> (\<forall>s \<in> set (free_states xio). \<forall>p. q s p = [])"

definition xio_ok :: "'p xpoll_view \<Rightarrow> 'p fh_xio \<Rightarrow> bool" where
  "xio_ok V xio \<longleftrightarrow> (\<exists>q. xio_inv V [] q xio)"

text \<open>The state of a descriptor, and the tasks waiting on it.\<close>

definition xio_state :: "'p fh_xio \<Rightarrow> fd \<Rightarrow> nat option" where
  "xio_state xio fd = (case map_of (ht_alist (fd_state_table xio)) (word_of_int fd) of
     Some (Some s) \<Rightarrow> Some s | _ \<Rightarrow> None)"

fun task_walk :: "nat \<Rightarrow> xio_task list \<Rightarrow> nat option \<Rightarrow> nat list" where
  "task_walk 0 ts h = []"
| "task_walk (Suc n) ts h = (case h of None \<Rightarrow> [] | Some t \<Rightarrow> t # task_walk n ts (tk_next (ts ! t)))"

definition xio_queue :: "'p fh_xio \<Rightarrow> xio_request_prep_type \<Rightarrow> nat \<Rightarrow> nat list" where
  "xio_queue xio p s = task_walk XIO_XPOLL_MAX_TASK_COUNT (task_list xio)
     (xio_queue_head p (fd_state_list xio ! s))"

definition xio_pending :: "'p fh_xio \<Rightarrow> xio_request_prep_type \<Rightarrow> fd \<Rightarrow> nat list" where
  "xio_pending xio p fd = (case xio_state xio fd of None \<Rightarrow> [] | Some s \<Rightarrow> xio_queue xio p s)"

lemma task_walk_chain: "task_chain ts h l \<Longrightarrow> length l \<le> n \<Longrightarrow> task_walk n ts h = l"
proof (induction n arbitrary: h l)
  case (Suc n)
  then show ?case by (cases l) auto
qed simp

lemma shared_distinct:
  assumes "tasks_shared held q xio"
  shows "distinct (held @ free_tasks xio @ queued q)"
    "set (held @ free_tasks xio @ queued q) = {..<XIO_XPOLL_MAX_TASK_COUNT}"
proof -
  have m: "mset (held @ free_tasks xio @ queued q) = mset [0 ..< XIO_XPOLL_MAX_TASK_COUNT]"
    using assms by (simp add: tasks_shared_def)
  show "distinct (held @ free_tasks xio @ queued q)"
    using m by (metis distinct_upt mset_eq_imp_distinct_iff)
  show "set (held @ free_tasks xio @ queued q) = {..<XIO_XPOLL_MAX_TASK_COUNT}"
    using m by (metis set_mset_mset set_upt lessThan_atLeast0)
qed

lemma queue_short:
  assumes "tasks_shared held q xio" "s < XIO_XPOLL_MAX_TASK_COUNT"
  shows "length (q s p) \<le> XIO_XPOLL_MAX_TASK_COUNT"
proof -
  have "mset (q s p) \<subseteq># mset (both_queues q s)" by (cases p) (simp_all add: both_queues_def)
  also have "\<dots> \<subseteq># mset (queued q)"
    unfolding mset_queued using assms(2) by (simp add: sum.remove)
  also have "\<dots> \<subseteq># mset [0 ..< XIO_XPOLL_MAX_TASK_COUNT]"
    using assms(1) unfolding tasks_shared_def
    by (metis append_assoc mset_append mset_subset_eq_add_right)
  finally have "size (mset (q s p)) \<le> size (mset [0 ..< XIO_XPOLL_MAX_TASK_COUNT])"
    by (rule size_mset_mono)
  then show ?thesis by simp
qed

lemma xio_queue_eq:
  assumes "tasks_shared held q xio" "s < XIO_XPOLL_MAX_TASK_COUNT"
  shows "xio_queue xio p s = q s p"
  using assms queue_short [OF assms] unfolding xio_queue_def
  by (intro task_walk_chain) (simp_all add: tasks_shared_def queues_ok_def)

lemma table_state:
  assumes "table_ok xio"
  shows "map_of (ht_alist (fd_state_table xio)) (word_of_int fd) = map_option Some (xio_state xio fd)"
    and "xio_state xio fd = Some s \<longleftrightarrow>
      s < XIO_XPOLL_MAX_TASK_COUNT \<and> s \<notin> set (free_states xio) \<and> word_of_int fd = state_key xio s"
proof -
  let ?m = "map_of (ht_alist (fd_state_table xio)) (word_of_int fd)"
  have iff: "?m = Some d \<longleftrightarrow> (\<exists>s < XIO_XPOLL_MAX_TASK_COUNT. s \<notin> set (free_states xio) \<and>
      word_of_int fd = state_key xio s \<and> d = Some s)" for d
    using assms by (simp add: table_ok_def)
  show e: "?m = map_option Some (xio_state xio fd)"
  proof (cases ?m)
    case (Some a)
    then obtain s where "a = Some s" using iff [of a] by auto
    then show ?thesis using Some by (simp add: xio_state_def)
  qed (simp add: xio_state_def)
  have "xio_state xio fd = Some s \<longleftrightarrow> ?m = Some (Some s)" unfolding e by auto
  then show "xio_state xio fd = Some s \<longleftrightarrow>
      s < XIO_XPOLL_MAX_TASK_COUNT \<and> s \<notin> set (free_states xio) \<and> word_of_int fd = state_key xio s"
    unfolding iff by auto
qed

text \<open>There are as many descriptors in the table as states in use, so the table stays small.\<close>

lemma table_small:
  assumes "table_ok xio"
  shows "ht_count (fd_state_table xio) \<le> XIO_XPOLL_MAX_TASK_COUNT"
proof -
  let ?al = "ht_alist (fd_state_table xio)"
  have inv: "ht_inv int_ops (fd_state_table xio)" using assms by (simp add: table_ok_def)
  have "fst ` set ?al = dom (map_of ?al)" by (simp add: dom_map_of_conv_image_fst)
  also have "\<dots> \<subseteq> state_key xio ` {..<XIO_XPOLL_MAX_TASK_COUNT}"
    using assms by (auto simp: table_ok_def dom_def)
  finally have "card (fst ` set ?al) \<le> XIO_XPOLL_MAX_TASK_COUNT"
    by (metis card_image_le card_lessThan card_mono finite_imageI finite_lessThan le_trans)
  moreover have "card (set (map fst ?al)) = length (map fst ?al)"
    by (rule distinct_card [OF inv_distinct [OF inv]])
  ultimately show ?thesis using inv_count [OF inv] by simp
qed

end
