(* ===== verification/Xio_Request.thy ===== *)
theory Xio_Request
  imports Xio_Inv
begin

text \<open>Creation, and the receive request on a buffer of the caller.\<close>

section \<open>Creation\<close>

definition xio_new :: "'p xpoll_view \<Rightarrow> 'p fh_xio \<Rightarrow> bool" where
  "xio_new V xio \<longleftrightarrow> xio_inv V [] (\<lambda>_ _. []) xio \<and> free_tasks xio = rev [0 ..< XIO_XPOLL_MAX_TASK_COUNT] \<and>
     free_states xio = rev [0 ..< XIO_XPOLL_MAX_TASK_COUNT] \<and> free_buf_list_top xio = XIO_BUF_COUNT \<and>
     used_bytes xio = {} \<and> xv_watches V (xio_xp xio) = {} \<and> (\<forall>fd. xio_state xio fd = None)"

lemma slices_alloc_new:
  assumes "xv_ready V p" "xv_watches V p = {}"
    and "ht_holds int_ops 0 t (\<lambda>_. None)"
  shows "\<exists>xio. fh_xio_slices_alloc True (xio_zero p t) = (True, xio) \<and> xio_new V xio"
proof -
  obtain xio where x: "fh_xio_slices_alloc True (xio_zero p t) = (True, xio)"
    by (simp add: fh_xio_slices_alloc_def)
  note f = x [unfolded fh_xio_slices_alloc_def, simplified, symmetric]
  have free: "free_tasks xio = rev [0 ..< XIO_XPOLL_MAX_TASK_COUNT]" "free_states xio = rev [0 ..< XIO_XPOLL_MAX_TASK_COUNT]"
    unfolding f by (simp_all add: free_tasks_def free_states_def)
  have "queued (\<lambda>_ _. []) = []" by (simp add: queued_def both_queues_def)
  moreover have "tasks_ok xio"
    unfolding tasks_ok_def free by (simp add: f lessThan_atLeast0)
  moreover have "xio_queue_head pr (fd_state_list xio ! s) = None" if "s < XIO_XPOLL_MAX_TASK_COUNT" for s pr
    using that by (cases pr) (simp_all add: f xio_zero_def xio_queue_head_def)
  ultimately have "tasks_shared [] (\<lambda>_ _. []) xio"
    by (simp add: tasks_shared_def queues_ok_def free)
  moreover have "states_ok xio" unfolding states_ok_def free by (simp add: f lessThan_atLeast0)
  moreover have "slices_ok xio" by (simp add: slices_ok_def f xio_zero_def)
  moreover have "ht_inv int_ops t" "map_of (ht_alist t) = (\<lambda>_. None)"
    using assms(3) by (simp_all add: ht_holds_def)
  then have "table_ok xio" "\<forall>fd. xio_state xio fd = None"
    unfolding table_ok_def free xio_state_def by (simp_all add: f xio_zero_def)
  moreover have "watched_ok V xio" using assms(1,2) by (simp add: watched_ok_def f xio_zero_def)
  moreover have "used_bytes xio = {}" by (simp add: used_bytes_def f buffer_bytes_def)
  moreover have "free_buf_list_top xio = XIO_BUF_COUNT" "xio_xp xio = p" by (simp_all add: f xio_zero_def)
  ultimately have "xio_new V xio" using free assms(2) by (simp add: xio_new_def xio_inv_def)
  then show ?thesis using x by blast
qed

definition xio_grants :: "xio_mem \<Rightarrow> bool" where
  "xio_grants m \<longleftrightarrow> xio_calloc_ok m \<and> xio_mmap_ok m \<and> grants (xio_create_mem m) \<and> grants (xio_set_mem m) \<and> grants (xio_delete_mem m)"

lemma slices_alloc_xp: "fh_xio_slices_alloc ok (xio_zero p t) = (allocated, xio) \<Longrightarrow> xio_xp xio = p"
  by (auto simp: fh_xio_slices_alloc_def xio_zero_def split: if_splits)

context xpoll_backend begin

lemma fh_xio_create_correct:
  "\<exists>r. fh_xio_create ops m = Inr (Some r) \<and> 
    (xio_grants m \<and> op_create ops \<noteq> None \<longrightarrow> (\<exists>xio. r = Xio_created xio)) \<and>
    (\<forall>xio. r = Xio_created xio \<longrightarrow> xio_new V xio \<and> op_create ops = Some (xio_xp xio))"
proof (cases "xio_calloc_ok m")
  case False
  then show ?thesis by (simp add: fh_xio_create_def xio_grants_def)
next
  case c: True
  show ?thesis
  proof (cases "op_create ops")
    case None
    then show ?thesis using c
      by (simp add: fh_xio_create_def)
  next
    case (Some p)
    note p = create_law [OF Some, THEN conjunct1] create_law [OF Some, THEN conjunct2]
    have "(16::u64) \<ge> 2" "unat (16::u64) \<le> 2 ^ 32" by (simp_all add: word_le_nat_alt)
    from int_ht.create_holds [OF this, of "xio_create_mem m" 0] show ?thesis
    proof (elim disjE exE conjE)
      assume "htable_create (xio_create_mem m) 16 = Inr None"
      then show ?thesis using c Some htable_create_granted [of "xio_create_mem m" 16]
        by (auto simp: fh_xio_create_def xio_grants_def)
    next
      fix t
      assume t: "htable_create (xio_create_mem m) 16 = Inr (Some t)" "ht_holds int_ops 0 t (\<lambda>_. None)"
      show ?thesis
      proof (cases "xio_mmap_ok m")
        case True
        then show ?thesis using c Some t(1) slices_alloc_new [OF p t(2)]
          by (auto simp: fh_xio_create_def dest: slices_alloc_xp)
      next
        case False
        have "\<exists>rs. htable_free int_ops (Suc (ht_count t)) t = Inr (Some rs)"
          using t(2) htable_free_with_cleanup_correct [of int_ops t]
          by (fastforce simp: ht_holds_def ht_inv_def htable_free_def)
        then show ?thesis using c Some t(1) False
          by (auto simp: fh_xio_create_def fh_xio_slices_alloc_def xio_grants_def)
      qed
    qed
  qed
qed

end

section \<open>The state of a descriptor\<close>

lemma state_key_eq: "xio_state xio fd = Some s \<Longrightarrow> table_ok xio \<Longrightarrow>
    s < XIO_XPOLL_MAX_TASK_COUNT \<and> s \<notin> set (free_states xio) \<and> word_of_int fd = state_key xio s"
  using table_state(2) by blast

lemma inv_table_holds:
  assumes "table_ok xio"
  shows "ht_holds int_ops (ht_count (fd_state_table xio)) (fd_state_table xio) (map_of (ht_alist (fd_state_table xio)))"
    "ht_count (fd_state_table xio) < ht_limit"
  using assms table_small [OF assms]
  by (simp_all add: ht_holds_def table_ok_def ht_limit_def XIO_XPOLL_MAX_TASK_COUNT_def)

definition same_key :: "fd \<Rightarrow> fd \<Rightarrow> bool" where
  "same_key fd g \<longleftrightarrow> (word_of_int g :: u64) = word_of_int fd"

lemma prep_state_found:
  assumes "table_ok xio" "xio_state xio fd = Some s"
  shows "fh_xio_prep_state ops m xio fd = Inr (Some (s, False), xio)"
  using int_ht.get_holds [OF inv_table_holds(1) [OF assms(1)], of "word_of_int fd"]
    table_state(1) [OF assms(1), of fd] assms(2)
  by (simp add: fh_xio_prep_state_def)

lemma prep_state_none:
  assumes "table_ok xio" "states_ok xio" "xio_state xio fd = None" "free_states xio = []"
  shows "fh_xio_prep_state ops m xio fd = Inr (None, xio)"
  using int_ht.get_holds [OF inv_table_holds(1) [OF assms(1)], of "word_of_int fd"]
    table_state(1) [OF assms(1), of fd] assms(3) acquire_state_empty [OF assms(2,4)]
  by (simp add: fh_xio_prep_state_def)

definition fresh_events :: "'p xpoll_ops \<Rightarrow> u32" where
  "fresh_events ops = op_EDGE ops OR op_READ_HANGUP ops OR op_HANGUP ops"

definition fresh_state :: "'p xpoll_ops \<Rightarrow> fd \<Rightarrow> xio_fd_state \<Rightarrow> xio_fd_state" where
  "fresh_state ops fd st = st\<lparr>fs_events := fresh_events ops, fs_fd := fd, task_in_head := None, task_out_head := None\<rparr>"

lemma fresh_state_fields [simp]:
  "fs_events (fresh_state ops fd st) = fresh_events ops" "fs_fd (fresh_state ops fd st) = fd"
  "fs_idx (fresh_state ops fd st) = fs_idx st" "xio_queue_head p (fresh_state ops fd st) = None"
  by (simp_all add: fresh_state_def xio_queue_head_def split: xio_request_prep_type.splits)

lemma states_update:
  assumes "states_ok xio" "fs_idx st = fs_idx (fd_state_list xio ! s)"
  shows "states_ok (xio\<lparr>fd_state_list := (fd_state_list xio)[s := st]\<rparr>)"
  using assms by (auto simp: states_ok_def nth_update_if free_states_def)

text \<open>The instance in which the free state \<open>s\<close> was taken for \<open>fd\<close> and the table became \<open>tb\<close>.\<close>

definition state_added :: "'p xpoll_ops \<Rightarrow> fd \<Rightarrow> nat \<Rightarrow> (u64, nat) htable \<Rightarrow> 'p fh_xio \<Rightarrow> 'p fh_xio" where
  "state_added ops fd s tb xio = xio\<lparr>fd_state_list := (fd_state_list xio)[s := fresh_state ops fd (fd_state_list xio ! s)],
     fd_state_table := tb, free_fd_state_list_top := free_fd_state_list_top xio - 1\<rparr>"

lemma state_added_fields [simp]:
  "xio_xp (state_added ops fd s tb xio) = xio_xp xio" "task_list (state_added ops fd s tb xio) = task_list xio"
  "buf_list (state_added ops fd s tb xio) = buf_list xio" "free_tasks (state_added ops fd s tb xio) = free_tasks xio"
  "free_buf_list_top (state_added ops fd s tb xio) = free_buf_list_top xio"
  by (simp_all add: state_added_def free_tasks_def)

lemma state_added_table:
  assumes t: "table_ok xio" and st: "states_ok xio" and none: "xio_state xio fd = None" and free: "free_states xio = s # rest"
    and tb: "ht_holds int_ops n tb ((map_of (ht_alist (fd_state_table xio)))(word_of_int fd \<mapsto> Some s))"
  shows "table_ok (state_added ops fd s tb xio)" "states_ok (state_added ops fd s tb xio)"
    "free_states (state_added ops fd s tb xio) = rest"
    "\<forall>g. xio_state (state_added ops fd s tb xio) g = (if same_key fd g then Some s else xio_state xio g)"
proof -
  let ?k = "word_of_int fd :: u64" and ?m = "map_of (ht_alist (fd_state_table xio))" and ?xio = "state_added ops fd s tb xio"
  have len: "length (fd_state_list xio) = XIO_XPOLL_MAX_TASK_COUNT"
    and s: "s < XIO_XPOLL_MAX_TASK_COUNT" "s \<notin> set rest"
    using st free by (auto simp: states_ok_def)
  note acq = acquire_state_top [OF st free]
  show f: "free_states ?xio = rest" using acq(3) by (simp add: state_added_def free_states_def)
  show "states_ok ?xio"
    using st acq(2) unfolding states_ok_def f acq(3) by (auto simp: state_added_def nth_update_if)
  show "\<forall>g. xio_state ?xio g = (if same_key fd g then Some s else xio_state xio g)"
    using holds_map [OF tb, symmetric] by (simp add: state_added_def xio_state_def same_key_def)
  have key: "state_key ?xio i = (if i = s then ?k else state_key xio i)" for i
    using len s(1) by (simp add: state_added_def state_key_def nth_update_if)
  have km: "?m ?k = None" using table_state(1) [OF t, of fd] none by simp
  have old: "?m k = Some d \<longleftrightarrow> (\<exists>i < XIO_XPOLL_MAX_TASK_COUNT. i \<notin> set (s # rest) \<and> k = state_key xio i \<and> d = Some i)"
    for k d using t free by (simp add: table_ok_def)
  have "(?m(?k \<mapsto> Some s)) k = Some d \<longleftrightarrow>
      (\<exists>i < XIO_XPOLL_MAX_TASK_COUNT. i \<notin> set rest \<and> k = state_key ?xio i \<and> d = Some i)" for k d
  proof (cases "k = ?k")
    case True
    have "state_key xio i \<noteq> ?k" if "i < XIO_XPOLL_MAX_TASK_COUNT" "i \<notin> set (s # rest)" for i
      using old [of ?k "Some i"] km that by auto
    then have "k = state_key ?xio i \<longleftrightarrow> i = s" if "i < XIO_XPOLL_MAX_TASK_COUNT" "i \<notin> set rest" for i
      using that True unfolding key by (metis set_ConsD)
    then show ?thesis using True s by auto
  next
    case False
    then show ?thesis using old [of k d] unfolding key by auto
  qed
  then show "table_ok ?xio" using tb unfolding table_ok_def f
    by (simp add: state_added_def ht_holds_def holds_map [OF tb, symmetric] del: fun_upd_apply)
qed

text \<open>If the table cannot take the new entry, the assertion around \<open>int_htable_set\<close> fails.\<close>

lemma prep_state_new:
  assumes inv: "xio_inv V held q xio" and none: "xio_state xio fd = None"
    and free: "free_states xio = s # rest"
  obtains (refused) "\<not> grants (xio_set_mem m)" "fh_xio_prep_state ops m xio fd = Inl Assertion_failed"
  | (added) tb where "fh_xio_prep_state ops m xio fd = Inr (Some (s, True), state_added ops fd s tb xio)"
    "xio_inv V held q (state_added ops fd s tb xio)" "free_states (state_added ops fd s tb xio) = rest"
    "\<forall>g. xio_state (state_added ops fd s tb xio) g = (if same_key fd g then Some s else xio_state xio g)"
    "fs_events (fd_state_list (state_added ops fd s tb xio) ! s) = fresh_events ops"
    "htable_set int_ops (xio_set_mem m) (fd_state_table xio) (word_of_int fd) (Some s) = Inr (True, tb)"
proof -
  let ?k = "word_of_int fd :: u64"
  have t: "table_ok xio" and st: "states_ok xio" and qf: "q s p = []" and ts: "tasks_shared held q xio" for p
    using inv free by (simp_all add: xio_inv_def)
  have len: "length (fd_state_list xio) = XIO_XPOLL_MAX_TASK_COUNT" and s: "s < XIO_XPOLL_MAX_TASK_COUNT"
    using st free by (auto simp: states_ok_def)
  let ?m = "map_of (ht_alist (fd_state_table xio))"
  have get: "htable_get int_ops (fd_state_table xio) ?k = Inr None"
    using int_ht.get_holds [OF inv_table_holds(1) [OF t], of ?k] table_state(1) [OF t, of fd] none by simp
  obtain ret tb where set: "htable_set int_ops (xio_set_mem m) (fd_state_table xio) ?k (Some s) = Inr (ret, tb)"
    "if ret then ht_holds int_ops (Suc (ht_count (fd_state_table xio))) tb (?m(?k \<mapsto> Some s)) else \<not> grants (xio_set_mem m)"
    using int_ht.set_answers [OF inv_table_holds [OF t], of "xio_set_mem m" ?k "Some s"] by blast
  show thesis
  proof (cases ret)
    case False
    have "fh_xio_prep_state ops m xio fd = Inl Assertion_failed"
      using get acquire_state_top(1) [OF st free] set(1) False len s by (simp add: fh_xio_prep_state_def)
    then show thesis using set(2) False by (intro refused) simp_all
  next
    case True
    then have tb: "htable_set int_ops (xio_set_mem m) (fd_state_table xio) ?k (Some s) = Inr (True, tb)"
      "ht_holds int_ops (Suc (ht_count (fd_state_table xio))) tb (?m(?k \<mapsto> Some s))" using set by simp_all
    let ?xio = "state_added ops fd s tb xio"
    have run: "fh_xio_prep_state ops m xio fd = Inr (Some (s, True), ?xio)"
      using get acquire_state_top(1) [OF st free] tb(1) len s
      by (simp add: fh_xio_prep_state_def fresh_state_def fresh_events_def state_added_def)
    note a = state_added_table [OF t st none free tb(2)]
    have "tasks_shared held q ?xio"
      using qf len ts unfolding tasks_shared_def
      by (auto simp: state_added_def tasks_ok_def free_tasks_def queues_ok_def nth_update_if)
    moreover have "slices_ok ?xio" "watched_ok V ?xio"
      using inv by (simp_all add: state_added_def xio_inv_def slices_ok_def watched_ok_def)
    ultimately have "xio_inv V held q ?xio" using inv a(1-3) free by (simp add: xio_inv_def)
    moreover have "fs_events (fd_state_list ?xio ! s) = fresh_events ops" using len s by (simp add: state_added_def)
    ultimately show thesis using added [OF run] a(3,4) tb(1) by blast
  qed
qed

section \<open>Watching the descriptor\<close>

text \<open>Replacing the registrations, or the event mask of a state, keeps the invariant.\<close>

lemma inv_watch:
  assumes inv: "xio_inv V held q xio" and p: "xv_ready V p"
    and watches: "snd ` xv_watches V p \<subseteq> {..<XIO_XPOLL_MAX_TASK_COUNT}"
  shows "xio_inv V held q (xio\<lparr>xio_xp := p\<rparr>)" "xio_state (xio\<lparr>xio_xp := p\<rparr>) = xio_state xio"
  using inv p watches
  by (simp_all add: xio_inv_def tasks_shared_def tasks_ok_def queues_ok_def free_tasks_def
      states_ok_def free_states_def slices_ok_def table_ok_def state_key_def watched_ok_def xio_state_def fun_eq_iff)

text \<open>Watching one more descriptor for a state keeps the user data states.\<close>

lemma watches_insert:
  assumes "xio_inv V held q xio" "s < XIO_XPOLL_MAX_TASK_COUNT"
    and "xv_watches V p \<subseteq> insert (fd, s) (xv_watches V (xio_xp xio))"
  shows "snd ` xv_watches V p \<subseteq> {..<XIO_XPOLL_MAX_TASK_COUNT}"
proof -
  have "snd ` xv_watches V p \<subseteq> insert s (snd ` xv_watches V (xio_xp xio))" using assms(3) by force
  then show ?thesis using assms(1,2) by (auto simp: xio_inv_def watched_ok_def)
qed

lemma inv_state_events:
  fixes s :: nat and ev :: u32
  assumes inv: "xio_inv V held q xio"
  defines "xio' \<equiv> xio\<lparr>fd_state_list := (fd_state_list xio)[s := (fd_state_list xio ! s)\<lparr>fs_events := ev\<rparr>]\<rparr>"
  shows "xio_inv V held q xio'" "xio_state xio' = xio_state xio"
    "free_tasks xio' = free_tasks xio" "free_states xio' = free_states xio"
proof -
  have q: "queues_ok q xio" and st: "states_ok xio" using inv by (simp_all add: xio_inv_def tasks_shared_def)
  have head: "xio_queue_head p (fd_state_list xio' ! i) = xio_queue_head p (fd_state_list xio ! i)" for p i
    by (cases p) (simp_all add: xio'_def nth_update_if xio_queue_head_def)
  have key: "state_key xio' i = state_key xio i" for i by (simp add: state_key_def xio'_def nth_update_if)
  have "queues_ok q xio'" using q unfolding queues_ok_def head by (simp add: xio'_def)
  moreover have "states_ok xio'" using st unfolding xio'_def by (rule states_update) simp
  moreover have "table_ok xio'"
    using inv unfolding xio_inv_def table_ok_def key by (simp add: xio'_def free_states_def)
  ultimately show "xio_inv V held q xio'"
    using inv by (simp add: xio_inv_def tasks_shared_def tasks_ok_def free_tasks_def
        slices_ok_def watched_ok_def free_states_def xio'_def)
qed (simp_all add: xio'_def xio_state_def free_tasks_def free_states_def fun_eq_iff)

text \<open>
  Giving back the state of a request that failed. \<open>int_htable_delete\<close> has to extend the list of deleted
  entries now and then; its result is not looked at, so that a refused extension would leave the state
  in the table although it is released.
\<close>

definition deletes_granted :: "xio_mem \<Rightarrow> bool" where
  "deletes_granted m \<longleftrightarrow> (\<forall>n. realloc_ok (xio_delete_mem m) n)"

lemma inv_drop_state:
  assumes inv: "xio_inv V held q xio" and st: "xio_state xio fd = Some s" and empty: "\<forall>p. q s p = []"
    and m: "\<forall>n. realloc_ok m n"
  shows "\<exists>d freed tb fl. let xio' = xio\<lparr>fd_state_table := tb, free_fd_state_list := fl,
        free_fd_state_list_top := free_fd_state_list_top xio + 1\<rparr>
    in htable_delete int_ops m (fd_state_table xio) (word_of_int fd) = Inr (d, freed, tb) \<and>
       fh_xio_release_fd_state (xio\<lparr>fd_state_table := tb\<rparr>) s = Inr xio' \<and> xio_inv V held q xio' \<and>
       free_states xio' = s # free_states xio \<and>
       (\<forall>g. xio_state xio' g = (if same_key fd g then None else xio_state xio g))"
proof -
  let ?k = "word_of_int fd :: u64" and ?m = "map_of (ht_alist (fd_state_table xio))"
  have t: "table_ok xio" and so: "states_ok xio" using inv by (simp_all add: xio_inv_def)
  note s = table_state(2) [OF t, of fd s, THEN iffD1, OF st]
  obtain d freed tb where del: "htable_delete int_ops m (fd_state_table xio) ?k = Inr (d, freed, tb)"
    "ht_holds int_ops (Suc (ht_count (fd_state_table xio))) tb (?m(?k := None))"
    using int_ht.delete_granted [OF inv_table_holds(1) [OF t] m, of ?k] by auto
  let ?x = "xio\<lparr>fd_state_table := tb\<rparr>"
  have "states_ok ?x" "s \<notin> set (free_states ?x)" using so s by (simp_all add: states_ok_def free_states_def)
  from release_state_ok [OF this(1) conjunct1 [OF s] this(2)] obtain fl where
    rel: "fh_xio_release_fd_state ?x s =
      Inr (?x\<lparr>free_fd_state_list := fl, free_fd_state_list_top := free_fd_state_list_top ?x + 1\<rparr>)"
    "states_ok (?x\<lparr>free_fd_state_list := fl, free_fd_state_list_top := free_fd_state_list_top ?x + 1\<rparr>)"
    "free_states (?x\<lparr>free_fd_state_list := fl, free_fd_state_list_top := free_fd_state_list_top ?x + 1\<rparr>) =
      s # free_states ?x" by (auto simp: Let_def)
  let ?xio = "xio\<lparr>fd_state_table := tb, free_fd_state_list := fl,
        free_fd_state_list_top := free_fd_state_list_top xio + 1\<rparr>"
  have eq: "?x\<lparr>free_fd_state_list := fl, free_fd_state_list_top := free_fd_state_list_top ?x + 1\<rparr> = ?xio" by simp
  have f: "free_states ?xio = s # free_states xio" using rel(3) by (simp add: free_states_def)
  have key: "state_key ?xio i = state_key xio i" for i by (simp add: state_key_def)
  have old: "?m k = Some d \<longleftrightarrow> (\<exists>i < XIO_XPOLL_MAX_TASK_COUNT. i \<notin> set (free_states xio) \<and> k = state_key xio i \<and> d = Some i)"
    for k d using t by (simp add: table_ok_def)
  have uniq: "state_key xio i = ?k \<longleftrightarrow> i = s" if "i < XIO_XPOLL_MAX_TASK_COUNT" "i \<notin> set (free_states xio)" for i
    using that s old [of ?k "Some i"] old [of ?k "Some s"] by auto
  have "(?m(?k := None)) k = Some d \<longleftrightarrow> (\<exists>i < XIO_XPOLL_MAX_TASK_COUNT.
      i \<notin> set (s # free_states xio) \<and> k = state_key ?xio i \<and> d = Some i)" for k d
    using old [of k d] uniq unfolding key by (cases "k = ?k") (auto, metis+)
  then have tab: "table_ok ?xio" using del(2) unfolding table_ok_def f
    by (simp add: ht_holds_def holds_map [OF del(2), symmetric] del: fun_upd_apply)
  have "xio_inv V held q ?xio"
    using inv tab rel(2) empty f unfolding eq xio_inv_def tasks_shared_def tasks_ok_def queues_ok_def
      slices_ok_def watched_ok_def
    by (simp add: free_tasks_def)
  moreover have "xio_state ?xio g = (if same_key fd g then None else xio_state xio g)" for g
    using holds_map [OF del(2), symmetric] by (simp add: xio_state_def same_key_def)
  ultimately show ?thesis
    using del(1) rel(1) f unfolding eq Let_def
    by (intro exI [of _ d] exI [of _ freed] exI [of _ tb] exI [of _ fl]) simp
qed

text \<open>Giving back a task that was taken.\<close>

lemma inv_drop_task:
  assumes inv: "xio_inv V [t] q xio"
  shows "\<exists>fl. let xio' = xio\<lparr>free_task_list := fl, free_task_list_top := free_task_list_top xio + 1\<rparr> in
    fh_xio_release_task xio t = Inr xio' \<and> xio_inv V [] q xio' \<and> free_tasks xio' = t # free_tasks xio \<and>
    free_states xio' = free_states xio \<and> xio_state xio' = xio_state xio"
proof -
  have sh: "tasks_shared [t] q xio" using inv by (simp add: xio_inv_def)
  have "t < XIO_XPOLL_MAX_TASK_COUNT" "t \<notin> set (free_tasks xio)"
    using shared_distinct [OF sh] by auto
  from release_task_ok [OF _ this] sh obtain fl where fl:
    "fh_xio_release_task xio t = Inr (xio\<lparr>free_task_list := fl, free_task_list_top := free_task_list_top xio + 1\<rparr>)"
    "tasks_ok (xio\<lparr>free_task_list := fl, free_task_list_top := free_task_list_top xio + 1\<rparr>)"
    "free_tasks (xio\<lparr>free_task_list := fl, free_task_list_top := free_task_list_top xio + 1\<rparr>) = t # free_tasks xio"
    by (auto simp: tasks_shared_def Let_def)
  let ?xio = "xio\<lparr>free_task_list := fl, free_task_list_top := free_task_list_top xio + 1\<rparr>"
  have "tasks_shared [] q ?xio"
    using sh fl(2) unfolding tasks_shared_def fl(3) by (simp add: queues_ok_def)
  then have "xio_inv V [] q ?xio"
    using inv by (simp add: xio_inv_def states_ok_def free_states_def slices_ok_def table_ok_def
        state_key_def watched_ok_def)
  then show ?thesis using fl(1,3)
    by (intro exI [of _ fl]) (simp add: Let_def free_states_def xio_state_def fun_eq_iff)
qed

lemma inv_same_but_slices:
  assumes "xio_inv V held q xio" "same_but_slices xio xio'" "slices_ok xio'"
  shows "xio_inv V held q xio'" "xio_state xio' = xio_state xio" "free_states xio' = free_states xio"
    "free_tasks xio' = free_tasks xio" "xio_xp xio' = xio_xp xio" "task_list xio' = task_list xio"
proof -
  obtain bl fl tp where e: "xio' = xio\<lparr>buf_list := bl, free_buf_list := fl, free_buf_list_top := tp\<rparr>"
    using assms(2) by (auto simp: same_but_slices_def)
  show "xio_inv V held q xio'" using assms(1,3) unfolding e
    by (simp add: xio_inv_def tasks_shared_def tasks_ok_def queues_ok_def free_tasks_def
        states_ok_def free_states_def table_ok_def state_key_def watched_ok_def)
qed (use assms(2) in \<open>auto simp: same_but_slices_def free_tasks_def free_states_def xio_state_def fun_eq_iff\<close>)

text \<open>Giving back the task and the slice of a request that failed.\<close>

lemma inv_undo:
  assumes inv: "xio_inv V [t] q xio" and slc: "\<forall>i \<in> set_option slc. i < XIO_BUF_COUNT"
  shows "or_aborts (slc \<noteq> None) (fh_xio_prep_undo xio t slc) (\<lambda>xio'. xio_inv V [] q xio' \<and>
    free_tasks xio' = t # free_tasks xio \<and> free_states xio' = free_states xio \<and> xio_state xio' = xio_state xio \<and>
    task_list xio' = task_list xio \<and> xio_xp xio' = xio_xp xio)"
proof -
  obtain fl where fl: "fh_xio_release_task xio t = Inr (xio\<lparr>free_task_list := fl, free_task_list_top := free_task_list_top xio + 1\<rparr>)"
    "xio_inv V [] q (xio\<lparr>free_task_list := fl, free_task_list_top := free_task_list_top xio + 1\<rparr>)"
    "free_tasks (xio\<lparr>free_task_list := fl, free_task_list_top := free_task_list_top xio + 1\<rparr>) = t # free_tasks xio"
    "free_states (xio\<lparr>free_task_list := fl, free_task_list_top := free_task_list_top xio + 1\<rparr>) = free_states xio"
    "xio_state (xio\<lparr>free_task_list := fl, free_task_list_top := free_task_list_top xio + 1\<rparr>) = xio_state xio"
    using inv_drop_task [OF inv] unfolding Let_def by blast
  let ?x = "xio\<lparr>free_task_list := fl, free_task_list_top := free_task_list_top xio + 1\<rparr>"
  show ?thesis
  proof (cases slc)
    case None
    then show ?thesis using fl by (simp add: fh_xio_prep_undo_def)
  next
    case (Some i)
    have "slices_ok ?x" using fl(2) by (simp add: xio_inv_def)
    from release_slice_correct [OF this, of i] slc Some
    have rel: "or_aborts True (fh_xio_release_slice ?x i) (\<lambda>xio'. slices_ok xio' \<and> same_but_slices ?x xio')" by simp
    have "slc \<noteq> None" "fh_xio_prep_undo xio t slc = fh_xio_release_slice ?x i"
      using Some fl(1) by (simp_all add: fh_xio_prep_undo_def)
    then show ?thesis
    proof (simp only: simp_thms, intro or_aborts_mono [OF rel])
      fix y
      assume "slices_ok y \<and> same_but_slices ?x y"
      then show "xio_inv V [] q y \<and> free_tasks y = t # free_tasks xio \<and> free_states y = free_states xio \<and>
          xio_state y = xio_state xio \<and> task_list y = task_list xio \<and> xio_xp y = xio_xp xio"
        using inv_same_but_slices [OF fl(2), of y] fl(3-5) by simp
    qed
  qed
qed

end
