(* ===== verification/Xio_Recv.thy ===== *)
theory Xio_Recv
  imports Xio_Request
begin

text \<open>A receive request, into a buffer of the caller or of the pool, on every branch.\<close>

section \<open>Tasks\<close>

lemma inv_take_task:
  assumes inv: "xio_inv V [] q xio" and free: "free_tasks xio = t # ts"
  defines "xio' \<equiv> xio\<lparr>free_task_list_top := free_task_list_top xio - 1\<rparr>"
  shows "fh_xio_acquire_task xio = Inr (Some t, xio')" "xio_inv V [t] q xio'" "free_tasks xio' = ts"
    "t < length (task_list xio)"
proof -
  have sh: "tasks_shared [] q xio" using inv by (simp add: xio_inv_def)
  then have ok: "tasks_ok xio" by (simp add: tasks_shared_def)
  note a = acquire_task_top [OF ok free, folded xio'_def]
  show "fh_xio_acquire_task xio = Inr (Some t, xio')" "free_tasks xio' = ts" by (fact a)+
  have "tasks_shared [t] q xio'"
    using sh a(2) free unfolding tasks_shared_def a(3) by (simp add: queues_ok_def xio'_def)
  then show "xio_inv V [t] q xio'"
    using inv by (simp add: xio_inv_def states_ok_def free_states_def slices_ok_def table_ok_def
        state_key_def watched_ok_def xio'_def)
  show "t < length (task_list xio)" using ok free by (auto simp: tasks_ok_def)
qed

text \<open>Writing a task, except for its number and, if it is queued, its link.\<close>

lemma inv_write_task:
  assumes inv: "xio_inv V held q xio" and idx: "tk_idx tk = tk_idx (task_list xio ! t)"
    and nxt: "t \<in> set held \<or> tk_next tk = tk_next (task_list xio ! t)"
  defines "xio' \<equiv> xio\<lparr>task_list := (task_list xio)[t := tk]\<rparr>"
  shows "xio_inv V held q xio'" "free_tasks xio' = free_tasks xio" "free_states xio' = free_states xio"
    "xio_state xio' = xio_state xio"
proof -
  have sh: "tasks_shared held q xio" using inv by (simp add: xio_inv_def)
  have d: "distinct (held @ free_tasks xio @ queued q)" by (rule shared_distinct(1) [OF sh])
  have chain: "task_chain ((task_list xio)[t := tk]) h (q s p)"
    if "task_chain (task_list xio) h (q s p)" "s < XIO_XPOLL_MAX_TASK_COUNT" for h s p
  proof (cases "t \<in> set held")
    case True
    have "t \<notin> set (queued q)" using True d by auto
    then have "t \<notin> set (q s p)" unfolding set_queued using that(2) by auto
    then show ?thesis by (rule task_chain_update [OF that(1)])
  next
    case False
    then show ?thesis using nxt by (intro task_chain_cong [OF _ that(1)]) (auto simp: nth_update_if)
  qed
  have f: "free_tasks xio' = free_tasks xio" by (simp add: free_tasks_def xio'_def)
  have "tasks_ok xio'" using sh idx unfolding tasks_shared_def tasks_ok_def f
    by (auto simp: xio'_def nth_update_if)
  moreover have "queues_ok q xio'" using sh chain by (simp add: queues_ok_def xio'_def tasks_shared_def)
  ultimately have "tasks_shared held q xio'" using sh by (simp add: tasks_shared_def f)
  then show "xio_inv V held q xio'"
    using inv by (simp add: xio_inv_def states_ok_def free_states_def slices_ok_def table_ok_def
        state_key_def watched_ok_def xio'_def)
qed (simp_all add: xio'_def free_tasks_def free_states_def xio_state_def fun_eq_iff)

definition pushed :: "nat \<Rightarrow> xio_request_prep_type \<Rightarrow> nat \<Rightarrow> xio_queues \<Rightarrow> xio_queues" where
  "pushed s p t q = q(s := (q s)(p := t # q s p))"

lemma set_queue_head_fields [simp]:
  "fs_fd (xio_set_queue_head q h st) = fs_fd st" "fs_idx (xio_set_queue_head q h st) = fs_idx st"
  "fs_events (xio_set_queue_head q h st) = fs_events st"
  "xio_queue_head p (xio_set_queue_head q h st) = (if p = q then h else xio_queue_head p st)"
  by (cases q; cases p; simp add: xio_set_queue_head_def xio_queue_head_def)+

lemma prep_push_correct:
  assumes inv: "xio_inv V [t] q xio" and s: "s < XIO_XPOLL_MAX_TASK_COUNT" "s \<notin> set (free_states xio)"
  shows "\<exists>xio'. fh_xio_prep_push xio pt s t = Inr xio' \<and> xio_inv V [] (pushed s pt t q) xio' \<and>
    free_tasks xio' = free_tasks xio \<and> free_states xio' = free_states xio \<and> xio_state xio' = xio_state xio \<and>
    xio_xp xio' = xio_xp xio \<and> buf_list xio' = buf_list xio \<and>
    (\<exists>h. task_list xio' = (task_list xio)[t := (task_list xio ! t)\<lparr>tk_next := h\<rparr>])"
proof -
  let ?st = "fd_state_list xio ! s"
  let ?h = "xio_queue_head pt ?st"
  let ?tk = "(task_list xio ! t)\<lparr>tk_next := ?h\<rparr>"
  let ?xa = "xio\<lparr>task_list := (task_list xio)[t := ?tk]\<rparr>"
  let ?st' = "xio_set_queue_head pt (Some t) ?st"
  let ?xio = "?xa\<lparr>fd_state_list := (fd_state_list xio)[s := ?st']\<rparr>"
  have sh: "tasks_shared [t] q xio" and so: "states_ok xio" using inv by (simp_all add: xio_inv_def)
  have len: "length (task_list xio) = XIO_XPOLL_MAX_TASK_COUNT" "length (fd_state_list xio) = XIO_XPOLL_MAX_TASK_COUNT"
    using sh so by (simp_all add: tasks_shared_def tasks_ok_def states_ok_def)
  have t: "t < XIO_XPOLL_MAX_TASK_COUNT" using shared_distinct(2) [OF sh] by auto
  have run: "fh_xio_prep_push xio pt s t = Inr ?xio"
    using s(1) t len by (cases pt) (simp_all add: fh_xio_prep_push_def xio_queue_head_def xio_set_queue_head_def Let_def)
  have inva: "xio_inv V [t] q ?xa" by (rule inv_write_task [OF inv]) simp_all
  then have qa: "queues_ok q ?xa" by (simp add: xio_inv_def tasks_shared_def)
  have "queues_ok (pushed s pt t q) ?xio"
    unfolding queues_ok_def
  proof (intro allI impI)
    fix i p
    assume i: "i < XIO_XPOLL_MAX_TASK_COUNT"
    have old: "task_chain (task_list ?xa) (xio_queue_head p (fd_state_list xio ! i)) (q i p)"
      using qa i by (simp add: queues_ok_def)
    show "task_chain (task_list ?xio) (xio_queue_head p (fd_state_list ?xio ! i)) (pushed s pt t q i p)"
    proof (cases "i = s \<and> p = pt")
      case True
      then show ?thesis using old t s(1) len by (simp add: pushed_def)
    next
      case False
      then show ?thesis using old s(1) len by (auto simp: pushed_def nth_update_if)
    qed
  qed
  moreover have "mset (free_tasks xio @ queued (pushed s pt t q)) = mset [0 ..< XIO_XPOLL_MAX_TASK_COUNT]"
    using mset_queued_update [OF s(1), of q pt "t # q s pt"] sh
    by (simp add: pushed_def tasks_shared_def add.commute)
  moreover have "tasks_ok ?xio" using inva by (simp add: xio_inv_def tasks_shared_def tasks_ok_def free_tasks_def)
  ultimately have "tasks_shared [] (pushed s pt t q) ?xio"
    by (simp add: tasks_shared_def free_tasks_def)
  moreover have "states_ok ?xio"
    using states_update [OF so, of ?st' s] by (simp add: states_ok_def free_states_def)
  moreover have "state_key ?xio i = state_key xio i" for i
    by (simp add: state_key_def nth_update_if)
  then have "table_ok ?xio" using inv by (simp add: xio_inv_def table_ok_def free_states_def)
  moreover have "\<forall>i \<in> set (free_states xio). \<forall>p. pushed s pt t q i p = []"
    using inv s(2) by (auto simp: xio_inv_def pushed_def)
  ultimately have "xio_inv V [] (pushed s pt t q) ?xio"
    using inv by (simp add: xio_inv_def slices_ok_def watched_ok_def free_states_def)
  then show ?thesis using run
    by (intro exI [of _ ?xio]) (auto simp: free_tasks_def free_states_def xio_state_def)
qed

section \<open>Watching\<close>

definition xio_events :: "'p xpoll_ops \<Rightarrow> xio_request_prep_type \<Rightarrow> u32" where
  "xio_events ops pt = (case pt of XIO_PREP_IN \<Rightarrow> op_READ ops | XIO_PREP_OUT \<Rightarrow> op_WRITE ops)"

context xpoll_backend begin

lemma fresh_events_miss: "fresh_events ops AND xio_events ops pt \<noteq> xio_events ops pt"
  using masks_law by (cases pt) (simp_all add: fresh_events_def xio_events_def)

lemma watch_registered:
  assumes inv: "xio_inv V [t] q xio" and st: "xio_state xio fd = Some s" and empty: "\<forall>p. q s p = []"
    and ev: "fs_events (fd_state_list xio ! s) = fresh_events ops"
    and add: "op_add ops (xio_xp xio) fd s (fresh_events ops OR xio_events ops pt) = Inr (True, p)"
      "xv_ready V p" "xv_watches V p \<subseteq> insert (fd, s) (xv_watches V (xio_xp xio))"
    and m: "deletes_granted m"
  shows "\<exists>xb. fh_xio_prep_watch ops m xio fd s True (xio_events ops pt) t slc =
      and_then (fh_xio_prep_undo xb t slc) (\<lambda>xio. Inr (False, xio)) \<and>
    xio_inv V [t] q xb \<and> xio_xp xb = p \<and> task_list xb = task_list xio \<and> free_tasks xb = free_tasks xio \<and>
    free_states xb = s # free_states xio \<and> free_buf_list_top xb = free_buf_list_top xio \<and>
    (\<forall>g. xio_state xb g = (if same_key fd g then None else xio_state xio g))"
proof -
  have tab: "table_ok xio" and len: "length (fd_state_list xio) = XIO_XPOLL_MAX_TASK_COUNT"
    using inv by (simp_all add: xio_inv_def states_ok_def)
  note s = table_state(2) [OF tab, of fd s, THEN iffD1, OF st]
  let ?xa = "xio\<lparr>xio_xp := p\<rparr>"
  note w = inv_watch [OF inv add(2) watches_insert [OF inv conjunct1 [OF s] add(3)]]
  obtain d freed tb fl where d: "htable_delete int_ops (xio_delete_mem m) (fd_state_table ?xa) (word_of_int fd) = Inr (d, freed, tb)"
    and rel: "fh_xio_release_fd_state (?xa\<lparr>fd_state_table := tb\<rparr>) s = Inr (?xa\<lparr>fd_state_table := tb,
      free_fd_state_list := fl, free_fd_state_list_top := free_fd_state_list_top ?xa + 1\<rparr>)"
    and b: "xio_inv V [t] q (?xa\<lparr>fd_state_table := tb,
      free_fd_state_list := fl, free_fd_state_list_top := free_fd_state_list_top ?xa + 1\<rparr>)"
    "free_states (?xa\<lparr>fd_state_table := tb, free_fd_state_list := fl,
      free_fd_state_list_top := free_fd_state_list_top ?xa + 1\<rparr>) = s # free_states ?xa"
    "\<forall>g. xio_state (?xa\<lparr>fd_state_table := tb, free_fd_state_list := fl,
      free_fd_state_list_top := free_fd_state_list_top ?xa + 1\<rparr>) g = (if same_key fd g then None else xio_state ?xa g)"
    using inv_drop_state [OF w(1), of fd s "xio_delete_mem m"] st empty m [unfolded deletes_granted_def] w(2)
    unfolding Let_def by metis
  let ?xb = "?xa\<lparr>fd_state_table := tb, free_fd_state_list := fl,
      free_fd_state_list_top := free_fd_state_list_top ?xa + 1\<rparr>"
  have "fh_xio_prep_watch ops m xio fd s True (xio_events ops pt) t slc =
      and_then (fh_xio_prep_undo ?xb t slc) (\<lambda>xio. Inr (False, xio))"
    using s len ev fresh_events_miss add(1) d rel by (simp add: fh_xio_prep_watch_def Let_def)
  then show ?thesis using b w(2)
    by (intro exI [of _ ?xb]) (simp add: free_tasks_def free_states_def)
qed

lemma prep_watch_created:
  assumes inv: "xio_inv V [t] q xio" and st: "xio_state xio fd = Some s" and empty: "\<forall>p. q s p = []"
    and ev: "fs_events (fd_state_list xio ! s) = fresh_events ops"
    and fd: "xv_fits V (xio_xp xio) fd" and m: "deletes_granted m"
    and slc: "\<forall>i \<in> set_option slc. i < XIO_BUF_COUNT"
  shows "\<exists>r p. op_add ops (xio_xp xio) fd s (fresh_events ops OR xio_events ops pt) = Inr (r, p) \<and>
    xv_ready V p \<and> (if r then (fd, s) \<in> xv_watches V p else xv_watches V p \<subseteq> xv_watches V (xio_xp xio)) \<and>
    or_aborts (slc \<noteq> None) (fh_xio_prep_watch ops m xio fd s True (xio_events ops pt) t slc) (\<lambda>(goes_on, xio').
      goes_on = (\<not> r) \<and> xio_inv V (if r then [] else [t]) q xio' \<and> xio_xp xio' = p \<and> task_list xio' = task_list xio \<and>
      free_tasks xio' = (if r then t # free_tasks xio else free_tasks xio) \<and>
      free_states xio' = (if r then s # free_states xio else free_states xio) \<and>
      (\<forall>g. xio_state xio' g = (if r \<and> same_key fd g then None else xio_state xio g)) \<and>
      (r \<or> buf_list xio' = buf_list xio))"
proof -
  let ?mask = "fresh_events ops OR xio_events ops pt"
  have tab: "table_ok xio" and len: "length (fd_state_list xio) = XIO_XPOLL_MAX_TASK_COUNT"
    and ok: "xv_ready V (xio_xp xio)" using inv by (simp_all add: xio_inv_def states_ok_def watched_ok_def)
  note s = table_state(2) [OF tab, of fd s, THEN iffD1, OF st]
  obtain r p where add: "op_add ops (xio_xp xio) fd s ?mask = Inr (r, p)" "xv_ready V p"
    "xv_watches V p \<subseteq> insert (fd, s) (xv_watches V (xio_xp xio))"
    "if r then (fd, s) \<in> xv_watches V p else xv_watches V p \<subseteq> xv_watches V (xio_xp xio)"
    using add_law [OF ok fd, of s ?mask] registeredD by metis
  let ?xa = "xio\<lparr>xio_xp := p\<rparr>"
  note w = inv_watch [OF inv add(2) watches_insert [OF inv conjunct1 [OF s] add(3)]]
  have f: "free_tasks ?xa = free_tasks xio" "free_states ?xa = free_states xio"
    by (simp_all add: free_tasks_def free_states_def)
  show ?thesis
  proof (cases r)
    case True
    have added: "op_add ops (xio_xp xio) fd s (fresh_events ops OR xio_events ops pt) = Inr (True, p)"
      using add(1) True by simp
    obtain xb where b: "fh_xio_prep_watch ops m xio fd s True (xio_events ops pt) t slc =
        and_then (fh_xio_prep_undo xb t slc) (\<lambda>xio. Inr (False, xio))" "xio_inv V [t] q xb" "xio_xp xb = p"
      "task_list xb = task_list xio" "free_tasks xb = free_tasks xio" "free_states xb = s # free_states xio"
      "\<forall>g. xio_state xb g = (if same_key fd g then None else xio_state xio g)"
      using watch_registered [OF inv st empty ev added add(2,3) m, of slc] by blast
    have "or_aborts (slc \<noteq> None) (fh_xio_prep_watch ops m xio fd s True (xio_events ops pt) t slc) (\<lambda>(goes_on, xio').
      goes_on = (\<not> r) \<and> xio_inv V [] q xio' \<and> xio_xp xio' = p \<and> task_list xio' = task_list xio \<and>
      free_tasks xio' = t # free_tasks xio \<and> free_states xio' = s # free_states xio \<and>
      (\<forall>g. xio_state xio' g = (if same_key fd g then None else xio_state xio g)))"
      unfolding b(1) by (rule or_aborts_and_then [OF inv_undo [OF b(2) slc]]) (use b(3-7) True in simp)
    then show ?thesis using add True by (intro exI [of _ r] exI [of _ p]) simp
  next
    case False
    let ?x = "?xa\<lparr>fd_state_list := (fd_state_list ?xa)[s := (fd_state_list ?xa ! s)\<lparr>fs_events := ?mask\<rparr>]\<rparr>"
    note e = inv_state_events [OF w(1), of s ?mask]
    have "fh_xio_prep_watch ops m xio fd s True (xio_events ops pt) t slc = Inr (True, ?x)"
      using s len ev fresh_events_miss add(1) False by (simp add: fh_xio_prep_watch_def Let_def)
    then show ?thesis using add False e f w(2)
      by (intro exI [of _ r] exI [of _ p]) simp
  qed
qed

lemma prep_watch_existing:
  assumes inv: "xio_inv V [t] q xio" and st: "xio_state xio fd = Some s" and fd: "xv_fits V (xio_xp xio) fd"
    and slc: "\<forall>i \<in> set_option slc. i < XIO_BUF_COUNT"
  shows "or_aborts (slc \<noteq> None) (fh_xio_prep_watch ops m xio fd s False (xio_events ops pt) t slc) (\<lambda>(goes_on, xio').
    xio_inv V (if goes_on then [t] else []) q xio' \<and> task_list xio' = task_list xio \<and>
    free_tasks xio' = (if goes_on then free_tasks xio else t # free_tasks xio) \<and>
    free_states xio' = free_states xio \<and> xio_state xio' = xio_state xio \<and> (goes_on \<longrightarrow> buf_list xio' = buf_list xio))"
proof -
  have tab: "table_ok xio" and len: "length (fd_state_list xio) = XIO_XPOLL_MAX_TASK_COUNT"
    and ok: "xv_ready V (xio_xp xio)" using inv by (simp_all add: xio_inv_def states_ok_def watched_ok_def)
  note s = table_state(2) [OF tab, of fd s, THEN iffD1, OF st]
  let ?ev = "fs_events (fd_state_list xio ! s)"
  let ?mask = "?ev OR xio_events ops pt"
  show ?thesis
  proof (cases "?ev AND xio_events ops pt = xio_events ops pt")
    case True
    then show ?thesis using s len inv by (simp add: fh_xio_prep_watch_def)
  next
    case False
    obtain r p where mod: "op_modify ops (xio_xp xio) fd s ?mask = Inr (r, p)" "xv_ready V p"
      "xv_watches V p \<subseteq> insert (fd, s) (xv_watches V (xio_xp xio))"
      using modify_law [OF ok fd, of s ?mask] registeredD(1) by metis
    let ?xa = "xio\<lparr>xio_xp := p\<rparr>"
    note w = inv_watch [OF inv mod(2) watches_insert [OF inv conjunct1 [OF s] mod(3)]]
    have f: "free_tasks ?xa = free_tasks xio" "free_states ?xa = free_states xio"
      by (simp_all add: free_tasks_def free_states_def)
    show ?thesis
    proof (cases r)
      case True
      have "fh_xio_prep_watch ops m xio fd s False (xio_events ops pt) t slc =
          and_then (fh_xio_prep_undo ?xa t slc) (\<lambda>xio. Inr (False, xio))"
        using s len False mod(1) True by (simp add: fh_xio_prep_watch_def Let_def)
      moreover have "or_aborts (slc \<noteq> None) (and_then (fh_xio_prep_undo ?xa t slc) (\<lambda>xio. Inr (False, xio)))
        (\<lambda>(goes_on, xio'). \<not> goes_on \<and> xio_inv V [] q xio' \<and> task_list xio' = task_list xio \<and>
          free_tasks xio' = t # free_tasks xio \<and> free_states xio' = free_states xio \<and> xio_state xio' = xio_state xio)"
        by (rule or_aborts_and_then [OF inv_undo [OF w(1) slc]]) (use f w(2) in simp)
      ultimately show ?thesis by (auto elim: or_aborts_mono)
    next
      case gone: False
      let ?x = "?xa\<lparr>fd_state_list := (fd_state_list ?xa)[s := (fd_state_list ?xa ! s)\<lparr>fs_events := ?mask\<rparr>]\<rparr>"
      note e = inv_state_events [OF w(1), of s ?mask]
      have "fh_xio_prep_watch ops m xio fd s False (xio_events ops pt) t slc = Inr (True, ?x)"
        using s len False mod(1) gone by (simp add: fh_xio_prep_watch_def Let_def)
      then show ?thesis using e f w(2) by simp
    qed
  qed
qed

end

section \<open>The second half of a preparation\<close>

text \<open>
  What it does to the queues. A request that goes on has its task at the head of the queue of its
  descriptor, and its slice; one that does not has given its task back.
\<close>

definition attach_outcome ::
  "'p xpoll_view \<Rightarrow> xio_queues \<Rightarrow> 'p fh_xio \<Rightarrow> xio_request_prep_type \<Rightarrow> fd \<Rightarrow> nat \<Rightarrow> nat option \<Rightarrow> xio_request_prep \<Rightarrow>
   'p fh_xio \<Rightarrow> bool"
where
  "attach_outcome V q xio pt fd t slc prep xio' \<longleftrightarrow>
     (case prep of
        Prepared t' slc' \<Rightarrow> t' = t \<and> slc' = slc \<and> free_tasks xio' = free_tasks xio \<and> buf_list xio' = buf_list xio \<and>
          (\<exists>s. xio_state xio' fd = Some s \<and> xio_inv V [] (pushed s pt t q) xio' \<and>
             (\<forall>g. xio_state xio' g = (if same_key fd g then Some s else xio_state xio g)) \<and>
             (xio_state xio fd = None \<longrightarrow> (\<forall>p. q s p = [])) \<and> (\<forall>s'. xio_state xio fd = Some s' \<longrightarrow> s' = s)) \<and>
          (\<exists>h. task_list xio' = (task_list xio)[t := (task_list xio ! t)\<lparr>tk_next := h\<rparr>])
      | Not_prepared _ \<Rightarrow> xio_inv V [] q xio' \<and> free_tasks xio' = t # free_tasks xio \<and>
          xio_state xio' = xio_state xio \<and> task_list xio' = task_list xio)"

lemma attach_none:
  assumes inv: "xio_inv V [t] q xio" and none: "xio_state xio fd = None" "free_states xio = []"
    and slc: "\<forall>i \<in> set_option slc. i < XIO_BUF_COUNT"
  shows "or_aborts (slc \<noteq> None) (fh_xio_prep_attach ops m xio pt fd t slc)
    (\<lambda>(prep, xio'). attach_outcome V q xio pt fd t slc prep xio')"
proof -
  have "table_ok xio" "states_ok xio" using inv by (simp_all add: xio_inv_def)
  from prep_state_none [OF this none, of ops m]
  have "fh_xio_prep_attach ops m xio pt fd t slc =
      and_then (fh_xio_prep_undo xio t slc) (\<lambda>xio. Inr (Not_prepared (Some ENOMEM), xio))"
    by (simp add: fh_xio_prep_attach_def Let_def)
  then show ?thesis
    by (simp only:) (rule or_aborts_and_then [OF inv_undo [OF inv slc]], simp add: attach_outcome_def)
qed

context xpoll_backend begin

lemma attach_existing:
  assumes inv: "xio_inv V [t] q xio" and st: "xio_state xio fd = Some s" and fd: "xv_fits V (xio_xp xio) fd"
    and slc: "\<forall>i \<in> set_option slc. i < XIO_BUF_COUNT"
  shows "or_aborts (slc \<noteq> None) (fh_xio_prep_attach ops m xio pt fd t slc)
    (\<lambda>(prep, xio'). attach_outcome V q xio pt fd t slc prep xio')"
proof -
  have tab: "table_ok xio" using inv by (simp add: xio_inv_def)
  note s = table_state(2) [OF tab, of fd s, THEN iffD1, OF st]
  have key: "xio_state xio g = Some s" if "same_key fd g" for g
    using that s table_state(2) [OF tab, of g s] by (simp add: same_key_def)
  have "fh_xio_prep_attach ops m xio pt fd t slc =
      and_then (fh_xio_prep_watch ops m xio fd s False (xio_events ops pt) t slc) (\<lambda>(goes_on, xio).
        if \<not> goes_on then Inr (Not_prepared None, xio)
        else and_then (fh_xio_prep_push xio pt s t) (\<lambda>xio. Inr (Prepared t slc, xio)))"
    using prep_state_found [OF tab st, where ops = ops and m = m]
    by (simp add: fh_xio_prep_attach_def xio_events_def [symmetric] Let_def)
  then show ?thesis
  proof (simp only:, intro or_aborts_and_then [OF prep_watch_existing [OF inv st fd slc, of m pt]])
    fix w
    assume w: "case w of (goes_on, xio') \<Rightarrow>
      xio_inv V (if goes_on then [t] else []) q xio' \<and> task_list xio' = task_list xio \<and>
      free_tasks xio' = (if goes_on then free_tasks xio else t # free_tasks xio) \<and>
      free_states xio' = free_states xio \<and> xio_state xio' = xio_state xio \<and> (goes_on \<longrightarrow> buf_list xio' = buf_list xio)"
    obtain goes_on xa where wa: "w = (goes_on, xa)" by (cases w)
    show "or_aborts (slc \<noteq> None) (case w of (goes_on, xio) \<Rightarrow>
        if \<not> goes_on then Inr (Not_prepared None, xio)
        else and_then (fh_xio_prep_push xio pt s t) (\<lambda>xio. Inr (Prepared t slc, xio)))
      (\<lambda>(prep, xio'). attach_outcome V q xio pt fd t slc prep xio')"
    proof (cases goes_on)
      case False
      then show ?thesis using w wa by (simp add: attach_outcome_def)
    next
      case True
      obtain xb where p: "fh_xio_prep_push xa pt s t = Inr xb" "xio_inv V [] (pushed s pt t q) xb"
        "free_tasks xb = free_tasks xa" "xio_state xb = xio_state xa" "buf_list xb = buf_list xa"
        "\<exists>h. task_list xb = (task_list xa)[t := (task_list xa ! t)\<lparr>tk_next := h\<rparr>]"
        using prep_push_correct [where V = V and t = t and q = q and xio = xa and s = s and pt = pt] w wa True s by auto
      then show ?thesis using w wa True st key by (auto simp: attach_outcome_def)
    qed
  qed
qed

text \<open>The outcome on a new descriptor, with what the event instance answered.\<close>

lemma attach_new:
  assumes inv: "xio_inv V [t] q xio" and none: "xio_state xio fd = None" and free: "free_states xio = s # rest"
    and fd: "xv_fits V (xio_xp xio) fd"
    and m: "deletes_granted m"
    and slc: "\<forall>i \<in> set_option slc. i < XIO_BUF_COUNT"
  shows "\<exists>r p. op_add ops (xio_xp xio) fd s (fresh_events ops OR xio_events ops pt) = Inr (r, p) \<and>
    (if r then (fd, s) \<in> xv_watches V p else xv_watches V p \<subseteq> xv_watches V (xio_xp xio)) \<and>
    or_aborts (slc \<noteq> None \<or> \<not> grants (xio_set_mem m)) (fh_xio_prep_attach ops m xio pt fd t slc) (\<lambda>(prep, xio').
      prep = (if r then Not_prepared None else Prepared t slc) \<and> attach_outcome V q xio pt fd t slc prep xio' \<and>
      xio_xp xio' = p \<and> free_states xio' = (if r then s # rest else rest))"
proof (cases rule: prep_state_new [OF inv none free, where m = m and ops = ops, case_names refused added])
  case refused
  have "xv_ready V (xio_xp xio)" using inv by (simp add: xio_inv_def watched_ok_def)
  from add_law [OF this fd, of s "fresh_events ops OR xio_events ops pt"] obtain r p where
    "op_add ops (xio_xp xio) fd s (fresh_events ops OR xio_events ops pt) = Inr (r, p)"
    "if r then (fd, s) \<in> xv_watches V p else xv_watches V p \<subseteq> xv_watches V (xio_xp xio)"
    using registeredD(2) by metis
  moreover have "fh_xio_prep_attach ops m xio pt fd t slc = Inl Assertion_failed"
    using refused(2) by (simp add: fh_xio_prep_attach_def)
  ultimately show ?thesis using refused(1) by (intro exI [of _ r] exI [of _ p]) (simp add: or_aborts_def)
next
  case (added tb)
  note a = added
  have tab: "table_ok xio" and empty: "\<forall>p. q s p = []" and s: "s < XIO_XPOLL_MAX_TASK_COUNT"
    using inv free by (auto simp: xio_inv_def states_ok_def)
  have key: "xio_state xio g = None" if "same_key fd g" for g
    using that table_state(1) [OF tab, of g] table_state(1) [OF tab, of fd] none by (simp add: same_key_def)
  define xa where "xa = state_added ops fd s tb xio"
  note a = a [folded xa_def]
  have xa: "fs_events (fd_state_list xa ! s) = fresh_events ops" "xio_xp xa = xio_xp xio" "free_tasks xa = free_tasks xio"
    "task_list xa = task_list xio" "xio_state xa fd = Some s" "buf_list xa = buf_list xio"
    using a(4,5) by (simp_all add: xa_def same_key_def)
  have fa: "xv_fits V (xio_xp xa) fd" using fd xa(2) by simp
  from prep_watch_created [OF a(2) xa(5) empty xa(1) fa m slc, of pt, unfolded xa(2)] obtain r p where
    add: "op_add ops (xio_xp xio) fd s (fresh_events ops OR xio_events ops pt) = Inr (r, p)"
      "if r then (fd, s) \<in> xv_watches V p else xv_watches V p \<subseteq> xv_watches V (xio_xp xio)" and
    w: "or_aborts (slc \<noteq> None) (fh_xio_prep_watch ops m xa fd s True (xio_events ops pt) t slc) (\<lambda>(goes_on, xb).
      goes_on = (\<not> r) \<and> xio_inv V (if r then [] else [t]) q xb \<and> xio_xp xb = p \<and> task_list xb = task_list xa \<and>
      free_tasks xb = (if r then t # free_tasks xa else free_tasks xa) \<and>
      free_states xb = (if r then s # free_states xa else free_states xa) \<and>
      (\<forall>g. xio_state xb g = (if r \<and> same_key fd g then None else xio_state xa g)) \<and> (r \<or> buf_list xb = buf_list xa))"
    by blast
  have run: "fh_xio_prep_attach ops m xio pt fd t slc =
      and_then (fh_xio_prep_watch ops m xa fd s True (xio_events ops pt) t slc) (\<lambda>(goes_on, xio).
        if \<not> goes_on then Inr (Not_prepared None, xio)
        else and_then (fh_xio_prep_push xio pt s t) (\<lambda>xio. Inr (Prepared t slc, xio)))"
    using a(1) by (simp add: fh_xio_prep_attach_def xio_events_def [symmetric] Let_def)
  have "or_aborts (slc \<noteq> None) (fh_xio_prep_attach ops m xio pt fd t slc) (\<lambda>(prep, xio').
      prep = (if r then Not_prepared None else Prepared t slc) \<and> attach_outcome V q xio pt fd t slc prep xio' \<and>
      xio_xp xio' = p \<and> free_states xio' = (if r then s # rest else rest))"
    unfolding run
  proof (rule or_aborts_and_then [OF w], goal_cases)
    case (1 y)
    obtain goes_on xb where y: "y = (goes_on, xb)" by (cases y)
    have b: "goes_on = (\<not> r)" "xio_inv V (if r then [] else [t]) q xb" "xio_xp xb = p" "task_list xb = task_list xa"
      "free_tasks xb = (if r then t # free_tasks xa else free_tasks xa)"
      "free_states xb = (if r then s # rest else rest)"
      "\<forall>g. xio_state xb g = (if r \<and> same_key fd g then None else xio_state xa g)" "r \<or> buf_list xb = buf_list xa"
      using 1 unfolding y a(3) by simp_all
    show ?case
    proof (cases r)
      case True
      have "xio_state xb = xio_state xio" using b(7) a(4) key True by (auto simp: fun_eq_iff)
      then show ?thesis using b True xa(3,4) y by (simp add: attach_outcome_def)
    next
      case False
      have ns: "s \<notin> set (free_states xb)"
        using inv free b(6) False by (auto simp: xio_inv_def states_ok_def)
      obtain xc where c: "fh_xio_prep_push xb pt s t = Inr xc" "xio_inv V [] (pushed s pt t q) xc"
        "free_tasks xc = free_tasks xb" "free_states xc = free_states xb" "xio_state xc = xio_state xb"
        "xio_xp xc = xio_xp xb" "buf_list xc = buf_list xb"
        "\<exists>h. task_list xc = (task_list xb)[t := (task_list xb ! t)\<lparr>tk_next := h\<rparr>]"
        using prep_push_correct [where V = V and t = t and q = q and xio = xb and s = s and pt = pt] b(2) False s ns by auto
      have "attach_outcome V q xio pt fd t slc (Prepared t slc) xc"
        using c b(4,5,7,8) a(4) xa False empty none by (auto simp: attach_outcome_def)
      then show ?thesis using c b(1,3,6) y False by simp
    qed
  qed
  then have "or_aborts (slc \<noteq> None \<or> \<not> grants (xio_set_mem m)) (fh_xio_prep_attach ops m xio pt fd t slc) (\<lambda>(prep, xio').
      prep = (if r then Not_prepared None else Prepared t slc) \<and> attach_outcome V q xio pt fd t slc prep xio' \<and>
      xio_xp xio' = p \<and> free_states xio' = (if r then s # rest else rest))"
    by (rule or_aborts_weaken) simp
  then show ?thesis using add by blast
qed

end

section \<open>The request\<close>

lemma pending_eq:
  assumes "xio_inv V held q xio"
  shows "xio_pending xio p g = (case xio_state xio g of None \<Rightarrow> [] | Some s \<Rightarrow> q s p)"
proof (cases "xio_state xio g")
  case (Some s)
  have t: "table_ok xio" and sh: "tasks_shared held q xio" using assms by (simp_all add: xio_inv_def)
  have "s < XIO_XPOLL_MAX_TASK_COUNT" using table_state(2) [OF t, of g s] Some by blast
  then show ?thesis using Some xio_queue_eq [OF sh] by (simp add: xio_pending_def)
qed (simp add: xio_pending_def)

text \<open>The buffer of a request, once its task and its slice are known.\<close>

definition request_buffer :: "'p fh_xio \<Rightarrow> nat option \<Rightarrow> nat option \<Rightarrow> nat \<Rightarrow> xio_ptr checked" where
  "request_buffer xio buf slc n = (case (buf, slc) of
     (Some b, _) \<Rightarrow> Inr (User_ptr b)
   | (None, Some i) \<Rightarrow> fh_xio_request_prep_slice_get_buffer xio i n
   | (None, None) \<Rightarrow> Inl Out_of_bounds)"

text \<open>It is the one of the client, or bytes of the pool that were not in use.\<close>

definition buffer_given :: "'p fh_xio \<Rightarrow> nat option \<Rightarrow> nat \<Rightarrow> xio_ptr \<Rightarrow> 'p fh_xio \<Rightarrow> bool" where
  "buffer_given xio buf n p xio' \<longleftrightarrow>
     (case buf of
        Some b \<Rightarrow> p = User_ptr b \<and> used_bytes xio' = used_bytes xio
      | None \<Rightarrow> (\<exists>a. p = Pool_ptr a \<and> used_bytes xio' = used_bytes xio \<union> buffer_bytes a n \<and>
          used_bytes xio \<inter> buffer_bytes a n = {} \<and> buffer_bytes a n \<subseteq> {..<XIO_BUF_COUNT * XIO_BUF_SIZE}))"

lemma buffers_cong:
  assumes "buf_list xio' = buf_list xio"
  shows "request_buffer xio' buf slc n = request_buffer xio buf slc n" "used_bytes xio' = used_bytes xio"
    "buffer_given x buf n p xio' = buffer_given x buf n p xio"
  using assms by (simp_all add: request_buffer_def fh_xio_request_prep_slice_get_buffer_def used_bytes_def buffer_given_def
      cong: option.case_cong)

text \<open>The preparation up to the task: it is taken and filled in.\<close>

definition task_filled :: "fh_xio_op \<Rightarrow> nat \<Rightarrow> nat option \<Rightarrow> xio_task \<Rightarrow> xio_task" where
  "task_filled op u slc tk = (case slc of
       None \<Rightarrow> tk\<lparr>tk_flags := 0\<rparr>
     | Some i \<Rightarrow> tk\<lparr>tk_flags := XIO_TASK_F_BUFFER, tk_bid := i\<rparr>)\<lparr>tk_op := xio_op_code op, tk_udata := u\<rparr>"

lemma task_filled_fields [simp]:
  "tk_idx (task_filled op u slc tk) = tk_idx tk" "tk_udata (task_filled op u slc tk) = u"
  "tk_op (task_filled op u slc tk) = xio_op_code op"
  "tk_flags (task_filled op u slc tk) = (if slc = None then 0 else XIO_TASK_F_BUFFER)"
  by (simp_all add: task_filled_def split: option.splits)

definition prepared_state ::
  "'p xpoll_view \<Rightarrow> xio_queues \<Rightarrow> 'p fh_xio \<Rightarrow> fh_xio_op \<Rightarrow> nat \<Rightarrow> nat option \<Rightarrow> nat \<Rightarrow> nat \<Rightarrow> nat option \<Rightarrow> 'p fh_xio \<Rightarrow> bool"
where
  "prepared_state V q xio op u buf n t slc xa \<longleftrightarrow>
     xio_inv V [t] q xa \<and> free_tasks xio = t # free_tasks xa \<and> free_states xa = free_states xio \<and>
     xio_state xa = xio_state xio \<and> xio_xp xa = xio_xp xio \<and> t < length (task_list xio) \<and>
     task_list xa = (task_list xio)[t := task_filled op u slc (task_list xio ! t)] \<and>
     (slc = None \<longleftrightarrow> buf \<noteq> None) \<and> (\<forall>i \<in> set_option slc. i < XIO_BUF_COUNT) \<and>
     (\<exists>p. request_buffer xa buf slc n = Inr p \<and> buffer_given xio buf n p xa)"

text \<open>The fields of the task that was taken are written, once the buffer is known.\<close>

lemma prepared_filled:
  assumes inv: "xio_inv V [] q xio" and free: "free_tasks xio = t # ts"
    and b: "xio_inv V [t] q xb" "same_but_slices (xio\<lparr>free_task_list_top := free_task_list_top xio - 1\<rparr>) xb"
      "slc = None \<longleftrightarrow> buf \<noteq> None" "\<forall>i \<in> set_option slc. i < XIO_BUF_COUNT"
      "request_buffer xb buf slc n = Inr p" "buffer_given xio buf n p xb"
  shows "prepared_state V q xio op u buf n t slc (xb\<lparr>task_list := (task_list xb)[t := task_filled op u slc (task_list xb ! t)]\<rparr>)"
proof -
  note a = inv_take_task [OF inv free]
  have same: "free_states xb = free_states xio" "xio_state xb = xio_state xio" "xio_xp xb = xio_xp xio"
    "free_tasks xb = ts" "task_list xb = task_list xio"
    using b(2) a(3) by (auto simp: same_but_slices_def free_states_def xio_state_def fun_eq_iff free_tasks_def)
  let ?tk = "task_filled op u slc (task_list xb ! t)"
  let ?xa = "xb\<lparr>task_list := (task_list xb)[t := ?tk]\<rparr>"
  have "tk_idx ?tk = tk_idx (task_list xb ! t)" "t \<in> set [t] \<or> tk_next ?tk = tk_next (task_list xb ! t)" by simp_all
  note w = inv_write_task [OF b(1) this]
  have "buf_list ?xa = buf_list xb" by simp
  note c = buffers_cong [OF this]
  have "\<exists>p. request_buffer ?xa buf slc n = Inr p \<and> buffer_given xio buf n p ?xa"
    using b(5,6) unfolding c buffer_given_def by blast
  then show ?thesis using w same free a(4) b(3,4) by (simp add: prepared_state_def)
qed

lemma prep_taken_user:
  assumes inv: "xio_inv V [] q xio" and free: "free_tasks xio = t # ts"
  shows "\<exists>xa. fh_xio_request_prep_with_size ops m xio op pt fd u (Some b) n = fh_xio_prep_attach ops m xa pt fd t None \<and>
    prepared_state V q xio op u (Some b) n t None xa"
proof -
  note a = inv_take_task [OF inv free]
  let ?x = "xio\<lparr>free_task_list_top := free_task_list_top xio - 1\<rparr>"
  let ?xa = "?x\<lparr>task_list := (task_list ?x)[t := task_filled op u None (task_list ?x ! t)]\<rparr>"
  have "same_but_slices ?x ?x" unfolding same_but_slices_def
    by (intro exI [of _ "buf_list xio"] exI [of _ "free_buf_list xio"] exI [of _ "free_buf_list_top xio"]) simp
  from prepared_filled [OF inv free a(2) this, of None "Some b" n "User_ptr b"]
  have "prepared_state V q xio op u (Some b) n t None ?xa"
    by (simp add: request_buffer_def buffer_given_def used_bytes_def)
  moreover have "fh_xio_request_prep_with_size ops m xio op pt fd u (Some b) n = fh_xio_prep_attach ops m ?xa pt fd t None"
    using a(1,4) by (simp add: fh_xio_request_prep_with_size_def fh_xio_prep_buffer_def task_filled_def)
  ultimately show ?thesis by blast
qed

lemma prep_taken:
  assumes inv: "xio_inv V [] q xio" and free: "free_tasks xio = t # ts" and n: "buf = None \<longrightarrow> n \<le> XIO_BUF_SIZE"
  shows "(\<exists>slc xa. fh_xio_request_prep_with_size ops m xio op pt fd u buf n = fh_xio_prep_attach ops m xa pt fd t slc \<and>
      prepared_state V q xio op u buf n t slc xa) \<or>
    buf = None \<and> (\<exists>xa. fh_xio_request_prep_with_size ops m xio op pt fd u buf n = Inr (Not_prepared (Some ENOBUFS), xa) \<and>
      xio_inv V [] q xa \<and> free_tasks xa = free_tasks xio \<and> xio_state xa = xio_state xio \<and> task_list xa = task_list xio)"
proof (cases buf)
  case (Some b)
  then show ?thesis using prep_taken_user [OF inv free] by blast
next
  case None
  note a = inv_take_task [OF inv free]
  let ?x = "xio\<lparr>free_task_list_top := free_task_list_top xio - 1\<rparr>"
  have eq: "xio_state ?x = xio_state xio" "used_bytes ?x = used_bytes xio"
    by (simp_all add: xio_state_def fun_eq_iff used_bytes_def)
  have sl: "slices_ok ?x" using a(2) by (simp add: xio_inv_def)
  obtain got xb where b: "fh_xio_acquire_slice ?x n = Inr (got, xb)" "slices_ok xb" "same_but_slices ?x xb"
    "slice_outcome ?x n got xb" using acquire_slice_correct [OF sl n [THEN mp, OF None]] by blast
  show ?thesis
  proof (cases got)
    case None
    then have "xb = ?x" using b(4) by (simp add: slice_outcome_def)
    moreover obtain fl where "fh_xio_release_task ?x t = Inr (?x\<lparr>free_task_list := fl, free_task_list_top := free_task_list_top ?x + 1\<rparr>)"
      "xio_inv V [] q (?x\<lparr>free_task_list := fl, free_task_list_top := free_task_list_top ?x + 1\<rparr>)"
      "free_tasks (?x\<lparr>free_task_list := fl, free_task_list_top := free_task_list_top ?x + 1\<rparr>) = t # free_tasks ?x"
      "xio_state (?x\<lparr>free_task_list := fl, free_task_list_top := free_task_list_top ?x + 1\<rparr>) = xio_state ?x"
      using inv_drop_task [OF a(2)] unfolding Let_def by blast
    ultimately show ?thesis using a(1,3) b(1) None \<open>buf = None\<close> n free eq(1)
      by (intro disjI2) (simp add: fh_xio_request_prep_with_size_def fh_xio_prep_buffer_def)
  next
    case (Some i)
    then have i: "i < XIO_BUF_COUNT" using b(4) by (simp add: slice_outcome_def)
    obtain p where p: "request_buffer xb buf (Some i) n = Inr p" "buffer_given xio buf n p xb"
      using b(4) Some None eq(2) by (auto simp: slice_outcome_def request_buffer_def buffer_given_def)
    note ib = inv_same_but_slices [OF a(2) b(3,2)]
    have len: "i < length (buf_list xb)" "sl_bid (buf_list xb ! i) = i" "t < length (task_list xb)"
      using i b(2) a(4) ib(6) by (simp_all add: slices_ok_def)
    let ?xa = "xb\<lparr>task_list := (task_list xb)[t := task_filled op u (Some i) (task_list xb ! t)]\<rparr>"
    have "prepared_state V q xio op u buf n t (Some i) ?xa"
      using prepared_filled [OF inv free ib(1) b(3), of "Some i"] p i None by simp
    moreover have "fh_xio_request_prep_with_size ops m xio op pt fd u buf n = fh_xio_prep_attach ops m ?xa pt fd t (Some i)"
      using a(1) b(1) Some None n len
      by (simp add: fh_xio_request_prep_with_size_def fh_xio_prep_buffer_def task_filled_def)
    ultimately show ?thesis by blast
  qed
qed

definition recv_task :: "nat \<Rightarrow> fd \<Rightarrow> xio_ptr \<Rightarrow> nat \<Rightarrow> int \<Rightarrow> xio_task \<Rightarrow> bool" where
  "recv_task u fd p n flags tk \<longleftrightarrow> tk_op tk = xio_op_code XIO_OP_RECV \<and>
     tk_flags tk = (case p of User_ptr _ \<Rightarrow> 0 | Pool_ptr _ \<Rightarrow> XIO_TASK_F_BUFFER) \<and> tk_udata tk = u \<and>
     tk_recv tk = \<lparr>rv_fd = fd, rv_buf = Some p, rv_size = n, rv_flags = flags\<rparr>"

text \<open>What a request does to the tasks waiting on each descriptor; no other task in use is written.\<close>

definition recv_outcome ::
  "'p fh_xio \<Rightarrow> nat \<Rightarrow> fd \<Rightarrow> nat option \<Rightarrow> nat \<Rightarrow> int \<Rightarrow> errno option \<Rightarrow> 'p fh_xio \<Rightarrow> bool"
where
  "recv_outcome xio u fd buf n flags ret xio' \<longleftrightarrow>
     (if ret = None then \<exists>t p. free_tasks xio = t # free_tasks xio' \<and> recv_task u fd p n flags (task_list xio' ! t) \<and>
        buffer_given xio buf n p xio' \<and> (\<forall>i. i \<noteq> t \<longrightarrow> task_list xio' ! i = task_list xio ! i) \<and>
        (\<forall>k g. xio_pending xio' k g =
           (if k = XIO_PREP_IN \<and> same_key fd g then t # xio_pending xio k g else xio_pending xio k g))
      else free_tasks xio' = free_tasks xio \<and>
        (\<forall>i. i \<notin> set (free_tasks xio) \<longrightarrow> task_list xio' ! i = task_list xio ! i) \<and>
        (\<forall>k g. xio_pending xio' k g = xio_pending xio k g))"

lemma recv_not_prepared:
  assumes inv: "xio_inv V [] q xio"
    and run: "fh_xio_request_prep_with_size ops m xio XIO_OP_RECV XIO_PREP_IN fd u buf n = Inr (Not_prepared e, xb)"
    and b: "xio_inv V [] q xb" "free_tasks xb = free_tasks xio" "xio_state xb = xio_state xio"
      "\<forall>i. i \<notin> set (free_tasks xio) \<longrightarrow> task_list xb ! i = task_list xio ! i"
  shows "fh_xio_request_recv ops m err xio u fd buf n flags =
      Inr (Some (fh_xio_errno (case e of Some _ \<Rightarrow> e | None \<Rightarrow> err)), xb) \<and> xio_ok V xb \<and>
    recv_outcome xio u fd buf n flags (Some x) xb"
  using run b by (auto simp: fh_xio_request_recv_def xio_ok_def recv_outcome_def pending_eq [OF b(1)] pending_eq [OF inv])

lemma pushed_pending:
  assumes inv: "xio_inv V held q xio" and inv': "xio_inv V [] (pushed s XIO_PREP_IN t q) xio'" and st: "xio_state xio' fd = Some s"
    and states: "\<forall>g. xio_state xio' g = (if same_key fd g then Some s else xio_state xio g)"
    and new: "xio_state xio fd = None \<longrightarrow> (\<forall>p. q s p = [])" "\<forall>s'. xio_state xio fd = Some s' \<longrightarrow> s' = s"
  shows "xio_pending xio' k g = (if k = XIO_PREP_IN \<and> same_key fd g then t # xio_pending xio k g else xio_pending xio k g)"
proof (cases "same_key fd g")
  case True
  then have same: "xio_state xio g = xio_state xio fd" by (simp add: xio_state_def same_key_def)
  show ?thesis
  proof (cases "xio_state xio fd")
    case None
    then show ?thesis using True states new(1) same
      by (simp add: pending_eq [OF inv'] pending_eq [OF inv] pushed_def)
  next
    case (Some s')
    then have "s' = s" using new(2) by simp
    then show ?thesis using True states same Some
      by (simp add: pending_eq [OF inv'] pending_eq [OF inv] pushed_def)
  qed
next
  case False
  have "s' \<noteq> s" if "xio_state xio g = Some s'" for s'
  proof
    assume "s' = s"
    then have "xio_state xio' g = Some s" using that states False by simp
    moreover have tb: "table_ok xio'" using inv' by (simp add: xio_inv_def)
    ultimately have "word_of_int g = state_key xio' s" "word_of_int fd = state_key xio' s"
      using table_state(2) [OF tb] st by blast+
    then show False using False by (simp add: same_key_def)
  qed
  then show ?thesis using False states
    by (auto simp: pending_eq [OF inv'] pending_eq [OF inv] pushed_def split: option.splits)
qed

lemma recv_prepared:
  assumes inv: "xio_inv V [] q xio" and xa: "prepared_state V q xio XIO_OP_RECV u buf n t slc xa"
    and run: "fh_xio_request_prep_with_size ops m xio XIO_OP_RECV XIO_PREP_IN fd u buf n = Inr (Prepared t' slc', xb)"
    and out: "attach_outcome V q xa XIO_PREP_IN fd t slc (Prepared t' slc') xb"
  shows "\<exists>xio'. fh_xio_request_recv ops m err xio u fd buf n flags = Inr (None, xio') \<and> xio_ok V xio' \<and>
    recv_outcome xio u fd buf n flags None xio' \<and> xio_xp xio' = xio_xp xb \<and> free_states xio' = free_states xb \<and>
    xio_state xio' = xio_state xb"
proof -
  have a: "xio_inv V [t] q xa" "free_tasks xio = t # free_tasks xa" "xio_state xa = xio_state xio" "t < length (task_list xio)"
    "task_list xa = (task_list xio)[t := task_filled XIO_OP_RECV u slc (task_list xio ! t)]" "slc = None \<longleftrightarrow> buf \<noteq> None"
    using xa by (simp_all add: prepared_state_def)
  obtain p where p: "request_buffer xa buf slc n = Inr p" "buffer_given xio buf n p xa"
    using xa by (auto simp: prepared_state_def)
  obtain s h where b: "t' = t" "slc' = slc" "free_tasks xb = free_tasks xa" "buf_list xb = buf_list xa" "xio_state xb fd = Some s"
    "xio_inv V [] (pushed s XIO_PREP_IN t q) xb"
    "\<forall>g. xio_state xb g = (if same_key fd g then Some s else xio_state xa g)"
    "xio_state xa fd = None \<longrightarrow> (\<forall>p. q s p = [])" "\<forall>s'. xio_state xa fd = Some s' \<longrightarrow> s' = s"
    "task_list xb = (task_list xa)[t := (task_list xa ! t)\<lparr>tk_next := h\<rparr>]"
    using out [unfolded attach_outcome_def xio_request_prep.case] by (elim exE conjE) (rule that, assumption+)
  note b = b(1-6) b(7-9) [unfolded a(3)] b(10)
  let ?tk = "(task_list xb ! t)\<lparr>tk_recv := \<lparr>rv_fd = fd, rv_buf = Some p, rv_size = n, rv_flags = flags\<rparr>\<rparr>"
  let ?x = "xb\<lparr>task_list := (task_list xb)[t := ?tk]\<rparr>"
  have "tk_idx ?tk = tk_idx (task_list xb ! t)" "t \<in> set [] \<or> tk_next ?tk = tk_next (task_list xb ! t)" by simp_all
  note w = inv_write_task [OF b(6) this]
  have len: "t < length (task_list xb)" using a(4,5) b(10) by simp
  have "request_buffer xb buf slc n = Inr p" using p(1) buffers_cong(1) [OF b(4)] by simp
  then have res: "fh_xio_request_recv ops m err xio u fd buf n flags = Inr (None, ?x)"
    using run b(1,2) len by (simp add: fh_xio_request_recv_def request_buffer_def)
  have "tk_flags (task_list xb ! t) = (case p of User_ptr _ \<Rightarrow> 0 | Pool_ptr _ \<Rightarrow> XIO_TASK_F_BUFFER)"
    using a(4-6) b(10) p(2) by (auto simp: buffer_given_def split: option.splits)
  then have rt: "recv_task u fd p n flags (task_list ?x ! t)" using len a(4,5) b(10) by (simp add: recv_task_def)
  have st: "xio_state ?x fd = Some s" "\<forall>g. xio_state ?x g = (if same_key fd g then Some s else xio_state xio g)"
    using b(5,7) w(4) by simp_all
  note pend = pushed_pending [OF inv w(1) st b(8,9)]
  have "buf_list ?x = buf_list xa" using b(4) by simp
  then have "buffer_given xio buf n p ?x" using p(2) buffers_cong(3) by blast
  moreover have "\<forall>i. i \<noteq> t \<longrightarrow> task_list ?x ! i = task_list xio ! i" using b(10) a(5) by simp
  moreover have "free_tasks xio = t # free_tasks ?x" using a(2) b(3) w(2) by simp
  ultimately have "recv_outcome xio u fd buf n flags None ?x"
    unfolding recv_outcome_def if_P [OF refl] using pend rt by (intro exI [of _ t] exI [of _ p]) blast
  moreover have "xio_ok V ?x" using w(1) unfolding xio_ok_def by blast
  ultimately show ?thesis using res w(3,4) by (intro exI [of _ ?x]) simp
qed

lemma recv_no_task:
  assumes "xio_inv V [] q xio" "free_tasks xio = []" "buf = None \<longrightarrow> n \<le> XIO_BUF_SIZE"
  shows "fh_xio_request_recv ops m err xio u fd buf n flags = Inr (Some ENOMEM, xio)"
  using assms acquire_task_empty [of xio]
  by (cases buf) (simp_all add: fh_xio_request_recv_def fh_xio_request_prep_with_size_def fh_xio_errno_def xio_inv_def
      tasks_shared_def)

lemma recv_too_long:
  "XIO_BUF_SIZE < n \<Longrightarrow> fh_xio_request_recv ops m err xio u fd None n flags = Inl Assertion_failed"
  by (simp add: fh_xio_request_recv_def fh_xio_request_prep_with_size_def)

text \<open>After a preparation whose second half has the outcome of an attachment.\<close>

lemma recv_attached:
  assumes inv: "xio_inv V [] q xio" and xa: "prepared_state V q xio XIO_OP_RECV u buf n t slc xa"
    and run: "fh_xio_request_prep_with_size ops m xio XIO_OP_RECV XIO_PREP_IN fd u buf n = Inr (prep, xb)"
    and out: "attach_outcome V q xa XIO_PREP_IN fd t slc prep xb"
  shows "\<exists>ret xio'. fh_xio_request_recv ops m err xio u fd buf n flags = Inr (ret, xio') \<and> xio_ok V xio' \<and>
    recv_outcome xio u fd buf n flags ret xio' \<and> xio_xp xio' = xio_xp xb \<and> free_states xio' = free_states xb \<and>
    xio_state xio' = xio_state xb \<and>
    ret = (case prep of Prepared _ _ \<Rightarrow> None
      | Not_prepared e \<Rightarrow> Some (fh_xio_errno (case e of Some _ \<Rightarrow> e | None \<Rightarrow> err)))"
proof (cases prep)
  case (Not_prepared e)
  have a: "free_tasks xio = t # free_tasks xa" "xio_state xa = xio_state xio" "t < length (task_list xio)"
    "task_list xa = (task_list xio)[t := task_filled XIO_OP_RECV u slc (task_list xio ! t)]"
    using xa by (simp_all add: prepared_state_def)
  have b: "xio_inv V [] q xb" "free_tasks xb = free_tasks xio" "xio_state xb = xio_state xio"
    "\<forall>i. i \<notin> set (free_tasks xio) \<longrightarrow> task_list xb ! i = task_list xio ! i"
    using out Not_prepared a by (auto simp: attach_outcome_def)
  from recv_not_prepared [OF inv run [unfolded Not_prepared] b] show ?thesis using Not_prepared by simp
next
  case (Prepared t' slc')
  from recv_prepared [OF inv xa run [unfolded Prepared] out [unfolded Prepared]] show ?thesis using Prepared by simp
qed

context xpoll_backend begin

lemma attach_correct:
  assumes inv: "xio_inv V [t] q xio" and fd: "xv_fits V (xio_xp xio) fd"
    and m: "deletes_granted m"
    and slc: "\<forall>i \<in> set_option slc. i < XIO_BUF_COUNT"
  shows "or_aborts (slc \<noteq> None \<or> \<not> grants (xio_set_mem m)) (fh_xio_prep_attach ops m xio pt fd t slc)
    (\<lambda>(prep, xio'). attach_outcome V q xio pt fd t slc prep xio')"
proof (cases "xio_state xio fd")
  case None
  show ?thesis
  proof (cases "free_states xio")
    case Nil
    show ?thesis by (rule or_aborts_weaken [OF attach_none [OF inv None Nil slc]]) simp
  next
    case (Cons s rest)
    then show ?thesis using attach_new [OF inv None Cons fd m slc, of pt] by (auto elim: or_aborts_mono)
  qed
next
  case (Some s)
  show ?thesis by (rule or_aborts_weaken [OF attach_existing [OF inv Some fd slc]]) simp
qed

text \<open>
  A receive request: with a buffer of the client and memory for the table it returns; otherwise it may
  also fail an assertion, but nothing worse happens.
\<close>

lemma recv_correct:
  assumes ok: "xio_ok V xio" and fd: "xv_fits V (xio_xp xio) fd"
    and m: "deletes_granted m"
  shows "or_aborts (buf = None \<or> \<not> grants (xio_set_mem m)) (fh_xio_request_recv ops m err xio u fd buf n flags)
    (\<lambda>(ret, xio'). xio_ok V xio' \<and> recv_outcome xio u fd buf n flags ret xio')"
proof -
  obtain q where inv: "xio_inv V [] q xio" using ok by (auto simp: xio_ok_def)
  show ?thesis
  proof (cases "buf = None \<and> XIO_BUF_SIZE < n")
    case True
    then show ?thesis by (simp add: or_aborts_def recv_too_long)
  next
    case False
    then have n: "buf = None \<longrightarrow> n \<le> XIO_BUF_SIZE" by auto
    show ?thesis
    proof (cases "free_tasks xio")
      case Nil
      then show ?thesis using recv_no_task [OF inv _ n] ok by (simp add: recv_outcome_def)
    next
      case (Cons t ts)
      from prep_taken [OF inv Cons n, where ops = ops and m = m and op = XIO_OP_RECV and pt = XIO_PREP_IN and fd = fd and u = u]
      show ?thesis
      proof (elim disjE exE conjE)
        fix xb
        assume b: "fh_xio_request_prep_with_size ops m xio XIO_OP_RECV XIO_PREP_IN fd u buf n = Inr (Not_prepared (Some ENOBUFS), xb)"
          "xio_inv V [] q xb" "free_tasks xb = free_tasks xio" "xio_state xb = xio_state xio" "task_list xb = task_list xio"
        show ?thesis using recv_not_prepared [OF inv b(1-4)] b(5) by simp
      next
        fix slc xa
        assume prep: "fh_xio_request_prep_with_size ops m xio XIO_OP_RECV XIO_PREP_IN fd u buf n =
            fh_xio_prep_attach ops m xa XIO_PREP_IN fd t slc" and xa: "prepared_state V q xio XIO_OP_RECV u buf n t slc xa"
        have a: "xio_inv V [t] q xa" "xv_fits V (xio_xp xa) fd" "\<forall>i \<in> set_option slc. i < XIO_BUF_COUNT" "slc \<noteq> None \<longleftrightarrow> buf = None"
          using xa fd by (auto simp: prepared_state_def)
        from attach_correct [OF a(1,2) m a(3), of XIO_PREP_IN] show ?thesis
          unfolding or_aborts_def
        proof
          assume "(slc \<noteq> None \<or> \<not> grants (xio_set_mem m)) \<and> fh_xio_prep_attach ops m xa XIO_PREP_IN fd t slc = Inl Assertion_failed"
          then have "(buf = None \<or> \<not> grants (xio_set_mem m)) \<and> fh_xio_request_recv ops m err xio u fd buf n flags = Inl Assertion_failed"
            using prep a(4) by (auto simp: fh_xio_request_recv_def)
          then show "(buf = None \<or> \<not> grants (xio_set_mem m)) \<and> fh_xio_request_recv ops m err xio u fd buf n flags = Inl Assertion_failed \<or>
            (\<exists>x. fh_xio_request_recv ops m err xio u fd buf n flags = Inr x \<and>
              (case x of (ret, xio') \<Rightarrow> xio_ok V xio' \<and> recv_outcome xio u fd buf n flags ret xio'))" ..
        next
          assume "\<exists>y. fh_xio_prep_attach ops m xa XIO_PREP_IN fd t slc = Inr y \<and>
            (case y of (prep, xio') \<Rightarrow> attach_outcome V q xa XIO_PREP_IN fd t slc prep xio')"
          then obtain y where y: "fh_xio_prep_attach ops m xa XIO_PREP_IN fd t slc = Inr y"
            "case y of (prep, xio') \<Rightarrow> attach_outcome V q xa XIO_PREP_IN fd t slc prep xio'" by blast
          obtain pr xb where yp: "y = (pr, xb)" by (cases y)
          from recv_attached [OF inv xa, of ops m fd pr xb err flags] y prep
          show "(buf = None \<or> \<not> grants (xio_set_mem m)) \<and> fh_xio_request_recv ops m err xio u fd buf n flags = Inl Assertion_failed \<or>
            (\<exists>x. fh_xio_request_recv ops m err xio u fd buf n flags = Inr x \<and>
              (case x of (ret, xio') \<Rightarrow> xio_ok V xio' \<and> recv_outcome xio u fd buf n flags ret xio'))"
            unfolding yp by auto
        qed
      qed
    qed
  qed
qed

text \<open>
  The request on a descriptor that has no state yet: it fails exactly if the registration succeeds.
\<close>

lemma recv_new_correct:
  assumes ok: "xio_ok V xio" and none: "xio_state xio fd = None" and task: "free_tasks xio \<noteq> []"
    and free: "free_states xio = s # rest"
    and fd: "xv_fits V (xio_xp xio) fd"
    and m: "grants (xio_set_mem m)" "deletes_granted m"
  shows "\<exists>r p xio'. op_add ops (xio_xp xio) fd s (fresh_events ops OR op_READ ops) = Inr (r, p) \<and>
    (if r then (fd, s) \<in> xv_watches V p else xv_watches V p \<subseteq> xv_watches V (xio_xp xio)) \<and>
    fh_xio_request_recv ops m err xio u fd (Some b) n flags =
      Inr (if r then Some (fh_xio_errno err) else None, xio') \<and>
    xio_xp xio' = p \<and> free_states xio' = (if r then s # rest else rest) \<and>
    (xio_state xio' fd \<noteq> None \<longleftrightarrow> \<not> r) \<and> (r \<longrightarrow> xio_state xio' = xio_state xio)"
proof -
  obtain q where inv: "xio_inv V [] q xio" using ok by (auto simp: xio_ok_def)
  obtain t ts where t: "free_tasks xio = t # ts" using task by (cases "free_tasks xio") auto
  obtain xa where prep: "fh_xio_request_prep_with_size ops m xio XIO_OP_RECV XIO_PREP_IN fd u (Some b) n =
      fh_xio_prep_attach ops m xa XIO_PREP_IN fd t None"
    and xa: "prepared_state V q xio XIO_OP_RECV u (Some b) n t None xa"
    using prep_taken [OF inv t, where buf = "Some b" and n = n and ops = ops and m = m and op = XIO_OP_RECV and pt = XIO_PREP_IN
      and fd = fd and u = u] by (auto simp: prepared_state_def)
  have a: "xio_inv V [t] q xa" "xio_state xa fd = None" "free_states xa = s # rest" "xv_fits V (xio_xp xa) fd"
    "xio_xp xa = xio_xp xio" "xio_state xa = xio_state xio"
    using xa none free fd by (simp_all add: prepared_state_def)
  obtain r p xb where new: "op_add ops (xio_xp xio) fd s (fresh_events ops OR op_READ ops) = Inr (r, p)"
    "if r then (fd, s) \<in> xv_watches V p else xv_watches V p \<subseteq> xv_watches V (xio_xp xio)"
    "fh_xio_prep_attach ops m xa XIO_PREP_IN fd t None = Inr (if r then Not_prepared None else Prepared t None, xb)"
    "attach_outcome V q xa XIO_PREP_IN fd t None (if r then Not_prepared None else Prepared t None) xb"
    "xio_xp xb = p" "free_states xb = (if r then s # rest else rest)"
    using attach_new [OF a(1-4) m(2), of None XIO_PREP_IN] m(1) unfolding a(5) xio_events_def xio_request_prep_type.case
    by auto
  obtain ret xio' where fin: "fh_xio_request_recv ops m err xio u fd (Some b) n flags = Inr (ret, xio')"
    "xio_xp xio' = xio_xp xb" "free_states xio' = free_states xb" "xio_state xio' = xio_state xb"
    "ret = (case (if r then Not_prepared None else Prepared t None) of Prepared _ _ \<Rightarrow> None
      | Not_prepared e \<Rightarrow> Some (fh_xio_errno (case e of Some _ \<Rightarrow> e | None \<Rightarrow> err)))"
    using recv_attached [OF inv xa _ new(4), of ops m err flags] prep new(3) by auto
  have "xio_state xb fd \<noteq> None \<longleftrightarrow> \<not> r" "r \<longrightarrow> xio_state xb = xio_state xio"
    using new(4) a(2,6) by (cases r; auto simp: attach_outcome_def)+
  then show ?thesis using new(1,2,5,6) fin
    by (intro exI [of _ r] exI [of _ p] exI [of _ xio']) (cases r; simp)
qed

end

end
