(* ===== verification/Xio_Wait.thy ===== *)
theory Xio_Wait
  imports Xio_Recv
begin

text \<open>
  Waiting: the tasks of a descriptor with an error are failed, in the order of the queues; the loops
  over the linked tasks implement a function on lists.
\<close>

section \<open>Failing the tasks of one queue\<close>

definition fail_result :: "xio_task \<Rightarrow> fh_xio_result" where
  "fail_result tk = \<lparr>res_op = ucast (tk_op tk), res_flags = XIO_TASK_F_INTERNAL_ERROR, res_res = -1, res_buf = None, res_udata = tk_udata tk\<rparr>"

definition requeued :: "nat \<Rightarrow> xio_request_prep_type \<Rightarrow> nat list \<Rightarrow> xio_queues \<Rightarrow> xio_queues" where
  "requeued s p l q = q(s := (q s)(p := l))"

text \<open>What failing tasks leaves alone.\<close>

definition same_rest :: "'p fh_xio \<Rightarrow> 'p fh_xio \<Rightarrow> bool" where
  "same_rest xio xio' \<longleftrightarrow> task_list xio' = task_list xio \<and> buf_list xio' = buf_list xio \<and> xio_xp xio' = xio_xp xio \<and>
     free_states xio' = free_states xio \<and> xio_state xio' = xio_state xio"

lemma same_rest_refl [simp]: "same_rest xio xio"
  by (simp add: same_rest_def)

lemma same_rest_trans: "same_rest x y \<Longrightarrow> same_rest y z \<Longrightarrow> same_rest x z"
  by (simp add: same_rest_def)

text \<open>Moving the head of a queue to its next task, and giving the task back.\<close>

lemma fail_one:
  assumes inv: "xio_inv V [] q xio" and s: "s < XIO_XPOLL_MAX_TASK_COUNT" and l: "q s p = t # l"
  shows "\<exists>xio'. fh_xio_release_task (xio\<lparr>fd_state_list := (fd_state_list xio)
        [s := xio_set_queue_head p (tk_next (task_list xio ! t)) (fd_state_list xio ! s)]\<rparr>) t = Inr xio' \<and>
    xio_inv V [] (requeued s p l q) xio' \<and> free_tasks xio' = t # free_tasks xio \<and> same_rest xio xio'"
proof -
  let ?st = "xio_set_queue_head p (tk_next (task_list xio ! t)) (fd_state_list xio ! s)"
  let ?x = "xio\<lparr>fd_state_list := (fd_state_list xio)[s := ?st]\<rparr>"
  let ?q = "requeued s p l q"
  have sh: "tasks_shared [] q xio" and so: "states_ok xio" using inv by (simp_all add: xio_inv_def)
  have len: "length (fd_state_list xio) = XIO_XPOLL_MAX_TASK_COUNT" using so by (simp add: states_ok_def)
  have qo: "queues_ok q xio" using sh by (simp add: tasks_shared_def)
  then have "task_chain (task_list xio) (xio_queue_head p (fd_state_list xio ! s)) (t # l)"
    using s l by (metis queues_ok_def)
  then have chain: "task_chain (task_list xio) (tk_next (task_list xio ! t)) l" by simp
  have "queues_ok ?q ?x"
    using qo s len chain unfolding queues_ok_def by (auto simp: requeued_def nth_update_if)
  moreover have "mset (t # free_tasks xio @ queued ?q) = mset [0 ..< XIO_XPOLL_MAX_TASK_COUNT]"
  proof -
    have "mset (queued q) = add_mset t (mset (queued ?q))"
      using mset_queued_update [OF s, of q p l] l by (simp add: requeued_def)
    then show ?thesis using sh by (simp add: tasks_shared_def)
  qed
  moreover have "free_tasks ?x = free_tasks xio" "tasks_ok ?x"
    using sh by (simp_all add: free_tasks_def tasks_ok_def tasks_shared_def)
  ultimately have "tasks_shared [t] ?q ?x" by (simp add: tasks_shared_def)
  moreover have key: "state_key ?x i = state_key xio i" for i by (simp add: state_key_def nth_update_if)
  then have "table_ok ?x" using inv by (simp add: xio_inv_def table_ok_def free_states_def)
  moreover have "states_ok ?x" using so by (rule states_update) simp
  moreover have "free_states ?x = free_states xio" by (simp add: free_states_def)
  moreover have "\<forall>i \<in> set (free_states xio). \<forall>r. ?q i r = []"
    using inv l by (auto simp: xio_inv_def requeued_def)
  ultimately have "xio_inv V [t] ?q ?x" using inv by (simp add: xio_inv_def slices_ok_def watched_ok_def)
  from inv_drop_task [OF this] show ?thesis
    by (auto simp: Let_def same_rest_def free_tasks_def free_states_def xio_state_def fun_eq_iff)
qed

lemma fail_queue_correct:
  assumes "xio_inv V [] q xio" "s < XIO_XPOLL_MAX_TASK_COUNT"
  shows "\<exists>xio'. fh_xio_fail_queue p s k xio rs =
      Inr (k - length rs < length (q s p),
           rs @ map (\<lambda>t. fail_result (task_list xio ! t)) (take (k - length rs) (q s p)), xio') \<and>
    xio_inv V [] (requeued s p (drop (k - length rs) (q s p)) q) xio' \<and>
    free_tasks xio' = rev (take (k - length rs) (q s p)) @ free_tasks xio \<and> same_rest xio xio'"
  using assms
proof (induction "q s p" arbitrary: q xio rs)
  case Nil
  have "task_chain (task_list xio) (xio_queue_head p (fd_state_list xio ! s)) (q s p)"
    "s < length (fd_state_list xio)"
    using Nil.prems by (simp_all add: xio_inv_def tasks_shared_def queues_ok_def states_ok_def)
  then have "xio_queue_head p (fd_state_list xio ! s) = None" "s < length (fd_state_list xio)"
    using Nil.hyps [symmetric] by simp_all
  moreover have "requeued s p [] q = q" unfolding requeued_def Nil.hyps by simp
  ultimately show ?case using Nil by (simp add: fh_xio_fail_queue.simps [of p s])
next
  case (Cons t l)
  have chain: "task_chain (task_list xio) (xio_queue_head p (fd_state_list xio ! s)) (q s p)"
    and len: "s < length (fd_state_list xio)"
    using Cons.prems by (simp_all add: xio_inv_def tasks_shared_def queues_ok_def states_ok_def)
  have head: "xio_queue_head p (fd_state_list xio ! s) = Some t" "t < length (task_list xio)"
    using chain Cons.hyps(2) [symmetric] by simp_all
  show ?case
  proof (cases "length rs < k")
    case False
    moreover have "requeued s p (t # l) q = q" unfolding Cons.hyps(2) requeued_def by simp
    ultimately show ?thesis using Cons.prems len head Cons.hyps(2) [symmetric]
      by (simp add: fh_xio_fail_queue.simps [of p s] fh_xio_add_result_def)
  next
    case True
    let ?r = "fail_result (task_list xio ! t)"
    obtain xa where a: "fh_xio_release_task (xio\<lparr>fd_state_list := (fd_state_list xio)
        [s := xio_set_queue_head p (tk_next (task_list xio ! t)) (fd_state_list xio ! s)]\<rparr>) t = Inr xa"
      "xio_inv V [] (requeued s p l q) xa" "free_tasks xa = t # free_tasks xio" "same_rest xio xa"
      using fail_one [OF Cons.prems Cons.hyps(2) [symmetric]] by blast
    have step: "fh_xio_fail_queue p s k xio rs = fh_xio_fail_queue p s k xa (rs @ [?r])"
      using True len head a(1)
      by (simp add: fh_xio_fail_queue.simps [of p s k xio] fh_xio_add_result_def fail_result_def)
    have ql: "l = requeued s p l q s p" by (simp add: requeued_def)
    have again: "requeued s p l' (requeued s p l q) = requeued s p l' q" for l' by (simp add: requeued_def)
    have n: "k - length rs = Suc (k - length (rs @ [?r]))" using True by simp
    from Cons.hyps(1) [OF ql a(2) Cons.prems(2), of "rs @ [?r]"] show ?thesis
      unfolding step ql [symmetric] again using a(3,4) Cons.hyps(2) [symmetric] n
      by (auto simp: same_rest_def)
  qed
qed

section \<open>The loop over the events\<close>

text \<open>
  The specification, on lists: \<open>n\<close> results are left, an event is a state with whether it has the error
  bit. It yields the tasks failed, in order, and the queues after.
\<close>

fun fail_events :: "nat \<Rightarrow> (nat \<times> bool) list \<Rightarrow> xio_queues \<Rightarrow> nat list \<times> xio_queues" where
  "fail_events n [] q = ([], q)"
| "fail_events n ((s, err) # evs) q =
     (if \<not> err then fail_events n evs q
      else let ins = q s XIO_PREP_IN; outs = q s XIO_PREP_OUT
        in if n < length ins then (take n ins, requeued s XIO_PREP_IN (drop n ins) q)
           else if n < length (ins @ outs) then
             (ins @ take (n - length ins) outs,
              requeued s XIO_PREP_OUT (drop (n - length ins) outs) (requeued s XIO_PREP_IN [] q))
           else let (ts, q') = fail_events (n - length (ins @ outs)) evs
               (requeued s XIO_PREP_OUT [] (requeued s XIO_PREP_IN [] q))
             in (ins @ outs @ ts, q'))"

definition xio_event :: "'p xpoll_ops \<Rightarrow> u32 \<times> nat \<Rightarrow> nat \<times> bool" where
  "xio_event ops e = (snd e, fst e AND op_ERROR ops \<noteq> 0)"

lemma process_events_Cons [simp]:
  "fh_xio_process_events ops k (e # evs) xio rs =
     (if fst e AND op_ERROR ops \<noteq> 0 then
        and_then (fh_xio_fail_queue XIO_PREP_IN (snd e) k xio rs) (\<lambda>(full, rs, xio).
        if full then Inr (rs, xio)
        else and_then (fh_xio_fail_queue XIO_PREP_OUT (snd e) k xio rs) (\<lambda>(full, rs, xio).
        if full then Inr (rs, xio) else fh_xio_process_events ops k evs xio rs))
      else fh_xio_process_events ops k evs xio rs)"
  by (rule prod.exhaust [of e]) (simp only: fh_xio_process_events.simps fst_conv snd_conv)

text \<open>One event with an error: the queue for input, and if there is room the queue for output.\<close>

lemma fail_both:
  fixes k :: nat and rs :: "fh_xio_result list"
  assumes inv: "xio_inv V [] q xio" and s: "s < XIO_XPOLL_MAX_TASK_COUNT"
  defines "ins \<equiv> q s XIO_PREP_IN" and "outs \<equiv> q s XIO_PREP_OUT" and "n \<equiv> k - length rs"
    and "results \<equiv> \<lambda>ts. map (\<lambda>t. fail_result (task_list xio ! t)) ts"
  obtains (full) xa where "n < length ins" "fh_xio_fail_queue XIO_PREP_IN s k xio rs = Inr (True, rs @ results (take n ins), xa)"
      "xio_inv V [] (requeued s XIO_PREP_IN (drop n ins) q) xa" "free_tasks xa = rev (take n ins) @ free_tasks xio" "same_rest xio xa"
  | (room) xa xb where "\<not> n < length ins" "fh_xio_fail_queue XIO_PREP_IN s k xio rs = Inr (False, rs @ results ins, xa)"
      "fh_xio_fail_queue XIO_PREP_OUT s k xa (rs @ results ins) =
        Inr (n - length ins < length outs, rs @ results ins @ results (take (n - length ins) outs), xb)"
      "xio_inv V [] (requeued s XIO_PREP_OUT (drop (n - length ins) outs) (requeued s XIO_PREP_IN [] q)) xb"
      "free_tasks xb = rev (take (n - length ins) outs) @ rev ins @ free_tasks xio" "same_rest xio xb"
proof -
  obtain xa where a: "fh_xio_fail_queue XIO_PREP_IN s k xio rs = Inr (n < length ins, rs @ results (take n ins), xa)"
    "xio_inv V [] (requeued s XIO_PREP_IN (drop n ins) q) xa"
    "free_tasks xa = rev (take n ins) @ free_tasks xio" "same_rest xio xa"
    using fail_queue_correct [OF inv s, of XIO_PREP_IN k rs] unfolding ins_def n_def results_def by blast
  show thesis
  proof (cases "n < length ins")
    case True
    then show ?thesis using full a by simp
  next
    case False
    let ?qa = "requeued s XIO_PREP_IN [] q" and ?rs = "rs @ results ins"
    have na: "k - length ?rs = n - length ins" by (simp add: n_def results_def)
    have qa: "?qa s XIO_PREP_OUT = outs" by (simp add: requeued_def outs_def)
    have inva: "xio_inv V [] ?qa xa" using a(2) False by simp
    obtain xb where b: "fh_xio_fail_queue XIO_PREP_OUT s k xa ?rs =
        Inr (n - length ins < length outs, ?rs @ map (\<lambda>t. fail_result (task_list xa ! t)) (take (n - length ins) outs), xb)"
      "xio_inv V [] (requeued s XIO_PREP_OUT (drop (n - length ins) outs) ?qa) xb"
      "free_tasks xb = rev (take (n - length ins) outs) @ free_tasks xa" "same_rest xa xb"
      using fail_queue_correct [OF inva s, of XIO_PREP_OUT k ?rs] unfolding na qa by blast
    have "task_list xa = task_list xio" using a(4) by (simp add: same_rest_def)
    then show ?thesis using room [OF False _ _ b(2)] a(1,3) b(1,3) False same_rest_trans [OF a(4) b(4)] by (simp add: results_def)
  qed
qed

lemma process_events_correct:
  assumes "xio_inv V [] q xio" "\<forall>e \<in> set evs. snd e < XIO_XPOLL_MAX_TASK_COUNT" "length rs \<le> k"
  shows "\<exists>xio'. fh_xio_process_events ops k evs xio rs =
      Inr (rs @ map (\<lambda>t. fail_result (task_list xio ! t))
             (fst (fail_events (k - length rs) (map (xio_event ops) evs) q)), xio') \<and>
    xio_inv V [] (snd (fail_events (k - length rs) (map (xio_event ops) evs) q)) xio' \<and>
    free_tasks xio' = rev (fst (fail_events (k - length rs) (map (xio_event ops) evs) q)) @ free_tasks xio \<and>
    same_rest xio xio'"
  using assms
proof (induction evs arbitrary: q xio rs)
  case (Cons e evs)
  let ?s = "snd e" and ?n = "k - length rs"
  let ?ins = "q ?s XIO_PREP_IN" and ?outs = "q ?s XIO_PREP_OUT"
  have s: "?s < XIO_XPOLL_MAX_TASK_COUNT" and evs: "\<forall>e \<in> set evs. snd e < XIO_XPOLL_MAX_TASK_COUNT"
    using Cons.prems(2) by simp_all
  show ?case
  proof (cases "fst e AND op_ERROR ops = 0")
    case True
    moreover from True have "xio_event ops e = (?s, False)" by (simp add: xio_event_def)
    ultimately show ?thesis using Cons.IH [OF Cons.prems(1) evs Cons.prems(3)] by simp
  next
    case err: False
    have xe: "xio_event ops e = (?s, True)" using err by (simp add: xio_event_def)
    show ?thesis
    proof (cases rule: fail_both [OF Cons.prems(1) s, of k rs, case_names full room])
      case (full xa)
      then show ?thesis using err by (simp add: xe Let_def)
    next
      case (room xa xb)
      show ?thesis
      proof (cases "?n < length (?ins @ ?outs)")
        case True
        then have "?n - length ?ins < length ?outs" using room(1) by auto
        then show ?thesis using room True err by (simp add: xe Let_def)
      next
        case False
        let ?qb = "requeued ?s XIO_PREP_OUT [] (requeued ?s XIO_PREP_IN [] q)"
        let ?rb = "rs @ map (\<lambda>t. fail_result (task_list xio ! t)) (?ins @ ?outs)"
        have all: "take (?n - length ?ins) ?outs = ?outs" "drop (?n - length ?ins) ?outs = []"
          "\<not> ?n - length ?ins < length ?outs" "\<not> k - (length rs + length ?ins) < length ?outs" using False by auto
        have invb: "xio_inv V [] ?qb xb" using room(4) unfolding all .
        have "length ?rb \<le> k" using False room(1) Cons.prems(3) by simp
        from Cons.IH [OF invb evs this] obtain xc where c:
          "fh_xio_process_events ops k evs xb ?rb = Inr (?rb @ map (\<lambda>t. fail_result (task_list xb ! t))
             (fst (fail_events (k - length ?rb) (map (xio_event ops) evs) ?qb)), xc)"
          "xio_inv V [] (snd (fail_events (k - length ?rb) (map (xio_event ops) evs) ?qb)) xc"
          "free_tasks xc = rev (fst (fail_events (k - length ?rb) (map (xio_event ops) evs) ?qb)) @ free_tasks xb"
          "same_rest xb xc" by blast
        have nb: "k - length ?rb = ?n - (length ?ins + length ?outs)" by simp
        have "task_list xb = task_list xio" using room(6) by (simp add: same_rest_def)
        then show ?thesis
          using room(1-3,5) c False err same_rest_trans [OF room(6) c(4)]
          unfolding nb by (simp add: xe all split_beta Let_def)
      qed
    qed
  qed
qed simp

section \<open>The wait\<close>

definition xio_queues_of :: "'p fh_xio \<Rightarrow> xio_queues" where
  "xio_queues_of xio s p = (if s < XIO_XPOLL_MAX_TASK_COUNT then xio_queue xio p s else [])"

lemma fail_events_cong:
  assumes "\<forall>e \<in> set evs. fst e < N" "\<forall>s < N. q s = q' s"
  shows "fst (fail_events n evs q) = fst (fail_events n evs q') \<and>
    (\<forall>s < N. snd (fail_events n evs q) s = snd (fail_events n evs q') s)"
  using assms
proof (induction n evs q arbitrary: q' rule: fail_events.induct)
  case (2 n s err evs q)
  let ?qa = "requeued s XIO_PREP_OUT [] (requeued s XIO_PREP_IN [] q)"
    and ?qb = "requeued s XIO_PREP_OUT [] (requeued s XIO_PREP_IN [] q')"
  have s: "q s = q' s" using 2(3,4) by simp
  show ?case
  proof (cases "err \<and> length (q s XIO_PREP_IN @ q s XIO_PREP_OUT) \<le> n")
    case True
    have "\<forall>i < N. ?qa i = ?qb i" using 2(4) by (simp add: requeued_def)
    with 2(2) True 2(3) have "fst (fail_events (n - length (q s XIO_PREP_IN @ q s XIO_PREP_OUT)) evs ?qa) =
        fst (fail_events (n - length (q s XIO_PREP_IN @ q s XIO_PREP_OUT)) evs ?qb) \<and>
      (\<forall>i < N. snd (fail_events (n - length (q s XIO_PREP_IN @ q s XIO_PREP_OUT)) evs ?qa) i =
        snd (fail_events (n - length (q s XIO_PREP_IN @ q s XIO_PREP_OUT)) evs ?qb) i)"
      by (simp add: not_less)
    then show ?thesis using True s by (simp add: Let_def split_beta)
  next
    case False
    then show ?thesis using 2 s by (auto simp: Let_def requeued_def)
  qed
qed simp

context xpoll_backend begin

lemma wait_states:
  assumes inv: "xio_inv V held q xio" and w: "op_wait ops (xio_xp xio) (int k) t = Inr (n, err, evs, p)"
  shows "\<forall>e \<in> set evs. snd e < XIO_XPOLL_MAX_TASK_COUNT"
proof -
  have "xv_ready V (xio_xp xio)" "snd ` xv_watches V (xio_xp xio) \<subseteq> {..<XIO_XPOLL_MAX_TASK_COUNT}"
    using inv by (simp_all add: xio_inv_def watched_ok_def)
  then show ?thesis using wait_law [of "xio_xp xio" "int k" t] w by fastforce
qed

lemma fh_xio_wait_correct:
  assumes ok: "xio_ok V xio"
  shows "\<exists>count err evs p. op_wait ops (xio_xp xio) (int (min k XIO_XPOLL_MAX_EVENTS)) (sint (ucast t :: u32)) =
      Inr (count, err, evs, p) \<and>
    (if count < 0 then fh_xio_wait ops xio k t = Inr (count, err, [], xio\<lparr>xio_xp := p\<rparr>) \<and>
        xio_ok V (xio\<lparr>xio_xp := p\<rparr>)
     else \<exists>xio'. let failed = fail_events (min k XIO_XPOLL_MAX_EVENTS) (map (xio_event ops) evs) (xio_queues_of xio) in
        fh_xio_wait ops xio k t = Inr (int (length (fst failed)), None,
          map (\<lambda>t. fail_result (task_list xio ! t)) (fst failed), xio') \<and>
        xio_ok V xio' \<and> free_tasks xio' = rev (fst failed) @ free_tasks xio \<and>
        (\<forall>s < XIO_XPOLL_MAX_TASK_COUNT. \<forall>pt. xio_queue xio' pt s = snd failed s pt) \<and>
        xio_state xio' = xio_state xio \<and> xv_watches V (xio_xp xio') = xv_watches V (xio_xp xio) \<and>
        task_list xio' = task_list xio \<and> used_bytes xio' = used_bytes xio)"
proof -
  obtain q where inv: "xio_inv V [] q xio" using ok by (auto simp: xio_ok_def)
  have xok: "xv_ready V (xio_xp xio)" using inv by (simp add: xio_inv_def watched_ok_def)
  let ?k = "min k XIO_XPOLL_MAX_EVENTS"
  obtain count err evs p where w: "op_wait ops (xio_xp xio) (int ?k) (sint (ucast t :: u32)) = Inr (count, err, evs, p)"
    "xv_ready V p" "xv_watches V p = xv_watches V (xio_xp xio)"
    "snd ` set evs \<subseteq> snd ` xv_watches V (xio_xp xio)"
    using wait_law [OF xok, of "int ?k" "sint (ucast t :: u32)"] by auto
  have mv: "MIN_VALUE k XIO_XPOLL_MAX_EVENTS = ?k" by (simp add: MIN_VALUE_def min_def)
  let ?x = "xio\<lparr>xio_xp := p\<rparr>"
  have watched: "snd ` xv_watches V (xio_xp xio) \<subseteq> {..<XIO_XPOLL_MAX_TASK_COUNT}"
    using inv by (simp add: xio_inv_def watched_ok_def)
  note x = inv_watch [OF inv w(2) watched [folded w(3)]]
  have u: "\<forall>e \<in> set evs. snd e < XIO_XPOLL_MAX_TASK_COUNT"
    using w(4) watched by blast
  let ?f = "fail_events ?k (map (xio_event ops) evs)"
  have same: "free_tasks ?x = free_tasks xio" "task_list ?x = task_list xio" by (simp_all add: free_tasks_def)
  obtain xa where a: "fh_xio_process_events ops ?k evs ?x [] =
      Inr (map (\<lambda>t. fail_result (task_list xio ! t)) (fst (?f q)), xa)"
    "xio_inv V [] (snd (?f q)) xa" "free_tasks xa = rev (fst (?f q)) @ free_tasks xio" "same_rest ?x xa"
    using process_events_correct [OF x(1) u, of "[]" ?k ops] unfolding same by auto
  have sh: "tasks_shared [] q xio" "tasks_shared [] (snd (?f q)) xa" using inv a(2) by (simp_all add: xio_inv_def)
  have qs: "\<forall>s < XIO_XPOLL_MAX_TASK_COUNT. q s = xio_queues_of xio s"
    using xio_queue_eq [OF sh(1)] by (simp add: xio_queues_of_def fun_eq_iff)
  have "\<forall>e \<in> set (map (xio_event ops) evs). fst e < XIO_XPOLL_MAX_TASK_COUNT" using u by (simp add: xio_event_def)
  note c = fail_events_cong [OF this qs, of ?k]
  have q': "xio_queue xa pt s = snd (?f (xio_queues_of xio)) s pt" if "s < XIO_XPOLL_MAX_TASK_COUNT" for s pt
    using xio_queue_eq [OF sh(2) that] c that by simp
  have oks: "xio_ok V ?x" "xio_ok V xa" using x(1) a(2) unfolding xio_ok_def by blast+
  have same: "xio_state xa = xio_state xio" "xio_xp xa = p" "task_list xa = task_list xio" "used_bytes xa = used_bytes xio"
    using a(4) x(2) by (simp_all add: same_rest_def used_bytes_def)
  show ?thesis
  proof (cases "count < 0")
    case True
    then show ?thesis using w(1) oks(1) mv
      by (intro exI [of _ count] exI [of _ err] exI [of _ evs] exI [of _ p]) (simp add: fh_xio_wait_def Let_def)
  next
    case False
    have "fh_xio_wait ops xio k t = Inr (int (length (fst (?f q))), None,
        map (\<lambda>t. fail_result (task_list xio ! t)) (fst (?f q)), xa)"
      using w(1) a(1) mv False by (simp add: fh_xio_wait_def Let_def)
    then have "let failed = ?f (xio_queues_of xio) in
        fh_xio_wait ops xio k t = Inr (int (length (fst failed)), None,
          map (\<lambda>t. fail_result (task_list xio ! t)) (fst failed), xa) \<and>
        xio_ok V xa \<and> free_tasks xa = rev (fst failed) @ free_tasks xio \<and>
        (\<forall>s < XIO_XPOLL_MAX_TASK_COUNT. \<forall>pt. xio_queue xa pt s = snd failed s pt) \<and>
        xio_state xa = xio_state xio \<and> xv_watches V (xio_xp xa) = xv_watches V (xio_xp xio) \<and> task_list xa = task_list xio \<and>
        used_bytes xa = used_bytes xio"
      unfolding Let_def using oks(2) a(3) q' same c w(3) by simp
    note res = this
    show ?thesis
      by (intro exI [of _ count] exI [of _ err] exI [of _ evs] exI [of _ p] conjI w(1))
        (unfold if_not_P [OF False], rule exI, rule res)
  qed
qed

end

text \<open>Without an error nothing is reported and no queue changes.\<close>

lemma fail_events_ready: "\<forall>e \<in> set evs. \<not> snd e \<Longrightarrow> fail_events n evs q = ([], q)"
  by (induction n evs q rule: fail_events.induct) auto

lemma fail_events_bound: "length (fst (fail_events n evs q)) \<le> n"
proof (induction n evs q rule: fail_events.induct)
  case (2 n s err evs q)
  let ?l = "length (q s XIO_PREP_IN @ q s XIO_PREP_OUT)"
  let ?q = "requeued s XIO_PREP_OUT [] (requeued s XIO_PREP_IN [] q)"
  have "?l \<le> n \<Longrightarrow> err \<Longrightarrow> length (fst (fail_events (n - ?l) evs ?q)) + ?l \<le> n"
    using 2(2) [OF _ refl refl] by (simp add: le_diff_conv2)
  then show ?case using 2(1) by (auto simp: Let_def split_beta not_less)
qed simp

text \<open>With room for all waiting tasks, every task of a descriptor with an error is reported.\<close>

lemma length_queued_update:
  assumes "s < XIO_XPOLL_MAX_TASK_COUNT"
  shows "length (queued (requeued s p l q)) + length (q s p) = length (queued q) + length l"
  using arg_cong [OF mset_queued_update [OF assms, of q p l], of size] by (simp add: requeued_def)

lemma fail_events_complete:
  assumes "(s, True) \<in> set evs" "t \<in> set (q s p)" "\<forall>e \<in> set evs. fst e < XIO_XPOLL_MAX_TASK_COUNT"
    and "length (queued q) \<le> n"
  shows "t \<in> set (fst (fail_events n evs q))"
  using assms
proof (induction n evs q rule: fail_events.induct)
  case (2 n i err evs q)
  let ?qa = "requeued i XIO_PREP_IN [] q" and ?l = "length (q i XIO_PREP_IN @ q i XIO_PREP_OUT)"
  let ?qb = "requeued i XIO_PREP_OUT [] ?qa"
  have i: "i < XIO_XPOLL_MAX_TASK_COUNT" using 2(5) by simp
  have "?qa i XIO_PREP_OUT = q i XIO_PREP_OUT" by (simp add: requeued_def)
  then have len: "length (queued ?qb) + ?l = length (queued q)"
    using length_queued_update [OF i, of XIO_PREP_IN "[]" q] length_queued_update [OF i, of XIO_PREP_OUT "[]" ?qa]
    by simp
  show ?case
  proof (cases err)
    case False
    then show ?thesis using 2(1) [OF _ _ 2(4)] 2(3,5,6) by auto
  next
    case True
    have room: "\<not> n < ?l" "\<not> n < length (q i XIO_PREP_IN)" using len 2(6) by auto
    show ?thesis
    proof (cases "s = i")
      case True
      then have "t \<in> set (q i XIO_PREP_IN @ q i XIO_PREP_OUT)" using 2(4) by (cases p) auto
      then show ?thesis using \<open>err\<close> room by (auto simp: Let_def split_beta)
    next
      case False
      have "t \<in> set (?qb s p)" using False 2(4) by (simp add: requeued_def)
      moreover have "length (queued ?qb) \<le> n - ?l" using len 2(6) by simp
      moreover have "(s, True) \<in> set evs" using 2(3) False by simp
      ultimately have "t \<in> set (fst (fail_events (n - ?l) evs ?qb))"
        using 2(2) [of "q i XIO_PREP_IN" "q i XIO_PREP_OUT"] True room 2(5) by auto
      then show ?thesis using True room by (auto simp: Let_def split_beta)
    qed
  qed
qed simp

lemma queued_of:
  assumes "tasks_shared held q xio"
  shows "queued (xio_queues_of xio) = queued q"
proof -
  have "both_queues (xio_queues_of xio) s = both_queues q s" if "s < XIO_XPOLL_MAX_TASK_COUNT" for s
    using that xio_queue_eq [OF assms] by (simp add: both_queues_def xio_queues_of_def)
  then show ?thesis unfolding queued_def by (intro arg_cong [where f = concat] map_cong) simp_all
qed

lemma ok_queued_bound:
  assumes "xio_ok V xio"
  shows "length (queued (xio_queues_of xio)) \<le> XIO_XPOLL_MAX_TASK_COUNT"
proof -
  obtain q where "xio_inv V [] q xio" using assms by (auto simp: xio_ok_def)
  then have sh: "tasks_shared [] q xio" by (simp add: xio_inv_def)
  have "length (free_tasks xio @ queued q) = XIO_XPOLL_MAX_TASK_COUNT"
    using shared_distinct [OF sh] distinct_card [of "free_tasks xio @ queued q"] by simp
  then show ?thesis using queued_of [OF sh] by simp
qed

end
