(* ===== verification/Xio_Service.thy ===== *)
theory Xio_Service
  imports Xio_Header
begin

text \<open>
  What \<open>src/src/event/xio.h\<close> promises its client of either implementation: the requests pending are a
  multiset of user data; a request accepted adds its user data, a result that is the last one of its
  request removes it, and no result has the user data of a request that is not pending.
\<close>

section \<open>Calls\<close>

text \<open>The calls of a client, with their outcomes. Rejected requests are calls too.\<close>

datatype xio_call =
    Requested nat bool
  | Waited "fh_xio_result list"
  | Submitted
  | Freed "fh_xio_result list"

definition last_result :: "fh_xio_result \<Rightarrow> bool" where
  "last_result r \<longleftrightarrow> res_flags r AND XIO_TASK_F_MORE = 0"

fun accepted :: "xio_call \<Rightarrow> nat multiset" where
  "accepted (Requested u ok) = (if ok then {#u#} else {#})"
| "accepted _ = {#}"

fun completed :: "xio_call \<Rightarrow> nat multiset" where
  "completed (Waited rs) = mset (map res_udata (filter last_result rs))"
| "completed _ = {#}"

fun reported :: "xio_call \<Rightarrow> fh_xio_result list" where
  "reported (Waited rs) = rs"
| "reported _ = []"

definition all_accepted :: "xio_call list \<Rightarrow> nat multiset" where
  "all_accepted cs = sum_list (map accepted cs)"

definition all_completed :: "xio_call list \<Rightarrow> nat multiset" where
  "all_completed cs = sum_list (map completed cs)"

lemma all_simps [simp]:
  "all_accepted [] = {#}" "all_accepted (cs @ ds) = all_accepted cs + all_accepted ds" "all_accepted (c # cs) = accepted c + all_accepted cs"
  "all_completed [] = {#}" "all_completed (cs @ ds) = all_completed cs + all_completed ds" "all_completed (c # cs) = completed c + all_completed cs"
  by (simp_all add: all_accepted_def all_completed_def)

text \<open>A sequence of calls, for any relation between states.\<close>

inductive xio_run :: "('s \<Rightarrow> xio_call \<Rightarrow> 's \<Rightarrow> bool) \<Rightarrow> 's \<Rightarrow> xio_call list \<Rightarrow> 's \<Rightarrow> bool"
  for step :: "'s \<Rightarrow> xio_call \<Rightarrow> 's \<Rightarrow> bool" and s :: 's
where
  no_call [simp]: "xio_run step s [] s"
| call: "xio_run step s cs s' \<Longrightarrow> step s' c s'' \<Longrightarrow> xio_run step s (cs @ [c]) s''"

lemma xio_run_two: "step s a t \<Longrightarrow> step t b u \<Longrightarrow> xio_run step s [a, b] u"
  using xio_run.call [OF xio_run.call [OF xio_run.no_call], of step s a t b u] by simp

lemma xio_run_three: "step s a t \<Longrightarrow> step t b u \<Longrightarrow> step u c v \<Longrightarrow> xio_run step s [a, b, c] v"
  using xio_run.call [OF xio_run.call [OF xio_run.call [OF xio_run.no_call]], of step s a t b u c v] by simp

text \<open>The abstract service: only the pending requests, and which calls are possible.\<close>

definition service_step :: "nat multiset \<Rightarrow> xio_call \<Rightarrow> nat multiset \<Rightarrow> bool" where
  "service_step p c p' \<longleftrightarrow> (\<forall>r \<in> set (reported c). res_udata r \<in># p) \<and> completed c \<subseteq># p \<and>
     p' = p - completed c + accepted c"

text \<open>What a client sees of a run: each request accepted once, with at most one last result.\<close>

definition answers_requests :: "xio_call list \<Rightarrow> nat multiset \<Rightarrow> bool" where
  "answers_requests cs p \<longleftrightarrow> all_accepted cs = all_completed cs + p \<and>
     (\<forall>pre c post. \<forall>r \<in> set (reported c). cs = pre @ c # post \<longrightarrow>
       res_udata r \<in># all_accepted pre - all_completed pre)"

lemma service_answers:
  assumes "xio_run service_step {#} cs p"
  shows "answers_requests cs p"
  using assms
proof (induction rule: xio_run.induct)
  case no_call
  then show ?case by (simp add: answers_requests_def)
next
  case (call cs p c p')
  have sum: "all_accepted cs = all_completed cs + p" using call.IH by (simp add: answers_requests_def)
  have c: "\<forall>r \<in> set (reported c). res_udata r \<in># p" "completed c \<subseteq># p" "p' = p - completed c + accepted c"
    using call.hyps(2) by (simp_all add: service_step_def)
  have "res_udata r \<in># all_accepted pre - all_completed pre"
    if r: "r \<in> set (reported d)" and split: "cs @ [c] = pre @ d # post" for pre d post r
  proof (cases post rule: rev_cases)
    case Nil
    then show ?thesis using split r c(1) sum by simp
  next
    case (snoc ds e)
    then have "cs = pre @ d # ds" using split by simp
    then show ?thesis using r call.IH by (auto simp: answers_requests_def)
  qed
  moreover have "p' + completed c = p + accepted c"
    using subset_mset.diff_add [OF c(2)] unfolding c(3) by (metis add.commute add.left_commute)
  ultimately show ?case using sum by (simp add: answers_requests_def ac_simps)
qed

section \<open>The contract of an implementation\<close>

locale xio_service =
  fixes ok :: "'s \<Rightarrow> bool" and pending :: "'s \<Rightarrow> nat multiset" and step :: "'s \<Rightarrow> xio_call \<Rightarrow> 's \<Rightarrow> bool"
  assumes ok_law: "ok s \<Longrightarrow> step s c s' \<Longrightarrow> ok s'"
    and pending_law: "ok s \<Longrightarrow> step s c s' \<Longrightarrow> pending s' + completed c = pending s + accepted c"
    and reported_law: "ok s \<Longrightarrow> step s c s' \<Longrightarrow> r \<in> set (reported c) \<Longrightarrow> res_udata r \<in># pending s"
begin

text \<open>Every step is a step of the abstract service: a call either accepts or reports, so nothing is lost.\<close>

lemma step_refines:
  assumes "ok s" "step s c s'"
  shows "service_step (pending s) c (pending s')"
proof -
  have e: "pending s' + completed c = pending s + accepted c" by (rule pending_law [OF assms])
  have "accepted c = {#} \<or> completed c = {#}" by (cases c) simp_all
  then have "completed c \<subseteq># pending s \<and> pending s' = pending s - completed c + accepted c"
  proof
    assume "accepted c = {#}"
    then show ?thesis using e by (metis add_diff_cancel_right' add_0_right mset_subset_eq_add_right)
  next
    assume "completed c = {#}"
    then show ?thesis using e by simp
  qed
  then show ?thesis using reported_law [OF assms] by (simp add: service_step_def)
qed

lemma run_refines:
  assumes "xio_run step s cs s'" "ok s"
  shows "ok s' \<and> xio_run service_step (pending s) cs (pending s')"
  using assms by (induction rule: xio_run.induct) (auto intro: ok_law step_refines xio_run.call)

lemma run_answers: "xio_run step s cs s' \<Longrightarrow> ok s \<Longrightarrow> pending s = {#} \<Longrightarrow> answers_requests cs (pending s')"
  using run_refines [of s cs s'] service_answers [of cs "pending s'"] by simp

end

end
