(* ===== verification/Xio_Reach.thy ===== *)
theory Xio_Reach
  imports Xio_Wait Xio_Service
begin

text \<open>
  The life of an instance: what a client can reach from creation with receive requests, into its own
  buffers or buffers of the pool, and waits; and the first receive request that asks for a buffer of the pool.
\<close>

section \<open>Reachable instances\<close>

text \<open>
  The calls of a client. \<open>P\<close> holds of the operations the platform may offer in a call, \<open>M\<close> of what the
  allocator may answer in a request. A request names a descriptor that the event instance has room for;
  a call that ends in a fault or a failed assertion leads nowhere.
\<close>

inductive xio_step ::
  "('p xpoll_ops \<Rightarrow> bool) \<Rightarrow> (xio_mem \<Rightarrow> bool) \<Rightarrow> 'p xpoll_view \<Rightarrow> 'p fh_xio \<Rightarrow> xio_call \<Rightarrow> 'p fh_xio \<Rightarrow> bool"
  for P :: "'p xpoll_ops \<Rightarrow> bool" and M :: "xio_mem \<Rightarrow> bool" and V :: "'p xpoll_view"
where
  request: "P ops \<Longrightarrow> M m \<Longrightarrow> xv_fits V (xio_xp xio) fd \<Longrightarrow>
    fh_xio_request_recv ops m err xio u fd buf n flags = Inr (ret, xio') \<Longrightarrow>
    xio_step P M V xio (Requested u (ret = None)) xio'"
| wait: "P ops \<Longrightarrow> fh_xio_wait ops xio k t = Inr (cnt, err, results, xio') \<Longrightarrow> xio_step P M V xio (Waited results) xio'"
| submit: "fh_xio_submit_requests xio \<Longrightarrow> xio_step P M V xio Submitted xio"

inductive xio_reach :: "('p xpoll_ops \<Rightarrow> bool) \<Rightarrow> (xio_mem \<Rightarrow> bool) \<Rightarrow> 'p xpoll_view \<Rightarrow> 'p fh_xio \<Rightarrow> bool"
  for P :: "'p xpoll_ops \<Rightarrow> bool" and M :: "xio_mem \<Rightarrow> bool" and V :: "'p xpoll_view"
where
  created: "P ops \<Longrightarrow> fh_xio_create ops m = Inr (Some (Xio_created xio)) \<Longrightarrow> xio_reach P M V xio"
| stepped: "xio_reach P M V xio \<Longrightarrow> xio_step P M V xio c xio' \<Longrightarrow> xio_reach P M V xio'"

inductive_cases xio_stepE: "xio_step P M V xio c xio'"

lemma xio_new_ok: "xio_new V xio \<Longrightarrow> xio_ok V xio"
  unfolding xio_new_def xio_ok_def by blast

lemma created_new:
  "xpoll_backend ops V \<Longrightarrow> fh_xio_create ops m = Inr (Some (Xio_created xio)) \<Longrightarrow> xio_new V xio"
  using xpoll_backend.fh_xio_create_correct [of ops V m] by auto

text \<open>The requests pending are the user data of the queued tasks; a task is free or queued.\<close>

definition xio_requests :: "'p fh_xio \<Rightarrow> nat multiset" where
  "xio_requests xio = image_mset (\<lambda>t. tk_udata (task_list xio ! t)) (mset (queued (xio_queues_of xio)))"

lemma ok_shared:
  assumes "xio_ok V xio"
  shows "mset (free_tasks xio) + mset (queued (xio_queues_of xio)) = mset [0 ..< XIO_XPOLL_MAX_TASK_COUNT]"
    "set (free_tasks xio) \<inter> set (queued (xio_queues_of xio)) = {}"
proof -
  obtain q where "xio_inv V [] q xio" using assms by (auto simp: xio_ok_def)
  then have sh: "tasks_shared [] q xio" by (simp add: xio_inv_def)
  show "mset (free_tasks xio) + mset (queued (xio_queues_of xio)) = mset [0 ..< XIO_XPOLL_MAX_TASK_COUNT]"
    using sh queued_of [OF sh] by (simp add: tasks_shared_def)
  show "set (free_tasks xio) \<inter> set (queued (xio_queues_of xio)) = {}"
    using shared_distinct(1) [OF sh] queued_of [OF sh] by simp
qed

lemma ok_queued_eq:
  assumes "xio_ok V xio" "xio_ok V xio'" "mset (free_tasks xio) + M = mset (free_tasks xio') + N"
  shows "mset (queued (xio_queues_of xio')) + M = mset (queued (xio_queues_of xio)) + N"
proof -
  let ?q = "mset (queued (xio_queues_of xio))" and ?q' = "mset (queued (xio_queues_of xio'))"
  have "mset (free_tasks xio) + (?q' + M) = mset (free_tasks xio') + ?q' + N" using assms(3) by (simp add: ac_simps)
  also have "\<dots> = mset (free_tasks xio) + (?q + N)"
    unfolding ok_shared(1) [OF assms(2)] ok_shared(1) [OF assms(1), symmetric] by (simp add: ac_simps)
  finally show ?thesis by simp
qed

lemma requests_cong:
  "(\<And>t. t \<in> set (queued (xio_queues_of xio)) \<Longrightarrow> task_list xio' ! t = task_list xio ! t) \<Longrightarrow>
    image_mset (\<lambda>t. tk_udata (task_list xio' ! t)) (mset (queued (xio_queues_of xio))) = xio_requests xio"
  unfolding xio_requests_def by (rule image_mset_cong) simp

lemma recv_requests:
  assumes ok: "xio_ok V xio" "xio_ok V xio'" and out: "recv_outcome xio u fd buf n flags ret xio'"
  shows "xio_requests xio' = xio_requests xio + accepted (Requested u (ret = None))"
proof (cases "ret = None")
  case True
  then obtain t where t: "free_tasks xio = t # free_tasks xio'" "tk_udata (task_list xio' ! t) = u"
    "\<forall>i. i \<noteq> t \<longrightarrow> task_list xio' ! i = task_list xio ! i"
    using out by (auto simp: recv_outcome_def recv_task_def)
  have "t \<notin> set (queued (xio_queues_of xio))" using ok_shared(2) [OF ok(1)] t(1) by auto
  then have "image_mset (\<lambda>t. tk_udata (task_list xio' ! t)) (mset (queued (xio_queues_of xio))) = xio_requests xio"
    using t(3) by (intro requests_cong) auto
  moreover have "mset (queued (xio_queues_of xio')) = mset (queued (xio_queues_of xio)) + {#t#}"
    using ok_queued_eq [OF ok, of "{#}" "{#t#}"] t(1) by simp
  ultimately show ?thesis using True t(2) by (simp add: xio_requests_def [of xio'])
next
  case False
  then have f: "free_tasks xio' = free_tasks xio" "\<forall>i. i \<notin> set (free_tasks xio) \<longrightarrow> task_list xio' ! i = task_list xio ! i"
    using out by (simp_all add: recv_outcome_def)
  have "mset (queued (xio_queues_of xio')) = mset (queued (xio_queues_of xio))"
    using ok_queued_eq [OF ok, of "{#}" "{#}"] f(1) by simp
  moreover have "image_mset (\<lambda>t. tk_udata (task_list xio' ! t)) (mset (queued (xio_queues_of xio))) = xio_requests xio"
    using f(2) ok_shared(2) [OF ok(1)] by (intro requests_cong) auto
  ultimately show ?thesis using False by (simp add: xio_requests_def [of xio'])
qed

text \<open>A failed task is reported once, by its last result.\<close>

lemma last_fail_result [simp]: "last_result (fail_result tk)" "res_udata (fail_result tk) = tk_udata tk"
  by (simp_all add: last_result_def fail_result_def XIO_TASK_F_INTERNAL_ERROR_def XIO_TASK_F_MORE_def)

lemma wait_requests:
  assumes ok: "xio_ok V xio" "xio_ok V xio'"
    and w: "free_tasks xio' = rev ts @ free_tasks xio" "task_list xio' = task_list xio"
  defines "rs \<equiv> map (\<lambda>t. fail_result (task_list xio ! t)) ts"
  shows "xio_requests xio' + completed (Waited rs) = xio_requests xio"
    and "r \<in> set rs \<Longrightarrow> last_result r \<and> res_udata r \<in># xio_requests xio"
proof -
  have q: "mset (queued (xio_queues_of xio)) = mset (queued (xio_queues_of xio')) + mset ts"
    using ok_queued_eq [OF ok(2,1), of "{#}" "mset ts"] w(1) by (simp add: union_commute)
  have c: "completed (Waited rs) = image_mset (\<lambda>t. tk_udata (task_list xio ! t)) (mset ts)"
    unfolding rs_def by (induction ts) simp_all
  show e: "xio_requests xio' + completed (Waited rs) = xio_requests xio"
    unfolding xio_requests_def q c w(2) by simp
  show "last_result r \<and> res_udata r \<in># xio_requests xio" if "r \<in> set rs"
    using that unfolding xio_requests_def q rs_def by auto
qed

context xpoll_backend begin

lemma wait_tasks:
  assumes ok: "xio_ok V xio" and run: "fh_xio_wait ops xio k t = Inr (cnt, err, rs, xio')"
  shows "xio_ok V xio' \<and> task_list xio' = task_list xio \<and> (\<exists>ts. free_tasks xio' = rev ts @ free_tasks xio \<and>
    rs = map (\<lambda>t. fail_result (task_list xio ! t)) ts)"
proof (cases "cnt < 0")
  case True
  then obtain p where "xio' = xio\<lparr>xio_xp := p\<rparr>" "rs = []" "xio_ok V xio'"
    using fh_xio_wait_correct [OF ok, of k t] run by (auto simp: Let_def split: if_splits)
  then show ?thesis by (simp add: free_tasks_def)
next
  case False
  then show ?thesis using fh_xio_wait_correct [OF ok, of k t] run
    by (force simp: Let_def split: if_splits)
qed

end

context xpoll_system begin

text \<open>While deletions are granted, every call keeps the invariant and does to the pending requests what its outcome says.\<close>

lemma step_correct:
  assumes ok: "xio_ok V xio" and step: "xio_step P deletes_granted V xio c xio'"
  shows "xio_ok V xio' \<and> xio_requests xio' + completed c = xio_requests xio + accepted c \<and>
    (\<forall>r \<in> set (reported c). last_result r \<and> res_udata r \<in># xio_requests xio)"
proof (rule xio_stepE [OF step])
  fix ops m fd err u buf n flags ret
  assume r: "c = Requested u (ret = None)" "P ops" "deletes_granted m" "xv_fits V (xio_xp xio) fd"
    "fh_xio_request_recv ops m err xio u fd buf n flags = Inr (ret, xio')"
  from xpoll_backend.recv_correct [OF backend_law [OF r(2)] ok r(4,3), of buf err u n flags] r(5)
  have "xio_ok V xio'" "recv_outcome xio u fd buf n flags ret xio'" by (auto simp: or_aborts_def)
  then show ?thesis using recv_requests [OF ok] r(1) by simp
next
  fix ops k t cnt err results
  assume r: "c = Waited results" "P ops" "fh_xio_wait ops xio k t = Inr (cnt, err, results, xio')"
  from xpoll_backend.wait_tasks [OF backend_law [OF r(2)] ok r(3)] obtain ts where
    ok': "xio_ok V xio'" and ts: "free_tasks xio' = rev ts @ free_tasks xio" "task_list xio' = task_list xio" and
    rs: "results = map (\<lambda>t. fail_result (task_list xio ! t)) ts" by blast
  note w = wait_requests [OF ok ok' ts, folded rs]
  show ?thesis unfolding r(1) using ok' w(1) w(2) by (simp del: completed.simps)
qed (use ok in simp)

lemma step_ok: "xio_ok V xio \<Longrightarrow> xio_step P deletes_granted V xio c xio' \<Longrightarrow> xio_ok V xio'"
  using step_correct by blast

lemma reach_ok: "xio_reach P deletes_granted V xio \<Longrightarrow> xio_ok V xio"
  by (induction rule: xio_reach.induct)
    (auto intro: step_ok xio_new_ok created_new [OF backend_law])

end

text \<open>So the implementation on any system meets the contract of \<open>xio.h\<close>, while deletions are granted.\<close>

sublocale xpoll_system < service: xio_service "xio_ok V" xio_requests "xio_step P deletes_granted V"
  by unfold_locales (use step_correct in \<open>blast+\<close>)

lemma ok_requests_size: "xio_ok V xio \<Longrightarrow> size (xio_requests xio) + length (free_tasks xio) = 2048"
  using arg_cong [OF ok_shared(1), of V xio size] by (simp add: xio_requests_def XIO_XPOLL_MAX_TASK_COUNT_def)

lemma new_no_requests:
  assumes "xio_new V xio"
  shows "xio_requests xio = {#}"
proof -
  have inv: "xio_inv V [] (\<lambda>_ _. []) xio" using assms by (auto simp: xio_new_def)
  then have "queued (xio_queues_of xio) = []"
    using queued_of [of "[]" "\<lambda>_ _. []" xio] by (simp add: xio_inv_def queued_def both_queues_def)
  then show ?thesis by (simp add: xio_requests_def)
qed

context xpoll_system begin

text \<open>No result announces another one.\<close>

lemma run_last:
  assumes "xio_run (xio_step P deletes_granted V) xio cs xio'" "xio_ok V xio"
  shows "\<forall>c \<in> set cs. \<forall>r \<in> set (reported c). last_result r"
  using assms
proof (induction rule: xio_run.induct)
  case (call cs xio' c xio'')
  have "xio_ok V xio'" using service.run_refines [OF call.hyps(1) call.prems] by blast
  then have "\<forall>r \<in> set (reported c). last_result r" using step_correct call.hyps(2) by blast
  then show ?case using call by auto
qed simp

lemma created_answers:
  assumes ops: "P ops" and born: "fh_xio_create ops m = Inr (Some (Xio_created xio))" and run: "xio_run (xio_step P deletes_granted V) xio cs xio'"
  shows "answers_requests cs (xio_requests xio') \<and> xio_ok V xio' \<and> (\<forall>c \<in> set cs. \<forall>r \<in> set (reported c). last_result r)"
proof -
  have new: "xio_new V xio" by (rule created_new [OF backend_law [OF ops] born])
  note ok = xio_new_ok [OF new]
  show ?thesis
    using service.run_answers [OF run ok new_no_requests [OF new]] service.run_refines [OF run ok] run_last [OF run ok]
    by simp
qed

end

text \<open>What the invariant says without naming the queues.\<close>

lemma ok_partition:
  assumes "xio_ok V xio"
  shows "distinct (free_tasks xio @ queued (xio_queues_of xio)) \<and>
    set (free_tasks xio @ queued (xio_queues_of xio)) = {..<XIO_XPOLL_MAX_TASK_COUNT}"
proof -
  obtain q where inv: "xio_inv V [] q xio" using assms by (auto simp: xio_ok_def)
  then have sh: "tasks_shared [] q xio" by (simp add: xio_inv_def)
  show ?thesis using shared_distinct [OF sh] queued_of [OF sh] by simp
qed

section \<open>A receive request for a buffer of the pool\<close>

text \<open>
  On a new instance a registration that succeeds is taken for a failure, and giving back the slice
  fails the assertion, since no slice has left the free list.
\<close>

lemma rev_upt_top: "0 < n \<Longrightarrow> rev [0 ..< n] = (n - 1) # rev [0 ..< n - 1]"
  by (cases n) simp_all

text \<open>The first slice taken for less than a whole block stays in the list of free ones.\<close>

lemma first_slice:
  assumes sl: "slices_ok xio" "free_buf_list_top xio = XIO_BUF_COUNT" and used: "used_bytes xio = {}" and n: "n < XIO_BUF_SIZE"
  obtains i xb where "fh_xio_acquire_slice xio n = Inr (Some i, xb)" "slices_ok xb" "same_but_slices xio xb"
    "free_buf_list_top xb = XIO_BUF_COUNT" "i < XIO_BUF_COUNT"
proof -
  have "sl_off (buf_list xio ! i) = 0" if "i < XIO_BUF_COUNT" for i
    using used that unfolding used_bytes_def buffer_bytes_def by fastforce
  then have fresh: "\<forall>i \<in> listed_slices xio. sl_off (buf_list xio ! i) = 0"
    using sl(1) unfolding listed_slices_def slices_ok_def by (auto simp: in_set_conv_nth)
  from acquire_part_then_release [OF sl n fresh] obtain i xb where
    x: "fh_xio_acquire_slice xio n = Inr (Some i, xb)" "slices_ok xb" "same_but_slices xio xb"
    "free_buf_list_top xb = XIO_BUF_COUNT" by blast
  with acquire_slice_correct [OF sl(1) less_imp_le [OF n]] have "i < XIO_BUF_COUNT"
    by (auto simp: slice_outcome_def)
  then show thesis using x that by blast
qed

lemma new_free: "xio_new V xio \<Longrightarrow> free_tasks xio = 2047 # rev [0 ..< 2047] \<and> free_states xio = 2047 # rev [0 ..< 2047]"
  using rev_upt_top [of XIO_XPOLL_MAX_TASK_COUNT] by (simp add: xio_new_def XIO_XPOLL_MAX_TASK_COUNT_def)

context xpoll_backend begin

lemma first_pool_recv:
  assumes new: "xio_new V xio" and n: "n < XIO_BUF_SIZE"
    and m: "grants (xio_set_mem m)" "deletes_granted m"
    and fd: "xv_fits V (xio_xp xio) fd"
    and added: "op_add ops (xio_xp xio) fd (XIO_XPOLL_MAX_TASK_COUNT - 1) (fresh_events ops OR op_READ ops) = Inr (True, p)"
  shows "fh_xio_request_recv ops m err xio u fd None n flags = Inl Assertion_failed"
proof -
  have inv: "xio_inv V [] (\<lambda>_ _. []) xio" and none: "xio_state xio fd = None" and top: "free_buf_list_top xio = XIO_BUF_COUNT"
    and used: "used_bytes xio = {}"
    and free: "free_tasks xio = rev [0 ..< XIO_XPOLL_MAX_TASK_COUNT]" "free_states xio = rev [0 ..< XIO_XPOLL_MAX_TASK_COUNT]"
    using new by (auto simp: xio_new_def)
  let ?t = "XIO_XPOLL_MAX_TASK_COUNT - 1"
  have up: "rev [0 ..< XIO_XPOLL_MAX_TASK_COUNT] = ?t # rev [0 ..< ?t]"
    by (rule rev_upt_top) (simp add: XIO_XPOLL_MAX_TASK_COUNT_def)
  note a = inv_take_task [OF inv free(1) [unfolded up]]
  let ?a = "xio\<lparr>free_task_list_top := free_task_list_top xio - 1\<rparr>"
  have sl: "slices_ok ?a" "free_buf_list_top ?a = XIO_BUF_COUNT"
    using inv top by (simp_all add: xio_inv_def slices_ok_def)
  have "used_bytes ?a = {}" using used by (simp add: used_bytes_def)
  from first_slice [OF sl this n] obtain i xb where b: "fh_xio_acquire_slice ?a n = Inr (Some i, xb)" "slices_ok xb"
    "same_but_slices ?a xb" "free_buf_list_top xb = XIO_BUF_COUNT" "i < XIO_BUF_COUNT" by blast
  note ib = inv_same_but_slices [OF a(2) b(3,2)]
  have len: "?t < length (task_list xb)" "length (buf_list xb) = XIO_BUF_COUNT"
    using a(4) ib(6) b(2) by (simp_all add: slices_ok_def)
  let ?tk = "(task_list xb ! ?t)\<lparr>tk_flags := XIO_TASK_F_BUFFER, tk_bid := sl_bid (buf_list xb ! i),
    tk_op := xio_op_code XIO_OP_RECV, tk_udata := u\<rparr>"
  let ?c = "xb\<lparr>task_list := (task_list xb)[?t := ?tk]\<rparr>"
  have prep: "fh_xio_request_prep_with_size ops m xio XIO_OP_RECV XIO_PREP_IN fd u None n =
      fh_xio_prep_attach ops m ?c XIO_PREP_IN fd ?t (Some i)"
    using n a(1) b(1,5) len by (simp add: fh_xio_request_prep_with_size_def fh_xio_prep_buffer_def)
  have tk: "tk_idx ?tk = tk_idx (task_list xb ! ?t)" "?t \<in> set [?t] \<or> tk_next ?tk = tk_next (task_list xb ! ?t)"
    by simp_all
  note ic = inv_write_task [OF ib(1) tk]
  have none_c: "xio_state ?c fd = None" and free_c: "free_states ?c = ?t # rev [0 ..< ?t]"
    using ic(3,4) ib(2,3) none free(2) up by (simp_all add: free_states_def xio_state_def)
  obtain tb where d: "fh_xio_prep_state ops m ?c fd = Inr (Some (?t, True), state_added ops fd ?t tb ?c)"
    "xio_inv V [?t] (\<lambda>_ _. []) (state_added ops fd ?t tb ?c)"
    "\<forall>g. xio_state (state_added ops fd ?t tb ?c) g = (if same_key fd g then Some ?t else xio_state ?c g)"
    "fs_events (fd_state_list (state_added ops fd ?t tb ?c) ! ?t) = fresh_events ops"
    by (rule prep_state_new [OF ic(1) none_c free_c, where m = m and ops = ops]) (use m(1) in blast)+
  let ?d = "state_added ops fd ?t tb ?c"
  have xd: "xio_state ?d fd = Some ?t" "xio_xp ?d = xio_xp xio" "free_buf_list_top ?d = XIO_BUF_COUNT"
    using d(3) ib(5) b(4) by (simp_all add: same_key_def)
  have "xv_ready V (xio_xp xio)" using inv by (simp add: xio_inv_def watched_ok_def)
  from add_law [OF this fd, of ?t "fresh_events ops OR op_READ ops"] added xd(2)
  have add: "op_add ops (xio_xp ?d) fd ?t (fresh_events ops OR xio_events ops XIO_PREP_IN) = Inr (True, p)"
    "xv_ready V p" "xv_watches V p \<subseteq> insert (fd, ?t) (xv_watches V (xio_xp ?d))"
    by (auto simp: xio_events_def dest: registeredD(1))
  obtain xe where e: "fh_xio_prep_watch ops m ?d fd ?t True (xio_events ops XIO_PREP_IN) ?t (Some i) =
      and_then (fh_xio_prep_undo xe ?t (Some i)) (\<lambda>xio. Inr (False, xio))" "xio_inv V [?t] (\<lambda>_ _. []) xe"
    "free_buf_list_top xe = free_buf_list_top ?d"
    using watch_registered [OF d(2) xd(1) _ d(4) add m(2), of "Some i"] by auto
  obtain fl where "fh_xio_release_task xe ?t = Inr (xe\<lparr>free_task_list := fl, free_task_list_top := free_task_list_top xe + 1\<rparr>)"
    using inv_drop_task [OF e(2)] by (auto simp: Let_def)
  then have "fh_xio_prep_undo xe ?t (Some i) = Inl Assertion_failed"
    using e(3) xd(3) by (simp add: fh_xio_prep_undo_def release_slice_full_list)
  then show ?thesis using prep d(1) e(1)
    by (simp add: fh_xio_request_recv_def fh_xio_prep_attach_def xio_events_def)
qed

end

end
