(* ===== verification/Xio_Kqueue.thy ===== *)
theory Xio_Kqueue
  imports Xio_Reach Xpoll_Kq_Backend
begin

text \<open>
  Waiting on \<open>kqueue\<close>, where the events of a ready descriptor are filters and have the error bit.
\<close>

lemma kqueue_fails_ready:
  assumes "kq_reports kn kw" "xio_ok (kqueue_sees kn) xio" "XIO_XPOLL_MAX_EVENTS \<le> k"
    and "op_wait (kqueue_ops b kn kw) (xio_xp xio) (int XIO_XPOLL_MAX_EVENTS) (sint (ucast t :: u32)) = Inr (n, err, evs, st)"
    and "0 \<le> n" "(bits, s) \<in> set evs" "task \<in> set (xio_queue xio pt s)"
  shows "\<exists>ret results xio'. fh_xio_wait (kqueue_ops b kn kw) xio k t = Inr (ret, None, results, xio') \<and>
    fail_result (task_list xio ! task) \<in> set results \<and> task \<in> set (free_tasks xio')"
proof -
  let ?ops = "kqueue_ops b kn kw" and ?q = "xio_queues_of xio"
  have min: "min k XIO_XPOLL_MAX_EVENTS = XIO_XPOLL_MAX_EVENTS" using assms(3) by simp
  obtain q where inv: "xio_inv (kqueue_sees kn) [] q xio" using assms(2) by (auto simp: xio_ok_def)
  have "kq_filters (xio_xp xio)" using inv by (simp add: xio_inv_def watched_ok_def kqueue_sees_def)
  from kq_wait_errors [OF assms(1) this assms(4,6)] have "xio_event ?ops (bits, s) = (s, True)"
    by (simp add: xio_event_def kqueue_ops_def)
  then have event: "(s, True) \<in> set (map (xio_event ?ops) evs)" using assms(6) by (metis image_eqI list.set_map)
  note w = xpoll_backend.fh_xio_wait_correct [OF kqueue_backend [OF assms(1)] assms(2), of b k t,
    unfolded min assms(4) Let_def]
  have states: "\<forall>e \<in> set (map (xio_event ?ops) evs). fst e < XIO_XPOLL_MAX_TASK_COUNT"
    using xpoll_backend.wait_states [OF kqueue_backend [OF assms(1)] inv assms(4)] by (auto simp: xio_event_def)
  have "task \<in> set (?q s pt)" using assms(7) bspec [OF states event] by (simp add: xio_queues_of_def)
  from fail_events_complete [where q = ?q and p = pt, OF event this states] have "task \<in> set (fst (fail_events XIO_XPOLL_MAX_EVENTS
      (map (xio_event ?ops) evs) ?q))"
    using ok_queued_bound [OF assms(2)] by (simp add: XIO_XPOLL_MAX_EVENTS_def XIO_XPOLL_MAX_TASK_COUNT_def)
  then show ?thesis using w assms(5) by auto
qed

end
