(* ===== verification/Xio_Samples.thy ===== *)
theory Xio_Samples
  imports Xio_Kqueue Xpoll_Backend Samples
begin

text \<open>
  Concrete back ends and instances of \<open>xio_xpoll.c\<close>, at which the theorems with hypotheses are applied.
\<close>

section \<open>Concrete instances\<close>

definition xio_sample_mem :: xio_mem where
  "xio_sample_mem = \<lparr>xio_calloc_ok = True, xio_mmap_ok = True,
     xio_create_mem = sample_mem, xio_set_mem = sample_mem, xio_delete_mem = sample_mem\<rparr>"

definition xp_sample_mem :: "nat xp_mem" where
  "xp_sample_mem = \<lparr>calloc_xp_ok = True, realloc_fds_ok = True, realloc_pfds_ok = True, realloc_infos_ok = True,
     fresh_pfd = (\<lambda>_. \<lparr>pfd_fd = 99, pfd_events = 9, pfd_revents = 9\<rparr>), fresh_info = (\<lambda>_. 0)\<rparr>"

text \<open>\<open>poll\<close>, which reports \<open>POLLERR\<close> for every descriptor; and without memory for its tables.\<close>

definition sample_ops :: "nat xpoll xpoll_ops" where
  "sample_ops = poll_ops xp_sample_mem (\<lambda>fds _. (int (length fds), \<lambda>_. 8))"

definition starved_ops :: "nat xpoll xpoll_ops" where
  "starved_ops = poll_ops (xp_sample_mem\<lparr>realloc_fds_ok := False\<rparr>) (\<lambda>fds _. (0, \<lambda>_. 0))"

text \<open>\<open>epoll\<close> and \<open>kqueue\<close> with a kernel that takes every change and reports nothing.\<close>

definition sample_epoll :: "epoll_call list xpoll_ops" where
  "sample_epoll = epoll_ops 3 (\<lambda>_ _. True) (\<lambda>_ k _. (if 0 < k then 0 else -1, []))"

definition sample_kqueue :: "kq_state xpoll_ops" where
  "sample_kqueue = kqueue_ops \<lparr>kb_calloc_ok = True, kb_kqueue = 3, kb_getfd = 0, kb_setfd = (\<lambda>_. 0)\<rparr>
     (\<lambda>_ _. None) (\<lambda>_ _ _. (0, []))"

lemma xio_sample_grants: "xio_grants xio_sample_mem" "grants (xio_set_mem xio_sample_mem)"
  "deletes_granted xio_sample_mem"
  by (simp_all add: xio_grants_def xio_sample_mem_def deletes_granted_def) (simp add: sample_mem_def)

lemma sample_backends:
  "xpoll_backend sample_ops poll_sees" "xpoll_backend starved_ops poll_sees"
  "xpoll_backend sample_epoll (epoll_sees (\<lambda>_ _. True))"
  "kq_reports (\<lambda>_ _. None) (\<lambda>_ _ _. (0, []))"
proof -
  show "xpoll_backend sample_ops poll_sees" "xpoll_backend starved_ops poll_sees"
    unfolding sample_ops_def starved_ops_def by (rule poll_backend.xpoll_backend_axioms)+
  show "xpoll_backend sample_epoll (epoll_sees (\<lambda>_ _. True))"
    unfolding sample_epoll_def by (rule epoll_backend) (auto simp: epoll_reports_def split: if_splits)
qed (simp add: kq_reports_def)

lemma xio_sample_on:
  assumes "xpoll_backend ops V" "op_create ops \<noteq> None"
  obtains xio where "fh_xio_create ops xio_sample_mem = Inr (Some (Xio_created xio))" "xio_new V xio"
    "op_create ops = Some (xio_xp xio)"
  using xpoll_backend.fh_xio_create_correct [OF assms(1), of xio_sample_mem] xio_sample_grants(1) assms(2) by auto

lemma sample_created:
  "op_create sample_ops = Some \<lparr>pfd_next_idx = 0, pfd_count = 0, pfd_cap = 0, fd_table_cap = 0,
     pfd_last_wait_index = 0, fd_table = [], pfd_list = [], fd_info_list = []\<rparr>"
  "op_create sample_epoll = Some []" "op_create sample_kqueue = Some ([], 0)"
  by (simp_all add: sample_ops_def poll_ops_def xpoll_create_def xp_sample_mem_def sample_epoll_def epoll_ops_def
      xpoll_create_linux_def sample_kqueue_def kqueue_ops_def xpoll_create_bsd_def)

lemma xio_sample:
  obtains xio where "fh_xio_create sample_ops xio_sample_mem = Inr (Some (Xio_created xio))" "xio_new poll_sees xio"
    "\<And>fd. 0 \<le> fd \<Longrightarrow> fd < 16 \<Longrightarrow> poll_room (xio_xp xio) fd"
proof -
  obtain xio where c: "fh_xio_create sample_ops xio_sample_mem = Inr (Some (Xio_created xio))" "xio_new poll_sees xio"
    "op_create sample_ops = Some (xio_xp xio)"
    by (rule xio_sample_on [OF sample_backends(1)]) (simp add: sample_created)
  have "poll_room (xio_xp xio) fd" if "0 \<le> fd" "fd < 16" for fd
    using c(3) [unfolded sample_created option.inject, symmetric] that
    by (simp add: poll_room_def fd_fits_def grown_fd_cap_def)
  then show ?thesis using c(1,2) that by blast
qed

section \<open>An instance with a request that waits\<close>

text \<open>
  A \<open>kqueue\<close> kernel that registers descriptor 5 only and reports it readable. A request for descriptor 5
  leaves it registered for a state that is then free; the next request, for descriptor 6, is not
  registered and waits on that state.
\<close>

definition kn_five :: kq_kernel where
  "kn_five calls kev = (if kev_ident kev = 5 then None else Some 12)"

definition kw_five :: kq_waiter where
  "kw_five calls n ts = (case kq_now kn_five (calls, 0) (5, EVFILT_READ) of
     Some u \<Rightarrow> if 0 < n then (1, [\<lparr>kev_ident = 5, kev_filter = EVFILT_READ, kev_flags = 0, kev_udata = u\<rparr>]) else (0, [])
   | None \<Rightarrow> (0, []))"

definition kq_five :: "kq_state xpoll_ops" where
  "kq_five = kqueue_ops \<lparr>kb_calloc_ok = True, kb_kqueue = 3, kb_getfd = 0, kb_setfd = (\<lambda>_. 0)\<rparr> kn_five kw_five"

lemma kq_five_reports: "kq_reports kn_five kw_five"
proof -
  have same: "kq_now kn_five (fst st, 0) = kq_now kn_five st" for st by (simp add: kq_now_def)
  have "kq_regs_rev kn_five l (i, f) = None" if "i \<noteq> 5" for l i f
    using that by (induction l) (auto simp: kn_five_def)
  then have other: "kq_now kn_five st (i, f) = None" if "i \<noteq> 5" for st i f using that by (simp add: kq_now_def)
  show ?thesis unfolding kq_reports_def
  proof (intro conjI allI impI)
    show "kn_five (fst st) kev = None" if "kq_now kn_five st (kev_ident kev, kev_filter kev) \<noteq> None" for st kev
      using that other [of "kev_ident kev"] by (metis kn_five_def)
  qed (auto simp: kw_five_def same split: option.splits if_splits)
qed

lemma kq_five_add:
  "op_add kq_five ([], 0) 5 u (fresh_events kq_five OR op_READ kq_five) =
    Inr (True, [kq_kev 5 EVFILT_READ EV_ADD (-1) u, kq_kev 5 EVFILT_WRITE EV_ADD (-1) u], 0)"
  "op_add kq_five (calls, err) 6 u (fresh_events kq_five OR op_READ kq_five) =
    Inr (False, calls @ [kq_kev 6 EVFILT_READ EV_ADD (-1) u], 12)"
  by (simp_all add: kq_five_def kqueue_ops_def fresh_events_def bsd_masks kq_add_correct kn_five_def kq_kev_def)

text \<open>The client's two requests.\<close>

abbreviation kq_sees :: "kq_state xpoll_view" where
  "kq_sees \<equiv> kqueue_sees kn_five"

abbreviation kq_req :: "kq_state fh_xio \<Rightarrow> fd \<Rightarrow> (errno option \<times> kq_state fh_xio) checked" where
  "kq_req xio fd \<equiv> fh_xio_request_recv kq_five xio_sample_mem None xio 7 fd (Some 4096) 100 0"

lemma kq_five_backend: "xpoll_backend kq_five kq_sees"
  unfolding kq_five_def by (rule kqueue_backend [OF kq_five_reports])

lemma kq_five_fits: "xv_fits kq_sees p 5" "xv_fits kq_sees p 6"
  by (simp_all add: kqueue_sees_def)

lemma kq_five_created:
  obtains xio where "fh_xio_create kq_five xio_sample_mem = Inr (Some (Xio_created xio))" "xio_new kq_sees xio"
    "xio_xp xio = ([], 0)"
proof -
  have born: "op_create kq_five = Some ([], 0)" by (simp add: kq_five_def kqueue_ops_def xpoll_create_bsd_def)
  obtain xio where "fh_xio_create kq_five xio_sample_mem = Inr (Some (Xio_created xio))" "xio_new kq_sees xio"
    "op_create kq_five = Some (xio_xp xio)"
    by (rule xio_sample_on [OF kq_five_backend]) (simp add: born)
  then show thesis using born that by simp
qed

text \<open>The first is rejected because descriptor 5 was registered, and its state becomes free.\<close>

lemma kq_five_rejected:
  assumes new: "xio_new kq_sees xio" and xp: "xio_xp xio = ([], 0)"
  obtains xio' where "kq_req xio 5 = Inr (Some (fh_xio_errno None), xio')" "xio_ok kq_sees xio'"
    "free_tasks xio' \<noteq> []" "free_states xio' = 2047 # rev [0 ..< 2047]" "xio_state xio' 6 = None"
    "xio_xp xio' = ([kq_kev 5 EVFILT_READ EV_ADD (-1) 2047, kq_kev 5 EVFILT_WRITE EV_ADD (-1) 2047], 0)"
proof -
  have free: "free_tasks xio \<noteq> []" "free_states xio = 2047 # rev [0 ..< 2047]" using new_free [OF new] by simp_all
  have ok: "xio_ok kq_sees xio" by (rule xio_new_ok [OF new])
  have none: "xio_state xio fd = None" for fd using new by (simp add: xio_new_def)
  obtain r p xio' where r: "op_add kq_five (xio_xp xio) 5 2047 (fresh_events kq_five OR op_READ kq_five) = Inr (r, p)"
    "kq_req xio 5 = Inr (if r then Some (fh_xio_errno None) else None, xio')" "xio_xp xio' = p"
    "free_states xio' = (if r then 2047 # rev [0 ..< 2047] else rev [0 ..< 2047])" "r \<longrightarrow> xio_state xio' = xio_state xio"
    using xpoll_backend.recv_new_correct [OF kq_five_backend ok none free kq_five_fits(1) xio_sample_grants(2,3),
      of None 7 4096 100 0] by blast
  have p: r "p = ([kq_kev 5 EVFILT_READ EV_ADD (-1) 2047, kq_kev 5 EVFILT_WRITE EV_ADD (-1) 2047], 0)"
    using r(1) unfolding xp kq_five_add(1) by simp_all
  have "xio_ok kq_sees xio'" "free_tasks xio' = free_tasks xio"
    using xpoll_backend.recv_correct [OF kq_five_backend ok kq_five_fits(1) xio_sample_grants(3), of "Some 4096" None 7 100 0]
      r(2) p(1) by (auto simp: recv_outcome_def or_aborts_def)
  then show thesis using r(2-5) p none free by (intro that [of xio']) simp_all
qed

text \<open>The second is accepted because descriptor 6 was not, and waits on the state that 5 is registered for.\<close>

lemma kq_five_accepted:
  assumes ok: "xio_ok kq_sees xio" and free: "free_tasks xio \<noteq> []" "free_states xio = 2047 # rev [0 ..< 2047]"
    and none: "xio_state xio 6 = None"
  obtains t xio' where "kq_req xio 6 = Inr (None, xio')" "xio_ok kq_sees xio'"
    "t \<in> set (xio_queue xio' XIO_PREP_IN 2047)"
    "xio_xp xio' = (fst (xio_xp xio) @ [kq_kev 6 EVFILT_READ EV_ADD (-1) 2047], 12)"
proof -
  obtain r p xio' where r: "op_add kq_five (xio_xp xio) 6 2047 (fresh_events kq_five OR op_READ kq_five) = Inr (r, p)"
    "kq_req xio 6 = Inr (if r then Some (fh_xio_errno None) else None, xio')" "xio_xp xio' = p"
    "free_states xio' = (if r then 2047 # rev [0 ..< 2047] else rev [0 ..< 2047])" "xio_state xio' 6 \<noteq> None \<longleftrightarrow> \<not> r"
    using xpoll_backend.recv_new_correct [OF kq_five_backend ok none free kq_five_fits(2) xio_sample_grants(2,3),
      of None 7 4096 100 0] by blast
  have p: "\<not> r" "p = (fst (xio_xp xio) @ [kq_kev 6 EVFILT_READ EV_ADD (-1) 2047], 12)"
    using r(1) kq_five_add(2) [of "fst (xio_xp xio)" "snd (xio_xp xio)" 2047] by simp_all
  have ok': "xio_ok kq_sees xio'" and out: "recv_outcome xio 7 6 (Some 4096) 100 0 None xio'"
    using xpoll_backend.recv_correct [OF kq_five_backend ok kq_five_fits(2) xio_sample_grants(3), of "Some 4096" None 7 100 0]
      r(2) p(1) by (auto simp: or_aborts_def)
  have "xio_pending xio' XIO_PREP_IN 6 \<noteq> []" using out by (auto simp: recv_outcome_def same_key_def)
  then obtain t where t: "t \<in> set (xio_pending xio' XIO_PREP_IN 6)" by (meson last_in_set)
  obtain s where s: "xio_state xio' 6 = Some s" using r(5) p(1) by blast
  have "table_ok xio'" using ok' by (auto simp: xio_ok_def xio_inv_def)
  then have "s < 2048" "s \<notin> {..<2047}"
    using table_state(2) [of xio' 6 s] s r(4) p(1) by (auto simp: XIO_XPOLL_MAX_TASK_COUNT_def)
  then have "s = 2047" by simp
  then have "t \<in> set (xio_queue xio' XIO_PREP_IN 2047)" using t s by (simp add: xio_pending_def)
  then show thesis using that r(2,3) p ok' by simp
qed

text \<open>Then descriptor 5 becomes ready.\<close>

lemma kq_five_event:
  assumes "xio_xp xio = ([kq_kev 5 EVFILT_READ EV_ADD (-1) 2047, kq_kev 5 EVFILT_WRITE EV_ADD (-1) 2047,
      kq_kev 6 EVFILT_READ EV_ADD (-1) 2047], 12)"
  shows "\<exists>p. op_wait kq_five (xio_xp xio) (int XIO_XPOLL_MAX_EVENTS) (sint (ucast (0 :: u64) :: u32)) =
    Inr (1, None, [(-1, 2047)], p)"
proof -
  have "kq_now kn_five (fst (xio_xp xio), 0) (5, EVFILT_READ) = Some 2047"
    unfolding assms by (simp add: kq_now_def kn_five_def kq_kev_def EV_ADD_def EV_CLEAR_def EV_DELETE_def
        EVFILT_READ_def EVFILT_WRITE_def)
  then show ?thesis
    by (simp add: kq_five_def kqueue_ops_def xpoll_wait_bsd_def kw_five_def kq_event_def XIO_XPOLL_MAX_EVENTS_def
        XPOLL_MAX_EVENTS_def EVFILT_READ_def Let_def)
qed

lemma kq_five_waiting:
  obtains x0 x1 x2 t p where "fh_xio_create kq_five xio_sample_mem = Inr (Some (Xio_created x0))" "xio_new kq_sees x0"
    "kq_req x0 5 = Inr (Some (fh_xio_errno None), x1)" "kq_req x1 6 = Inr (None, x2)"
    "xio_ok kq_sees x2" "t \<in> set (xio_queue x2 XIO_PREP_IN 2047)"
    "op_wait kq_five (xio_xp x2) (int XIO_XPOLL_MAX_EVENTS) (sint (ucast (0 :: u64) :: u32)) = Inr (1, None, [(-1, 2047)], p)"
proof (rule kq_five_created)
  fix x0
  assume 0: "fh_xio_create kq_five xio_sample_mem = Inr (Some (Xio_created x0))" "xio_new kq_sees x0" "xio_xp x0 = ([], 0)"
  obtain x1 where 1: "kq_req x0 5 = Inr (Some (fh_xio_errno None), x1)" "xio_ok kq_sees x1"
    "free_tasks x1 \<noteq> []" "free_states x1 = 2047 # rev [0 ..< 2047]" "xio_state x1 6 = None"
    "xio_xp x1 = ([kq_kev 5 EVFILT_READ EV_ADD (-1) 2047, kq_kev 5 EVFILT_WRITE EV_ADD (-1) 2047], 0)"
    by (rule kq_five_rejected [OF 0(2,3)])
  obtain t x2 where 2: "kq_req x1 6 = Inr (None, x2)" "xio_ok kq_sees x2" "t \<in> set (xio_queue x2 XIO_PREP_IN 2047)"
    "xio_xp x2 = (fst (xio_xp x1) @ [kq_kev 6 EVFILT_READ EV_ADD (-1) 2047], 12)"
    by (rule kq_five_accepted [OF 1(2-5)])
  have "xio_xp x2 = ([kq_kev 5 EVFILT_READ EV_ADD (-1) 2047, kq_kev 5 EVFILT_WRITE EV_ADD (-1) 2047,
      kq_kev 6 EVFILT_READ EV_ADD (-1) 2047], 12)" using 2(4) 1(6) by simp
  from kq_five_event [OF this] show thesis using that [OF 0(1,2) 1(1) 2(1-3)] by blast
qed

end
