(* ===== verification/Xio_Refused.thy ===== *)
theory Xio_Refused
  imports Xio_Reach
begin

text \<open>
  What a refused \<open>realloc\<close> in \<open>int_htable_delete\<close> does to an instance of \<open>xio_xpoll.c\<close>: the state of a
  request that is undone is released while it is still in the table.
\<close>

text \<open>The first deletion from a table needs memory, and without it leaves the table as it is.\<close>

definition no_marks :: "('k, 'v) htable \<Rightarrow> bool" where
  "no_marks t \<longleftrightarrow> deleted_count t = 0 \<and> deleted_capacity t = 0"

lemma created_no_marks:
  "htable_create m cap = Inr (Some t) \<Longrightarrow> no_marks t \<and> ht_count t = 0 \<and> entry_next_insert t = 0 \<and>
    entry_capacity t = sz (index_capacity t * 3) div 4"
  by (auto simp: htable_create_def no_marks_def Let_def and_then_Inr_iff split: if_splits)

lemma store_no_marks: "htable_store t target idx k v raw = Inr t' \<Longrightarrow> no_marks t' = no_marks t"
  by (auto simp: htable_store_def and_then_Inr_iff no_marks_def)

lemma set_no_marks:
  assumes run: "htable_set ops m t k v = Inr (r, t')" and t: "no_marks t"
    and room: "unat (entry_next_insert t) < entry_capacity t" "sz (sz (ht_count t + 1) * 4) < sz (index_capacity t * 3)"
  shows "no_marks t'"
proof -
  have take: "htable_take_index m t = Inr (entry_next_insert t, t\<lparr>entry_next_insert := entry_next_insert t + 1\<rparr>)"
    using t by (simp add: htable_take_index_def no_marks_def)
  have same: "no_marks (t\<lparr>entries := e\<rparr>) = no_marks t" "no_marks (t\<lparr>entry_next_insert := i\<rparr>) = no_marks t" for e i
    by (simp_all add: no_marks_def)
  obtain flag where "htable_set_with_flag ops m t k v = Inr (r, flag, t')"
    using run by (auto simp: htable_set_def and_then_Inr_iff)
  then obtain res where res: "(case res of
      Probe_found idx \<Rightarrow> and_then (aupd (entries t) (unat idx) (\<lambda>e. e\<lparr>data := v\<rparr>)) (\<lambda>ents.
        Inr (True, Some False, t\<lparr>entries := ents\<rparr>))
    | Probe_target target \<Rightarrow>
        if target = UINT64_MAX then Inr (False, Some False, t)
        else case HT_KEY_DUP_CB ops (strdup_ok m) k of
          None \<Rightarrow> Inr (False, None, t)
        | Some dup_key \<Rightarrow>
            and_then (htable_take_index m t) (\<lambda>(idx, t).
            and_then (htable_store t target idx dup_key v (HT_KEY_HASH_CB ops k)) (\<lambda>t.
            Inr (True, Some True, t)))) = Inr (r, flag, t')"
    using room unfolding htable_set_with_flag_def by (auto simp: and_then_Inr_iff Let_def)
  show ?thesis
  proof (cases res)
    case (Probe_found idx)
    then show ?thesis using res t by (auto simp: and_then_Inr_iff same)
  next
    case (Probe_target target)
    show ?thesis
    proof (cases "target = UINT64_MAX \<or> HT_KEY_DUP_CB ops (strdup_ok m) k = None")
      case True
      then show ?thesis using res t Probe_target by (auto split: if_splits)
    next
      case False
      then show ?thesis using res t Probe_target same
        by (auto simp: take and_then_Inr_iff dest!: store_no_marks)
    qed
  qed
qed

lemma new_table_room:
  assumes "htable_create m 16 = Inr (Some t)"
  shows "no_marks t" "unat (entry_next_insert t) < entry_capacity t" "sz (sz (ht_count t + 1) * 4) < sz (index_capacity t * 3)"
proof -
  have "util_round_ceil2_ull 16 = Inr 16" by code_simp
  then have "index_capacity t = 16" using assms by (auto simp: htable_create_def Let_def and_then_Inr_iff split: if_splits)
  then show "no_marks t" "unat (entry_next_insert t) < entry_capacity t" "sz (sz (ht_count t + 1) * 4) < sz (index_capacity t * 3)"
    using created_no_marks [OF assms] by (simp_all add: sz_def)
qed

lemma delete_refused:
  assumes "htable_delete ops m t k = Inr (d, released, t')" "no_marks t" "\<forall>n. \<not> realloc_ok m n"
  shows "t' = t"
proof -
  have "htable_delete_loop ops m t k n hash = Inr (d, flag, released, t') \<Longrightarrow> t' = t" for n hash d flag released
    using assms(2,3)
    by (induction n arbitrary: hash)
      (auto simp: and_then_Inr_iff htable_delete_entry_def htable_reserve_deleted_def no_marks_def split: if_splits)
  then show ?thesis using assms(1) by (auto simp: htable_delete_def htable_delete_with_flag_def and_then_Inr_iff)
qed

lemma created_table:
  "fh_xio_create ops m = Inr (Some (Xio_created xio)) \<Longrightarrow> htable_create (xio_create_mem m) 16 = Inr (Some (fd_state_table xio))"
  by (auto simp: fh_xio_create_def fh_xio_slices_alloc_def xio_zero_def and_then_Inr_iff Let_def
      split: if_splits option.splits)

context xpoll_backend begin

text \<open>A new state is watched, and the deletion that follows fails.\<close>

lemma watch_refused:
  assumes inv: "xio_inv V [t] q xio" and st: "xio_state xio fd = Some s"
    and ev: "fs_events (fd_state_list xio ! s) = fresh_events ops"
    and add: "op_add ops (xio_xp xio) fd s (fresh_events ops OR xio_events ops pt) = Inr (True, p)"
    and del: "htable_delete int_ops (xio_delete_mem m) (fd_state_table xio) (word_of_int fd) = Inr (d, ks, fd_state_table xio)"
  shows "\<exists>xio'. fh_xio_prep_watch ops m xio fd s True (xio_events ops pt) t None = Inr (False, xio') \<and>
    xio_state xio' fd = Some s \<and> s \<in> set (free_states xio')"
proof -
  have inv_d: "tasks_shared [t] q xio" "states_ok xio" "table_ok xio" using inv by (simp_all add: xio_inv_def)
  note s = table_state(2) [OF inv_d(3), of fd s, THEN iffD1, OF st]
  let ?e = "xio\<lparr>xio_xp := p\<rparr>"
  have "states_ok ?e" "s \<notin> set (free_states ?e)" using inv_d(2) s by (simp_all add: states_ok_def free_states_def)
  from release_state_ok [OF this(1) conjunct1 [OF s] this(2)] obtain fl where rel: "fh_xio_release_fd_state ?e s =
      Inr (?e\<lparr>free_fd_state_list := fl, free_fd_state_list_top := free_fd_state_list_top ?e + 1\<rparr>)"
    "free_states (?e\<lparr>free_fd_state_list := fl, free_fd_state_list_top := free_fd_state_list_top ?e + 1\<rparr>) = s # free_states ?e"
    by (auto simp: Let_def)
  let ?f = "?e\<lparr>free_fd_state_list := fl, free_fd_state_list_top := free_fd_state_list_top ?e + 1\<rparr>"
  have "tasks_ok ?f" "t \<notin> set (free_tasks ?f)"
    using inv_d(1) shared_distinct [OF inv_d(1)] by (simp_all add: tasks_shared_def tasks_ok_def free_tasks_def)
  moreover have "t < XIO_XPOLL_MAX_TASK_COUNT" using shared_distinct(2) [OF inv_d(1)] by auto
  ultimately have "tasks_ok ?f" "t < XIO_XPOLL_MAX_TASK_COUNT" "t \<notin> set (free_tasks ?f)" by auto
  from release_task_ok [OF this] obtain tl where
    task: "fh_xio_release_task ?f t = Inr (?f\<lparr>free_task_list := tl, free_task_list_top := free_task_list_top ?f + 1\<rparr>)"
    by (auto simp: Let_def)
  let ?g = "?f\<lparr>free_task_list := tl, free_task_list_top := free_task_list_top ?f + 1\<rparr>"
  have len: "length (fd_state_list xio) = XIO_XPOLL_MAX_TASK_COUNT" using inv_d(2) by (simp add: states_ok_def)
  have same: "?e\<lparr>fd_state_table := fd_state_table xio\<rparr> = ?e" by simp
  have "fh_xio_prep_watch ops m xio fd s True (xio_events ops pt) t None =
      and_then (fh_xio_prep_undo ?f t None) (\<lambda>xio. Inr (False, xio))"
    using s len ev fresh_events_miss [of pt] add del rel(1) same by (simp add: fh_xio_prep_watch_def Let_def)
  then have "fh_xio_prep_watch ops m xio fd s True (xio_events ops pt) t None = Inr (False, ?g)"
    using task by (simp add: fh_xio_prep_undo_def)
  moreover have "xio_state ?g fd = Some s" "s \<in> set (free_states ?g)"
    using st rel(2) by (simp_all add: xio_state_def free_states_def)
  ultimately show ?thesis by blast
qed

lemma first_recv_refused:
  assumes new: "xio_new V xio" and tab: "htable_create m' 16 = Inr (Some (fd_state_table xio))"
    and m: "grants (xio_set_mem m)" "\<forall>n. \<not> realloc_ok (xio_delete_mem m) n"
    and fd: "xv_fits V (xio_xp xio) fd"
    and added: "op_add ops (xio_xp xio) fd 2047 (fresh_events ops OR op_READ ops) = Inr (True, p)"
  shows "\<exists>xio'. fh_xio_request_recv ops m err xio u fd (Some b) n flags = Inr (Some (fh_xio_errno err), xio') \<and>
    xio_state xio' fd = Some 2047 \<and> 2047 \<in> set (free_states xio') \<and> \<not> xio_ok V xio'"
proof -
  let ?s = 2047 and ?rest = "rev [0 ..< 2047]"
  have inv: "xio_inv V [] (\<lambda>_ _. []) xio" and none: "xio_state xio fd = None" using new by (simp_all add: xio_new_def)
  have free: "free_tasks xio = ?s # ?rest" "free_states xio = ?s # ?rest" using new_free [OF new] by simp_all
  note a = inv_take_task [OF inv free(1)]
  let ?a = "xio\<lparr>free_task_list_top := free_task_list_top xio - 1\<rparr>"
  let ?tk = "(task_list ?a ! ?s)\<lparr>tk_flags := 0, tk_op := xio_op_code XIO_OP_RECV, tk_udata := u\<rparr>"
  let ?c = "?a\<lparr>task_list := (task_list ?a)[?s := ?tk]\<rparr>"
  have prep: "fh_xio_request_prep_with_size ops m xio XIO_OP_RECV XIO_PREP_IN fd u (Some b) n =
      fh_xio_prep_attach ops m ?c XIO_PREP_IN fd ?s None"
    using a(1,4) by (simp add: fh_xio_request_prep_with_size_def fh_xio_prep_buffer_def)
  have "tk_idx ?tk = tk_idx (task_list ?a ! ?s)" "?s \<in> set [?s] \<or> tk_next ?tk = tk_next (task_list ?a ! ?s)" by simp_all
  note ic = inv_write_task [OF a(2) this]
  have c: "xio_state ?c fd = None" "free_states ?c = ?s # ?rest" "fd_state_table ?c = fd_state_table xio"
    using ic(3,4) none free(2) by (simp_all add: free_states_def xio_state_def)
  obtain tb where d: "fh_xio_prep_state ops m ?c fd = Inr (Some (?s, True), state_added ops fd ?s tb ?c)"
    "xio_inv V [?s] (\<lambda>_ _. []) (state_added ops fd ?s tb ?c)"
    "\<forall>g. xio_state (state_added ops fd ?s tb ?c) g = (if same_key fd g then Some ?s else xio_state ?c g)"
    "fs_events (fd_state_list (state_added ops fd ?s tb ?c) ! ?s) = fresh_events ops"
    "htable_set int_ops (xio_set_mem m) (fd_state_table ?c) (word_of_int fd) (Some ?s) = Inr (True, tb)"
    by (rule prep_state_new [OF ic(1) c(1,2), where m = m and ops = ops]) (use m(1) in blast)+
  let ?d = "state_added ops fd ?s tb ?c"
  have marks: "no_marks tb"
    by (rule set_no_marks [OF d(5) [unfolded c(3)] new_table_room [OF tab]])
  have inv_d: "tasks_shared [?s] (\<lambda>_ _. []) ?d" "states_ok ?d" "table_ok ?d" using d(2) by (simp_all add: xio_inv_def)
  have fd_d: "xio_state ?d fd = Some ?s" "xio_xp ?d = xio_xp xio" "fd_state_table ?d = tb"
    using d(3) by (simp_all add: same_key_def) (simp add: state_added_def)
  note s = table_state(2) [OF inv_d(3), of fd ?s, THEN iffD1, OF fd_d(1)]
  obtain dt ks where del: "htable_delete int_ops (xio_delete_mem m) tb (word_of_int fd) = Inr (dt, ks, tb)"
    using int_ht.delete_refines [OF inv_table_holds(1) [OF inv_d(3)], of "xio_delete_mem m" "word_of_int fd"]
      delete_refused [OF _ marks m(2)] unfolding fd_d(3) by (fastforce simp: ht_perform_def and_then_Inr_iff)
  have add: "op_add ops (xio_xp ?d) fd ?s (fresh_events ops OR xio_events ops XIO_PREP_IN) = Inr (True, p)"
    using added unfolding fd_d(2) xio_events_def xio_request_prep_type.case .
  obtain xg where g: "fh_xio_prep_watch ops m ?d fd ?s True (xio_events ops XIO_PREP_IN) ?s None = Inr (False, xg)"
    "xio_state xg fd = Some ?s" "?s \<in> set (free_states xg)"
    using watch_refused [OF d(2) fd_d(1) d(4) add, of m dt ks] del fd_d(3) by auto
  have "fh_xio_request_recv ops m err xio u fd (Some b) n flags = Inr (Some (fh_xio_errno err), xg)"
    using prep d(1) g(1) by (simp add: fh_xio_request_recv_def fh_xio_prep_attach_def xio_events_def)
  moreover have "\<not> xio_ok V xg"
    using table_state(2) [of xg fd ?s] g(2,3) by (auto simp: xio_ok_def xio_inv_def)
  ultimately show ?thesis using g(2,3) by blast
qed

end

end
