(* ===== verification/Claims_Xio.thy ===== *)
theory Claims_Xio
  imports Xio_Samples Xio_Refused
begin

text \<open>
  The properties of \<open>xio_xpoll.c\<close> on any back end of \<open>xpoll\<close>, each with its application to an instance
  that \<open>fh_xio_create\<close> makes on one of the platforms.
\<close>

section \<open>Creation\<close>

text \<open>
  C35: Creating an instance on any back end of \<open>xpoll\<close> ends without a fault, whatever the allocator
  does. If memory is granted and \<open>xpoll\<close> makes an event instance, one is returned; and whenever one
  is returned, all 2048 tasks and all 2048 descriptor states are free, no byte of the buffers is in
  use, the event instance is the one made and watches nothing, and no descriptor has a state.
\<close>

theorem xio_create:
  assumes "xpoll_backend ops V"
  shows "\<exists>r. fh_xio_create ops m = Inr (Some r) \<and>
    (xio_grants m \<and> op_create ops \<noteq> None \<longrightarrow> (\<exists>xio. r = Xio_created xio)) \<and>
    (\<forall>xio. r = Xio_created xio \<longrightarrow> xio_ok V xio \<and> set (free_tasks xio) = {..<2048} \<and> distinct (free_tasks xio) \<and>
      set (free_states xio) = {..<2048} \<and> distinct (free_states xio) \<and> used_bytes xio = {} \<and>
      op_create ops = Some (xio_xp xio) \<and> xv_watches V (xio_xp xio) = {} \<and> (\<forall>fd. xio_state xio fd = None))"
proof -
  obtain r where r: "fh_xio_create ops m = Inr (Some r)" "xio_grants m \<and> op_create ops \<noteq> None \<longrightarrow> (\<exists>xio. r = Xio_created xio)"
    and new: "\<forall>xio. r = Xio_created xio \<longrightarrow> xio_new V xio \<and> op_create ops = Some (xio_xp xio)"
    using xpoll_backend.fh_xio_create_correct [OF assms, of m] by blast
  have "xio_ok V xio \<and> set (free_tasks xio) = {..<2048} \<and> distinct (free_tasks xio) \<and>
      set (free_states xio) = {..<2048} \<and> distinct (free_states xio) \<and> used_bytes xio = {} \<and>
      xv_watches V (xio_xp xio) = {} \<and> (\<forall>fd. xio_state xio fd = None)" if "xio_new V xio" for xio
    using that xio_new_ok [OF that]
    by (simp add: xio_new_def XIO_XPOLL_MAX_TASK_COUNT_def atLeast_upt)
  then show ?thesis using r new by blast
qed

theorem xio_create_witness:
  "\<exists>xio. fh_xio_create sample_epoll xio_sample_mem = Inr (Some (Xio_created xio)) \<and> set (free_tasks xio) = {..<2048} \<and>
    xio_xp xio = []"
  using xio_create [OF sample_backends(3), of xio_sample_mem] xio_sample_grants sample_created(2) by auto

section \<open>The tasks\<close>

text \<open>
  C29: On any platform that meets the contract of \<open>xpoll\<close>, every instance that creation, receive
  requests for descriptors it has room for and waits lead to, as long as each
  \<open>realloc\<close> of \<open>int_htable_delete\<close> is granted (\<open>deletes_granted\<close>), is well-formed, and each of the 2048
  tasks is in exactly one place: it is free, or it waits on exactly one descriptor, once. No task is
  lost, shared by two queues, or queued twice. With a refused \<open>realloc\<close> this is false: the code ignores
  that \<open>int_htable_delete\<close> failed and releases a state that is still in the table
  (\<open>xio_refused_delete\<close> below).
\<close>

theorem xio_tasks_partition:
  assumes "xpoll_system P V" "xio_reach P deletes_granted V xio"
  shows "xio_ok V xio \<and> distinct (free_tasks xio @ queued (xio_queues_of xio)) \<and>
    set (free_tasks xio @ queued (xio_queues_of xio)) = {..<XIO_XPOLL_MAX_TASK_COUNT}"
  using xpoll_system.reach_ok [OF assms] ok_partition by blast

theorem xio_tasks_partition_witness:
  "\<exists>xio. fh_xio_create sample_ops xio_sample_mem = Inr (Some (Xio_created xio)) \<and>
    distinct (free_tasks xio @ queued (xio_queues_of xio))"
proof -
  obtain xio where c: "fh_xio_create sample_ops xio_sample_mem = Inr (Some (Xio_created xio))" by (rule xio_sample)
  have "poll_platform sample_ops" by (auto simp: poll_platform_def sample_ops_def)
  from xio_tasks_partition [OF poll_system.xpoll_system_axioms xio_reach.created [of poll_platform, OF this c]] c
  show ?thesis by blast
qed

section \<open>Receive requests\<close>

text \<open>
  C30: A receive request on a well-formed instance, on any back end with room for the descriptor and with
  each \<open>realloc\<close> of \<open>int_htable_delete\<close> granted, ends without a fault and leaves a well-formed instance.
  It may fail an assertion instead in two cases only: it asks for a buffer of the pool, or the table is
  refused memory for a new entry, where the assertion around \<open>int_htable_set\<close> fails. If it succeeds, one free
  task has been taken, holds the request, and is the first of the tasks that wait for input on the descriptor.
  Its buffer is the one of the client, or as many bytes of the pool as asked for, none of them in use, and in
  use from then on. If it fails, the free tasks and the waiting tasks are what they were.
\<close>

theorem xio_recv:
  assumes "xpoll_backend ops V" "xio_ok V xio" "xv_fits V (xio_xp xio) fd"
    and "deletes_granted m"
  shows "(buf = None \<or> \<not> grants (xio_set_mem m)) \<and>
      fh_xio_request_recv ops m err xio u fd buf n flags = Inl Assertion_failed \<or>
    (\<exists>ret xio'. fh_xio_request_recv ops m err xio u fd buf n flags = Inr (ret, xio') \<and> xio_ok V xio' \<and>
     (if ret = None then \<exists>t p. free_tasks xio = t # free_tasks xio' \<and>
        tk_op (task_list xio' ! t) = xio_op_code XIO_OP_RECV \<and> tk_udata (task_list xio' ! t) = u \<and>
        tk_recv (task_list xio' ! t) = \<lparr>rv_fd = fd, rv_buf = Some p, rv_size = n, rv_flags = flags\<rparr> \<and>
        (case buf of
           Some b \<Rightarrow> p = User_ptr b \<and> used_bytes xio' = used_bytes xio
         | None \<Rightarrow> (\<exists>a. p = Pool_ptr a \<and> used_bytes xio' = used_bytes xio \<union> {a ..< a + n} \<and>
             used_bytes xio \<inter> {a ..< a + n} = {} \<and> {a ..< a + n} \<subseteq> {..<XIO_BUF_COUNT * XIO_BUF_SIZE})) \<and>
        (\<forall>k g. xio_pending xio' k g =
           (if k = XIO_PREP_IN \<and> same_key fd g then t # xio_pending xio k g else xio_pending xio k g))
      else free_tasks xio' = free_tasks xio \<and> (\<forall>k g. xio_pending xio' k g = xio_pending xio k g)))"
    (is "_ \<or> (\<exists>ret xio'. _ \<and> _ \<and> (if ret = None then ?taken xio' else ?kept xio'))")
  using xpoll_backend.recv_correct [OF assms, of buf err u n flags] unfolding or_aborts_def
proof
  assume "\<exists>y. fh_xio_request_recv ops m err xio u fd buf n flags = Inr y \<and>
    (case y of (ret, xio') \<Rightarrow> xio_ok V xio' \<and> recv_outcome xio u fd buf n flags ret xio')"
  then obtain y where y: "fh_xio_request_recv ops m err xio u fd buf n flags = Inr y"
    "case y of (ret, xio') \<Rightarrow> xio_ok V xio' \<and> recv_outcome xio u fd buf n flags ret xio'" by blast
  obtain ret xio' where yp: "y = (ret, xio')" by (cases y)
  from y(2) have out: "xio_ok V xio'" "recv_outcome xio u fd buf n flags ret xio'" by (simp_all add: yp)
  note o = out(2) [unfolded recv_outcome_def recv_task_def buffer_given_def buffer_bytes_def]
  show ?thesis
  proof (intro disjI2 exI [of _ ret] exI [of _ xio'] conjI y(1) [unfolded yp] out(1))
    show "if ret = None then ?taken xio' else ?kept xio'"
    proof (cases "ret = None")
      case True
      then show ?thesis using o unfolding if_P [OF True] by blast
    next
      case False
      then show ?thesis using o unfolding if_not_P [OF False] by blast
    qed
  qed
qed simp

theorem xio_recv_witness:
  "\<exists>xio ret xio'. fh_xio_create sample_ops xio_sample_mem = Inr (Some (Xio_created xio)) \<and>
    fh_xio_request_recv starved_ops xio_sample_mem None xio 7 5 (Some 4096) 100 0 = Inr (ret, xio') \<and> xio_ok poll_sees xio'"
proof -
  obtain xio where c: "fh_xio_create sample_ops xio_sample_mem = Inr (Some (Xio_created xio))" "xio_new poll_sees xio"
    "poll_room (xio_xp xio) 5" by (rule xio_sample) auto
  then have "xv_fits poll_sees (xio_xp xio) 5" by (simp add: poll_sees_def)
  from xio_recv [OF sample_backends(2) xio_new_ok [OF c(2)] this xio_sample_grants(3), of "Some 4096" None 7 100 0] c(1)
    xio_sample_grants(2)
  show ?thesis by auto
qed

text \<open>
  C31: The first receive request for a descriptor that brings its own buffer, on a well-formed instance
  with a free task and a free state, with memory granted to the table for its insertion and its deletion,
  succeeds exactly if \<open>xpoll\<close> refuses to register the descriptor: the flag \<open>xpoll_add_fd\<close>
  returns is taken for an error number. After a successful registration the request fails, the state
  it named is free again, the descriptor has no state, and the event instance watches it, naming the
  freed state. After a refused one the request succeeds, and nothing more is watched than before. (With a buffer of
  the pool the program may end with a failed assertion instead, as \<open>xio_recv_pool_aborts\<close> shows.)
\<close>

theorem xio_recv_inverted:
  assumes "xpoll_backend ops V" "xio_ok V xio" "xio_state xio fd = None" "free_tasks xio \<noteq> []"
    and "free_states xio = s # rest" "xv_fits V (xio_xp xio) fd"
    and "grants (xio_set_mem m)" "deletes_granted m"
  shows "\<exists>r p xio'. op_add ops (xio_xp xio) fd s (fresh_events ops OR op_READ ops) = Inr (r, p) \<and>
    fh_xio_request_recv ops m err xio u fd (Some b) n flags =
      Inr (if r then Some (fh_xio_errno err) else None, xio') \<and> xio_xp xio' = p \<and>
    (if r then free_states xio' = s # rest \<and> xio_state xio' fd = None \<and> (fd, s) \<in> xv_watches V p
     else free_states xio' = rest \<and> xio_state xio' fd \<noteq> None \<and> xv_watches V p \<subseteq> xv_watches V (xio_xp xio))"
proof -
  obtain r p xio' where
    add: "op_add ops (xio_xp xio) fd s (fresh_events ops OR op_READ ops) = Inr (r, p)"
      "if r then (fd, s) \<in> xv_watches V p else xv_watches V p \<subseteq> xv_watches V (xio_xp xio)" and
    req: "fh_xio_request_recv ops m err xio u fd (Some b) n flags =
        Inr (if r then Some (fh_xio_errno err) else None, xio')" "xio_xp xio' = p"
      "free_states xio' = (if r then s # rest else rest)" "xio_state xio' fd \<noteq> None \<longleftrightarrow> \<not> r"
    using xpoll_backend.recv_new_correct [OF assms, of err u b n flags] by blast
  then show ?thesis by (intro exI [of _ r] exI [of _ p] exI [of _ xio']) (simp split: if_splits)
qed

theorem xio_recv_inverted_witness:
  "\<exists>xio r p xio'. fh_xio_create sample_epoll xio_sample_mem = Inr (Some (Xio_created xio)) \<and>
    fh_xio_request_recv sample_epoll xio_sample_mem None xio 7 5 (Some 4096) 100 0 = Inr (Some ENOTRECOVERABLE, xio')"
proof -
  obtain xio where c: "fh_xio_create sample_epoll xio_sample_mem = Inr (Some (Xio_created xio))"
    "xio_new (epoll_sees (\<lambda>_ _. True)) xio" "op_create sample_epoll = Some (xio_xp xio)"
    by (rule xio_sample_on [OF sample_backends(3)]) (simp add: sample_created)
  have fit: "xv_fits (epoll_sees (\<lambda>_ _. True)) (xio_xp xio) 5" by (simp add: epoll_sees_def)
  have free: "free_tasks xio \<noteq> []" "free_states xio = 2047 # rev [0 ..< 2047]" using new_free [OF c(2)] by simp_all
  have none: "xio_state xio 5 = None" using c(2) by (simp add: xio_new_def)
  have "op_add sample_epoll p fd s ev = Inr (True, p @ [(EPOLL_CTL_ADD, fd, Some (ev, s))])" for p fd s ev
    by (simp add: sample_epoll_def epoll_ops_def epoll_defs)
  with xio_recv_inverted [OF sample_backends(3) xio_new_ok [OF c(2)] none free fit xio_sample_grants(2,3), of None 7 4096 100 0]
  obtain xio' where "fh_xio_request_recv sample_epoll xio_sample_mem None xio 7 5 (Some 4096) 100 0 =
      Inr (Some (fh_xio_errno None), xio')" by auto
  with c(1) show ?thesis by (auto simp: fh_xio_errno_def)
qed

text \<open>
  The first receive request of a new instance that asks for a buffer of the pool smaller than
  4096 bytes ends the program with a failed assertion if memory is granted and \<open>xpoll\<close> registers the
  descriptor: the successful registration is taken for an error, and the slice that is then given back
  is still on the free list.
\<close>

theorem xio_recv_pool_aborts:
  assumes "xpoll_backend ops V" "fh_xio_create ops m = Inr (Some (Xio_created xio))" "xio_grants m"
    and "xv_fits V (xio_xp xio) fd" "n < XIO_BUF_SIZE"
    and "op_add ops (xio_xp xio) fd (XIO_XPOLL_MAX_TASK_COUNT - 1) (fresh_events ops OR op_READ ops) = Inr (True, p)"
  shows "fh_xio_request_recv ops m err xio u fd None n flags = Inl Assertion_failed"
  using xpoll_backend.first_pool_recv [OF assms(1) created_new [OF assms(1,2)] assms(5) _ _ assms(4,6)] assms(3)
  by (simp add: xio_grants_def deletes_granted_def) (simp add: grants_def)

theorem xio_recv_pool_aborts_witness:
  "\<exists>xio. fh_xio_create sample_epoll xio_sample_mem = Inr (Some (Xio_created xio)) \<and>
    fh_xio_request_recv sample_epoll xio_sample_mem None xio 7 5 None 100 0 = Inl Assertion_failed"
proof -
  obtain xio where c: "fh_xio_create sample_epoll xio_sample_mem = Inr (Some (Xio_created xio))"
    by (rule xio_sample_on [OF sample_backends(3)]) (simp add: sample_created)
  have fit: "xv_fits (epoll_sees (\<lambda>_ _. True)) (xio_xp xio) 5" by (simp add: epoll_sees_def)
  have "op_add sample_epoll p fd s ev = Inr (True, p @ [(EPOLL_CTL_ADD, fd, Some (ev, s))])" for p fd s ev
    by (simp add: sample_epoll_def epoll_ops_def epoll_defs)
  from xio_recv_pool_aborts [OF sample_backends(3) c xio_sample_grants(1) fit _ this, of 100 None 7 0] c
  show ?thesis by (auto simp: XIO_BUF_SIZE_def)
qed

text \<open>
  What happens without \<open>deletes_granted\<close>. On a new instance with a system that refuses to extend the
  table's list of deleted entries, the first receive request for a descriptor that \<open>xpoll\<close> registers
  fails, and leaves the descriptor state both in the table and on the list of free states: the result of
  \<open>int_htable_delete\<close> is not looked at. The instance is no longer well-formed; the next request that takes
  the state for another descriptor empties its queues.
\<close>

theorem xio_refused_delete:
  assumes "xpoll_backend ops V" "fh_xio_create ops m' = Inr (Some (Xio_created xio))" "grants (xio_set_mem m)"
    and "\<forall>n. \<not> realloc_ok (xio_delete_mem m) n" "xv_fits V (xio_xp xio) fd"
    and "op_add ops (xio_xp xio) fd 2047 (fresh_events ops OR op_READ ops) = Inr (True, p)"
  shows "\<exists>xio'. fh_xio_request_recv ops m err xio u fd (Some b) n flags = Inr (Some (fh_xio_errno err), xio') \<and>
    xio_state xio' fd = Some 2047 \<and> 2047 \<in> set (free_states xio') \<and> \<not> xio_ok V xio'"
  using xpoll_backend.first_recv_refused [OF assms(1) created_new [OF assms(1,2)] created_table [OF assms(2)] assms(3-6)]
  by blast

theorem xio_refused_delete_witness:
  "\<exists>xio xio'. fh_xio_create sample_epoll xio_sample_mem = Inr (Some (Xio_created xio)) \<and>
    fh_xio_request_recv sample_epoll (xio_sample_mem\<lparr>xio_delete_mem := sample_mem\<lparr>realloc_ok := \<lambda>_. False\<rparr>\<rparr>) None
      xio 7 5 (Some 4096) 100 0 = Inr (Some ENOTRECOVERABLE, xio') \<and>
    xio_state xio' 5 = Some 2047 \<and> 2047 \<in> set (free_states xio')"
proof -
  obtain xio where c: "fh_xio_create sample_epoll xio_sample_mem = Inr (Some (Xio_created xio))"
    by (rule xio_sample_on [OF sample_backends(3)]) (simp add: sample_created)
  have fit: "xv_fits (epoll_sees (\<lambda>_ _. True)) (xio_xp xio) 5" by (simp add: epoll_sees_def)
  have add: "op_add sample_epoll p fd s ev = Inr (True, p @ [(EPOLL_CTL_ADD, fd, Some (ev, s))])" for p fd s ev
    by (simp add: sample_epoll_def epoll_ops_def epoll_defs)
  let ?m = "xio_sample_mem\<lparr>xio_delete_mem := sample_mem\<lparr>realloc_ok := \<lambda>_. False\<rparr>\<rparr>"
  have "grants (xio_set_mem ?m)" "\<forall>n. \<not> realloc_ok (xio_delete_mem ?m) n" using xio_sample_grants(2) by simp_all
  from xio_refused_delete [OF sample_backends(3) c this fit add, of None 7 4096 100 0] c show ?thesis
    by (auto simp: fh_xio_errno_def)
qed

section \<open>The buffers\<close>

text \<open>
  Taking a slice of at most 4096 bytes from a well-formed pool ends without a fault and keeps the
  pool well-formed. The bytes handed out lie inside the memory of the pool and were in use by no
  earlier slice, and no others become used. Without a result the pool is unchanged and no listed
  buffer has room for the bytes.
\<close>

theorem xio_slice_fresh:
  assumes "slices_ok xio" "n \<le> XIO_BUF_SIZE"
  shows "\<exists>got xio'. fh_xio_acquire_slice xio n = Inr (got, xio') \<and> slices_ok xio' \<and>
    (case got of
       None \<Rightarrow> xio' = xio \<and> (\<forall>i \<in> listed_slices xio. XIO_BUF_SIZE < sl_off (buf_list xio ! i) + n)
     | Some i \<Rightarrow> i \<in> listed_slices xio \<and>
         (\<exists>p. fh_xio_request_prep_slice_get_buffer xio' i n = Inr (Pool_ptr p) \<and>
            used_bytes xio' = used_bytes xio \<union> {p ..< p + n} \<and> used_bytes xio \<inter> {p ..< p + n} = {} \<and>
            {p ..< p + n} \<subseteq> {..<XIO_BUF_COUNT * XIO_BUF_SIZE}))"
  using acquire_slice_correct [OF assms] unfolding slice_outcome_def buffer_bytes_def
  by (force split: option.splits)

theorem xio_slice_fresh_witness:
  "\<exists>xio got xio'. fh_xio_create sample_ops xio_sample_mem = Inr (Some (Xio_created xio)) \<and>
    fh_xio_acquire_slice xio 4096 = Inr (got, xio') \<and> slices_ok xio'"
proof -
  obtain xio where c: "fh_xio_create sample_ops xio_sample_mem = Inr (Some (Xio_created xio))" "xio_new poll_sees xio" by (rule xio_sample)
  then have "slices_ok xio" by (simp add: xio_new_def xio_inv_def)
  from xio_slice_fresh [OF this, of 4096] c(1) show ?thesis by (auto simp: XIO_BUF_SIZE_def)
qed

section \<open>Waiting\<close>

text \<open>
  C34: A wait on a well-formed instance asks for at most 2048 events and ends without a fault. If
  \<open>xpoll\<close> fails its result is passed on. Otherwise, in the order of the events, every task that waits
  on a descriptor with an error event is reported as failed, input before output, up to the number of
  results asked for; exactly the reported tasks become free and leave their queues, the others keep
  their order, and what is watched stays. The bytes of the pool that a failed task had been given stay
  in use: no slice is given back. An event without the error bit reports nothing.
\<close>

theorem xio_wait:
  assumes "xpoll_backend ops V" "xio_ok V xio"
  shows "\<exists>cnt err evs p. op_wait ops (xio_xp xio) (int (min k XIO_XPOLL_MAX_EVENTS)) (sint (ucast t :: u32)) =
      Inr (cnt, err, evs, p) \<and>
    (if cnt < 0 then fh_xio_wait ops xio k t = Inr (cnt, err, [], xio\<lparr>xio_xp := p\<rparr>) \<and>
        xio_ok V (xio\<lparr>xio_xp := p\<rparr>)
     else \<exists>xio'. let failed = fail_events (min k XIO_XPOLL_MAX_EVENTS) (map (xio_event ops) evs) (xio_queues_of xio) in
        fh_xio_wait ops xio k t = Inr (int (length (fst failed)), None,
          map (\<lambda>t. fail_result (task_list xio ! t)) (fst failed), xio') \<and>
        xio_ok V xio' \<and> free_tasks xio' = rev (fst failed) @ free_tasks xio \<and>
        (\<forall>s < XIO_XPOLL_MAX_TASK_COUNT. \<forall>pt. xio_queue xio' pt s = snd failed s pt) \<and>
        xio_state xio' = xio_state xio \<and> xv_watches V (xio_xp xio') = xv_watches V (xio_xp xio) \<and>
        task_list xio' = task_list xio \<and> used_bytes xio' = used_bytes xio)"
  by (rule xpoll_backend.fh_xio_wait_correct [OF assms])

theorem xio_wait_witness:
  "\<exists>xio cnt err results xio'. fh_xio_create sample_ops xio_sample_mem = Inr (Some (Xio_created xio)) \<and>
    fh_xio_wait sample_ops xio 10 100 = Inr (cnt, err, results, xio') \<and> xio_ok poll_sees xio'"
proof -
  obtain xio where c: "fh_xio_create sample_ops xio_sample_mem = Inr (Some (Xio_created xio))" "xio_new poll_sees xio"
    by (rule xio_sample)
  have "\<exists>cnt err results xio'. fh_xio_wait sample_ops xio 10 100 = Inr (cnt, err, results, xio') \<and> xio_ok poll_sees xio'"
    using xio_wait [OF sample_backends(1) xio_new_ok [OF c(2)], of 10 100] by (fastforce simp: Let_def split: if_splits)
  with c(1) show ?thesis by blast
qed

text \<open>
  C16: On \<open>kqueue\<close> no request survives its descriptor becoming ready. The masks of the events are
  the filters, small negative numbers, so each of them has the error bit: a wait with room for 2048
  results reports every task that waits on a descriptor state named by an event as failed, and frees it,
  although the kernel signalled no error.
\<close>

theorem xio_kqueue_fails_ready:
  assumes "kq_reports kn kw" "xio_ok (kqueue_sees kn) xio" "XIO_XPOLL_MAX_EVENTS \<le> k"
    and "op_wait (kqueue_ops b kn kw) (xio_xp xio) (int XIO_XPOLL_MAX_EVENTS) (sint (ucast t :: u32)) = Inr (n, err, evs, st)"
    and "0 \<le> n" "(bits, s) \<in> set evs" "task \<in> set (xio_queue xio pt s)"
  shows "\<exists>ret results xio'. fh_xio_wait (kqueue_ops b kn kw) xio k t = Inr (ret, None, results, xio') \<and>
    fail_result (task_list xio ! task) \<in> set results \<and> task \<in> set (free_tasks xio')"
  by (rule kqueue_fails_ready [OF assms])

theorem xio_kqueue_fails_ready_witness:
  "\<exists>xio t ret results xio'. t \<in> set (xio_queue xio XIO_PREP_IN 2047) \<and>
    fh_xio_wait kq_five xio 4096 0 = Inr (ret, None, results, xio') \<and>
    fail_result (task_list xio ! t) \<in> set results \<and> t \<in> set (free_tasks xio')"
proof -
  obtain xio t p where x: "xio_ok kq_sees xio" "t \<in> set (xio_queue xio XIO_PREP_IN 2047)"
    "op_wait kq_five (xio_xp xio) (int XIO_XPOLL_MAX_EVENTS) (sint (ucast (0 :: u64) :: u32)) = Inr (1, None, [(-1, 2047)], p)"
    by (rule kq_five_waiting)
  from xio_kqueue_fails_ready [OF kq_five_reports x(1) _ x(3) [unfolded kq_five_def] _ _ x(2), of 4096 "-1"]
  have "\<exists>ret results xio'. fh_xio_wait kq_five xio 4096 0 = Inr (ret, None, results, xio') \<and>
    fail_result (task_list xio ! t) \<in> set results \<and> t \<in> set (free_tasks xio')"
    unfolding kq_five_def by (simp add: XIO_XPOLL_MAX_EVENTS_def)
  with x(2) show ?thesis by blast
qed

section \<open>What a client sees\<close>

text \<open>
  C25: On any platform, in every sequence of calls on an instance that was just created (receive
  requests for descriptors it has room for, accepted or rejected, submissions and waits) in which each
  \<open>realloc\<close> of \<open>int_htable_delete\<close> is granted (\<open>deletes_granted\<close>), each accepted
  request is answered by at most one result, and no other results are reported: the user data of the
  accepted requests are those of the results and of the requests still pending, with multiplicity, and
  each result has the user data of a request accepted before and not answered yet. A request is pending
  exactly as long as it holds one of the 2048 tasks. With a refused \<open>realloc\<close> this is false:
  \<open>xio_refused_delete\<close> above leaves a state both free and in the table, and its next use empties its queues.
\<close>

theorem xio_answers:
  assumes "xpoll_system P V" "P ops" "fh_xio_create ops m = Inr (Some (Xio_created xio))"
    and "xio_run (xio_step P deletes_granted V) xio cs xio'"
  shows "all_accepted cs = all_completed cs + xio_requests xio' \<and>
    size (xio_requests xio') + length (free_tasks xio') = 2048 \<and>
    (\<forall>pre c post. \<forall>r \<in> set (reported c). cs = pre @ c # post \<longrightarrow>
      last_result r \<and> res_udata r \<in># all_accepted pre - all_completed pre)"
  using xpoll_system.created_answers [OF assms] ok_requests_size [of V xio'] by (auto simp: answers_requests_def)

theorem xio_answers_witness:
  "\<exists>xio rs xio'. fh_xio_create kq_five xio_sample_mem = Inr (Some (Xio_created xio)) \<and> rs \<noteq> [] \<and>
    xio_run (xio_step (kqueue_platform kn_five) deletes_granted kq_sees) xio [Requested 7 False, Requested 7 True, Waited rs] xio' \<and>
    (\<forall>r \<in> set rs. res_udata r = 7) \<and> xio_requests xio' = {#} \<and> length (free_tasks xio') = 2048"
proof -
  obtain x0 x1 x2 t p where c: "fh_xio_create kq_five xio_sample_mem = Inr (Some (Xio_created x0))"
    "kq_req x0 5 = Inr (Some (fh_xio_errno None), x1)" "kq_req x1 6 = Inr (None, x2)" "xio_ok kq_sees x2"
    "t \<in> set (xio_queue x2 XIO_PREP_IN 2047)"
    "op_wait kq_five (xio_xp x2) (int XIO_XPOLL_MAX_EVENTS) (sint (ucast (0 :: u64) :: u32)) = Inr (1, None, [(-1, 2047)], p)"
    by (rule kq_five_waiting)
  have plat: "kqueue_platform kn_five kq_five" using kq_five_reports by (auto simp: kqueue_platform_def kq_five_def)
  obtain ret rs x3 where wt: "fh_xio_wait kq_five x2 4096 0 = Inr (ret, None, rs, x3)" "fail_result (task_list x2 ! t) \<in> set rs"
    using kqueue_fails_ready [OF kq_five_reports c(4) _ c(6) [unfolded kq_five_def] _ _ c(5), of 4096 "-1", folded kq_five_def]
    by (auto simp: XIO_XPOLL_MAX_EVENTS_def)
  then have w: "fh_xio_wait kq_five x2 4096 0 = Inr (ret, None, rs, x3)" "rs \<noteq> []" by auto
  let ?step = "xio_step (kqueue_platform kn_five) deletes_granted kq_sees"
  have "?step x0 (Requested 7 False) x1" "?step x1 (Requested 7 True) x2" "?step x2 (Waited rs) x3"
    using xio_step.request [where P = "kqueue_platform kn_five" and M = deletes_granted and V = kq_sees, OF plat xio_sample_grants(3) kq_five_fits(1) c(2)]
      xio_step.request [where P = "kqueue_platform kn_five" and M = deletes_granted and V = kq_sees, OF plat xio_sample_grants(3) kq_five_fits(2) c(3)]
      xio_step.wait [where P = "kqueue_platform kn_five" and M = deletes_granted and V = kq_sees, OF plat w(1)] by simp_all
  then have run: "xio_run ?step x0 [Requested 7 False, Requested 7 True, Waited rs] x3"
    by (rule xio_run_three)
  note a = xio_answers [OF kqueue_system.xpoll_system_axioms plat c(1) run]
  have "all_accepted [Requested 7 False, Requested 7 True] - all_completed [Requested 7 False, Requested 7 True] = {#7#}"
    by simp
  then have each: "last_result r \<and> res_udata r = 7" if "r \<in> set rs" for r
    using a [THEN conjunct2, THEN conjunct2, rule_format, of r "Waited rs" "[Requested 7 False, Requested 7 True]" "[]"] that
    by simp
  then have "completed (Waited rs) \<noteq> {#}" using w(2) by (cases rs) auto
  moreover have "{#7#} = completed (Waited rs) + xio_requests x3" using a by simp
  ultimately have "xio_requests x3 = {#}" by (auto simp: single_is_union)
  then show ?thesis using a c(1) run w(2) each by auto
qed

end
