(* ===== verification/Uring.thy ===== *)
theory Uring
  imports Xio_Header
begin

text \<open>
  \<open>src/src/event/xio_uring.c\<close>: asynchronous requests on top of \<open>io_uring\<close>. The library \<open>liburing\<close> and
  the kernel are parameters: what a call returns is an argument, and the state of the ring and of the
  buffer ring is the list of the calls that change it. Functions that \<open>xio_xpoll.c\<close> defines too have
  the suffix \<open>_uring\<close>. The data of a request is a block of \<open>malloc\<close>;
  the blocks in use are a map from addresses, and the use of any other address is a fault.
\<close>

section \<open>Data\<close>

definition XIO_RING_ENTRIES :: nat where "XIO_RING_ENTRIES = 512"
definition XIO_RING_HUGE_SIZE :: u64 where "XIO_RING_HUGE_SIZE = 2 * 1024 * 1024"
definition XIO_RING_BUF_COUNT :: nat where "XIO_RING_BUF_COUNT = 1024"
definition XIO_RING_BUF_SIZE :: nat where "XIO_RING_BUF_SIZE = 4096"
definition XIO_RING_BUF_BGID_DEFAULT :: nat where "XIO_RING_BUF_BGID_DEFAULT = 1"
definition XIO_RING_BUF_FLAG_DONE :: u32 where "XIO_RING_BUF_FLAG_DONE = 0x80000000"

definition uring_static_asserts :: "bool list" where
  "uring_static_asserts = map static_assert
     [XIO_RING_BUF_COUNT \<le> UINT16_MAX,
      XIO_RING_BUF_COUNT AND (XIO_RING_BUF_COUNT - 1) = 0,
      XIO_RING_BUF_SIZE AND (XIO_RING_BUF_SIZE - 1) = 0]"

lemma uring_compiles: "list_all (\<lambda>ok. ok) uring_static_asserts"
  by (simp add: uring_static_asserts_def static_assert_def UINT16_MAX_def XIO_RING_BUF_COUNT_def XIO_RING_BUF_SIZE_def)

definition XIO_MAX_DATA_FREELIST_COUNT :: nat where "XIO_MAX_DATA_FREELIST_COUNT = 2048"

text \<open>The values of the kernel interface (\<open>linux/io_uring.h\<close>, \<open>errno.h\<close>) the code tests or sets.\<close>

definition IORING_CQE_F_BUFFER :: u32 where "IORING_CQE_F_BUFFER = 1"
definition IORING_CQE_F_MORE :: u32 where "IORING_CQE_F_MORE = 2"
definition IORING_CQE_F_BUF_MORE :: u32 where "IORING_CQE_F_BUF_MORE = 16"
definition IORING_CQE_BUFFER_SHIFT :: nat where "IORING_CQE_BUFFER_SHIFT = 16"
definition IORING_SETUP_CQSIZE :: u32 where "IORING_SETUP_CQSIZE = 0x8"
definition IORING_SETUP_SINGLE_ISSUER :: u32 where "IORING_SETUP_SINGLE_ISSUER = 0x1000"
definition IORING_SETUP_DEFER_TASKRUN :: u32 where "IORING_SETUP_DEFER_TASKRUN = 0x2000"
definition IORING_SETUP_NO_MMAP :: u32 where "IORING_SETUP_NO_MMAP = 0x4000"
definition IORING_SETUP_REGISTERED_FD_ONLY :: u32 where "IORING_SETUP_REGISTERED_FD_ONLY = 0x8000"
definition IORING_SETUP_NO_SQARRAY :: u32 where "IORING_SETUP_NO_SQARRAY = 0x10000"
definition linux_EINTR :: int where "linux_EINTR = 4"
definition linux_EAGAIN :: int where "linux_EAGAIN = 11"
definition linux_ENOMEM :: int where "linux_ENOMEM = 12"
definition linux_ETIME :: int where "linux_ETIME = 62"

text \<open>
  The union of \<open>struct fh_xio_data\<close>, with the member last written. A buffer that is \<open>NULL\<close> is chosen
  by the kernel.
\<close>

datatype xio_opdata =
    Op_read fd "nat option" nat
  | Op_write fd "nat option" nat
  | Op_recv fd "nat option" nat int
  | Op_send fd "nat option" nat int
  | Op_accept fd "nat option" "nat option" int

record fh_xio_data =
  dt_next :: "nat option"
  dt_prev :: "nat option"
  dt_udata :: nat
  dt_op :: u32
  dt_opdata :: xio_opdata

text \<open>
  The members \<open>read\<close>, \<open>write\<close>, \<open>recv\<close> and \<open>send\<close> begin with the same three fields, so the buffer and
  the size can be read through any of them.
\<close>

primrec od_io :: "xio_opdata \<Rightarrow> (nat option \<times> nat) checked" where
  "od_io (Op_read fd buf n) = Inr (buf, n)"
| "od_io (Op_write fd buf n) = Inr (buf, n)"
| "od_io (Op_recv fd buf n flags) = Inr (buf, n)"
| "od_io (Op_send fd buf n flags) = Inr (buf, n)"
| "od_io (Op_accept fd addr addr_len flags) = Inl Bad_pointer"

text \<open>A submission: the \<open>io_uring_prep_\<close> call with its arguments, the user data, and the flags set.\<close>

datatype uring_tag = Tag_null | Tag_xio | Tag_data nat

datatype uring_prep =
    Prep_read fd "nat option" nat u64
  | Prep_write fd "nat option" nat u64
  | Prep_recv fd "nat option" nat int
  | Prep_send fd "nat option" nat int
  | Prep_accept fd "nat option" "nat option" int
  | Prep_cancel_any
  | Prep_nop

record uring_sqe =
  sqe_prep :: uring_prep
  sqe_data :: uring_tag
  sqe_buf_group :: "nat option"
  sqe_drain :: bool

text \<open>A completion. \<open>res\<close> is a signed 32-bit integer.\<close>

record uring_cqe =
  cqe_data :: uring_tag
  cqe_res :: int
  cqe_flags :: u32

text \<open>The calls that change the ring and the buffer ring.\<close>

datatype ring_call = Ring_sqe uring_sqe | Ring_submit | Ring_wait nat "nat \<times> nat" | Ring_seen nat

datatype buf_call = Buf_add nat nat nat nat nat | Buf_advance nat

type_synonym xio_heap = "nat \<Rightarrow> fh_xio_data option"

text \<open>
  \<open>struct fh_xio\<close>, with the calls made on its ring and on its buffer ring, and the blocks of
  \<open>struct fh_xio_data\<close> in use.
\<close>

record fh_xio_uring =
  ring :: "ring_call list"
  has_buf_ring :: bool
  buf_ring :: "buf_call list"
  ring_kmem_size :: "u64 option"
  has_buf :: bool
  buf_mask :: nat
  buf_offsets :: "u32 list"
  buf_refcount :: "u32 list"
  data_head :: "nat option"
  data_tail :: "nat option"
  data_count :: nat
  data_heap :: xio_heap

section \<open>The blocks of request data\<close>

definition heap_get :: "xio_heap \<Rightarrow> nat \<Rightarrow> fh_xio_data checked" where
  "heap_get h a = (case h a of None \<Rightarrow> Inl Bad_pointer | Some d \<Rightarrow> Inr d)"

definition heap_upd :: "xio_heap \<Rightarrow> nat \<Rightarrow> (fh_xio_data \<Rightarrow> fh_xio_data) \<Rightarrow> xio_heap checked" where
  "heap_upd h a f = and_then (heap_get h a) (\<lambda>d. Inr (h(a \<mapsto> f d)))"

definition heap_free :: "xio_heap \<Rightarrow> nat \<Rightarrow> xio_heap checked" where
  "heap_free h a = and_then (heap_get h a) (\<lambda>_. Inr (h(a := None)))"

text \<open>What \<open>malloc\<close> returns, if anything: an address, and what the block holds.\<close>

type_synonym xio_malloc = "(nat \<times> fh_xio_data) option"

definition fh_xio_data_alloc :: "xio_malloc \<Rightarrow> fh_xio_uring \<Rightarrow> nat option \<times> fh_xio_uring" where
  "fh_xio_data_alloc m xio =
     (case m of
        None \<Rightarrow> (None, xio)
      | Some (a, d) \<Rightarrow> (Some a, xio\<lparr>data_heap := (data_heap xio)(a \<mapsto> d\<lparr>dt_next := None, dt_prev := None\<rparr>)\<rparr>))"

definition fh_xio_data_disown :: "fh_xio_uring \<Rightarrow> nat \<Rightarrow> fh_xio_uring checked" where
  "fh_xio_data_disown xio data =
     (if data_count xio \<ge> XIO_MAX_DATA_FREELIST_COUNT then
        and_then (heap_free (data_heap xio) data) (\<lambda>h. Inr (xio\<lparr>data_heap := h\<rparr>))
      else
        and_then (heap_upd (data_heap xio) data (\<lambda>d. d\<lparr>dt_next := None, dt_prev := data_tail xio\<rparr>)) (\<lambda>h.
        and_then (case data_tail xio of
            Some t \<Rightarrow> and_then (heap_upd h t (\<lambda>d. d\<lparr>dt_next := Some data\<rparr>)) (\<lambda>h. Inr (xio\<lparr>data_heap := h\<rparr>))
          | None \<Rightarrow> Inr (xio\<lparr>data_heap := h, data_head := Some data\<rparr>)) (\<lambda>xio.
        Inr (xio\<lparr>data_tail := Some data, data_count := data_count xio + 1\<rparr>))))"

definition fh_xio_data_get :: "xio_malloc \<Rightarrow> fh_xio_uring \<Rightarrow> (nat option \<times> fh_xio_uring) checked" where
  "fh_xio_data_get m xio =
     (if data_count xio = 0 then Inr (fh_xio_data_alloc m xio)
      else case data_tail xio of
        None \<Rightarrow> Inl Bad_pointer
      | Some data \<Rightarrow>
          and_then (heap_get (data_heap xio) data) (\<lambda>d.
          let xio = xio\<lparr>data_tail := dt_prev d\<rparr>
          in and_then (case data_tail xio of
                 Some t \<Rightarrow> and_then (heap_upd (data_heap xio) t (\<lambda>d. d\<lparr>dt_next := None\<rparr>))
                   (\<lambda>h. Inr (xio\<lparr>data_heap := h\<rparr>))
               | None \<Rightarrow> Inr (xio\<lparr>data_head := None\<rparr>)) (\<lambda>xio.
             and_then (heap_upd (data_heap xio) data (\<lambda>d. d\<lparr>dt_next := None, dt_prev := None\<rparr>)) (\<lambda>h.
             Inr (Some data, xio\<lparr>data_heap := h, data_count := data_count xio - 1\<rparr>)))))"

section \<open>Requests\<close>

text \<open>
  Each call of \<open>io_uring_get_sqe\<close> returns an entry or \<open>NULL\<close>; the answers of two calls in a row are a
  pair, the second call being made after a submission.
\<close>

type_synonym sqe_answers = "bool \<times> bool"

definition fh_xio_ring_get_sqe :: "sqe_answers \<Rightarrow> fh_xio_uring \<Rightarrow> bool \<times> fh_xio_uring" where
  "fh_xio_ring_get_sqe sq xio =
     (if fst sq then (True, xio) else (snd sq, xio\<lparr>ring := ring xio @ [Ring_submit]\<rparr>))"

text \<open>The result is 0 with the block of data, or a negative error number.\<close>

definition fh_xio_request_prep_common ::
  "xio_malloc \<Rightarrow> sqe_answers \<Rightarrow> fh_xio_uring \<Rightarrow> ((int + nat) \<times> fh_xio_uring) checked"
where
  "fh_xio_request_prep_common m sq xio =
     and_then (fh_xio_data_get m xio) (\<lambda>(data, xio).
     case data of
       None \<Rightarrow> Inr (Inl (- linux_ENOMEM), xio)
     | Some d \<Rightarrow>
         let (sqe, xio) = fh_xio_ring_get_sqe sq xio
         in if \<not> sqe then and_then (fh_xio_data_disown xio d) (\<lambda>xio. Inr (Inl (- linux_EAGAIN), xio))
            else Inr (Inr d, xio))"

definition fh_xio_request_setup_sqe_common :: "nat option \<Rightarrow> uring_sqe \<Rightarrow> uring_sqe" where
  "fh_xio_request_setup_sqe_common buf sqe =
     (if buf = None then sqe\<lparr>sqe_buf_group := Some XIO_RING_BUF_BGID_DEFAULT\<rparr> else sqe)"

text \<open>What the five requests share: the fields of the data block, and the submission entry.\<close>

definition uring_request ::
  "xio_malloc \<Rightarrow> sqe_answers \<Rightarrow> fh_xio_uring \<Rightarrow> nat \<Rightarrow> fh_xio_op \<Rightarrow> xio_opdata \<Rightarrow> (uring_sqe \<Rightarrow> uring_sqe) \<Rightarrow>
   uring_prep \<Rightarrow> (int \<times> fh_xio_uring) checked"
where
  "uring_request m sq xio udata op opdata setup prep =
     and_then (fh_xio_request_prep_common m sq xio) (\<lambda>(rc, xio).
     case rc of
       Inl e \<Rightarrow> Inr (e, xio)
     | Inr data \<Rightarrow>
         and_then (heap_upd (data_heap xio) data
             (\<lambda>d. d\<lparr>dt_op := xio_op_code op, dt_udata := udata, dt_opdata := opdata\<rparr>)) (\<lambda>h.
         let sqe = setup \<lparr>sqe_prep = prep, sqe_data = Tag_data data, sqe_buf_group = None, sqe_drain = False\<rparr>
         in Inr (0, xio\<lparr>data_heap := h, ring := ring xio @ [Ring_sqe sqe]\<rparr>)))"

text \<open>The length of \<open>io_uring_prep_read\<close> and \<open>io_uring_prep_write\<close> is an \<open>unsigned\<close>.\<close>

definition fh_xio_request_read where
  "fh_xio_request_read m sq xio udata fd buf n offset =
     uring_request m sq xio udata XIO_OP_READ (Op_read fd buf n) (fh_xio_request_setup_sqe_common buf)
       (Prep_read fd buf (w32 n) offset)"

definition fh_xio_request_write where
  "fh_xio_request_write m sq xio udata fd buf n offset =
     uring_request m sq xio udata XIO_OP_WRITE (Op_write fd buf n) (fh_xio_request_setup_sqe_common buf)
       (Prep_write fd buf (w32 n) offset)"

definition fh_xio_request_recv_uring where
  "fh_xio_request_recv_uring m sq xio udata fd buf n flags =
     uring_request m sq xio udata XIO_OP_RECV (Op_recv fd buf n flags) (fh_xio_request_setup_sqe_common buf)
       (Prep_recv fd buf n flags)"

definition fh_xio_request_send where
  "fh_xio_request_send m sq xio udata fd buf n flags =
     uring_request m sq xio udata XIO_OP_SEND (Op_send fd buf n flags) (fh_xio_request_setup_sqe_common buf)
       (Prep_send fd buf n flags)"

definition fh_xio_request_accept where
  "fh_xio_request_accept m sq xio udata fd addr addr_len flags =
     uring_request m sq xio udata XIO_OP_ACCEPT (Op_accept fd addr addr_len flags) (\<lambda>sqe. sqe)
       (Prep_accept fd addr addr_len flags)"

definition fh_xio_submit_requests_uring :: "int \<Rightarrow> fh_xio_uring \<Rightarrow> bool \<times> fh_xio_uring" where
  "fh_xio_submit_requests_uring rc xio = (rc \<ge> 0, xio\<lparr>ring := ring xio @ [Ring_submit]\<rparr>)"

section \<open>Waiting\<close>

definition fh_xio_ring_get_buffer :: "nat \<Rightarrow> nat" where
  "fh_xio_ring_get_buffer bid = XIO_RING_BUF_SIZE * bid"

definition fh_xio_ring_get_buffer_off :: "fh_xio_uring \<Rightarrow> nat \<Rightarrow> nat checked" where
  "fh_xio_ring_get_buffer_off xio bid =
     and_then (aget (buf_offsets xio) bid) (\<lambda>off. Inr (fh_xio_ring_get_buffer bid + unat off))"

text \<open>The size a completion consumes, and the buffer of the request, if it brought one.\<close>

definition fh_xio_data_populate :: "fh_xio_data \<Rightarrow> uring_cqe \<Rightarrow> (nat \<times> nat option) checked" where
  "fh_xio_data_populate data cqe =
     (let dfl_size = (if cqe_res cqe < 0 then 0 else nat (cqe_res cqe))
      in if dt_op data = xio_op_code XIO_OP_READ \<or> dt_op data = xio_op_code XIO_OP_WRITE then
           and_then (od_io (dt_opdata data)) (\<lambda>(buf, n). Inr (if cqe_res cqe < 0 then 0 else n, buf))
         else if dt_op data = xio_op_code XIO_OP_RECV \<or> dt_op data = xio_op_code XIO_OP_SEND then
           and_then (od_io (dt_opdata data)) (\<lambda>(buf, n). Inr (MIN_VALUE n dfl_size, buf))
         else if dt_op data = xio_op_code XIO_OP_ACCEPT then Inr (dfl_size, None)
         else Inl Assertion_failed)"

definition cqe_bid :: "u32 \<Rightarrow> nat" where
  "cqe_bid flags = unat (drop_bit IORING_CQE_BUFFER_SHIFT flags)"

definition cqe_has_buffer :: "u32 \<Rightarrow> bool" where
  "cqe_has_buffer flags \<longleftrightarrow> flags AND IORING_CQE_F_BUFFER \<noteq> 0"

text \<open>The bookkeeping of the buffer that a completion consumed bytes of.\<close>

definition uring_use_buffer :: "fh_xio_uring \<Rightarrow> u32 \<Rightarrow> nat \<Rightarrow> fh_xio_uring checked" where
  "uring_use_buffer xio flags n =
     (let bid = cqe_bid flags
      in and_then (aupd (buf_refcount xio) bid (\<lambda>r. r + 1)) (\<lambda>refs.
         and_then (if flags AND IORING_CQE_F_BUF_MORE = 0
             then aupd refs bid (\<lambda>r. r OR XIO_RING_BUF_FLAG_DONE) else Inr refs) (\<lambda>refs.
         and_then (aupd (buf_offsets xio) bid (\<lambda>off.
             if sz (unat off + n) \<ge> XIO_RING_BUF_SIZE then of_nat XIO_RING_BUF_SIZE else off + of_nat n)) (\<lambda>offs.
         Inr (xio\<lparr>buf_refcount := refs, buf_offsets := offs\<rparr>)))))"

text \<open>One completion of a request.\<close>

definition uring_complete :: "fh_xio_uring \<Rightarrow> nat \<Rightarrow> uring_cqe \<Rightarrow> (fh_xio_result \<times> fh_xio_uring) checked" where
  "uring_complete xio a cqe =
     (let flags = cqe_flags cqe
      in and_then (heap_get (data_heap xio) a) (\<lambda>data.
         and_then (if cqe_has_buffer flags
             then and_then (fh_xio_ring_get_buffer_off xio (cqe_bid flags)) (\<lambda>p. Inr (Some (Pool_ptr p)))
             else Inr None) (\<lambda>pool.
         and_then (fh_xio_data_populate data cqe) (\<lambda>(n, own).
         and_then (if cqe_has_buffer flags then uring_use_buffer xio flags n else Inr xio) (\<lambda>xio.
         and_then (if flags AND IORING_CQE_F_MORE = 0 then fh_xio_data_disown xio a else Inr xio) (\<lambda>xio.
         Inr (\<lparr>res_op = dt_op data, res_flags = flags, res_res = cqe_res cqe,
             res_buf = (case own of Some b \<Rightarrow> Some (User_ptr b) | None \<Rightarrow> pool), res_udata = dt_udata data\<rparr>, xio)))))))"

text \<open>
  The loop over the completions, with the results and the number of completions passed over so far.
\<close>

fun fh_xio_wait_loop ::
  "nat \<Rightarrow> uring_cqe list \<Rightarrow> fh_xio_uring \<Rightarrow> fh_xio_result list \<Rightarrow> nat \<Rightarrow>
   (fh_xio_result list \<times> nat \<times> fh_xio_uring) checked"
where
  "fh_xio_wait_loop max_results [] xio results count_advance = Inr (results, count_advance, xio)"
| "fh_xio_wait_loop max_results (cqe # cqes) xio results count_advance =
     (if length results \<ge> max_results then Inr (results, count_advance, xio)
      else case cqe_data cqe of
        Tag_data a \<Rightarrow> and_then (uring_complete xio a cqe) (\<lambda>(result, xio).
          fh_xio_wait_loop max_results cqes xio (results @ [result]) (count_advance + 1))
      | _ \<Rightarrow> fh_xio_wait_loop max_results cqes xio results (count_advance + 1))"

text \<open>
  What waiting gives: the return code, whether \<open>io_uring_cq_ready\<close> finds completions, and the
  completions in the queue.
\<close>

type_synonym wait_answer = "int \<times> bool \<times> uring_cqe list"

definition fh_xio_wait_uring ::
  "wait_answer \<Rightarrow> fh_xio_uring \<Rightarrow> nat \<Rightarrow> nat \<Rightarrow> (int \<times> int option \<times> fh_xio_result list \<times> fh_xio_uring) checked"
where
  "fh_xio_wait_uring w xio max_results timeout_ms =
     (let ts = (timeout_ms div 1000, (timeout_ms mod 1000) * 1000000);
          max_results = MIN_VALUE max_results (XIO_RING_ENTRIES * 4);
          xio = xio\<lparr>ring := ring xio @ [Ring_wait max_results ts]\<rparr>;
          (rc, ready, cqes) = w
      in if rc < 0 \<and> rc \<noteq> - linux_ETIME \<and> \<not> ready then Inr (-1, Some (- rc), [], xio)
         else and_then (fh_xio_wait_loop max_results cqes xio [] 0) (\<lambda>(results, count_advance, xio).
           Inr (int (length results), None, results, xio\<lparr>ring := ring xio @ [Ring_seen count_advance]\<rparr>)))"

section \<open>Giving results back\<close>

definition fh_xio_result_free_internal :: "fh_xio_uring \<Rightarrow> u32 \<Rightarrow> nat \<Rightarrow> (bool \<times> fh_xio_uring) checked" where
  "fh_xio_result_free_internal xio flags ring_buf_offset =
     (let bid = cqe_bid flags
      in if \<not> cqe_has_buffer flags then Inr (False, xio)
         else and_then (aget (buf_refcount xio) bid) (\<lambda>r.
         and_then (assert_that (r AND NOT XIO_RING_BUF_FLAG_DONE > 0)) (\<lambda>_.
         and_then (aset (buf_refcount xio) bid (r - 1)) (\<lambda>refs.
         if r - 1 \<noteq> XIO_RING_BUF_FLAG_DONE then Inr (False, xio\<lparr>buf_refcount := refs\<rparr>)
         else
           and_then (aset (buf_offsets xio) bid 0) (\<lambda>offs.
           and_then (aset refs bid 0) (\<lambda>refs.
           Inr (True, xio\<lparr>buf_refcount := refs, buf_offsets := offs, buf_ring := buf_ring xio @
             [Buf_add (fh_xio_ring_get_buffer bid) XIO_RING_BUF_SIZE bid (buf_mask xio) ring_buf_offset]\<rparr>)))))))"

definition fh_xio_result_free :: "fh_xio_uring \<Rightarrow> fh_xio_result \<Rightarrow> fh_xio_uring checked" where
  "fh_xio_result_free xio result =
     and_then (fh_xio_result_free_internal xio (res_flags result) 0) (\<lambda>(restored, xio).
     Inr (if restored then xio\<lparr>buf_ring := buf_ring xio @ [Buf_advance 1]\<rparr> else xio))"

fun fh_xio_results_free_loop :: "fh_xio_uring \<Rightarrow> fh_xio_result list \<Rightarrow> nat \<Rightarrow> (nat \<times> fh_xio_uring) checked" where
  "fh_xio_results_free_loop xio [] advance_count = Inr (advance_count, xio)"
| "fh_xio_results_free_loop xio (result # results) advance_count =
     and_then (fh_xio_result_free_internal xio (res_flags result) advance_count) (\<lambda>(restored, xio).
     fh_xio_results_free_loop xio results (if restored then advance_count + 1 else advance_count))"

definition fh_xio_results_free :: "fh_xio_uring \<Rightarrow> fh_xio_result list \<Rightarrow> fh_xio_uring checked" where
  "fh_xio_results_free xio results =
     and_then (fh_xio_results_free_loop xio results 0) (\<lambda>(advance_count, xio).
     Inr (xio\<lparr>buf_ring := buf_ring xio @ [Buf_advance advance_count]\<rparr>))"

section \<open>Freeing an instance\<close>

text \<open>The completions of one round of draining: a flag that the last request was seen.\<close>

fun uring_drain_cqes :: "uring_cqe list \<Rightarrow> bool \<Rightarrow> xio_heap \<Rightarrow> (bool \<times> xio_heap) checked" where
  "uring_drain_cqes [] over h = Inr (over, h)"
| "uring_drain_cqes (cqe # cqes) over h =
     (case cqe_data cqe of
        Tag_xio \<Rightarrow> uring_drain_cqes cqes True h
      | Tag_null \<Rightarrow> uring_drain_cqes cqes over h
      | Tag_data a \<Rightarrow>
          if cqe_flags cqe AND IORING_CQE_F_MORE \<noteq> 0 then uring_drain_cqes cqes over h
          else and_then (heap_free h a) (\<lambda>h. uring_drain_cqes cqes over h))"

text \<open>
  The answers of \<open>io_uring_submit_and_wait_timeout\<close> in the rounds, each with the completions then in
  the queue. \<open>None\<close> if the loop needs more rounds than are given.
\<close>

fun uring_drain_loop :: "(int \<times> uring_cqe list) list \<Rightarrow> fh_xio_uring \<Rightarrow> (bool \<times> fh_xio_uring) option checked" where
  "uring_drain_loop [] xio = Inr None"
| "uring_drain_loop ((rc, cqes) # rounds) xio =
     (let xio = xio\<lparr>ring := ring xio @ [Ring_wait 1 (1, 0)]\<rparr>
      in if rc < 0 then if rc = - linux_EINTR then uring_drain_loop rounds xio else Inr (Some (False, xio))
         else and_then (uring_drain_cqes cqes False (data_heap xio)) (\<lambda>(over, h).
           let xio = xio\<lparr>data_heap := h, ring := ring xio @ [Ring_seen (length cqes)]\<rparr>
           in if over then Inr (Some (True, xio)) else uring_drain_loop rounds xio))"

definition fh_xio_drain ::
  "sqe_answers \<Rightarrow> sqe_answers \<Rightarrow> (int \<times> uring_cqe list) list \<Rightarrow> fh_xio_uring \<Rightarrow>
   (bool \<times> fh_xio_uring) option checked"
where
  "fh_xio_drain sq1 sq2 rounds xio =
     (let (sqe, xio) = fh_xio_ring_get_sqe sq1 xio
      in if \<not> sqe then Inr (Some (False, xio))
         else
           let xio = xio\<lparr>ring := ring xio @ [Ring_sqe \<lparr>sqe_prep = Prep_cancel_any, sqe_data = Tag_null,
                 sqe_buf_group = None, sqe_drain = False\<rparr>]\<rparr>;
               (sqe, xio) = fh_xio_ring_get_sqe sq2 xio
           in if \<not> sqe then Inr (Some (False, xio))
              else uring_drain_loop rounds (xio\<lparr>ring := ring xio @ [Ring_sqe \<lparr>sqe_prep = Prep_nop,
                     sqe_data = Tag_xio, sqe_buf_group = None, sqe_drain = True\<rparr>]\<rparr>))"

text \<open>The loop that frees the list of unused data blocks; its fuel bounds the number of rounds.\<close>

fun uring_free_list :: "nat \<Rightarrow> xio_heap \<Rightarrow> nat option \<Rightarrow> nat list \<Rightarrow> (nat list \<times> xio_heap) option checked" where
  "uring_free_list fuel h None freed = Inr (Some (freed, h))"
| "uring_free_list 0 h (Some a) freed = Inr None"
| "uring_free_list (Suc fuel) h (Some a) freed =
     and_then (heap_get h a) (\<lambda>d.
     and_then (heap_free h a) (\<lambda>h. uring_free_list fuel h (dt_next d) (freed @ [a])))"

text \<open>What \<open>fh_xio_free\<close> gives up, in order.\<close>

datatype uring_release =
    Buf_ring_freed nat nat | Queue_exited | Buf_freed | Kmem_unmapped u64 | Data_freed "nat list" | Uring_freed

record uring_drain_answers =
  drain_sq1 :: sqe_answers
  drain_sq2 :: sqe_answers
  drain_rounds :: "(int \<times> uring_cqe list) list"

definition fh_xio_free_uring ::
  "uring_drain_answers \<Rightarrow> nat \<Rightarrow> fh_xio_uring \<Rightarrow> (uring_release list \<times> xio_heap) option checked"
where
  "fh_xio_free_uring a fuel xio =
     and_then (fh_xio_drain (drain_sq1 a) (drain_sq2 a) (drain_rounds a) xio) (\<lambda>drained.
     case drained of
       None \<Rightarrow> Inr None
     | Some (_, xio) \<Rightarrow>
         and_then (uring_free_list fuel (data_heap xio) (data_head xio) []) (\<lambda>r.
         case r of
           None \<Rightarrow> Inr None
         | Some (freed, h) \<Rightarrow>
             Inr (Some ((if has_buf_ring xio then [Buf_ring_freed XIO_RING_BUF_COUNT XIO_RING_BUF_BGID_DEFAULT] else []) @
               [Queue_exited] @ (if has_buf xio then [Buf_freed] else []) @
               (case ring_kmem_size xio of Some n \<Rightarrow> [Kmem_unmapped n] | None \<Rightarrow> []) @
               [Data_freed freed, Uring_freed], h))))"

section \<open>Creation\<close>

definition fh_xio_ring_alloc_mem :: "bool \<Rightarrow> bool \<Rightarrow> u64 \<Rightarrow> u64 option" where
  "fh_xio_ring_alloc_mem mmap_huge_ok mmap_ok requested_size =
     (let requested_size = (requested_size + XIO_RING_HUGE_SIZE - 1) AND NOT (XIO_RING_HUGE_SIZE - 1)
      in if mmap_huge_ok \<or> mmap_ok then Some requested_size else None)"

text \<open>What the calls of creation return.\<close>

record uring_env =
  env_calloc_ok :: bool
  env_memory_size :: "u32 \<Rightarrow> int"
  env_mmap_huge_ok :: bool
  env_mmap_ok :: bool
  env_init_mem :: "u32 \<Rightarrow> u64 \<Rightarrow> int"
  env_init_params :: "u32 \<Rightarrow> int"
  env_buf_ring_mask :: "nat \<Rightarrow> nat"
  env_setup_buf_ring :: "bool \<times> int"
  env_memalign :: int
  env_drain :: uring_drain_answers

definition uring_params :: u32 where
  "uring_params = IORING_SETUP_SINGLE_ISSUER OR IORING_SETUP_DEFER_TASKRUN OR IORING_SETUP_CQSIZE OR
     IORING_SETUP_NO_SQARRAY OR IORING_SETUP_REGISTERED_FD_ONLY OR IORING_SETUP_NO_MMAP"

text \<open>
  The first attempt: rings in memory of the program. The size of that memory if it succeeds; if not,
  the memory is unmapped again.
\<close>

definition uring_init_in_memory :: "uring_env \<Rightarrow> u64 option" where
  "uring_init_in_memory env =
     (let need_size = env_memory_size env uring_params
      in if need_size > 0 then
           case fh_xio_ring_alloc_mem (env_mmap_huge_ok env) (env_mmap_ok env) (word_of_int need_size) of
             Some aligned_size \<Rightarrow> if env_init_mem env uring_params aligned_size \<ge> 0 then Some aligned_size else None
           | None \<Rightarrow> None
         else None)"

text \<open>A new instance, or the error number and, if it was freed by \<open>fh_xio_free\<close>, what that gave up.\<close>

datatype uring_created = Uring_failed "int option" "uring_release list" | Uring_created fh_xio_uring

definition uring_zero :: fh_xio_uring where
  "uring_zero = \<lparr>ring = [], has_buf_ring = False, buf_ring = [], ring_kmem_size = None, has_buf = False,
     buf_mask = 0, buf_offsets = replicate XIO_RING_BUF_COUNT 0, buf_refcount = replicate XIO_RING_BUF_COUNT 0,
     data_head = None, data_tail = None, data_count = 0, data_heap = (\<lambda>_. None)\<rparr>"

definition uring_create_failed ::
  "uring_env \<Rightarrow> fh_xio_uring \<Rightarrow> int \<Rightarrow> uring_created option checked"
where
  "uring_create_failed env xio errno =
     and_then (fh_xio_free_uring (env_drain env) (data_count xio) xio) (\<lambda>r.
     case r of None \<Rightarrow> Inr None | Some (rel, _) \<Rightarrow> Inr (Some (Uring_failed (Some errno) rel)))"

definition fh_xio_create_uring :: "uring_env \<Rightarrow> uring_created option checked" where
  "fh_xio_create_uring env =
     (if \<not> env_calloc_ok env then Inr (Some (Uring_failed None []))
      else
        let kmem = uring_init_in_memory env;
            xio = uring_zero\<lparr>ring_kmem_size := kmem\<rparr>;
            rc = (if kmem = None then env_init_params env
                (uring_params AND NOT (IORING_SETUP_REGISTERED_FD_ONLY OR IORING_SETUP_NO_MMAP)) else 0)
        in if rc \<noteq> 0 then Inr (Some (Uring_failed (Some (- rc)) [Uring_freed]))
           else
             let xio = xio\<lparr>buf_mask := env_buf_ring_mask env XIO_RING_BUF_COUNT\<rparr>;
                 (ok, rc) = env_setup_buf_ring env
             in if \<not> ok then uring_create_failed env xio (- rc)
                else
                  let xio = xio\<lparr>has_buf_ring := True\<rparr>; rc = env_memalign env
                  in if rc \<noteq> 0 then uring_create_failed env xio rc
                     else Inr (Some (Uring_created (xio\<lparr>has_buf := True,
                       buf_ring := map (\<lambda>i. Buf_add (i * XIO_RING_BUF_SIZE) XIO_RING_BUF_SIZE i (buf_mask xio) i)
                         [0 ..< XIO_RING_BUF_COUNT] @ [Buf_advance XIO_RING_BUF_COUNT]\<rparr>))))"

end
