(* ===== verification/Uring_Data.thy ===== *)
theory Uring_Data
  imports Uring
begin

text \<open>
  The blocks of request data: each block in use is either in the list of unused blocks, a doubly
  linked list of at most 2048, or in flight, that is named by a submission whose last completion has
  not been seen.
\<close>

section \<open>The doubly linked list\<close>

definition first_of :: "'a list \<Rightarrow> 'a option" where
  "first_of xs = (if xs = [] then None else Some (hd xs))"

definition final_of :: "'a list \<Rightarrow> 'a option" where
  "final_of xs = (if xs = [] then None else Some (last xs))"

lemma first_final_simps [simp]:
  "first_of [] = None" "final_of [] = None" "first_of (x # xs) = Some x" "final_of (xs @ [x]) = Some x"
  by (simp_all add: first_of_def final_of_def)

text \<open>Between the blocks before and after it, the blocks of \<open>xs\<close> are linked in both directions.\<close>

fun linked :: "xio_heap \<Rightarrow> nat option \<Rightarrow> nat list \<Rightarrow> nat option \<Rightarrow> bool" where
  "linked h p [] n = True"
| "linked h p (x # xs) n = (\<exists>d. h x = Some d \<and> dt_prev d = p \<and>
     dt_next d = (case xs of [] \<Rightarrow> n | y # _ \<Rightarrow> Some y) \<and> linked h (Some x) xs n)"

lemma linked_cong: "(\<And>x. x \<in> set xs \<Longrightarrow> h x = h' x) \<Longrightarrow> linked h p xs n = linked h' p xs n"
  by (induction xs arbitrary: p) auto

lemma linked_update [simp]: "x \<notin> set xs \<Longrightarrow> linked (h(x := v)) p xs n = linked h p xs n"
  by (rule linked_cong) auto

text \<open>The last block: its links, and what is left without it.\<close>

lemma linked_snoc:
  "linked h p (xs @ [x]) n \<longleftrightarrow> linked h p xs (Some x) \<and>
    (\<exists>d. h x = Some d \<and> dt_prev d = (if xs = [] then p else final_of xs) \<and> dt_next d = n)"
proof (induction xs arbitrary: p)
  case (Cons y ys)
  then show ?case by (cases ys) (auto simp: final_of_def)
qed auto

text \<open>Another block after the last one.\<close>

lemma linked_relink:
  assumes "linked h p (xs @ [x]) n" "distinct (xs @ [x])"
  shows "\<exists>d. h x = Some d \<and> linked (h(x \<mapsto> d\<lparr>dt_next := n'\<rparr>)) p (xs @ [x]) n'"
  using assms by (auto simp: linked_snoc)

lemma linked_in: "linked h p xs n \<Longrightarrow> x \<in> set xs \<Longrightarrow> h x \<noteq> None"
  by (induction xs arbitrary: p) auto

section \<open>Ownership\<close>

definition data_list :: "fh_xio_uring \<Rightarrow> nat list \<Rightarrow> bool" where
  "data_list xio xs \<longleftrightarrow> linked (data_heap xio) None xs None \<and> data_head xio = first_of xs \<and>
     data_tail xio = final_of xs \<and> data_count xio = length xs \<and> length xs \<le> XIO_MAX_DATA_FREELIST_COUNT \<and>
     distinct xs"

definition owned :: "nat set \<Rightarrow> fh_xio_uring \<Rightarrow> bool" where
  "owned F xio \<longleftrightarrow> (\<exists>xs. data_list xio xs \<and> dom (data_heap xio) = set xs \<union> F \<and> set xs \<inter> F = {})"

lemma ownedI:
  "data_list xio xs \<Longrightarrow> dom (data_heap xio) = set xs \<union> F \<Longrightarrow> set xs \<inter> F = {} \<Longrightarrow> owned F xio"
  unfolding owned_def by blast

text \<open>Everything but the blocks is the same.\<close>

definition same_but_data :: "fh_xio_uring \<Rightarrow> fh_xio_uring \<Rightarrow> bool" where
  "same_but_data xio xio' \<longleftrightarrow> (\<exists>h hd tl n. xio' = xio\<lparr>data_heap := h, data_head := hd, data_tail := tl, data_count := n\<rparr>)"

lemma same_but_dataD:
  assumes "same_but_data xio xio'"
  shows "ring xio' = ring xio" "has_buf_ring xio' = has_buf_ring xio" "buf_ring xio' = buf_ring xio"
    "ring_kmem_size xio' = ring_kmem_size xio" "has_buf xio' = has_buf xio" "buf_mask xio' = buf_mask xio"
    "buf_offsets xio' = buf_offsets xio" "buf_refcount xio' = buf_refcount xio"
  using assms by (auto simp: same_but_data_def)

lemma same_but_dataI:
  "ring xio' = ring xio \<Longrightarrow> has_buf_ring xio' = has_buf_ring xio \<Longrightarrow> buf_ring xio' = buf_ring xio \<Longrightarrow>
    ring_kmem_size xio' = ring_kmem_size xio \<Longrightarrow> has_buf xio' = has_buf xio \<Longrightarrow> buf_mask xio' = buf_mask xio \<Longrightarrow>
    buf_offsets xio' = buf_offsets xio \<Longrightarrow> buf_refcount xio' = buf_refcount xio \<Longrightarrow> same_but_data xio xio'"
  unfolding same_but_data_def
  by (intro exI [of _ "data_heap xio'"] exI [of _ "data_head xio'"] exI [of _ "data_tail xio'"]
      exI [of _ "data_count xio'"]) (cases xio; cases xio'; simp)

text \<open>Giving a block in flight back to the list.\<close>

lemma disown_correct:
  assumes own: "owned F xio" and a: "a \<in> F"
  shows "\<exists>xio'. fh_xio_data_disown xio a = Inr xio' \<and> owned (F - {a}) xio' \<and> same_but_data xio xio' \<and>
    (\<forall>b \<in> F - {a}. data_heap xio' b = data_heap xio b)"
proof -
  obtain xs where l: "data_list xio xs" and dm: "dom (data_heap xio) = set xs \<union> F" and dis: "set xs \<inter> F = {}"
    using own by (auto simp: owned_def)
  let ?h = "data_heap xio"
  obtain d where d: "?h a = Some d" using a dm by blast
  have new: "a \<notin> set xs" using a dis by blast
  show ?thesis
  proof (cases "data_count xio \<ge> XIO_MAX_DATA_FREELIST_COUNT")
    case True
    let ?x = "xio\<lparr>data_heap := ?h(a := None)\<rparr>"
    have "data_list ?x xs" using l new by (simp add: data_list_def)
    moreover have "dom (data_heap ?x) = set xs \<union> (F - {a})" using dm new by auto
    ultimately have "owned (F - {a}) ?x" using dis by (auto simp: owned_def)
    moreover have "same_but_data xio ?x" by (rule same_but_dataI) simp_all
    ultimately show ?thesis using True d by (simp add: fh_xio_data_disown_def heap_free_def heap_get_def)
  next
    case False
    let ?d = "d\<lparr>dt_next := None, dt_prev := data_tail xio\<rparr>"
    show ?thesis
    proof (cases xs rule: rev_cases)
      case Nil
      then have e: "data_tail xio = None" "data_count xio = 0" using l by (simp_all add: data_list_def)
      let ?x = "xio\<lparr>data_heap := ?h(a \<mapsto> ?d), data_head := Some a, data_tail := Some a, data_count := 1\<rparr>"
      have "data_list ?x [a]" using e by (simp add: data_list_def XIO_MAX_DATA_FREELIST_COUNT_def final_of_def)
      moreover have "dom (data_heap ?x) = set [a] \<union> (F - {a})" using dm Nil a by auto
      ultimately have "owned (F - {a}) ?x" by (rule ownedI) simp
      moreover have "same_but_data xio ?x" by (rule same_but_dataI) simp_all
      ultimately show ?thesis using False d e
        by (simp add: fh_xio_data_disown_def heap_upd_def heap_get_def)
    next
      case (snoc ys t)
      have tl: "data_tail xio = Some t" using l snoc by (simp add: data_list_def)
      have ta: "t \<noteq> a" using new snoc by auto
      have "linked (?h(a \<mapsto> ?d)) None (ys @ [t]) None" "distinct (ys @ [t])"
        using l new snoc by (simp_all add: data_list_def)
      from linked_relink [OF this, of "Some a"] ta obtain e where e: "?h t = Some e"
        "linked (?h(a \<mapsto> ?d, t \<mapsto> e\<lparr>dt_next := Some a\<rparr>)) None (ys @ [t]) (Some a)" by auto
      let ?x = "xio\<lparr>data_heap := ?h(a \<mapsto> ?d, t \<mapsto> e\<lparr>dt_next := Some a\<rparr>), data_tail := Some a,
          data_count := data_count xio + 1\<rparr>"
      have "linked (data_heap ?x) None (xs @ [a]) None"
        using e(2) snoc ta tl by (subst linked_snoc) (simp add: final_of_def)
      then have "data_list ?x (xs @ [a])"
        using l new False snoc by (auto simp: data_list_def first_of_def final_of_def hd_append)
      moreover have "dom (data_heap ?x) = set (xs @ [a]) \<union> (F - {a})" using dm snoc a by auto
      moreover have "set (xs @ [a]) \<inter> (F - {a}) = {}" using dis by auto
      ultimately have "owned (F - {a}) ?x" by (rule ownedI)
      moreover have "same_but_data xio ?x" by (rule same_but_dataI) simp_all
      moreover have "\<forall>b \<in> F - {a}. data_heap ?x b = ?h b" using dis snoc by auto
      ultimately show ?thesis using False d tl e(1) ta
        by (simp add: fh_xio_data_disown_def heap_upd_def heap_get_def)
    qed
  qed
qed

text \<open>Taking a block: from the list, or a new one when the list is empty.\<close>

definition malloc_fresh :: "xio_malloc \<Rightarrow> fh_xio_uring \<Rightarrow> bool" where
  "malloc_fresh m xio \<longleftrightarrow> (case m of None \<Rightarrow> True | Some (a, _) \<Rightarrow> data_heap xio a = None)"

text \<open>Without a block in the list one is allocated; otherwise the last one is taken.\<close>

definition get_outcome :: "xio_malloc \<Rightarrow> nat set \<Rightarrow> fh_xio_uring \<Rightarrow> nat option \<Rightarrow> fh_xio_uring \<Rightarrow> bool" where
  "get_outcome m F xio r xio' \<longleftrightarrow> same_but_data xio xio' \<and>
    (case r of None \<Rightarrow> m = None \<and> data_count xio = 0 \<and> xio' = xio
     | Some a \<Rightarrow> a \<notin> F \<and> owned (insert a F) xio' \<and> (\<forall>b \<in> F. data_heap xio' b = data_heap xio b))"

lemma get_allocates:
  assumes l: "data_list xio []" and dm: "dom (data_heap xio) = F" and m: "malloc_fresh m xio"
  shows "\<exists>r xio'. fh_xio_data_get m xio = Inr (r, xio') \<and> get_outcome m F xio r xio'"
proof -
  have c: "data_count xio = 0" using l by (simp add: data_list_def)
  show ?thesis
  proof (cases m)
    case None
    have "same_but_data xio xio" by (rule same_but_dataI) simp_all
    then show ?thesis using None c by (simp add: fh_xio_data_get_def fh_xio_data_alloc_def get_outcome_def)
  next
    case (Some p)
    obtain a d where p: "p = (a, d)" by (cases p)
    have a: "data_heap xio a = None" "a \<notin> F" using m Some p dm by (auto simp: malloc_fresh_def)
    let ?x = "xio\<lparr>data_heap := (data_heap xio)(a \<mapsto> d\<lparr>dt_next := None, dt_prev := None\<rparr>)\<rparr>"
    have "data_list ?x []" using l by (simp add: data_list_def)
    moreover have "dom (data_heap ?x) = set [] \<union> insert a F" using dm by auto
    ultimately have "owned (insert a F) ?x" by (rule ownedI) simp
    moreover have "same_but_data xio ?x" by (rule same_but_dataI) simp_all
    moreover have "\<forall>b \<in> F. data_heap ?x b = data_heap xio b" using a by auto
    ultimately show ?thesis using Some p c a by (simp add: fh_xio_data_get_def fh_xio_data_alloc_def get_outcome_def)
  qed
qed

lemma get_only:
  assumes l: "data_list xio [a]" and dm: "dom (data_heap xio) = insert a F" and a: "a \<notin> F"
  shows "\<exists>xio'. fh_xio_data_get m xio = Inr (Some a, xio') \<and> get_outcome m F xio (Some a) xio'"
proof -
  obtain d where d: "data_heap xio a = Some d" "dt_prev d = None" "data_count xio = 1" "data_tail xio = Some a"
    using l by (auto simp: data_list_def final_of_def)
  let ?x = "xio\<lparr>data_tail := None, data_head := None,
      data_heap := (data_heap xio)(a \<mapsto> d\<lparr>dt_next := None, dt_prev := None\<rparr>), data_count := 0\<rparr>"
  have "data_list ?x []" by (simp add: data_list_def)
  moreover have "dom (data_heap ?x) = set [] \<union> insert a F" using dm by auto
  ultimately have "owned (insert a F) ?x" by (rule ownedI) simp
  moreover have "same_but_data xio ?x" by (rule same_but_dataI) simp_all
  moreover have "\<forall>b \<in> F. data_heap ?x b = data_heap xio b" using a by auto
  ultimately show ?thesis using d a by (simp add: fh_xio_data_get_def heap_get_def heap_upd_def get_outcome_def)
qed

lemma get_last:
  assumes l: "data_list xio (zs @ [t, a])" and dm: "dom (data_heap xio) = set (zs @ [t, a]) \<union> F"
    and dis: "set (zs @ [t, a]) \<inter> F = {}"
  shows "\<exists>xio'. fh_xio_data_get m xio = Inr (Some a, xio') \<and> get_outcome m F xio (Some a) xio'"
proof -
  let ?h = "data_heap xio" and ?ys = "zs @ [t]"
  have c: "data_count xio = Suc (length ?ys)" "data_tail xio = Some a" "data_head xio = first_of ?ys"
    and ds: "distinct (?ys @ [a])" and ln: "linked ?h None (?ys @ [a]) None" "length ?ys < XIO_MAX_DATA_FREELIST_COUNT"
    using l by (simp_all add: data_list_def first_of_def final_of_def hd_append)
  obtain d where d: "?h a = Some d" "dt_prev d = Some t" "linked ?h None ?ys (Some a)"
    using ln(1) [THEN linked_snoc [THEN iffD1]] by (auto simp: final_of_def)
  have "distinct ?ys" using ds by simp
  from linked_relink [OF d(3) this, of None] obtain e where e: "?h t = Some e"
    "linked (?h(t \<mapsto> e\<lparr>dt_next := None\<rparr>)) None ?ys None" by auto
  have ta: "t \<noteq> a" "a \<notin> set ?ys" using ds by auto
  let ?h' = "?h(t \<mapsto> e\<lparr>dt_next := None\<rparr>, a \<mapsto> d\<lparr>dt_next := None, dt_prev := None\<rparr>)"
  let ?x = "xio\<lparr>data_tail := Some t, data_heap := ?h', data_count := length ?ys\<rparr>"
  have "data_list ?x ?ys" using e(2) ta ln(2) ds c(3) by (simp add: data_list_def)
  moreover have "dom (data_heap ?x) = set ?ys \<union> insert a F" using dm by auto
  moreover have "set ?ys \<inter> insert a F = {}" using dis ta by auto
  ultimately have "owned (insert a F) ?x" by (rule ownedI)
  moreover have "same_but_data xio ?x" by (rule same_but_dataI) simp_all
  moreover have "\<forall>b \<in> F. data_heap ?x b = ?h b" using dis by auto
  ultimately show ?thesis using c d e(1) ta dis
    by (simp add: fh_xio_data_get_def heap_get_def heap_upd_def get_outcome_def)
qed

lemma get_correct:
  assumes own: "owned F xio" and m: "malloc_fresh m xio"
  shows "\<exists>r xio'. fh_xio_data_get m xio = Inr (r, xio') \<and> same_but_data xio xio' \<and>
    (case r of None \<Rightarrow> m = None \<and> data_count xio = 0 \<and> xio' = xio
     | Some a \<Rightarrow> a \<notin> F \<and> owned (insert a F) xio' \<and> (\<forall>b \<in> F. data_heap xio' b = data_heap xio b))"
proof -
  obtain xs where l: "data_list xio xs" "dom (data_heap xio) = set xs \<union> F" "set xs \<inter> F = {}"
    using own by (auto simp: owned_def)
  consider "xs = []" | a where "xs = [a]" | zs t a where "xs = zs @ [t, a]"
    by (metis append.assoc append_Cons append_Nil rev_exhaust)
  then have "\<exists>r xio'. fh_xio_data_get m xio = Inr (r, xio') \<and> get_outcome m F xio r xio'"
  proof cases
    case 1
    then show ?thesis using l get_allocates [OF _ _ m, of F] by simp
  next
    case 2
    show ?thesis using get_only [of xio a F m] l by (auto simp: 2)
  next
    case 3
    show ?thesis using get_last [OF l [unfolded 3], of m] by blast
  qed
  then show ?thesis by (simp add: get_outcome_def)
qed

end
