(* ===== verification/Uring_Request.thy ===== *)
theory Uring_Request
  imports Uring_Data
begin

text \<open>
  The invariant of an instance on \<open>io_uring\<close> and the five requests: each takes one block, fills it
  and makes one submission that names it, or changes nothing in flight.
\<close>

section \<open>The invariant\<close>

primrec opdata_op :: "xio_opdata \<Rightarrow> fh_xio_op" where
  "opdata_op (Op_read fd buf n) = XIO_OP_READ"
| "opdata_op (Op_write fd buf n) = XIO_OP_WRITE"
| "opdata_op (Op_recv fd buf n flags) = XIO_OP_RECV"
| "opdata_op (Op_send fd buf n flags) = XIO_OP_SEND"
| "opdata_op (Op_accept fd addr addr_len flags) = XIO_OP_ACCEPT"

text \<open>The operation of a block says which member of the union was written.\<close>

definition request_ok :: "fh_xio_data \<Rightarrow> bool" where
  "request_ok d \<longleftrightarrow> dt_op d = xio_op_code (opdata_op (dt_opdata d))"

definition bufs_ok :: "fh_xio_uring \<Rightarrow> bool" where
  "bufs_ok xio \<longleftrightarrow> length (buf_offsets xio) = XIO_RING_BUF_COUNT \<and> length (buf_refcount xio) = XIO_RING_BUF_COUNT \<and>
     (\<forall>b < XIO_RING_BUF_COUNT. unat (buf_offsets xio ! b) \<le> XIO_RING_BUF_SIZE)"

definition uring_ok :: "nat set \<Rightarrow> fh_xio_uring \<Rightarrow> bool" where
  "uring_ok F xio \<longleftrightarrow> owned F xio \<and> (\<forall>a \<in> F. \<exists>d. data_heap xio a = Some d \<and> request_ok d) \<and> bufs_ok xio"

text \<open>The invariant says nothing of the rings.\<close>

lemma owned_ring [simp]:
  "owned F (xio\<lparr>ring := r\<rparr>) = owned F xio" "owned F (xio\<lparr>buf_ring := b\<rparr>) = owned F xio"
  "owned F (xio\<lparr>buf_refcount := rs\<rparr>) = owned F xio" "owned F (xio\<lparr>buf_offsets := os\<rparr>) = owned F xio"
  by (simp_all add: owned_def data_list_def)

lemma uring_ok_ring [simp]:
  "uring_ok F (xio\<lparr>ring := r\<rparr>) = uring_ok F xio" "uring_ok F (xio\<lparr>buf_ring := b\<rparr>) = uring_ok F xio"
  by (simp_all add: uring_ok_def bufs_ok_def)

lemma uring_ok_data:
  assumes "uring_ok F xio" "same_but_data xio xio'" "owned G xio'"
    and "\<forall>a \<in> G. data_heap xio' a = data_heap xio a" "G \<subseteq> F"
  shows "uring_ok G xio'"
  using assms same_but_dataD(7,8) [OF assms(2)] by (auto simp: uring_ok_def bufs_ok_def subset_iff)

lemma owned_write:
  assumes own: "owned F xio" and a: "a \<in> F"
  shows "owned F (xio\<lparr>data_heap := (data_heap xio)(a \<mapsto> d)\<rparr>)"
proof -
  obtain xs where l: "data_list xio xs" "dom (data_heap xio) = set xs \<union> F" "set xs \<inter> F = {}"
    using own by (auto simp: owned_def)
  have "a \<notin> set xs" using a l(3) by blast
  then show ?thesis using l a by (intro ownedI [of _ xs]) (auto simp: data_list_def)
qed

section \<open>Requests\<close>

definition got_sqe :: "sqe_answers \<Rightarrow> bool" where
  "got_sqe sq \<longleftrightarrow> fst sq \<or> snd sq"

definition sqe_ring :: "sqe_answers \<Rightarrow> ring_call list" where
  "sqe_ring sq = (if fst sq then [] else [Ring_submit])"

lemma get_sqe: "fh_xio_ring_get_sqe sq xio = (got_sqe sq, xio\<lparr>ring := ring xio @ sqe_ring sq\<rparr>)"
  by (auto simp: fh_xio_ring_get_sqe_def got_sqe_def sqe_ring_def)

lemma prep_common_correct:
  assumes ok: "uring_ok F xio" and m: "malloc_fresh m xio"
  shows "\<exists>r xio'. fh_xio_request_prep_common m sq xio = Inr (r, xio') \<and>
    buf_ring xio' = buf_ring xio \<and> buf_refcount xio' = buf_refcount xio \<and> buf_offsets xio' = buf_offsets xio \<and>
    (\<forall>b \<in> F. data_heap xio' b = data_heap xio b) \<and>
    (case r of
       Inl e \<Rightarrow> uring_ok F xio' \<and> (e = - linux_ENOMEM \<and> m = None \<and> data_count xio = 0 \<and> xio' = xio \<or>
         e = - linux_EAGAIN \<and> \<not> got_sqe sq \<and> ring xio' = ring xio @ sqe_ring sq)
     | Inr a \<Rightarrow> got_sqe sq \<and> a \<notin> F \<and> owned (insert a F) xio' \<and> ring xio' = ring xio @ sqe_ring sq)"
proof -
  have own: "owned F xio" using ok by (simp add: uring_ok_def)
  from get_correct [OF own m] obtain r xa where g: "fh_xio_data_get m xio = Inr (r, xa)" "same_but_data xio xa"
    "case r of None \<Rightarrow> m = None \<and> data_count xio = 0 \<and> xa = xio
     | Some a \<Rightarrow> a \<notin> F \<and> owned (insert a F) xa \<and> (\<forall>b \<in> F. data_heap xa b = data_heap xio b)" by blast
  note same = same_but_dataD [OF g(2)]
  show ?thesis
  proof (cases r)
    case None
    then show ?thesis using g ok by (simp add: fh_xio_request_prep_common_def)
  next
    case (Some a)
    then have a: "a \<notin> F" "owned (insert a F) xa" "\<forall>b \<in> F. data_heap xa b = data_heap xio b" using g(3) by simp_all
    let ?xb = "xa\<lparr>ring := ring xio @ sqe_ring sq\<rparr>"
    show ?thesis
    proof (cases "got_sqe sq")
      case True
      then show ?thesis using g(1) Some a same
        by (simp add: fh_xio_request_prep_common_def get_sqe)
    next
      case False
      have "owned (insert a F) ?xb" using a(2) by simp
      from disown_correct [OF this, of a] a(1) obtain xc where c: "fh_xio_data_disown ?xb a = Inr xc"
        "owned F xc" "same_but_data ?xb xc" "\<forall>b \<in> F. data_heap xc b = data_heap ?xb b"
        by (auto simp: insert_Diff_if)
      have "uring_ok F xc" using ok c(2,4) a(3) same same_but_dataD [OF c(3)]
        by (simp add: uring_ok_def bufs_ok_def)
      then show ?thesis using g(1) Some a(3) False c same same_but_dataD [OF c(3)]
        by (simp add: fh_xio_request_prep_common_def get_sqe)
    qed
  qed
qed

text \<open>What a request leaves: \<open>setup\<close> and \<open>prep\<close> are the submission it makes.\<close>

definition request_outcome ::
  "nat set \<Rightarrow> xio_malloc \<Rightarrow> sqe_answers \<Rightarrow> fh_xio_uring \<Rightarrow> nat \<Rightarrow> xio_opdata \<Rightarrow> (uring_sqe \<Rightarrow> uring_sqe) \<Rightarrow>
   uring_prep \<Rightarrow> int \<Rightarrow> fh_xio_uring \<Rightarrow> bool"
where
  "request_outcome F m sq xio udata opdata setup prep rc xio' \<longleftrightarrow>
     buf_ring xio' = buf_ring xio \<and> buf_refcount xio' = buf_refcount xio \<and> buf_offsets xio' = buf_offsets xio \<and>
     (\<forall>b \<in> F. data_heap xio' b = data_heap xio b) \<and>
     (if rc = 0 then \<exists>a d. a \<notin> F \<and> uring_ok (insert a F) xio' \<and> data_heap xio' a = Some d \<and>
        dt_udata d = udata \<and> dt_opdata d = opdata \<and>
        ring xio' = ring xio @ sqe_ring sq @ [Ring_sqe
          (setup \<lparr>sqe_prep = prep, sqe_data = Tag_data a, sqe_buf_group = None, sqe_drain = False\<rparr>)]
      else uring_ok F xio' \<and> (rc = - linux_ENOMEM \<and> m = None \<and> data_count xio = 0 \<and> xio' = xio \<or>
        rc = - linux_EAGAIN \<and> \<not> got_sqe sq \<and> ring xio' = ring xio @ sqe_ring sq))"

lemma request_correct:
  assumes ok: "uring_ok F xio" and m: "malloc_fresh m xio" and op: "opdata_op opdata = op"
  shows "\<exists>rc xio'. uring_request m sq xio udata op opdata setup prep = Inr (rc, xio') \<and>
    request_outcome F m sq xio udata opdata setup prep rc xio'"
proof -
  from prep_common_correct [OF ok m, of sq] obtain r xa where p: "fh_xio_request_prep_common m sq xio = Inr (r, xa)"
    "buf_ring xa = buf_ring xio" "buf_refcount xa = buf_refcount xio" "buf_offsets xa = buf_offsets xio"
    "\<forall>b \<in> F. data_heap xa b = data_heap xio b" and
    r: "case r of
       Inl e \<Rightarrow> uring_ok F xa \<and> (e = - linux_ENOMEM \<and> m = None \<and> data_count xio = 0 \<and> xa = xio \<or>
         e = - linux_EAGAIN \<and> \<not> got_sqe sq \<and> ring xa = ring xio @ sqe_ring sq)
     | Inr a \<Rightarrow> got_sqe sq \<and> a \<notin> F \<and> owned (insert a F) xa \<and> ring xa = ring xio @ sqe_ring sq" by blast
  show ?thesis
  proof (cases r)
    case (Inl e)
    then have "e \<noteq> 0" using r by (auto simp: linux_ENOMEM_def linux_EAGAIN_def)
    then show ?thesis using p r Inl by (simp add: uring_request_def request_outcome_def)
  next
    case (Inr a)
    then have a: "a \<notin> F" "owned (insert a F) xa" "ring xa = ring xio @ sqe_ring sq" using r by simp_all
    obtain d where d: "data_heap xa a = Some d" using a(2) by (auto simp: owned_def dom_def)
    let ?d = "d\<lparr>dt_op := xio_op_code op, dt_udata := udata, dt_opdata := opdata\<rparr>"
    let ?xb = "xa\<lparr>data_heap := (data_heap xa)(a \<mapsto> ?d)\<rparr>"
    have "owned (insert a F) ?xb" by (rule owned_write [OF a(2)]) simp
    moreover have "\<forall>b \<in> insert a F. \<exists>d. data_heap ?xb b = Some d \<and> request_ok d"
      using ok p(5) a(1) op by (auto simp: uring_ok_def request_ok_def)
    ultimately have "uring_ok (insert a F) ?xb" using ok p(3,4) by (simp add: uring_ok_def bufs_ok_def)
    then show ?thesis using p Inr a d
      by (auto simp: uring_request_def request_outcome_def heap_upd_def heap_get_def)
  qed
qed

end
