(* ===== verification/Uring_Wait.thy ===== *)
theory Uring_Wait
  imports Uring_Request
begin

text \<open>
  The completion loop. What \<open>io_uring\<close> promises of the completions in its queue is a hypothesis: each
  names a request in flight, none names a request after its last completion, and a buffer is one of
  those provided. Each buffer has a count of results that the client holds, and a mark that no more
  completions will name it.
\<close>

section \<open>Completions\<close>

definition more_to_come :: "uring_cqe \<Rightarrow> bool" where
  "more_to_come cqe \<longleftrightarrow> cqe_flags cqe AND IORING_CQE_F_MORE \<noteq> 0"

definition buffer_kept :: "u32 \<Rightarrow> bool" where
  "buffer_kept flags \<longleftrightarrow> flags AND IORING_CQE_F_BUF_MORE \<noteq> 0"

definition names_buffer :: "u32 \<Rightarrow> nat \<Rightarrow> bool" where
  "names_buffer flags b \<longleftrightarrow> cqe_has_buffer flags \<and> cqe_bid flags = b"

definition bid_ok :: "u32 \<Rightarrow> bool" where
  "bid_ok flags \<longleftrightarrow> (cqe_has_buffer flags \<longrightarrow> cqe_bid flags < XIO_RING_BUF_COUNT)"

text \<open>The requests in flight after completions, and the promise about them.\<close>

fun in_flight_after :: "nat set \<Rightarrow> uring_cqe list \<Rightarrow> nat set" where
  "in_flight_after F [] = F"
| "in_flight_after F (c # cs) =
     (case cqe_data c of
        Tag_data a \<Rightarrow> in_flight_after (if more_to_come c then F else F - {a}) cs
      | _ \<Rightarrow> in_flight_after F cs)"

fun cqes_ok :: "nat set \<Rightarrow> uring_cqe list \<Rightarrow> bool" where
  "cqes_ok F [] \<longleftrightarrow> True"
| "cqes_ok F (c # cs) \<longleftrightarrow>
     (case cqe_data c of
        Tag_data a \<Rightarrow> a \<in> F \<and> bid_ok (cqe_flags c) \<and> cqes_ok (if more_to_come c then F else F - {a}) cs
      | _ \<Rightarrow> cqes_ok F cs)"

text \<open>The completions one wait passes over, those among them that are of requests, and their results.\<close>

fun consumed :: "nat \<Rightarrow> uring_cqe list \<Rightarrow> uring_cqe list" where
  "consumed n [] = []"
| "consumed 0 (c # cs) = []"
| "consumed (Suc n) (c # cs) = c # consumed (case cqe_data c of Tag_data a \<Rightarrow> n | _ \<Rightarrow> Suc n) cs"

fun completions :: "uring_cqe list \<Rightarrow> (nat \<times> uring_cqe) list" where
  "completions [] = []"
| "completions (c # cs) = (case cqe_data c of Tag_data a \<Rightarrow> (a, c) # completions cs | _ \<Rightarrow> completions cs)"

lemma in_flight_after_subset: "in_flight_after F cs \<subseteq> F"
  by (induction F cs rule: in_flight_after.induct) (auto split: uring_tag.splits if_splits)

lemma completions_append: "completions (cs @ ds) = completions cs @ completions ds"
  by (induction cs) (auto split: uring_tag.splits)

lemma consumed_prefix: "\<exists>rest. cs = consumed n cs @ rest"
  by (induction n cs rule: consumed.induct) (auto split: uring_tag.splits)

lemma completions_bound: "length (completions (consumed n cs)) \<le> n"
  by (induction n cs rule: consumed.induct) (auto split: uring_tag.splits)

text \<open>What is passed over is all, unless the results are full.\<close>

lemma consumed_all: "length (completions (consumed n cs)) < n \<Longrightarrow> consumed n cs = cs"
  by (induction n cs rule: consumed.induct) (auto split: uring_tag.splits)

section \<open>Buffers\<close>

definition held :: "fh_xio_uring \<Rightarrow> nat \<Rightarrow> nat" where
  "held xio b = unat (buf_refcount xio ! b AND NOT XIO_RING_BUF_FLAG_DONE)"

definition used_up :: "fh_xio_uring \<Rightarrow> nat \<Rightarrow> bool" where
  "used_up xio b \<longleftrightarrow> buf_refcount xio ! b AND XIO_RING_BUF_FLAG_DONE \<noteq> 0"

text \<open>A reference count is the number of results held, plus \<open>2 ^ 31\<close> once the mark is set.\<close>

lemma done_exp: "XIO_RING_BUF_FLAG_DONE = 2 ^ 31" "NOT XIO_RING_BUF_FLAG_DONE = mask 31"
  by (simp_all add: XIO_RING_BUF_FLAG_DONE_def mask_eq_exp_minus_1)

lemma and_not_done: "unat (r AND NOT XIO_RING_BUF_FLAG_DONE) = unat r mod 2 ^ 31" for r :: u32
proof -
  have "r AND NOT XIO_RING_BUF_FLAG_DONE = take_bit 31 r" by (simp only: done_exp(2) take_bit_eq_mask)
  also have "unat \<dots> = take_bit 31 (unat r)" by (simp add: unsigned_take_bit_eq)
  finally show ?thesis by (simp only: take_bit_eq_mod)
qed

lemma unat_u32: "unat r < 2 * 2 ^ 31" for r :: u32
  using unsigned_less [of r] by simp

lemma bit_31: "bit r 31 \<longleftrightarrow> 2 ^ 31 \<le> unat r" for r :: u32
proof -
  have "bit r 31 \<longleftrightarrow> bit (unat r) 31" by (simp add: bit_unsigned_iff)
  also have "\<dots> \<longleftrightarrow> odd (unat r div 2 ^ 31)" by (rule bit_iff_odd)
  also have "\<dots> \<longleftrightarrow> 2 ^ 31 \<le> unat r"
  proof (cases "2 ^ 31 \<le> unat r")
    case True
    have "unat r div 2 ^ 31 = 1" by (rule div_nat_eqI) (use True unat_u32 [of r] in simp_all)
    then show ?thesis using True by simp
  next
    case False
    then have "unat r div 2 ^ 31 = 0" by (intro div_less) simp
    then show ?thesis using False by simp
  qed
  finally show ?thesis .
qed

lemma and_done: "r AND XIO_RING_BUF_FLAG_DONE \<noteq> 0 \<longleftrightarrow> 2 ^ 31 \<le> unat r" for r :: u32
  by (simp only: done_exp(1) and_exp_eq_0_iff_not_bit bit_31 not_not)

lemma or_done: "unat (r OR XIO_RING_BUF_FLAG_DONE) = unat r mod 2 ^ 31 + 2 ^ 31" for r :: u32
proof -
  have "r OR XIO_RING_BUF_FLAG_DONE = (r AND NOT XIO_RING_BUF_FLAG_DONE) + XIO_RING_BUF_FLAG_DONE"
    by (subst disjunctive_add) (auto simp: bit_simps done_exp(1) intro!: bit_eqI)
  moreover have "unat (r AND NOT XIO_RING_BUF_FLAG_DONE) < 2 ^ 31" unfolding and_not_done by simp
  moreover have "unat XIO_RING_BUF_FLAG_DONE = 2 ^ 31" by (simp add: XIO_RING_BUF_FLAG_DONE_def)
  ultimately show ?thesis unfolding and_not_done [symmetric] by (simp only: unat_word_ariths(1)) simp
qed

lemma held_mod: "held xio b = unat (buf_refcount xio ! b) mod 2 ^ 31"
  unfolding held_def by (rule and_not_done)

lemma used_up_iff: "used_up xio b \<longleftrightarrow> 2 ^ 31 \<le> unat (buf_refcount xio ! b)"
  unfolding used_up_def by (rule and_done)

lemma refcount_split: "unat (buf_refcount xio ! b) = held xio b + (if used_up xio b then 2 ^ 31 else 0)"
  using unat_u32 [of "buf_refcount xio ! b"] unfolding held_mod used_up_iff
  by (auto simp: not_le mod_if le_mod_geq)

lemma held_bound: "held xio b < 2 ^ 31"
  unfolding held_mod by simp

text \<open>One more result for a buffer.\<close>

lemma offset_step:
  fixes off :: u32
  assumes "sz (unat off + n) < XIO_RING_BUF_SIZE"
  shows "unat (off + of_nat n) = sz (unat off + n)"
proof -
  have "unat (off + of_nat n) = (unat off + n) mod 2 ^ 32"
    by (simp add: unat_word_ariths(1) unat_of_nat mod_add_right_eq)
  also have "\<dots> = sz (unat off + n) mod 2 ^ 32"
    by (simp add: sz_def mod_mod_cancel)
  finally show ?thesis using assms by (simp add: XIO_RING_BUF_SIZE_def)
qed

lemma unat_Suc_u32: "unat r + 1 < 2 ^ 32 \<Longrightarrow> unat (r + 1) = unat r + 1" for r :: u32
  by (simp add: unat_word_ariths(1))

definition grown_offset :: "nat \<Rightarrow> nat \<Rightarrow> nat" where
  "grown_offset off n = min XIO_RING_BUF_SIZE (sz (off + n))"

lemma use_buffer_correct:
  assumes ok: "bufs_ok xio" and b: "cqe_bid flags < XIO_RING_BUF_COUNT" and few: "held xio (cqe_bid flags) + 1 < 2 ^ 31"
  shows "\<exists>rs os. let xio' = xio\<lparr>buf_refcount := rs, buf_offsets := os\<rparr> in
    uring_use_buffer xio flags n = Inr xio' \<and> bufs_ok xio' \<and>
    (\<forall>b. held xio' b = held xio b + (if b = cqe_bid flags then 1 else 0) \<and>
      used_up xio' b = (used_up xio b \<or> b = cqe_bid flags \<and> \<not> buffer_kept flags) \<and>
      unat (buf_offsets xio' ! b) = (if b = cqe_bid flags then grown_offset (unat (buf_offsets xio ! b)) n
        else unat (buf_offsets xio ! b)))"
proof -
  let ?b = "cqe_bid flags"
  let ?r = "buf_refcount xio ! ?b" and ?o = "buf_offsets xio ! ?b"
  have len: "?b < length (buf_refcount xio)" "?b < length (buf_offsets xio)" using ok b by (simp_all add: bufs_ok_def)
  let ?r' = "if buffer_kept flags then ?r + 1 else (?r + 1) OR XIO_RING_BUF_FLAG_DONE"
  let ?o' = "if sz (unat ?o + n) \<ge> XIO_RING_BUF_SIZE then of_nat XIO_RING_BUF_SIZE else ?o + of_nat n :: u32"
  let ?x = "xio\<lparr>buf_refcount := (buf_refcount xio)[?b := ?r'], buf_offsets := (buf_offsets xio)[?b := ?o']\<rparr>"
  have run: "uring_use_buffer xio flags n = Inr ?x"
    using len by (auto simp: uring_use_buffer_def buffer_kept_def aupd_def aget_def Let_def)
  have inc: "unat (?r + 1) = unat ?r + 1"
    using few refcount_split [of xio ?b] by (intro unat_Suc_u32) (auto split: if_splits)
  have val: "unat ?r' = held xio ?b + 1 + (if used_up xio ?b \<or> \<not> buffer_kept flags then 2 ^ 31 else 0)"
  proof -
    have sum: "unat (?r + 1) = held xio ?b + 1 + (if used_up xio ?b then 2 ^ 31 else 0)"
      using inc refcount_split [of xio ?b] by simp
    then have "unat (?r + 1) mod 2 ^ 31 = held xio ?b + 1"
      using few by (cases "used_up xio ?b") (simp_all only: if_True if_False mod_add_self2 add_0_right mod_less)
    then show ?thesis using sum by (simp add: or_done)
  qed
  have off: "unat ?o' = grown_offset (unat ?o) n"
    using offset_step [of ?o n] by (auto simp: grown_offset_def XIO_RING_BUF_SIZE_def)
  have "unat (buf_refcount ?x ! ?b) = unat ?r'" using len by simp
  then have new: "held ?x ?b = held xio ?b + 1" "used_up ?x ?b = (used_up xio ?b \<or> \<not> buffer_kept flags)"
    unfolding held_mod [of ?x] used_up_iff [of ?x] val using few by (auto simp: mod_if)
  have old: "held ?x b = held xio b" "used_up ?x b = used_up xio b" if "b \<noteq> ?b" for b
    using that by (simp_all add: held_def used_up_def)
  have x: "bufs_ok ?x"
    using ok off len unfolding bufs_ok_def grown_offset_def by (auto simp: nth_list_update)
  have held: "held ?x b = held xio b + (if b = ?b then 1 else 0)" for b
    using new(1) old(1) [of b] by (cases "b = ?b") simp_all
  have used: "used_up ?x b = (used_up xio b \<or> b = ?b \<and> \<not> buffer_kept flags)" for b
    using new(2) old(2) [of b] by (cases "b = ?b") simp_all
  have offs: "unat (buf_offsets ?x ! b) = (if b = ?b then grown_offset (unat (buf_offsets xio ! b)) n
      else unat (buf_offsets xio ! b))" for b
    using off len by (cases "b = ?b") simp_all
  show ?thesis unfolding Let_def
    by (rule exI [of _ "(buf_refcount xio)[?b := ?r']"], rule exI [of _ "(buf_offsets xio)[?b := ?o']"])
      (intro conjI allI run x held used offs)
qed

section \<open>One completion\<close>

primrec od_buffer :: "xio_opdata \<Rightarrow> nat option" where
  "od_buffer (Op_read fd buf n) = buf"
| "od_buffer (Op_write fd buf n) = buf"
| "od_buffer (Op_recv fd buf n flags) = buf"
| "od_buffer (Op_send fd buf n flags) = buf"
| "od_buffer (Op_accept fd addr addr_len flags) = None"

primrec od_consumed :: "xio_opdata \<Rightarrow> int \<Rightarrow> nat" where
  "od_consumed (Op_read fd buf n) res = (if res < 0 then 0 else n)"
| "od_consumed (Op_write fd buf n) res = (if res < 0 then 0 else n)"
| "od_consumed (Op_recv fd buf n flags) res = min n (nat res)"
| "od_consumed (Op_send fd buf n flags) res = min n (nat res)"
| "od_consumed (Op_accept fd addr addr_len flags) res = nat res"

lemma populate:
  "request_ok d \<Longrightarrow> fh_xio_data_populate d cqe =
     Inr (od_consumed (dt_opdata d) (cqe_res cqe), od_buffer (dt_opdata d))"
  by (cases "dt_opdata d")
    (auto simp: request_ok_def fh_xio_data_populate_def Let_def MIN_VALUE_def min_def)

text \<open>The result of a completion, for offsets of the buffers before it, and the offsets after it.\<close>

definition result_of :: "(nat \<Rightarrow> nat) \<Rightarrow> fh_xio_data \<Rightarrow> uring_cqe \<Rightarrow> fh_xio_result" where
  "result_of off d c = \<lparr>res_op = dt_op d, res_flags = cqe_flags c, res_res = cqe_res c,
     res_buf = (case od_buffer (dt_opdata d) of
         Some b \<Rightarrow> Some (User_ptr b)
       | None \<Rightarrow> if cqe_has_buffer (cqe_flags c) then let b = cqe_bid (cqe_flags c)
           in Some (Pool_ptr (XIO_RING_BUF_SIZE * b + off b)) else None),
     res_udata = dt_udata d\<rparr>"

definition offsets_after :: "(nat \<Rightarrow> nat) \<Rightarrow> fh_xio_data \<Rightarrow> uring_cqe \<Rightarrow> nat \<Rightarrow> nat" where
  "offsets_after off d c b = (if names_buffer (cqe_flags c) b
     then grown_offset (off b) (od_consumed (dt_opdata d) (cqe_res c)) else off b)"

definition offsets_of :: "fh_xio_uring \<Rightarrow> nat \<Rightarrow> nat" where
  "offsets_of xio b = unat (buf_offsets xio ! b)"

text \<open>The results of completions, of requests whose blocks are in \<open>h\<close>.\<close>

fun wait_results :: "xio_heap \<Rightarrow> (nat \<Rightarrow> nat) \<Rightarrow> (nat \<times> uring_cqe) list \<Rightarrow> fh_xio_result list" where
  "wait_results h off [] = []"
| "wait_results h off ((a, c) # ps) =
     result_of off (the (h a)) c # wait_results h (offsets_after off (the (h a)) c) ps"

lemma wait_results_cong:
  "(\<And>p. p \<in> set ps \<Longrightarrow> h (fst p) = h' (fst p)) \<Longrightarrow> wait_results h off ps = wait_results h' off ps"
proof (induction h off ps rule: wait_results.induct)
  case (2 h off a c ps)
  have "h a = h' a" using 2(2) [of "(a, c)"] by simp
  then show ?case using 2 by auto
qed simp

lemma length_wait_results [simp]: "length (wait_results h off ps) = length ps"
  by (induction h off ps rule: wait_results.induct) auto

definition flag_count :: "u32 \<Rightarrow> nat \<Rightarrow> nat" where
  "flag_count flags b = (if names_buffer flags b then 1 else 0)"

lemma complete_correct:
  assumes ok: "uring_ok F xio" and a: "a \<in> F" and b: "bid_ok (cqe_flags c)"
    and few: "\<forall>b < XIO_RING_BUF_COUNT. held xio b + 1 < 2 ^ 31"
  shows "\<exists>d xio'. data_heap xio a = Some d \<and> uring_complete xio a c = Inr (result_of (offsets_of xio) d c, xio') \<and>
    uring_ok (if more_to_come c then F else F - {a}) xio' \<and>
    (\<forall>x \<in> (if more_to_come c then F else F - {a}). data_heap xio' x = data_heap xio x) \<and>
    ring xio' = ring xio \<and> buf_ring xio' = buf_ring xio \<and>
    offsets_of xio' = offsets_after (offsets_of xio) d c \<and>
    (\<forall>b. held xio' b = held xio b + flag_count (cqe_flags c) b \<and>
      used_up xio' b = (used_up xio b \<or> names_buffer (cqe_flags c) b \<and> \<not> buffer_kept (cqe_flags c)))"
proof -
  let ?f = "cqe_flags c"
  obtain d where d: "data_heap xio a = Some d" "request_ok d" using ok a by (auto simp: uring_ok_def)
  let ?n = "od_consumed (dt_opdata d) (cqe_res c)"
  have bufs: "bufs_ok xio" using ok by (simp add: uring_ok_def)
  obtain xa where xa: "(if cqe_has_buffer ?f then uring_use_buffer xio ?f ?n else Inr xio) = Inr xa"
    "owned F xa" "bufs_ok xa" "data_heap xa = data_heap xio" "ring xa = ring xio" "buf_ring xa = buf_ring xio" and
    bf: "\<forall>b. held xa b = held xio b + flag_count ?f b \<and>
      used_up xa b = (used_up xio b \<or> names_buffer ?f b \<and> \<not> buffer_kept ?f) \<and>
      unat (buf_offsets xa ! b) = (if names_buffer ?f b then grown_offset (unat (buf_offsets xio ! b)) ?n
        else unat (buf_offsets xio ! b))"
  proof (cases "cqe_has_buffer ?f")
    case True
    then have bid: "cqe_bid ?f < XIO_RING_BUF_COUNT" using b by (simp add: bid_ok_def)
    from use_buffer_correct [OF bufs bid few [rule_format, OF bid], of ?n] obtain rs os where
      u: "uring_use_buffer xio ?f ?n = Inr (xio\<lparr>buf_refcount := rs, buf_offsets := os\<rparr>)"
      "bufs_ok (xio\<lparr>buf_refcount := rs, buf_offsets := os\<rparr>)" "\<forall>b. held (xio\<lparr>buf_refcount := rs, buf_offsets := os\<rparr>) b = held xio b + (if b = cqe_bid ?f then 1 else 0) \<and>
        used_up (xio\<lparr>buf_refcount := rs, buf_offsets := os\<rparr>) b = (used_up xio b \<or> b = cqe_bid ?f \<and> \<not> buffer_kept ?f) \<and>
        unat (buf_offsets (xio\<lparr>buf_refcount := rs, buf_offsets := os\<rparr>) ! b) = (if b = cqe_bid ?f then grown_offset (unat (buf_offsets xio ! b)) ?n
          else unat (buf_offsets xio ! b))" by (auto simp: Let_def)
    show thesis
      by (rule that [of "xio\<lparr>buf_refcount := rs, buf_offsets := os\<rparr>"]) (use u True ok in \<open>auto simp: uring_ok_def flag_count_def names_buffer_def\<close>)
  next
    case False
    then show thesis using ok that [of xio] by (simp add: uring_ok_def flag_count_def names_buffer_def)
  qed
  have "\<exists>xb. (if ?f AND IORING_CQE_F_MORE = 0 then fh_xio_data_disown xa a else Inr xa) = Inr xb \<and>
      same_but_data xa xb \<and> owned (if more_to_come c then F else F - {a}) xb \<and>
      (\<forall>x \<in> (if more_to_come c then F else F - {a}). data_heap xb x = data_heap xa x)"
    using disown_correct [OF xa(2) a] xa(2) same_but_dataI [of xa xa] by (auto simp: more_to_come_def)
  then obtain xb where xb: "(if ?f AND IORING_CQE_F_MORE = 0 then fh_xio_data_disown xa a else Inr xa) = Inr xb"
    "same_but_data xa xb" "owned (if more_to_come c then F else F - {a}) xb"
    "\<forall>x \<in> (if more_to_come c then F else F - {a}). data_heap xb x = data_heap xa x" by blast
  note same = same_but_dataD [OF xb(2)]
  have "(if cqe_has_buffer ?f then and_then (fh_xio_ring_get_buffer_off xio (cqe_bid ?f)) (\<lambda>p. Inr (Some (Pool_ptr p)))
      else Inr None) = Inr (if cqe_has_buffer ?f then let b = cqe_bid ?f
        in Some (Pool_ptr (XIO_RING_BUF_SIZE * b + unat (buf_offsets xio ! b))) else None)"
    using b bufs by (simp add: fh_xio_ring_get_buffer_off_def fh_xio_ring_get_buffer_def aget_def bid_ok_def bufs_ok_def Let_def)
  then have "uring_complete xio a c = Inr (result_of (offsets_of xio) d c, xb)"
    using d(1) populate [OF d(2), of c] xa(1) xb(1)
    by (simp add: uring_complete_def heap_get_def result_of_def offsets_of_def Let_def split: option.splits)
  moreover have "uring_ok (if more_to_come c then F else F - {a}) xb"
    using ok xa(3,4) xb(3,4) same by (auto simp: uring_ok_def bufs_ok_def split: if_splits)
  moreover have "held xb = held xa" "used_up xb = used_up xa"
    using same by (simp_all add: held_def used_up_def fun_eq_iff)
  moreover have "offsets_of xb = offsets_after (offsets_of xio) d c"
    using bf same by (simp add: offsets_of_def offsets_after_def fun_eq_iff)
  ultimately show ?thesis using d(1) bf xa(4-6) xb(4) same by auto
qed

section \<open>The loop\<close>

definition handed_out :: "(nat \<times> uring_cqe) list \<Rightarrow> nat \<Rightarrow> nat" where
  "handed_out ps b = length (filter (\<lambda>p. names_buffer (cqe_flags (snd p)) b) ps)"

definition last_use :: "(nat \<times> uring_cqe) list \<Rightarrow> nat \<Rightarrow> bool" where
  "last_use ps b \<longleftrightarrow> (\<exists>p \<in> set ps. names_buffer (cqe_flags (snd p)) b \<and> \<not> buffer_kept (cqe_flags (snd p)))"

lemma completions_in: "cqes_ok F cs \<Longrightarrow> p \<in> set (completions cs) \<Longrightarrow> fst p \<in> F"
  by (induction F cs rule: cqes_ok.induct) (auto split: uring_tag.splits if_splits)

lemma consumed_in: "p \<in> set (completions (consumed n cs)) \<Longrightarrow> p \<in> set (completions cs)"
  using consumed_prefix [of cs n] completions_append by (metis Un_iff set_append)

text \<open>What the loop leaves, for the completions \<open>over\<close> it passes over.\<close>

definition loop_outcome :: "nat set \<Rightarrow> uring_cqe list \<Rightarrow> fh_xio_uring \<Rightarrow> fh_xio_uring \<Rightarrow> bool" where
  "loop_outcome F over xio xio' \<longleftrightarrow> uring_ok (in_flight_after F over) xio' \<and>
     (\<forall>a \<in> in_flight_after F over. data_heap xio' a = data_heap xio a) \<and>
     ring xio' = ring xio \<and> buf_ring xio' = buf_ring xio \<and>
     (\<forall>b. held xio' b = held xio b + handed_out (completions over) b \<and>
       used_up xio' b = (used_up xio b \<or> last_use (completions over) b))"

lemma loop_frame:
  "loop_outcome G over xa xb \<Longrightarrow> \<forall>a \<in> G. data_heap xa a = data_heap xio a \<Longrightarrow>
    \<forall>a \<in> in_flight_after G over. data_heap xb a = data_heap xio a"
  using in_flight_after_subset unfolding loop_outcome_def by fastforce

lemma wait_loop_correct:
  assumes "uring_ok F xio" "cqes_ok F cqes" "\<forall>b < XIO_RING_BUF_COUNT. held xio b + length cqes < 2 ^ 31"
  shows "\<exists>xio'. fh_xio_wait_loop mx cqes xio results adv = Inr (results @ wait_results (data_heap xio) (offsets_of xio)
      (completions (consumed (mx - length results) cqes)), adv + length (consumed (mx - length results) cqes), xio') \<and>
    loop_outcome F (consumed (mx - length results) cqes) xio xio'"
  using assms
proof (induction cqes arbitrary: F xio results adv)
  case Nil
  then show ?case by (simp add: loop_outcome_def handed_out_def last_use_def)
next
  case (Cons c cs)
  show ?case
  proof (cases "length results \<ge> mx")
    case True
    then show ?thesis using Cons.prems(1) by (simp add: loop_outcome_def handed_out_def last_use_def)
  next
    case False
    then obtain k where k: "mx - length results = Suc k" by (cases "mx - length results") auto
    then have k1: "mx - Suc (length results) = k" by simp
    have fewer: "\<forall>b < XIO_RING_BUF_COUNT. held xio b + length cs < 2 ^ 31"
    proof (intro allI impI)
      show "held xio b + length cs < 2 ^ 31" if "b < XIO_RING_BUF_COUNT" for b
        using Cons.prems(3) [rule_format, OF that] by simp
    qed
    show ?thesis
    proof (cases "cqe_data c")
      case (Tag_data a)
      let ?G = "if more_to_come c then F else F - {a}"
      have p: "a \<in> F" "bid_ok (cqe_flags c)" "cqes_ok ?G cs" using Cons.prems(2) Tag_data by simp_all
      have few: "\<forall>b < XIO_RING_BUF_COUNT. held xio b + 1 < 2 ^ 31"
      proof (intro allI impI)
        show "held xio b + 1 < 2 ^ 31" if "b < XIO_RING_BUF_COUNT" for b
          using Cons.prems(3) [rule_format, OF that] by simp
      qed
      from complete_correct [OF Cons.prems(1) p(1,2) few] obtain d xa where
        d: "data_heap xio a = Some d" "uring_complete xio a c = Inr (result_of (offsets_of xio) d c, xa)"
          "uring_ok ?G xa" "\<forall>x \<in> ?G. data_heap xa x = data_heap xio x" "ring xa = ring xio" "buf_ring xa = buf_ring xio"
          "offsets_of xa = offsets_after (offsets_of xio) d c" and
        b: "\<forall>b. held xa b = held xio b + flag_count (cqe_flags c) b \<and>
          used_up xa b = (used_up xio b \<or> names_buffer (cqe_flags c) b \<and> \<not> buffer_kept (cqe_flags c))" by blast
      let ?r = "result_of (offsets_of xio) d c"
      have "\<forall>b < XIO_RING_BUF_COUNT. held xa b + length cs < 2 ^ 31"
      proof (intro allI impI)
        show "held xa b + length cs < 2 ^ 31" if "b < XIO_RING_BUF_COUNT" for b
          using Cons.prems(3) [rule_format, OF that] b [rule_format, of b] by (simp add: flag_count_def)
      qed
      from Cons.IH [OF d(3) p(3) this, of "results @ [?r]" "adv + 1"] k1 obtain xio' where
        x: "fh_xio_wait_loop mx cs xa (results @ [?r]) (adv + 1) = Inr (results @ ?r # wait_results (data_heap xa)
            (offsets_of xa) (completions (consumed k cs)), Suc (adv + length (consumed k cs)), xio')"
          "loop_outcome ?G (consumed k cs) xa xio'" by auto
      have "wait_results (data_heap xa) (offsets_of xa) (completions (consumed k cs)) =
          wait_results (data_heap xio) (offsets_of xa) (completions (consumed k cs))"
        using d(4) completions_in [OF p(3)] consumed_in by (intro wait_results_cong) blast
      moreover have "\<forall>y \<in> in_flight_after ?G (consumed k cs). data_heap xio' y = data_heap xio y"
        by (rule loop_frame [OF x(2) d(4)])
      ultimately show ?thesis
        using x d b False Tag_data k
        by (auto simp: loop_outcome_def handed_out_def last_use_def flag_count_def)
    next
      case Tag_null
      then show ?thesis using Cons.IH [OF Cons.prems(1) _ fewer, of results "adv + 1"] Cons.prems(2) False k
        by (auto simp: loop_outcome_def)
    next
      case Tag_xio
      then show ?thesis using Cons.IH [OF Cons.prems(1) _ fewer, of results "adv + 1"] Cons.prems(2) False k
        by (auto simp: loop_outcome_def)
    qed
  qed
qed

end
