(* ===== verification/Uring_Free.thy ===== *)
theory Uring_Free
  imports Uring_Wait
begin

text \<open>
  The wait as a whole, and giving results back: a buffer returns to the kernel with the last of its
  results, once no more completions will name it.
\<close>

section \<open>The wait\<close>

definition wait_ts :: "nat \<Rightarrow> nat \<times> nat" where
  "wait_ts ms = (ms div 1000, (ms mod 1000) * 1000000)"

lemma wait_uring_correct:
  assumes ok: "uring_ok F xio" and c: "cqes_ok F cqes" and few: "\<forall>b < XIO_RING_BUF_COUNT. held xio b + length cqes < 2 ^ 31"
  shows "let n = min k 2048; over = consumed n cqes in
    if rc < 0 \<and> rc \<noteq> - linux_ETIME \<and> \<not> ready then
      fh_xio_wait_uring (rc, ready, cqes) xio k ms =
        Inr (-1, Some (- rc), [], xio\<lparr>ring := ring xio @ [Ring_wait n (wait_ts ms)]\<rparr>)
    else \<exists>xio'. fh_xio_wait_uring (rc, ready, cqes) xio k ms = Inr (int (length (completions over)), None,
        wait_results (data_heap xio) (offsets_of xio) (completions over),
        xio'\<lparr>ring := ring xio @ [Ring_wait n (wait_ts ms), Ring_seen (length over)]\<rparr>) \<and>
      loop_outcome F over xio xio'"
proof -
  let ?n = "min k 2048"
  let ?x = "xio\<lparr>ring := ring xio @ [Ring_wait ?n (wait_ts ms)]\<rparr>"
  have n: "MIN_VALUE k (XIO_RING_ENTRIES * 4) = ?n" by (simp add: MIN_VALUE_def XIO_RING_ENTRIES_def)
  have eq: "held ?x = held xio" "used_up ?x = used_up xio" "offsets_of ?x = offsets_of xio"
    by (simp_all add: held_def used_up_def offsets_of_def fun_eq_iff)
  from wait_loop_correct [of F ?x cqes ?n "[]" 0] ok c few eq obtain xa where
    l: "fh_xio_wait_loop ?n cqes ?x [] 0 = Inr (wait_results (data_heap xio) (offsets_of xio)
        (completions (consumed ?n cqes)), length (consumed ?n cqes), xa)"
      "loop_outcome F (consumed ?n cqes) ?x xa" by auto
  have "loop_outcome F (consumed ?n cqes) xio (xa\<lparr>ring := ring xio\<rparr>)"
    using l(2) eq by (simp add: loop_outcome_def held_def used_up_def)
  moreover have "ring xa = ring ?x" using l(2) by (simp add: loop_outcome_def)
  ultimately show ?thesis using l(1)
    by (auto simp: fh_xio_wait_uring_def n wait_ts_def Let_def intro!: exI [of _ "xa\<lparr>ring := ring xio\<rparr>"])
qed

section \<open>Giving one result back\<close>

definition returns_buffer :: "fh_xio_uring \<Rightarrow> u32 \<Rightarrow> bool" where
  "returns_buffer xio flags \<longleftrightarrow> cqe_has_buffer flags \<and> held xio (cqe_bid flags) = 1 \<and> used_up xio (cqe_bid flags)"

definition buf_add :: "fh_xio_uring \<Rightarrow> nat \<Rightarrow> nat \<Rightarrow> buf_call" where
  "buf_add xio i b = Buf_add (XIO_RING_BUF_SIZE * b) XIO_RING_BUF_SIZE b (buf_mask xio) i"

text \<open>What giving back leaves alone.\<close>

definition same_but_bufs :: "fh_xio_uring \<Rightarrow> fh_xio_uring \<Rightarrow> bool" where
  "same_but_bufs xio xio' \<longleftrightarrow>
     (\<exists>rs os calls. xio' = xio\<lparr>buf_refcount := rs, buf_offsets := os, buf_ring := calls\<rparr>)"

lemma same_but_bufsI:
  "ring xio' = ring xio \<Longrightarrow> has_buf_ring xio' = has_buf_ring xio \<Longrightarrow> ring_kmem_size xio' = ring_kmem_size xio \<Longrightarrow>
    has_buf xio' = has_buf xio \<Longrightarrow> buf_mask xio' = buf_mask xio \<Longrightarrow> data_head xio' = data_head xio \<Longrightarrow>
    data_tail xio' = data_tail xio \<Longrightarrow> data_count xio' = data_count xio \<Longrightarrow> data_heap xio' = data_heap xio \<Longrightarrow>
    same_but_bufs xio xio'"
  unfolding same_but_bufs_def
  by (intro exI [of _ "buf_refcount xio'"] exI [of _ "buf_offsets xio'"] exI [of _ "buf_ring xio'"])
    (cases xio; cases xio'; simp)

lemma same_but_bufsD:
  assumes "same_but_bufs xio xio'"
  shows "ring xio' = ring xio" "has_buf_ring xio' = has_buf_ring xio" "ring_kmem_size xio' = ring_kmem_size xio"
    "has_buf xio' = has_buf xio" "buf_mask xio' = buf_mask xio" "data_head xio' = data_head xio"
    "data_tail xio' = data_tail xio" "data_count xio' = data_count xio" "data_heap xio' = data_heap xio"
  using assms by (auto simp: same_but_bufs_def)

lemma same_but_bufs_trans: "same_but_bufs x y \<Longrightarrow> same_but_bufs y z \<Longrightarrow> same_but_bufs x z"
  by (rule same_but_bufsI) (simp_all add: same_but_bufsD)

lemma uring_ok_bufs: "uring_ok F xio \<Longrightarrow> same_but_bufs xio xio' \<Longrightarrow> bufs_ok xio' \<Longrightarrow> uring_ok F xio'"
  using same_but_bufsD [of xio xio'] by (simp add: uring_ok_def owned_def data_list_def)

definition free_outcome :: "fh_xio_uring \<Rightarrow> u32 \<Rightarrow> nat \<Rightarrow> fh_xio_uring \<Rightarrow> bool" where
  "free_outcome xio flags i xio' \<longleftrightarrow> bufs_ok xio' \<and> same_but_bufs xio xio' \<and>
     buf_ring xio' = buf_ring xio @ (if returns_buffer xio flags then [buf_add xio i (cqe_bid flags)] else []) \<and>
     (\<forall>b. held xio' b = held xio b - flag_count flags b \<and>
       used_up xio' b = (used_up xio b \<and> \<not> (returns_buffer xio flags \<and> b = cqe_bid flags)) \<and>
       offsets_of xio' b = (if returns_buffer xio flags \<and> b = cqe_bid flags then 0 else offsets_of xio b))"

text \<open>The count of a buffer, lowered by one.\<close>

lemma refcount_minus_1:
  assumes pos: "0 < held xio b"
  shows "unat (buf_refcount xio ! b - 1) = held xio b - 1 + (if used_up xio b then 2 ^ 31 else 0)"
    "buf_refcount xio ! b - 1 = XIO_RING_BUF_FLAG_DONE \<longleftrightarrow> held xio b = 1 \<and> used_up xio b"
    "buf_refcount xio ! b AND NOT XIO_RING_BUF_FLAG_DONE > 0"
proof -
  let ?r = "buf_refcount xio ! b"
  have split: "unat ?r = held xio b + (if used_up xio b then 2 ^ 31 else 0)" by (rule refcount_split)
  have dec: "unat (?r - 1) = unat ?r - 1" using pos split by (intro unat_minus_one) auto
  then show "unat (?r - 1) = held xio b - 1 + (if used_up xio b then 2 ^ 31 else 0)" using split pos by simp
  show "?r - 1 = XIO_RING_BUF_FLAG_DONE \<longleftrightarrow> held xio b = 1 \<and> used_up xio b"
    using dec pos split held_bound [of xio b]
    by (auto simp: word_unat_eq_iff XIO_RING_BUF_FLAG_DONE_def split: if_splits)
  show "?r AND NOT XIO_RING_BUF_FLAG_DONE > 0" using pos unfolding held_def by (simp add: word_less_nat_alt)
qed

lemma free_internal_returns:
  assumes ok: "bufs_ok xio" and b: "bid_ok flags" and some: "cqe_has_buffer flags"
    and last: "held xio (cqe_bid flags) = 1" "used_up xio (cqe_bid flags)"
  shows "\<exists>xio'. fh_xio_result_free_internal xio flags i = Inr (True, xio') \<and> free_outcome xio flags i xio'"
proof -
  let ?b = "cqe_bid flags"
  let ?r = "buf_refcount xio ! ?b"
  have len: "?b < length (buf_refcount xio)" "?b < length (buf_offsets xio)"
    using ok b some by (simp_all add: bufs_ok_def bid_ok_def)
  have "0 < held xio ?b" using last(1) by simp
  note ref = refcount_minus_1 [OF this]
  let ?x = "xio\<lparr>buf_refcount := (buf_refcount xio)[?b := ?r - 1, ?b := 0], buf_offsets := (buf_offsets xio)[?b := 0],
      buf_ring := buf_ring xio @ [buf_add xio i ?b]\<rparr>"
  have run: "fh_xio_result_free_internal xio flags i = Inr (True, ?x)"
    using some len ref(2,3) last
    by (simp add: fh_xio_result_free_internal_def Let_def aget_def aset_def assert_that_def buf_add_def
        fh_xio_ring_get_buffer_def)
  have ob: "unat (buf_offsets ?x ! b) = (if b = ?b then 0 else unat (buf_offsets xio ! b))" for b
    using len by (cases "b = ?b") simp_all
  have rb: "buf_refcount ?x ! b = (if b = ?b then 0 else buf_refcount xio ! b)" for b
    using len by (cases "b = ?b") simp_all
  have hb: "held ?x b = held xio b - flag_count flags b" "used_up ?x b = (used_up xio b \<and> b \<noteq> ?b)" for b
    using last some unfolding held_mod used_up_iff rb by (auto simp: flag_count_def names_buffer_def held_mod)
  have "bufs_ok ?x" using ok ob len by (simp add: bufs_ok_def)
  moreover have "same_but_bufs xio ?x" by (rule same_but_bufsI) simp_all
  ultimately have "free_outcome xio flags i ?x" unfolding free_outcome_def
    using last some hb ob by (simp add: returns_buffer_def offsets_of_def)
  then show ?thesis using run by blast
qed

lemma free_internal_keeps:
  assumes ok: "bufs_ok xio" and b: "bid_ok flags" and some: "cqe_has_buffer flags" "0 < held xio (cqe_bid flags)"
    and kept: "\<not> (held xio (cqe_bid flags) = 1 \<and> used_up xio (cqe_bid flags))"
  shows "\<exists>xio'. fh_xio_result_free_internal xio flags i = Inr (False, xio') \<and> free_outcome xio flags i xio'"
proof -
  let ?b = "cqe_bid flags"
  have len: "?b < length (buf_refcount xio)" using ok b some(1) by (simp add: bufs_ok_def bid_ok_def)
  note ref = refcount_minus_1 [OF some(2)]
  let ?x = "xio\<lparr>buf_refcount := (buf_refcount xio)[?b := buf_refcount xio ! ?b - 1]\<rparr>"
  have run: "fh_xio_result_free_internal xio flags i = Inr (False, ?x)"
    using some(1) len ref(2,3) kept
    by (simp add: fh_xio_result_free_internal_def Let_def aget_def aset_def assert_that_def)
  have "unat (buf_refcount ?x ! ?b) = held xio ?b - 1 + (if used_up xio ?b then 2 ^ 31 else 0)" using len ref(1) by simp
  then have hb: "held ?x ?b = held xio ?b - 1" "used_up ?x ?b = used_up xio ?b"
    unfolding held_mod [of ?x] used_up_iff [of ?x] using held_bound [of xio ?b] by (auto simp: mod_if)
  have ho: "held ?x b = held xio b" "used_up ?x b = used_up xio b" if "b \<noteq> ?b" for b
    using that by (simp_all add: held_def used_up_def)
  have held: "held ?x b = held xio b - flag_count flags b" for b
    using hb(1) ho(1) [of b] some(1) by (cases "b = ?b") (auto simp: flag_count_def names_buffer_def)
  have used: "used_up ?x b = used_up xio b" for b
    using hb(2) ho(2) [of b] by (cases "b = ?b") auto
  have not: "\<not> returns_buffer xio flags" using kept by (auto simp: returns_buffer_def)
  have "bufs_ok ?x" using ok by (simp add: bufs_ok_def)
  moreover have "same_but_bufs xio ?x" by (rule same_but_bufsI) simp_all
  ultimately have "free_outcome xio flags i ?x" unfolding free_outcome_def
    using not held used by (simp add: offsets_of_def)
  then show ?thesis using run by blast
qed

lemma free_internal_correct:
  assumes ok: "bufs_ok xio" and b: "bid_ok flags" and some: "cqe_has_buffer flags \<longrightarrow> 0 < held xio (cqe_bid flags)"
  shows "\<exists>xio'. fh_xio_result_free_internal xio flags i = Inr (returns_buffer xio flags, xio') \<and>
    free_outcome xio flags i xio'"
proof (cases "cqe_has_buffer flags")
  case False
  then show ?thesis using ok same_but_bufsI [of xio xio]
    by (simp add: fh_xio_result_free_internal_def returns_buffer_def free_outcome_def flag_count_def names_buffer_def)
next
  case True
  then show ?thesis
    using free_internal_returns [OF ok b True] free_internal_keeps [OF ok b True] some
    by (cases "held xio (cqe_bid flags) = 1 \<and> used_up xio (cqe_bid flags)") (auto simp: returns_buffer_def)
qed

section \<open>Giving results back\<close>

definition named :: "fh_xio_result list \<Rightarrow> nat \<Rightarrow> nat" where
  "named rs b = length (filter (\<lambda>r. names_buffer (res_flags r) b) rs)"

lemma named_simps [simp]:
  "named [] b = 0" "named (r # rs) b = flag_count (res_flags r) b + named rs b"
  by (simp_all add: named_def flag_count_def)

text \<open>The results of one wait name the buffers its completions handed out.\<close>

lemma named_wait_results: "named (wait_results h off ps) b = handed_out ps b"
  by (induction h off ps rule: wait_results.induct) (auto simp: handed_out_def result_of_def flag_count_def)

definition returned_by :: "fh_xio_uring \<Rightarrow> fh_xio_result list \<Rightarrow> nat set" where
  "returned_by xio rs = {b. used_up xio b \<and> named rs b = held xio b \<and> 0 < named rs b}"

definition results_outcome :: "fh_xio_uring \<Rightarrow> fh_xio_result list \<Rightarrow> nat list \<Rightarrow> fh_xio_uring \<Rightarrow> bool" where
  "results_outcome xio rs bs xio' \<longleftrightarrow> bufs_ok xio' \<and> distinct bs \<and> set bs = returned_by xio rs \<and>
     (\<forall>b. held xio' b = held xio b - named rs b \<and> used_up xio' b = (used_up xio b \<and> b \<notin> set bs) \<and>
       offsets_of xio' b = (if b \<in> set bs then 0 else offsets_of xio b))"

lemma results_outcome_ring [simp]:
  "results_outcome xio rs bs (xio'\<lparr>buf_ring := calls\<rparr>) = results_outcome xio rs bs xio'"
  by (simp add: results_outcome_def bufs_ok_def held_def used_up_def offsets_of_def)

text \<open>The buffers that the rest of the results return after the first of them was given back.\<close>

lemma returned_by_Cons:
  assumes out: "free_outcome xio (res_flags r) n xa" and bs: "set bs = returned_by xa rs" "distinct bs"
    and few: "\<forall>b. named (r # rs) b \<le> held xio b"
  defines "bs' \<equiv> if returns_buffer xio (res_flags r) then cqe_bid (res_flags r) # bs else bs"
  shows "set bs' = returned_by xio (r # rs)" "distinct bs'"
proof -
  let ?f = "res_flags r"
  have ha: "held xa b = held xio b - flag_count ?f b" for b using out by (simp add: free_outcome_def)
  have ua: "used_up xa b = (used_up xio b \<and> \<not> (returns_buffer xio ?f \<and> b = cqe_bid ?f))" for b
    using out by (simp add: free_outcome_def)
  have mem: "b \<in> set bs \<longleftrightarrow> used_up xa b \<and> named rs b = held xa b \<and> 0 < named rs b" for b
    using bs(1) by (auto simp: returned_by_def)
  show "distinct bs'" using bs(2) mem ua by (simp add: bs'_def)
  have "b \<in> set bs' \<longleftrightarrow> b \<in> returned_by xio (r # rs)" for b
  proof (cases "names_buffer ?f b")
    case True
    moreover have "named rs b \<le> held xa b" using few [rule_format, of b] unfolding ha by simp
    ultimately show ?thesis using few [rule_format, of b]
      unfolding returned_by_def bs'_def by (auto simp: mem ua ha flag_count_def names_buffer_def returns_buffer_def)
  next
    case False
    then show ?thesis unfolding returned_by_def bs'_def
      by (auto simp: mem ua ha flag_count_def names_buffer_def returns_buffer_def)
  qed
  then show "set bs' = returned_by xio (r # rs)" by blast
qed

lemma results_loop_correct:
  assumes "bufs_ok xio" "\<forall>r \<in> set rs. bid_ok (res_flags r)" "\<forall>b. named rs b \<le> held xio b"
  shows "\<exists>bs xio'. fh_xio_results_free_loop xio rs n = Inr (n + length bs, xio') \<and> results_outcome xio rs bs xio' \<and>
    same_but_bufs xio xio' \<and> buf_ring xio' = buf_ring xio @ map (\<lambda>(i, b). buf_add xio i b) (enumerate n bs)"
  using assms
proof (induction rs arbitrary: xio n)
  case Nil
  then show ?case using same_but_bufsI [of xio xio]
    by (intro exI [of _ "[]"] exI [of _ xio]) (simp add: results_outcome_def returned_by_def)
next
  case (Cons r rs)
  let ?f = "res_flags r"
  let ?b = "cqe_bid ?f" and ?n = "if returns_buffer xio ?f then n + 1 else n"
  have "named (r # rs) ?b \<le> held xio ?b" using Cons.prems(3) by blast
  then have some: "cqe_has_buffer ?f \<longrightarrow> 0 < held xio ?b" by (auto simp: flag_count_def names_buffer_def)
  from free_internal_correct [OF Cons.prems(1) _ some, of n] Cons.prems(2) obtain xa where
    a: "fh_xio_result_free_internal xio ?f n = Inr (returns_buffer xio ?f, xa)" "free_outcome xio ?f n xa" by auto
  have le: "named rs b \<le> held xa b" for b
    using Cons.prems(3) [rule_format, of b] a(2) by (simp add: free_outcome_def)
  have "bufs_ok xa" using a(2) by (simp add: free_outcome_def)
  from Cons.IH [OF this _ allI [OF le], of ?n] Cons.prems(2) obtain bs xb where
    i: "fh_xio_results_free_loop xa rs ?n = Inr (?n + length bs, xb)" "results_outcome xa rs bs xb" "same_but_bufs xa xb"
      "buf_ring xb = buf_ring xa @ map (\<lambda>(i, b). buf_add xa i b) (enumerate ?n bs)" by auto
  let ?bs = "if returns_buffer xio ?f then ?b # bs else bs"
  have same: "same_but_bufs xio xb" using a(2) i(3) by (auto simp: free_outcome_def intro: same_but_bufs_trans)
  have "set bs = returned_by xa rs" "distinct bs" using i(2) by (simp_all add: results_outcome_def)
  note ret = returned_by_Cons [OF a(2) this Cons.prems(3)]
  have "held xb b = held xio b - named (r # rs) b \<and> used_up xb b = (used_up xio b \<and> b \<notin> set ?bs) \<and>
      offsets_of xb b = (if b \<in> set ?bs then 0 else offsets_of xio b)" for b
    using i(2) [unfolded results_outcome_def, THEN conjunct2, THEN conjunct2, THEN conjunct2, rule_format, of b]
      a(2) [unfolded free_outcome_def, THEN conjunct2, THEN conjunct2, THEN conjunct2, rule_format, of b]
    by auto
  then have "results_outcome xio (r # rs) ?bs xb"
    using i(2) ret unfolding results_outcome_def by blast
  moreover have "buf_add xa = buf_add xio"
    using a(2) by (auto simp: free_outcome_def buf_add_def fun_eq_iff dest: same_but_bufsD)
  then have "buf_ring xb = buf_ring xio @ map (\<lambda>(i, b). buf_add xio i b) (enumerate n ?bs)"
    using i(4) a(2) by (auto simp: free_outcome_def)
  ultimately show ?case using a(1) i(1) same
    by (intro exI [of _ ?bs] exI [of _ xb]) simp
qed

lemma results_free_correct:
  assumes "bufs_ok xio" "\<forall>r \<in> set rs. bid_ok (res_flags r)" "\<forall>b. named rs b \<le> held xio b"
  shows "\<exists>bs xio'. fh_xio_results_free xio rs = Inr xio' \<and> results_outcome xio rs bs xio' \<and> same_but_bufs xio xio' \<and>
    buf_ring xio' = buf_ring xio @ map (\<lambda>(i, b). buf_add xio i b) (enumerate 0 bs) @ [Buf_advance (length bs)]"
proof -
  obtain bs xa where l: "fh_xio_results_free_loop xio rs 0 = Inr (length bs, xa)" "results_outcome xio rs bs xa"
    "same_but_bufs xio xa" "buf_ring xa = buf_ring xio @ map (\<lambda>(i, b). buf_add xio i b) (enumerate 0 bs)"
    using results_loop_correct [OF assms, of 0] by auto
  let ?x = "xa\<lparr>buf_ring := buf_ring xa @ [Buf_advance (length bs)]\<rparr>"
  have "results_outcome xio rs bs ?x"
    using l(2) by simp
  moreover have "same_but_bufs xio ?x" by (rule same_but_bufs_trans [OF l(3)], rule same_but_bufsI) simp_all
  ultimately show ?thesis using l by (simp add: fh_xio_results_free_def) blast
qed

end
