(* ===== verification/Uring_Drain.thy ===== *)
theory Uring_Drain
  imports Uring_Free
begin

text \<open>
  Creating and freeing an instance. Draining cancels what is in flight and waits for a last request
  that the kernel completes after all others; then nothing is in flight, and freeing the list of
  unused blocks leaves no block in use.
\<close>

section \<open>Creation\<close>

definition uring_new :: "fh_xio_uring \<Rightarrow> bool" where
  "uring_new xio \<longleftrightarrow> uring_ok {} xio \<and> (\<forall>b < XIO_RING_BUF_COUNT. held xio b = 0 \<and> \<not> used_up xio b \<and> offsets_of xio b = 0) \<and>
     data_heap xio = (\<lambda>_. None) \<and> ring xio = [] \<and>
     buf_ring xio = map (\<lambda>b. buf_add xio b b) [0 ..< XIO_RING_BUF_COUNT] @ [Buf_advance XIO_RING_BUF_COUNT]"

lemma uring_zero_ok: "uring_ok {} uring_zero"
proof -
  have "data_list uring_zero []" by (simp add: data_list_def uring_zero_def)
  then have "owned {} uring_zero" by (rule ownedI) (simp_all add: uring_zero_def)
  then show ?thesis by (simp add: uring_ok_def bufs_ok_def uring_zero_def)
qed

lemma uring_ok_setup [simp]:
  "uring_ok F (xio\<lparr>ring_kmem_size := k\<rparr>) = uring_ok F xio" "uring_ok F (xio\<lparr>buf_mask := n\<rparr>) = uring_ok F xio"
  "uring_ok F (xio\<lparr>has_buf_ring := c\<rparr>) = uring_ok F xio" "uring_ok F (xio\<lparr>has_buf := c\<rparr>) = uring_ok F xio"
  by (simp_all add: uring_ok_def owned_def data_list_def bufs_ok_def)

lemma uring_created_new:
  assumes "fh_xio_create_uring env = Inr (Some (Uring_created xio))"
  shows "uring_new xio"
proof -
  have failed: "uring_create_failed env x e \<noteq> Inr (Some (Uring_created xio))" for x e
    by (auto simp: uring_create_failed_def and_then_def split: sum.splits option.splits)
  obtain k n where x: "xio = uring_zero\<lparr>ring_kmem_size := k, buf_mask := n, has_buf_ring := True, has_buf := True,
      buf_ring := map (\<lambda>i. Buf_add (i * XIO_RING_BUF_SIZE) XIO_RING_BUF_SIZE i n i) [0 ..< XIO_RING_BUF_COUNT] @
        [Buf_advance XIO_RING_BUF_COUNT]\<rparr>"
    using assms failed by (auto simp: fh_xio_create_uring_def Let_def split: if_splits prod.splits)
  show ?thesis unfolding uring_new_def x
    by (auto simp: uring_zero_ok buf_add_def mult.commute) (simp_all add: held_def used_up_def offsets_of_def uring_zero_def)
qed

text \<open>When every call succeeds an instance is returned.\<close>

definition env_works :: "uring_env \<Rightarrow> bool" where
  "env_works env \<longleftrightarrow> env_calloc_ok env \<and> (\<forall>flags. env_init_params env flags = 0) \<and> fst (env_setup_buf_ring env) \<and>
     env_memalign env = 0"

lemma create_works: "env_works env \<Longrightarrow> \<exists>xio. fh_xio_create_uring env = Inr (Some (Uring_created xio))"
  by (auto simp: env_works_def fh_xio_create_uring_def Let_def split: prod.splits)

section \<open>Draining\<close>

definition drained_by :: "uring_cqe list \<Rightarrow> bool" where
  "drained_by cs \<longleftrightarrow> (\<exists>c \<in> set cs. cqe_data c = Tag_xio)"

lemma drain_cqes_correct:
  assumes "cqes_ok F cs" "F \<subseteq> dom h"
  shows "\<exists>h'. uring_drain_cqes cs over h = Inr (over \<or> drained_by cs, h') \<and> (\<forall>a. a \<notin> F - in_flight_after F cs \<longrightarrow> h' a = h a) \<and>
    (\<forall>a \<in> F - in_flight_after F cs. h' a = None)"
  using assms
proof (induction cs arbitrary: F over h)
  case (Cons c cs)
  show ?case
  proof (cases "cqe_data c")
    case (Tag_data a)
    then have a: "a \<in> F" using Cons.prems by simp
    show ?thesis
    proof (cases "more_to_come c")
      case True
      then show ?thesis using Cons.IH [of F h over] Cons.prems Tag_data
        by (auto simp: drained_by_def more_to_come_def)
    next
      case False
      let ?h = "h(a := None)"
      have "F - {a} \<subseteq> dom ?h" using Cons.prems(2) by auto
      moreover have pre: "cqes_ok (F - {a}) cs" using Cons.prems(1) Tag_data False by simp
      ultimately obtain h' where
        i: "uring_drain_cqes cs over ?h = Inr (over \<or> drained_by cs, h')"
          "\<forall>x. x \<notin> F - {a} - in_flight_after (F - {a}) cs \<longrightarrow> h' x = ?h x"
          "\<forall>x \<in> F - {a} - in_flight_after (F - {a}) cs. h' x = None"
        using Cons.IH [of "F - {a}" ?h over] by blast
      have "heap_free h a = Inr ?h" using a Cons.prems(2) by (auto simp: heap_free_def heap_get_def dom_def)
      then have "uring_drain_cqes (c # cs) over h = Inr (over \<or> drained_by (c # cs), h')"
        using i(1) Tag_data False by (simp add: drained_by_def more_to_come_def)
      moreover have "in_flight_after F (c # cs) = in_flight_after (F - {a}) cs" using Tag_data False by simp
      moreover have "a \<notin> in_flight_after (F - {a}) cs" using in_flight_after_subset by blast
      moreover have "h' a = None" using i(2) by auto
      ultimately show ?thesis using i(2,3) a by (intro exI [of _ h']) auto
    qed
  next
    case Tag_null
    then show ?thesis using Cons by (auto simp: drained_by_def)
  next
    case Tag_xio
    then show ?thesis using Cons.IH [of F h True] Cons.prems by (auto simp: drained_by_def)
  qed
qed (simp add: drained_by_def)

text \<open>
  What \<open>io_uring\<close> promises of the rounds: the completions are of requests in flight, and the last
  request, submitted with \<open>IOSQE_IO_DRAIN\<close>, completes after all others.
\<close>

fun rounds_ok :: "nat set \<Rightarrow> (int \<times> uring_cqe list) list \<Rightarrow> bool" where
  "rounds_ok F [] \<longleftrightarrow> True"
| "rounds_ok F ((rc, cs) # rounds) \<longleftrightarrow>
     (if rc < 0 then rounds_ok F rounds
      else cqes_ok F cs \<and> (drained_by cs \<longrightarrow> in_flight_after F cs = {}) \<and> rounds_ok (in_flight_after F cs) rounds)"

definition round_ends :: "int \<times> uring_cqe list \<Rightarrow> bool" where
  "round_ends r \<longleftrightarrow> (if fst r < 0 then fst r \<noteq> - linux_EINTR else drained_by (snd r))"

definition drain_outcome :: "nat set \<Rightarrow> fh_xio_uring \<Rightarrow> bool \<Rightarrow> fh_xio_uring \<Rightarrow> bool" where
  "drain_outcome F xio over xio' \<longleftrightarrow> (\<exists>G \<subseteq> F. owned G xio' \<and> (over \<longrightarrow> G = {})) \<and> data_count xio' = data_count xio \<and>
     has_buf xio' = has_buf xio"

text \<open>The completions of one round: the blocks they finish are freed, the list of unused ones stays.\<close>

lemma drain_round:
  assumes own: "owned F xio" and ok: "cqes_ok F cs"
  obtains h where "uring_drain_cqes cs False (data_heap xio) = Inr (drained_by cs, h)"
    "owned (in_flight_after F cs) (xio\<lparr>data_heap := h\<rparr>)"
proof -
  obtain xs where l: "data_list xio xs" "dom (data_heap xio) = set xs \<union> F" "set xs \<inter> F = {}"
    using own by (auto simp: owned_def)
  let ?G = "in_flight_after F cs"
  have GF: "?G \<subseteq> F" by (rule in_flight_after_subset)
  from drain_cqes_correct [OF ok, of "data_heap xio" False] l(2) obtain h where
    h: "uring_drain_cqes cs False (data_heap xio) = Inr (drained_by cs, h)"
      "\<forall>a. a \<notin> F - ?G \<longrightarrow> h a = data_heap xio a" "\<forall>a \<in> F - ?G. h a = None" by auto
  let ?y = "xio\<lparr>data_heap := h\<rparr>"
  have "linked h None xs None = linked (data_heap xio) None xs None"
    using h(2) l(3) by (intro linked_cong) auto
  then have "data_list ?y xs" using l(1) by (simp add: data_list_def)
  moreover have "dom (data_heap ?y) = set xs \<union> ?G"
  proof (intro set_eqI)
    fix a
    show "a \<in> dom (data_heap ?y) \<longleftrightarrow> a \<in> set xs \<union> ?G"
      using h(2,3) l(2,3) GF by (cases "a \<in> F - ?G") (auto simp: dom_def)
  qed
  moreover have "set xs \<inter> ?G = {}" using l(3) GF by blast
  ultimately have "owned ?G ?y" by (rule ownedI)
  then show thesis using that h(1) by blast
qed

lemma drain_loop_correct:
  assumes "owned F xio" "rounds_ok F rounds" "\<exists>r \<in> set rounds. round_ends r"
  shows "\<exists>over xio'. uring_drain_loop rounds xio = Inr (Some (over, xio')) \<and> drain_outcome F xio over xio'"
  using assms
proof (induction rounds arbitrary: F xio)
  case (Cons r rounds)
  obtain rc cs where r: "r = (rc, cs)" by (cases r)
  let ?x = "xio\<lparr>ring := ring xio @ [Ring_wait 1 (1, 0)]\<rparr>"
  show ?case
  proof (cases "rc < 0")
    case True
    show ?thesis
    proof (cases "rc = - linux_EINTR")
      case intr: True
      then have "\<exists>r \<in> set rounds. round_ends r" using Cons.prems(3) r True by (auto simp: round_ends_def)
      moreover have "owned F ?x" using Cons.prems(1) by simp
      ultimately obtain over xb where "uring_drain_loop rounds ?x = Inr (Some (over, xb))" "drain_outcome F ?x over xb"
        using Cons.IH [of F ?x] Cons.prems(2) r True by auto
      then show ?thesis using r True intr by (auto simp: drain_outcome_def)
    next
      case False
      have "drain_outcome F xio False ?x" using Cons.prems(1) by (auto simp: drain_outcome_def)
      then show ?thesis using r True False by (intro exI [of _ False] exI [of _ ?x]) simp
    qed
  next
    case False
    let ?G = "in_flight_after F cs"
    have ok: "cqes_ok F cs" "drained_by cs \<longrightarrow> ?G = {}" "rounds_ok ?G rounds" using Cons.prems(2) r False by simp_all
    obtain h where h: "uring_drain_cqes cs False (data_heap xio) = Inr (drained_by cs, h)"
      "owned ?G (xio\<lparr>data_heap := h\<rparr>)" by (rule drain_round [OF Cons.prems(1) ok(1)])
    let ?y = "?x\<lparr>data_heap := h, ring := ring ?x @ [Ring_seen (length cs)]\<rparr>"
    have y: "owned ?G ?y" using h(2) by (simp add: owned_def data_list_def)
    show ?thesis
    proof (cases "drained_by cs")
      case True
      have "drain_outcome F xio True ?y" using y ok(2) True unfolding drain_outcome_def by auto
      then show ?thesis using r False h(1) True by (auto simp: Let_def)
    next
      case more: False
      then have "\<exists>r \<in> set rounds. round_ends r" using Cons.prems(3) r False by (auto simp: round_ends_def)
      from Cons.IH [OF y ok(3) this] obtain over xb where
        "uring_drain_loop rounds ?y = Inr (Some (over, xb))" "drain_outcome ?G ?y over xb" by blast
      moreover then have "drain_outcome F xio over xb"
        using in_flight_after_subset [of F cs] by (auto simp: drain_outcome_def)
      ultimately show ?thesis using r False h(1) more by (auto simp: Let_def)
    qed
  qed
qed simp

lemma drain_correct:
  assumes own: "owned F xio" and rounds: "rounds_ok F rounds" "\<exists>r \<in> set rounds. round_ends r"
  shows "\<exists>over xio'. fh_xio_drain sq1 sq2 rounds xio = Inr (Some (over, xio')) \<and> drain_outcome F xio over xio'"
proof -
  have same: "drain_outcome F xio False (xio\<lparr>ring := calls\<rparr>)" for calls
    using own by (auto simp: drain_outcome_def)
  have "\<exists>over xio'. uring_drain_loop rounds (xio\<lparr>ring := calls\<rparr>) = Inr (Some (over, xio')) \<and>
      drain_outcome F xio over xio'" for calls
    using drain_loop_correct [of F "xio\<lparr>ring := calls\<rparr>", OF _ rounds] own by (auto simp: drain_outcome_def)
  then show ?thesis using same by (auto simp: fh_xio_drain_def get_sqe Let_def)
qed

section \<open>Freeing\<close>

lemma free_list_correct:
  assumes "linked h p xs None" "distinct xs" "length xs \<le> fuel"
  shows "uring_free_list fuel h (first_of xs) freed = Inr (Some (freed @ xs, \<lambda>a. if a \<in> set xs then None else h a))"
  using assms
proof (induction xs arbitrary: h p fuel freed)
  case Nil
  then show ?case by (cases fuel) simp_all
next
  case (Cons x xs)
  obtain k where k: "fuel = Suc k" using Cons.prems(3) by (cases fuel) auto
  have "(case xs of [] \<Rightarrow> None | y # _ \<Rightarrow> Some y) = first_of xs" by (cases xs) simp_all
  then obtain d where d: "h x = Some d" "linked h (Some x) xs None" "dt_next d = first_of xs"
    using Cons.prems(1) unfolding linked.simps by metis
  have "linked (h(x := None)) (Some x) xs None" "distinct xs" "length xs \<le> k"
    using d(2) Cons.prems(2,3) k by simp_all
  from Cons.IH [OF this, of "freed @ [x]"]
  have "uring_free_list k (h(x := None)) (first_of xs) (freed @ [x]) =
      Inr (Some (freed @ x # xs, \<lambda>a. if a \<in> set (x # xs) then None else h a))"
    by (rule trans) (simp add: fun_eq_iff)
  then show ?case unfolding k first_final_simps(3) uring_free_list.simps heap_free_def heap_get_def
    by (simp only: d option.case and_then_simps)
qed

lemma free_uring_correct:
  assumes own: "owned F xio" and rounds: "rounds_ok F (drain_rounds a)" "\<exists>r \<in> set (drain_rounds a). round_ends r"
    and fuel: "data_count xio \<le> fuel"
  shows "\<exists>over xd rel h. fh_xio_drain (drain_sq1 a) (drain_sq2 a) (drain_rounds a) xio = Inr (Some (over, xd)) \<and>
    fh_xio_free_uring a fuel xio = Inr (Some (rel, h)) \<and> dom h \<subseteq> F \<and> (over \<longrightarrow> h = (\<lambda>_. None)) \<and>
    (\<exists>freed. Data_freed freed \<in> set rel \<and> distinct freed \<and> length freed = data_count xio) \<and>
    (Buf_freed \<in> set rel \<longleftrightarrow> has_buf xio)"
proof -
  from drain_correct [OF own rounds] obtain over xd where
    d: "fh_xio_drain (drain_sq1 a) (drain_sq2 a) (drain_rounds a) xio = Inr (Some (over, xd))"
      "drain_outcome F xio over xd" by blast
  then obtain G where G: "G \<subseteq> F" "owned G xd" "over \<longrightarrow> G = {}" and cnt: "data_count xd = data_count xio" "has_buf xd = has_buf xio"
    by (auto simp: drain_outcome_def)
  then obtain xs where l: "linked (data_heap xd) None xs None" "data_head xd = first_of xs" "distinct xs"
    "dom (data_heap xd) = set xs \<union> G" "set xs \<inter> G = {}" "length xs = data_count xio"
    by (auto simp: owned_def data_list_def)
  let ?h = "\<lambda>a. if a \<in> set xs then None else data_heap xd a"
  have "uring_free_list fuel (data_heap xd) (data_head xd) [] = Inr (Some (xs, ?h))"
    using free_list_correct [OF l(1,3), of fuel "[]"] l(2,6) fuel by simp
  then have f: "\<exists>rel. fh_xio_free_uring a fuel xio = Inr (Some (rel, ?h)) \<and> Data_freed xs \<in> set rel \<and>
      (Buf_freed \<in> set rel \<longleftrightarrow> has_buf xio)"
    using d(1) cnt(2) by (auto simp: fh_xio_free_uring_def split: option.splits)
  have "dom ?h = G" using l(4,5) by (auto simp: dom_def split: if_splits)
  moreover have "over \<longrightarrow> ?h = (\<lambda>_. None)"
  proof
    assume over
    then have "dom ?h = {}" using G(3) \<open>dom ?h = G\<close> by simp
    then show "?h = (\<lambda>_. None)" by (rule dom_eq_empty_conv [THEN iffD1])
  qed
  ultimately have "dom ?h \<subseteq> F" "over \<longrightarrow> ?h = (\<lambda>_. None)" using G(1) by simp_all
  with d(1) f l(3,6) show ?thesis by blast
qed

end
