(* ===== verification/Uring_Reach.thy ===== *)
theory Uring_Reach
  imports Uring_Drain Xio_Service
begin

text \<open>
  Every interleaving of a client with the kernel: requests, submissions, waits with the completions
  \<open>io_uring\<close> may deliver, and results given back in any order and number. The state is the instance
  with two ghosts, the blocks in flight and the results the client holds.
\<close>

section \<open>The steps\<close>

datatype uring_req =
    Req_read fd "nat option" nat u64
  | Req_write fd "nat option" nat u64
  | Req_recv fd "nat option" nat int
  | Req_send fd "nat option" nat int
  | Req_accept fd "nat option" "nat option" int

primrec do_request ::
  "xio_malloc \<Rightarrow> sqe_answers \<Rightarrow> fh_xio_uring \<Rightarrow> nat \<Rightarrow> uring_req \<Rightarrow> (int \<times> fh_xio_uring) checked"
where
  "do_request m sq xio u (Req_read fd buf n off) = fh_xio_request_read m sq xio u fd buf n off"
| "do_request m sq xio u (Req_write fd buf n off) = fh_xio_request_write m sq xio u fd buf n off"
| "do_request m sq xio u (Req_recv fd buf n flags) = fh_xio_request_recv_uring m sq xio u fd buf n flags"
| "do_request m sq xio u (Req_send fd buf n flags) = fh_xio_request_send m sq xio u fd buf n flags"
| "do_request m sq xio u (Req_accept fd addr len flags) = fh_xio_request_accept m sq xio u fd addr len flags"

text \<open>What a request asks of the ring, and what its block holds.\<close>

primrec req_prep :: "uring_req \<Rightarrow> uring_prep" where
  "req_prep (Req_read fd buf n off) = Prep_read fd buf (w32 n) off"
| "req_prep (Req_write fd buf n off) = Prep_write fd buf (w32 n) off"
| "req_prep (Req_recv fd buf n flags) = Prep_recv fd buf n flags"
| "req_prep (Req_send fd buf n flags) = Prep_send fd buf n flags"
| "req_prep (Req_accept fd addr len flags) = Prep_accept fd addr len flags"

primrec req_opdata :: "uring_req \<Rightarrow> xio_opdata" where
  "req_opdata (Req_read fd buf n off) = Op_read fd buf n"
| "req_opdata (Req_write fd buf n off) = Op_write fd buf n"
| "req_opdata (Req_recv fd buf n flags) = Op_recv fd buf n flags"
| "req_opdata (Req_send fd buf n flags) = Op_send fd buf n flags"
| "req_opdata (Req_accept fd addr len flags) = Op_accept fd addr len flags"

text \<open>The kernel chooses a buffer of the group exactly for a request that brings none.\<close>

primrec req_group :: "uring_req \<Rightarrow> nat option" where
  "req_group (Req_read fd buf n off) = (if buf = None then Some 1 else None)"
| "req_group (Req_write fd buf n off) = (if buf = None then Some 1 else None)"
| "req_group (Req_recv fd buf n flags) = (if buf = None then Some 1 else None)"
| "req_group (Req_send fd buf n flags) = (if buf = None then Some 1 else None)"
| "req_group (Req_accept fd addr len flags) = None"

definition request_done ::
  "nat set \<Rightarrow> xio_malloc \<Rightarrow> sqe_answers \<Rightarrow> fh_xio_uring \<Rightarrow> nat \<Rightarrow> uring_req \<Rightarrow> int \<Rightarrow> fh_xio_uring \<Rightarrow> bool"
where
  "request_done F m sq xio u req rc xio' \<longleftrightarrow>
     buf_ring xio' = buf_ring xio \<and> buf_refcount xio' = buf_refcount xio \<and> buf_offsets xio' = buf_offsets xio \<and>
     (\<forall>b \<in> F. data_heap xio' b = data_heap xio b) \<and>
     (if rc = 0 then \<exists>a d. a \<notin> F \<and> uring_ok (insert a F) xio' \<and> data_heap xio' a = Some d \<and>
        dt_udata d = u \<and> dt_opdata d = req_opdata req \<and>
        ring xio' = ring xio @ sqe_ring sq @ [Ring_sqe \<lparr>sqe_prep = req_prep req, sqe_data = Tag_data a,
          sqe_buf_group = req_group req, sqe_drain = False\<rparr>]
      else uring_ok F xio' \<and> (rc = - linux_ENOMEM \<and> m = None \<and> data_count xio = 0 \<and> xio' = xio \<or>
        rc = - linux_EAGAIN \<and> \<not> got_sqe sq \<and> ring xio' = ring xio @ sqe_ring sq))"

primrec req_setup :: "uring_req \<Rightarrow> uring_sqe \<Rightarrow> uring_sqe" where
  "req_setup (Req_read fd buf n off) = fh_xio_request_setup_sqe_common buf"
| "req_setup (Req_write fd buf n off) = fh_xio_request_setup_sqe_common buf"
| "req_setup (Req_recv fd buf n flags) = fh_xio_request_setup_sqe_common buf"
| "req_setup (Req_send fd buf n flags) = fh_xio_request_setup_sqe_common buf"
| "req_setup (Req_accept fd addr len flags) = (\<lambda>sqe. sqe)"

lemma do_request_eq:
  "do_request m sq xio u req =
     uring_request m sq xio u (opdata_op (req_opdata req)) (req_opdata req) (req_setup req) (req_prep req)"
  by (cases req) (simp_all add: fh_xio_request_read_def fh_xio_request_write_def
      fh_xio_request_recv_uring_def fh_xio_request_send_def fh_xio_request_accept_def)

lemma req_setup_sqe:
  "req_setup req \<lparr>sqe_prep = p, sqe_data = t, sqe_buf_group = None, sqe_drain = False\<rparr> =
     \<lparr>sqe_prep = p, sqe_data = t, sqe_buf_group = req_group req, sqe_drain = False\<rparr>"
  by (cases req) (simp_all add: fh_xio_request_setup_sqe_common_def XIO_RING_BUF_BGID_DEFAULT_def)

lemma do_request_correct:
  assumes "uring_ok F xio" "malloc_fresh m xio"
  shows "\<exists>rc xio'. do_request m sq xio u req = Inr (rc, xio') \<and> request_done F m sq xio u req rc xio'"
  using request_correct [OF assms refl, of sq u "req_opdata req" "req_setup req" "req_prep req"]
  unfolding do_request_eq request_outcome_def request_done_def req_setup_sqe .

text \<open>The blocks that submissions name.\<close>

fun submitted :: "ring_call list \<Rightarrow> nat set" where
  "submitted [] = {}"
| "submitted (Ring_sqe s # calls) = (case sqe_data s of Tag_data a \<Rightarrow> insert a (submitted calls) | _ \<Rightarrow> submitted calls)"
| "submitted (_ # calls) = submitted calls"

lemma submitted_append [simp]: "submitted (xs @ ys) = submitted xs \<union> submitted ys"
  by (induction xs rule: submitted.induct) (auto split: uring_tag.splits)

definition new_calls :: "fh_xio_uring \<Rightarrow> fh_xio_uring \<Rightarrow> ring_call list" where
  "new_calls xio xio' = drop (length (ring xio)) (ring xio')"

text \<open>The instance, the blocks in flight and the results the client holds.\<close>

type_synonym uring_sys = "fh_xio_uring \<times> nat set \<times> fh_xio_result multiset"

inductive uring_step :: "uring_sys \<Rightarrow> xio_call \<Rightarrow> uring_sys \<Rightarrow> bool" where
  request: "malloc_fresh m xio \<Longrightarrow> do_request m sq xio u req = Inr (rc, xio') \<Longrightarrow>
    uring_step (xio, F, R) (Requested u (rc = 0)) (xio', F \<union> submitted (new_calls xio xio'), R)"
| submit: "uring_step (xio, F, R) Submitted (snd (fh_xio_submit_requests_uring rc xio), F, R)"
| wait_failed: "fh_xio_wait_uring (rc, ready, cqes) xio k ms = Inr (-1, err, rs, xio') \<Longrightarrow>
    cqes_ok F cqes \<Longrightarrow> size R + length cqes < 2 ^ 31 \<Longrightarrow> uring_step (xio, F, R) (Waited rs) (xio', F, R)"
| wait: "fh_xio_wait_uring (rc, ready, cqes) xio k ms = Inr (ret, err, rs, xio') \<Longrightarrow> ret \<noteq> -1 \<Longrightarrow>
    cqes_ok F cqes \<Longrightarrow> size R + length cqes < 2 ^ 31 \<Longrightarrow>
    uring_step (xio, F, R) (Waited rs) (xio', in_flight_after F (consumed (min k 2048) cqes), R + mset rs)"
| free_all: "mset rs \<subseteq># R \<Longrightarrow> fh_xio_results_free xio rs = Inr xio' \<Longrightarrow>
    uring_step (xio, F, R) (Freed rs) (xio', F, R - mset rs)"
| free_one: "r \<in># R \<Longrightarrow> fh_xio_result_free xio r = Inr xio' \<Longrightarrow>
    uring_step (xio, F, R) (Freed [r]) (xio', F, R - {#r#})"

inductive uring_reach :: "fh_xio_uring \<Rightarrow> nat set \<Rightarrow> fh_xio_result multiset \<Rightarrow> bool" where
  created: "fh_xio_create_uring env = Inr (Some (Uring_created xio)) \<Longrightarrow> uring_reach xio {} {#}"
| stepped: "uring_reach xio F R \<Longrightarrow> uring_step (xio, F, R) c (xio', F', R') \<Longrightarrow> uring_reach xio' F' R'"

section \<open>The invariant\<close>

definition naming :: "fh_xio_result multiset \<Rightarrow> nat \<Rightarrow> nat" where
  "naming R b = size (filter_mset (\<lambda>r. names_buffer (res_flags r) b) R)"

lemma naming_simps [simp]:
  "naming {#} b = 0" "naming (R + S) b = naming R b + naming S b" "naming (mset rs) b = named rs b"
  by (simp_all add: naming_def named_def flip: mset_filter)

lemma naming_diff: "S \<subseteq># R \<Longrightarrow> naming (R - S) b = naming R b - naming S b"
  by (simp add: naming_def filter_diff_mset size_Diff_submset multiset_filter_mono)

lemma naming_mono: "S \<subseteq># R \<Longrightarrow> naming S b \<le> naming R b"
  by (simp add: naming_def size_mset_mono multiset_filter_mono)

lemma naming_size: "naming R b \<le> size R"
  by (simp add: naming_def size_filter_mset_lesseq)

definition sys_ok :: "fh_xio_uring \<Rightarrow> nat set \<Rightarrow> fh_xio_result multiset \<Rightarrow> bool" where
  "sys_ok xio F R \<longleftrightarrow> uring_ok F xio \<and> (\<forall>r \<in># R. bid_ok (res_flags r)) \<and>
     (\<forall>b < XIO_RING_BUF_COUNT. held xio b = naming R b \<and> (used_up xio b \<longrightarrow> 0 < held xio b))"

text \<open>A buffer number out of range is named by nothing, and its count is no count; so the bounds.\<close>

lemma sys_named: "sys_ok xio F R \<Longrightarrow> \<not> b < XIO_RING_BUF_COUNT \<Longrightarrow> naming R b = 0"
  by (auto simp: sys_ok_def naming_def names_buffer_def bid_ok_def filter_mset_eq_mempty_iff)

lemma sys_okI:
  assumes "uring_ok F xio" "\<And>r. r \<in># R \<Longrightarrow> bid_ok (res_flags r)"
    and "\<And>b. b < XIO_RING_BUF_COUNT \<Longrightarrow> held xio b = naming R b"
    and "\<And>b. b < XIO_RING_BUF_COUNT \<Longrightarrow> used_up xio b \<Longrightarrow> 0 < held xio b"
  shows "sys_ok xio F R"
  using assms by (simp add: sys_ok_def)

text \<open>The invariant depends on the reference counts, not on the rings.\<close>

lemma sys_ok_same_counts:
  "sys_ok xio F R \<Longrightarrow> uring_ok G xio' \<Longrightarrow> buf_refcount xio' = buf_refcount xio \<Longrightarrow> sys_ok xio' G R"
  by (auto simp: sys_ok_def held_def used_up_def)

lemma sys_ok_ring [simp]: "sys_ok (xio\<lparr>ring := calls\<rparr>) F R = sys_ok xio F R"
  by (simp add: sys_ok_def held_def used_up_def)

lemma completions_bid: "cqes_ok F cs \<Longrightarrow> p \<in> set (completions cs) \<Longrightarrow> bid_ok (cqe_flags (snd p))"
  by (induction F cs rule: cqes_ok.induct) (auto split: uring_tag.splits)

lemma wait_results_flags:
  "r \<in> set (wait_results h off ps) \<Longrightarrow> \<exists>p \<in> set ps. res_flags r = cqe_flags (snd p)"
  by (induction h off ps rule: wait_results.induct) (auto simp: result_of_def)

lemma last_use_handed: "last_use ps b \<Longrightarrow> 0 < handed_out ps b"
  by (auto simp: last_use_def handed_out_def filter_empty_conv)

lemma sys_few:
  assumes "sys_ok xio F R" "size R + n < 2 ^ 31"
  shows "\<forall>b < XIO_RING_BUF_COUNT. held xio b + n < 2 ^ 31"
proof (intro allI impI)
  show "held xio b + n < 2 ^ 31" if "b < XIO_RING_BUF_COUNT" for b
  proof -
    have "held xio b \<le> size R" using assms(1) that naming_size [of R b] by (simp add: sys_ok_def)
    then show ?thesis using assms(2) by linarith
  qed
qed

lemma sys_request:
  assumes ok: "sys_ok xio F R" and done_: "request_done F m sq xio u req rc xio'"
  shows "sys_ok xio' (F \<union> submitted (new_calls xio xio')) R"
proof (cases "rc = 0")
  case True
  then obtain a where "uring_ok (insert a F) xio'" "submitted (new_calls xio xio') = {a}"
    using done_ by (auto simp: request_done_def new_calls_def sqe_ring_def)
  then show ?thesis using ok done_ by (intro sys_ok_same_counts [OF ok]) (simp_all add: request_done_def)
next
  case False
  then have "submitted (new_calls xio xio') = {}" "uring_ok F xio'"
    using done_ by (auto simp: request_done_def new_calls_def sqe_ring_def split: if_splits)
  then show ?thesis using done_ by (intro sys_ok_same_counts [OF ok]) (simp_all add: request_done_def)
qed

text \<open>What a wait returns, and the instance after it up to the calls on the ring.\<close>

lemma wait_ran:
  assumes ok: "sys_ok xio F R" and c: "cqes_ok F cqes" and few: "size R + length cqes < 2 ^ 31"
    and run: "fh_xio_wait_uring (rc, ready, cqes) xio k ms = Inr (ret, err, rs, xio')"
  defines "over \<equiv> consumed (min k 2048) cqes"
  shows "\<exists>xa calls. xio' = xa\<lparr>ring := calls\<rparr> \<and>
    (if ret = -1 then xa = xio \<and> rs = []
     else loop_outcome F over xio xa \<and> rs = wait_results (data_heap xio) (offsets_of xio) (completions over))"
proof -
  have u: "uring_ok F xio" using ok by (simp add: sys_ok_def)
  note w = wait_uring_correct [OF u c sys_few [OF ok few], of k rc ready ms]
  show ?thesis
  proof (cases "rc < 0 \<and> rc \<noteq> - linux_ETIME \<and> \<not> ready")
    case True
    then have "ret = -1" "rs = []" "xio' = xio\<lparr>ring := ring xio @ [Ring_wait (min k 2048) (wait_ts ms)]\<rparr>"
      using w run by (simp_all add: Let_def)
    then show ?thesis by auto
  next
    case False
    let ?calls = "ring xio @ [Ring_wait (min k 2048) (wait_ts ms), Ring_seen (length over)]"
    obtain xa where "loop_outcome F over xio xa" "fh_xio_wait_uring (rc, ready, cqes) xio k ms =
      Inr (int (length (completions over)), None, wait_results (data_heap xio) (offsets_of xio) (completions over),
        xa\<lparr>ring := ?calls\<rparr>)"
      using w [unfolded Let_def if_not_P [OF False]] unfolding over_def by blast
    then show ?thesis using run by auto
  qed
qed

lemma sys_wait:
  assumes ok: "sys_ok xio F R" and c: "cqes_ok F cqes" and few: "size R + length cqes < 2 ^ 31"
    and run: "fh_xio_wait_uring (rc, ready, cqes) xio k ms = Inr (ret, err, rs, xio')"
  shows "if ret = -1 then sys_ok xio' F R
    else sys_ok xio' (in_flight_after F (consumed (min k 2048) cqes)) (R + mset rs)"
proof (cases "ret = -1")
  case True
  then show ?thesis using wait_ran [OF ok c few run] ok by auto
next
  case False
  let ?over = "consumed (min k 2048) cqes"
  let ?ps = "completions ?over"
  obtain xa calls where l: "loop_outcome F ?over xio xa" and x: "xio' = xa\<lparr>ring := calls\<rparr>" and
    eq: "rs = wait_results (data_heap xio) (offsets_of xio) ?ps"
    using wait_ran [OF ok c few run] False by auto
  have counts: "held xio' b = held xio b + named rs b \<and> used_up xio' b = (used_up xio b \<or> last_use ?ps b)" for b
    using l x by (auto simp: loop_outcome_def eq named_wait_results held_def used_up_def)
  have "uring_ok (in_flight_after F ?over) xio'" using l x by (auto simp: loop_outcome_def)
  moreover have "bid_ok (res_flags r)" if "r \<in># R + mset rs" for r
  proof (cases "r \<in># R")
    case False
    then have "r \<in> set rs" using that by simp
    then obtain p where "p \<in> set ?ps" "res_flags r = cqe_flags (snd p)"
      using wait_results_flags unfolding eq by blast
    then show ?thesis using completions_bid [OF c] consumed_in by metis
  qed (use ok in \<open>simp add: sys_ok_def\<close>)
  ultimately have "sys_ok xio' (in_flight_after F ?over) (R + mset rs)"
  proof (rule sys_okI)
    fix b
    assume b: "b < XIO_RING_BUF_COUNT"
    show "held xio' b = naming (R + mset rs) b" using counts [of b] ok b by (simp add: sys_ok_def)
    assume "used_up xio' b"
    then show "0 < held xio' b" using counts [of b] ok b last_use_handed [of ?ps b]
      by (auto simp: sys_ok_def eq named_wait_results)
  qed
  then show ?thesis using False by simp
qed

lemma sys_free_prems:
  assumes ok: "sys_ok xio F R" and sub: "mset rs \<subseteq># R"
  shows "bufs_ok xio" "\<forall>r \<in> set rs. bid_ok (res_flags r)" "\<forall>b. named rs b \<le> held xio b"
proof -
  show "bufs_ok xio" using ok by (simp add: sys_ok_def uring_ok_def)
  show "\<forall>r \<in> set rs. bid_ok (res_flags r)" using ok mset_subset_eqD [OF sub] by (auto simp: sys_ok_def)
  show "\<forall>b. named rs b \<le> held xio b"
  proof
    fix b
    have le: "named rs b \<le> naming R b" using naming_mono [OF sub, of b] by simp
    show "named rs b \<le> held xio b"
    proof (cases "b < XIO_RING_BUF_COUNT")
      case True
      then show ?thesis using le ok by (simp add: sys_ok_def)
    qed (use le sys_named [OF ok, of b] in simp)
  qed
qed

lemma sys_free:
  assumes ok: "sys_ok xio F R" and sub: "mset rs \<subseteq># R" and run: "fh_xio_results_free xio rs = Inr xio'"
  shows "sys_ok xio' F (R - mset rs)"
proof -
  obtain bs where o: "results_outcome xio rs bs xio'" "same_but_bufs xio xio'"
    using results_free_correct [OF sys_free_prems [OF ok sub]] run by auto
  have counts: "held xio' b = held xio b - named rs b" "used_up xio' b \<longleftrightarrow> used_up xio b \<and> b \<notin> returned_by xio rs" for b
    using o(1) by (auto simp: results_outcome_def)
  have "uring_ok F xio'" using uring_ok_bufs [OF _ o(2)] ok o(1) by (simp add: sys_ok_def results_outcome_def)
  moreover have "bid_ok (res_flags r)" if "r \<in># R - mset rs" for r
    using in_diffD [OF that] ok by (simp add: sys_ok_def)
  ultimately show ?thesis
  proof (rule sys_okI)
    fix b
    assume b: "b < XIO_RING_BUF_COUNT"
    show "held xio' b = naming (R - mset rs) b"
      using counts(1) ok b naming_diff [OF sub, of b] by (simp add: sys_ok_def)
    assume "used_up xio' b"
    then show "0 < held xio' b" using counts [of b] ok b sys_free_prems(3) [OF ok sub, rule_format, of b]
      by (auto simp: sys_ok_def returned_by_def)
  qed
qed

text \<open>Giving back one result differs from giving back a list of one in the calls on the ring only.\<close>

lemma result_free_single:
  "fh_xio_result_free xio r = Inr xio' \<Longrightarrow> \<exists>calls. fh_xio_results_free xio [r] = Inr (xio'\<lparr>buf_ring := calls\<rparr>)"
  by (cases "fh_xio_result_free_internal xio (res_flags r) 0")
    (auto simp: fh_xio_result_free_def fh_xio_results_free_def)

lemma sys_free_one:
  assumes ok: "sys_ok xio F R" and r: "r \<in># R" and run: "fh_xio_result_free xio r = Inr xio'"
  shows "sys_ok xio' F (R - {#r#})"
proof -
  obtain calls where "fh_xio_results_free xio [r] = Inr (xio'\<lparr>buf_ring := calls\<rparr>)"
    using result_free_single [OF run] by blast
  from sys_free [OF ok _ this] r have s: "sys_ok (xio'\<lparr>buf_ring := calls\<rparr>) F (R - {#r#})" by simp
  then have "uring_ok F xio'" by (simp add: sys_ok_def)
  then show ?thesis by (rule sys_ok_same_counts [OF s]) simp
qed

lemma step_request_done:
  assumes "sys_ok xio F R" "malloc_fresh m xio" "do_request m sq xio u req = Inr (rc, xio')"
  shows "request_done F m sq xio u req rc xio'"
proof -
  have "uring_ok F xio" using assms(1) by (simp add: sys_ok_def)
  from do_request_correct [OF this assms(2), of sq u req] assms(3) show ?thesis by auto
qed

lemma step_sys_ok:
  assumes ok: "sys_ok xio F R" and step: "uring_step (xio, F, R) c (xio', F', R')"
  shows "sys_ok xio' F' R'"
  using step
proof (cases rule: uring_step.cases)
  case (request m sq u req rc)
  then show ?thesis using sys_request [OF ok step_request_done [OF ok]] by simp
next
  case (submit rc)
  then show ?thesis using ok by (simp add: fh_xio_submit_requests_uring_def)
next
  case (wait_failed rc ready cqes k ms err rs)
  then show ?thesis using sys_wait [OF ok, of cqes rc ready k ms "-1" err rs xio'] by simp
next
  case (wait rc ready cqes k ms ret err rs)
  then show ?thesis using sys_wait [OF ok, of cqes rc ready k ms ret err rs xio'] by simp
next
  case (free_all rs)
  then show ?thesis using sys_free [OF ok] by simp
next
  case (free_one r)
  then show ?thesis using sys_free_one [OF ok] by simp
qed

lemma uring_new_sys: "uring_new xio \<Longrightarrow> sys_ok xio {} {#}"
  by (intro sys_okI) (simp_all add: uring_new_def)

lemma uring_reach_ok: "uring_reach xio F R \<Longrightarrow> sys_ok xio F R"
  by (induction rule: uring_reach.induct) (auto intro: uring_new_sys uring_created_new step_sys_ok)

text \<open>What the invariant gives the client.\<close>

lemma owned_split:
  assumes "uring_ok F xio"
  shows "\<exists>xs. data_list xio xs \<and> distinct xs \<and> length xs = data_count xio \<and> length xs \<le> 2048 \<and>
    dom (data_heap xio) = set xs \<union> F \<and> set xs \<inter> F = {}"
  using assms by (auto simp: uring_ok_def owned_def data_list_def XIO_MAX_DATA_FREELIST_COUNT_def)

lemma result_free_returns:
  assumes ok: "sys_ok xio F R" and r: "r \<in># R"
  shows "\<exists>xio'. fh_xio_result_free xio r = Inr xio'"
proof -
  have "mset [r] \<subseteq># R" using r by simp
  note p = sys_free_prems [OF ok this]
  have "cqe_has_buffer (res_flags r) \<longrightarrow> 0 < held xio (cqe_bid (res_flags r))"
    using p(3) [rule_format, of "cqe_bid (res_flags r)"] by (auto simp: flag_count_def names_buffer_def)
  from free_internal_correct [OF p(1) _ this, of 0] p(2) show ?thesis
    by (auto simp: fh_xio_result_free_def)
qed

end
