(* ===== verification/Uring_Service.thy ===== *)
theory Uring_Service
  imports Uring_Reach
begin

text \<open>
  The implementation on \<open>io_uring\<close> meets the contract of \<open>xio.h\<close>: the requests pending are the user
  data of the blocks in flight.
\<close>

section \<open>Completions and the blocks in flight\<close>

definition final_blocks :: "(nat \<times> uring_cqe) list \<Rightarrow> nat list" where
  "final_blocks ps = map fst (filter (\<lambda>p. \<not> more_to_come (snd p)) ps)"

lemma final_blocks_simps [simp]:
  "final_blocks [] = []" "final_blocks ((a, c) # ps) = (if more_to_come c then [] else [a]) @ final_blocks ps"
  by (simp_all add: final_blocks_def)

text \<open>A block leaves the flight with its last completion, so with one completion only.\<close>

lemma in_flight_split:
  "finite F \<Longrightarrow> cqes_ok F cs \<Longrightarrow> mset_set F = mset_set (in_flight_after F cs) + mset (final_blocks (completions cs))"
  by (induction F cs rule: cqes_ok.induct) (auto simp: mset_set.remove split: uring_tag.splits)

lemma cqes_ok_append: "cqes_ok F (cs @ ds) \<Longrightarrow> cqes_ok F cs"
  by (induction F cs rule: cqes_ok.induct) (auto split: uring_tag.splits)

lemma cqes_ok_consumed: "cqes_ok F cs \<Longrightarrow> cqes_ok F (consumed n cs)"
  using consumed_prefix [of cs n] cqes_ok_append by metis

text \<open>The flag of a result that more are to come is the one of its completion.\<close>

lemma last_result_of [simp]: "last_result (result_of off d c) \<longleftrightarrow> \<not> more_to_come c" "res_udata (result_of off d c) = dt_udata d"
  by (simp_all add: last_result_def result_of_def more_to_come_def XIO_TASK_F_MORE_def IORING_CQE_F_MORE_def)

lemma completed_results:
  "completed (Waited (wait_results h off ps)) = image_mset (\<lambda>a. dt_udata (the (h a))) (mset (final_blocks ps))"
  by (induction h off ps rule: wait_results.induct) auto

lemma wait_results_udata:
  "r \<in> set (wait_results h off ps) \<Longrightarrow> \<exists>p \<in> set ps. res_udata r = dt_udata (the (h (fst p)))"
  by (induction h off ps rule: wait_results.induct) auto

section \<open>The contract\<close>

definition uring_sys_ok :: "uring_sys \<Rightarrow> bool" where
  "uring_sys_ok = (\<lambda>(xio, F, R). sys_ok xio F R \<and> finite F)"

definition flight_data :: "xio_heap \<Rightarrow> nat set \<Rightarrow> nat multiset" where
  "flight_data h F = image_mset (\<lambda>a. dt_udata (the (h a))) (mset_set F)"

definition uring_requests :: "uring_sys \<Rightarrow> nat multiset" where
  "uring_requests = (\<lambda>(xio, F, R). flight_data (data_heap xio) F)"

lemma flight_data_cong: "(\<And>a. a \<in> F \<Longrightarrow> h' a = h a) \<Longrightarrow> flight_data h' F = flight_data h F"
  unfolding flight_data_def by (rule image_mset_cong) (cases "finite F"; simp)

lemma flight_data_in: "finite F \<Longrightarrow> a \<in> F \<Longrightarrow> dt_udata (the (h a)) \<in># flight_data h F"
  by (simp add: flight_data_def)

text \<open>A request that is accepted puts one block with its user data in flight.\<close>

lemma request_flight:
  assumes fin: "finite F" and done_: "request_done F m sq xio u req rc xio'"
  shows "finite (F \<union> submitted (new_calls xio xio')) \<and> flight_data (data_heap xio') (F \<union> submitted (new_calls xio xio')) =
    flight_data (data_heap xio) F + accepted (Requested u (rc = 0))"
proof -
  have same: "flight_data (data_heap xio') F = flight_data (data_heap xio) F"
    using done_ by (intro flight_data_cong) (simp add: request_done_def)
  show ?thesis
  proof (cases "rc = 0")
    case True
    then obtain a d where "a \<notin> F" "data_heap xio' a = Some d" "dt_udata d = u" "submitted (new_calls xio xio') = {a}"
      using done_ by (auto simp: request_done_def new_calls_def sqe_ring_def)
    then show ?thesis using True fin same by (simp add: flight_data_def)
  next
    case False
    then have "submitted (new_calls xio xio') = {}"
      using done_ by (auto simp: request_done_def new_calls_def sqe_ring_def split: if_splits)
    then show ?thesis using False fin same by simp
  qed
qed

text \<open>A wait takes the blocks of last completions out of flight, and reports on blocks in flight.\<close>

lemma wait_flight:
  assumes fin: "finite F" and c: "cqes_ok F cs"
    and kept: "\<forall>a \<in> in_flight_after F cs. h' a = h a"
    and rs: "rs = wait_results h off (completions cs)"
  shows "flight_data h' (in_flight_after F cs) + completed (Waited rs) = flight_data h F"
    and "r \<in> set rs \<Longrightarrow> res_udata r \<in># flight_data h F"
proof -
  have "flight_data h' (in_flight_after F cs) = flight_data h (in_flight_after F cs)"
    using kept by (intro flight_data_cong) blast
  then show "flight_data h' (in_flight_after F cs) + completed (Waited rs) = flight_data h F"
    unfolding rs completed_results by (simp add: flight_data_def in_flight_split [OF fin c])
  show "res_udata r \<in># flight_data h F" if "r \<in> set rs"
    using wait_results_udata [OF that [unfolded rs]] completions_in [OF c] flight_data_in [OF fin] by fastforce
qed

lemma flight_data_bufs:
  assumes "fh_xio_results_free xio rs = Inr xio'" "sys_ok xio F R" "mset rs \<subseteq># R"
  shows "data_heap xio' = data_heap xio"
  using results_free_correct [OF sys_free_prems [OF assms(2,3)]] assms(1) by (auto simp: same_but_bufs_def)

lemma uring_step_correct:
  assumes ok: "uring_sys_ok s" and step: "uring_step s c s'"
  shows "uring_sys_ok s' \<and> uring_requests s' + completed c = uring_requests s + accepted c \<and>
    (\<forall>r \<in> set (reported c). res_udata r \<in># uring_requests s)"
proof -
  obtain xio F R xio' F' R' where s: "s = (xio, F, R)" "s' = (xio', F', R')" by (cases s; cases s') auto
  have sys: "sys_ok xio F R" and fin: "finite F" using ok by (simp_all add: uring_sys_ok_def s)
  note step' = step [unfolded s]
  have sys': "sys_ok xio' F' R'" by (rule step_sys_ok [OF sys step'])
  show ?thesis
    using step'
  proof (cases rule: uring_step.cases)
    case (request m sq u req rc)
    note d = request_flight [OF fin step_request_done [OF sys request(4,5)]]
    show ?thesis using d sys' request(1-3) by (simp add: s uring_sys_ok_def uring_requests_def)
  next
    case (submit rc)
    then show ?thesis using sys' fin by (simp add: s uring_sys_ok_def uring_requests_def fh_xio_submit_requests_uring_def)
  next
    case (wait_failed rc ready cqes k ms err rs)
    from wait_ran [OF sys wait_failed(5,6,4)] show ?thesis
      using sys' fin wait_failed(1-3) by (auto simp: s uring_sys_ok_def uring_requests_def)
  next
    case (wait rc ready cqes k ms ret err rs)
    let ?over = "consumed (min k 2048) cqes"
    obtain xa calls where "xio' = xa\<lparr>ring := calls\<rparr>" "loop_outcome F ?over xio xa" and
      rs: "rs = wait_results (data_heap xio) (offsets_of xio) (completions ?over)"
      using wait_ran [OF sys wait(6,7,4)] wait(5) by auto
    then have "\<forall>a \<in> in_flight_after F ?over. data_heap xio' a = data_heap xio a"
      by (simp add: loop_outcome_def)
    note w = wait_flight [OF fin cqes_ok_consumed [OF wait(6)] this rs]
    have "finite F'" using wait(2) finite_subset [OF in_flight_after_subset fin] by simp
    then show ?thesis using w sys' wait(1-3)
      by (simp add: s uring_sys_ok_def uring_requests_def del: completed.simps)
  next
    case (free_all rs)
    then show ?thesis using sys' fin flight_data_bufs [OF free_all(5) sys free_all(4)]
      by (simp add: s uring_sys_ok_def uring_requests_def)
  next
    case (free_one r)
    obtain calls where "fh_xio_results_free xio [r] = Inr (xio'\<lparr>buf_ring := calls\<rparr>)"
      using result_free_single [OF free_one(5)] by blast
    then have "data_heap xio' = data_heap xio" using flight_data_bufs [OF _ sys, of "[r]"] free_one(4) by fastforce
    then show ?thesis using sys' fin free_one(1-3) by (simp add: s uring_sys_ok_def uring_requests_def)
  qed
qed

interpretation uring_service: xio_service uring_sys_ok uring_requests uring_step
  by unfold_locales (use uring_step_correct in \<open>blast+\<close>)

lemma uring_created_answers:
  assumes born: "fh_xio_create_uring env = Inr (Some (Uring_created xio))"
    and run: "xio_run uring_step (xio, {}, {#}) cs (xio', F, R)"
  shows "answers_requests cs (flight_data (data_heap xio') F) \<and> sys_ok xio' F R \<and> finite F"
proof -
  have ok: "uring_sys_ok (xio, {}, {#})"
    using uring_new_sys [OF uring_created_new [OF born]] by (simp add: uring_sys_ok_def)
  have none: "uring_requests (xio, {}, {#}) = {#}" by (simp add: uring_requests_def flight_data_def)
  show ?thesis
    using uring_service.run_answers [OF run ok none] uring_service.run_refines [OF run ok]
    by (simp add: uring_requests_def uring_sys_ok_def)
qed

end
