(* ===== verification/Claims_Uring.thy ===== *)
theory Claims_Uring
  imports Uring_Service
begin

text \<open>
  The properties of \<open>xio_uring.c\<close>, each with its application to an instance that \<open>fh_xio_create\<close> makes.
\<close>

section \<open>A concrete instance\<close>

definition uring_sample_env :: uring_env where
  "uring_sample_env = \<lparr>env_calloc_ok = True, env_memory_size = (\<lambda>_. -1), env_mmap_huge_ok = False, env_mmap_ok = True,
     env_init_mem = (\<lambda>_ _. 0), env_init_params = (\<lambda>_. 0), env_buf_ring_mask = (\<lambda>n. n - 1),
     env_setup_buf_ring = (True, 0), env_memalign = 0,
     env_drain = \<lparr>drain_sq1 = (True, True), drain_sq2 = (True, True), drain_rounds = []\<rparr>\<rparr>"

lemma uring_sample:
  obtains xio where "fh_xio_create_uring uring_sample_env = Inr (Some (Uring_created xio))" "uring_new xio"
  using create_works [of uring_sample_env] uring_created_new by (auto simp: env_works_def uring_sample_env_def)

lemma new_ok: "uring_new xio \<Longrightarrow> uring_ok {} xio \<and> bufs_ok xio"
  by (simp add: uring_new_def uring_ok_def)

definition sample_block :: fh_xio_data where
  "sample_block = \<lparr>dt_next = Some 3, dt_prev = Some 4, dt_udata = 0, dt_op = 99, dt_opdata = Op_read 0 None 0\<rparr>"

lemma new_malloc: "uring_new xio \<Longrightarrow> malloc_fresh (Some (64, sample_block)) xio"
  by (simp add: uring_new_def malloc_fresh_def)

section \<open>Requests\<close>

text \<open>
  C39: A request of any of the five kinds, on a well-formed instance, ends without a fault and leaves
  the blocks in flight and the buffers as they were. If it returns 0 it has taken one block that was
  not in flight, stored the user data and the arguments in it, and made one submission with these
  arguments that names the block and selects a buffer of the group exactly if none was given. Otherwise
  nothing is submitted and nothing more is in flight; the result is \<open>-ENOMEM\<close> only without an unused
  block and without memory, and \<open>-EAGAIN\<close> only if there was no submission entry even after
  submitting.
\<close>

theorem uring_requests:
  assumes "uring_ok F xio" "malloc_fresh m xio"
  shows "\<exists>rc xio'. do_request m sq xio u req = Inr (rc, xio') \<and>
    buf_ring xio' = buf_ring xio \<and> buf_refcount xio' = buf_refcount xio \<and> buf_offsets xio' = buf_offsets xio \<and>
    (\<forall>b \<in> F. data_heap xio' b = data_heap xio b) \<and>
    (if rc = 0 then \<exists>a d. a \<notin> F \<and> uring_ok (insert a F) xio' \<and> data_heap xio' a = Some d \<and>
        dt_udata d = u \<and> dt_opdata d = req_opdata req \<and>
        ring xio' = ring xio @ sqe_ring sq @ [Ring_sqe \<lparr>sqe_prep = req_prep req, sqe_data = Tag_data a,
          sqe_buf_group = req_group req, sqe_drain = False\<rparr>]
      else uring_ok F xio' \<and> (rc = - linux_ENOMEM \<and> m = None \<and> data_count xio = 0 \<and> xio' = xio \<or>
        rc = - linux_EAGAIN \<and> \<not> got_sqe sq \<and> ring xio' = ring xio @ sqe_ring sq))"
  using do_request_correct [OF assms, of sq u req] unfolding request_done_def .

theorem uring_requests_witness:
  "\<exists>xio rc xio'. fh_xio_create_uring uring_sample_env = Inr (Some (Uring_created xio)) \<and>
    do_request (Some (64, sample_block)) (False, True) xio 7 (Req_recv 5 None 100 0) = Inr (rc, xio') \<and>
    buf_ring xio' = buf_ring xio"
proof -
  obtain xio where c: "fh_xio_create_uring uring_sample_env = Inr (Some (Uring_created xio))" "uring_new xio"
    by (rule uring_sample)
  from uring_requests [OF new_ok [OF c(2), THEN conjunct1] new_malloc [OF c(2)], of "(False, True)" 7 "Req_recv 5 None 100 0"]
    c(1) show ?thesis by blast
qed

section \<open>Waiting\<close>

text \<open>
  C37: A wait on a well-formed instance, with completions that \<open>io_uring\<close> may deliver for the requests in
  flight, ends without a fault. It reports an error number only if waiting failed, not with a timeout,
  and no completion is ready. Otherwise its results are those of the first at most 2048 completions of
  requests, in order, each with operation, user data, outcome and buffer, where a buffer chosen by the
  kernel starts after the bytes of the earlier completions; it passes over exactly these completions
  and the ones in between, takes those requests out of flight that are complete, counts each result
  for its buffer, and marks a buffer that no later completion will name.
\<close>

theorem uring_wait:
  assumes "uring_ok F xio" "cqes_ok F cqes" "\<forall>b < XIO_RING_BUF_COUNT. held xio b + length cqes < 2 ^ 31"
  shows "let n = min k 2048; over = consumed n cqes in
    if rc < 0 \<and> rc \<noteq> - linux_ETIME \<and> \<not> ready then
      fh_xio_wait_uring (rc, ready, cqes) xio k ms =
        Inr (-1, Some (- rc), [], xio\<lparr>ring := ring xio @ [Ring_wait n (wait_ts ms)]\<rparr>)
    else \<exists>xio'. fh_xio_wait_uring (rc, ready, cqes) xio k ms = Inr (int (length (completions over)), None,
        wait_results (data_heap xio) (offsets_of xio) (completions over),
        xio'\<lparr>ring := ring xio @ [Ring_wait n (wait_ts ms), Ring_seen (length over)]\<rparr>) \<and>
      uring_ok (in_flight_after F over) xio' \<and> buf_ring xio' = buf_ring xio \<and>
      (\<forall>a \<in> in_flight_after F over. data_heap xio' a = data_heap xio a) \<and>
      (\<forall>b. held xio' b = held xio b + handed_out (completions over) b \<and>
        used_up xio' b = (used_up xio b \<or> last_use (completions over) b))"
proof -
  have "(\<exists>xio'. P xio' \<and> loop_outcome F over xio xio') \<longrightarrow> (\<exists>xio'. P xio' \<and>
      uring_ok (in_flight_after F over) xio' \<and> buf_ring xio' = buf_ring xio \<and>
      (\<forall>a \<in> in_flight_after F over. data_heap xio' a = data_heap xio a) \<and>
      (\<forall>b. held xio' b = held xio b + handed_out (completions over) b \<and>
        used_up xio' b = (used_up xio b \<or> last_use (completions over) b)))" for P over
    unfolding loop_outcome_def by blast
  then show ?thesis
    using wait_uring_correct [OF assms, of k rc ready ms] unfolding Let_def by (auto split: if_splits)
qed

theorem uring_wait_witness:
  "\<exists>xio xio'. fh_xio_create_uring uring_sample_env = Inr (Some (Uring_created xio)) \<and>
    fh_xio_wait_uring (0, True, [\<lparr>cqe_data = Tag_null, cqe_res = 0, cqe_flags = 0\<rparr>]) xio 16 1500 =
      Inr (0, None, [], xio'\<lparr>ring := ring xio @ [Ring_wait 16 (1, 500000000), Ring_seen 1]\<rparr>)"
proof -
  obtain xio where c: "fh_xio_create_uring uring_sample_env = Inr (Some (Uring_created xio))" "uring_new xio"
    by (rule uring_sample)
  let ?c = "[\<lparr>cqe_data = Tag_null, cqe_res = 0, cqe_flags = 0\<rparr>]"
  have "\<forall>b < XIO_RING_BUF_COUNT. held xio b + length ?c < 2 ^ 31" using c(2) by (simp add: uring_new_def)
  note w = uring_wait [OF new_ok [OF c(2), THEN conjunct1] _ this, of 16 0 True 1500]
  have n: "min 16 2048 = Suc 15" by simp
  have "consumed (Suc 15) ?c = ?c" by (simp only: consumed.simps uring_cqe.simps uring_tag.case)
  moreover have "completions ?c = []" "cqes_ok {} ?c" by simp_all
  ultimately have "\<exists>xio'. fh_xio_wait_uring (0, True, ?c) xio 16 1500 =
      Inr (0, None, [], xio'\<lparr>ring := ring xio @ [Ring_wait 16 (1, 500000000), Ring_seen 1]\<rparr>)"
    using w unfolding n Let_def by (force simp: wait_ts_def)
  with c(1) show ?thesis by blast
qed

section \<open>Giving results back\<close>

text \<open>
  C38: Giving back results, for each buffer at most as many as the client holds, ends without a fault.
  The buffers that return to the kernel are exactly those marked as used up whose last results are
  among them; each returns once, whole, at the next place of the buffer ring, and the ring advances by
  their number; their counts, marks and offsets start anew. All other counts drop by the results given
  back.
\<close>

theorem uring_results_free:
  assumes "bufs_ok xio" "\<forall>r \<in> set rs. bid_ok (res_flags r)" "\<forall>b. named rs b \<le> held xio b"
  shows "\<exists>bs xio'. fh_xio_results_free xio rs = Inr xio' \<and> distinct bs \<and>
    set bs = {b. used_up xio b \<and> named rs b = held xio b \<and> 0 < named rs b} \<and>
    buf_ring xio' = buf_ring xio @ map (\<lambda>(i, b). Buf_add (XIO_RING_BUF_SIZE * b) XIO_RING_BUF_SIZE b (buf_mask xio) i)
      (enumerate 0 bs) @ [Buf_advance (length bs)] \<and>
    (\<forall>b. held xio' b = held xio b - named rs b \<and> used_up xio' b = (used_up xio b \<and> b \<notin> set bs) \<and>
      offsets_of xio' b = (if b \<in> set bs then 0 else offsets_of xio b))"
  using results_free_correct [OF assms] unfolding results_outcome_def returned_by_def buf_add_def by blast

theorem uring_results_free_witness:
  "\<exists>xio bs xio'. fh_xio_create_uring uring_sample_env = Inr (Some (Uring_created xio)) \<and>
    fh_xio_results_free xio [\<lparr>res_op = 3, res_flags = 2, res_res = 0, res_buf = None, res_udata = 7\<rparr>] = Inr xio' \<and>
    buf_ring xio' = buf_ring xio @ [Buf_advance (length bs)] \<and> bs = []"
proof -
  obtain xio where c: "fh_xio_create_uring uring_sample_env = Inr (Some (Uring_created xio))" "uring_new xio"
    by (rule uring_sample)
  let ?r = "\<lparr>res_op = 3, res_flags = 2, res_res = 0, res_buf = None, res_udata = 7\<rparr> :: fh_xio_result"
  have no: "\<not> cqe_has_buffer 2" by (simp add: cqe_has_buffer_def IORING_CQE_F_BUFFER_def)
  then have "\<forall>r \<in> set [?r]. bid_ok (res_flags r)" "\<forall>b. named [?r] b = 0"
    by (simp_all add: bid_ok_def flag_count_def names_buffer_def)
  then show ?thesis
    using uring_results_free [OF new_ok [OF c(2), THEN conjunct2], of "[?r]"] c(1) by auto
qed

section \<open>Every interleaving\<close>

text \<open>
  C36: After any interleaving of requests, submissions, waits with completions that \<open>io_uring\<close> may deliver, and
  results given back at most once each, every block of request data in use is either in flight or once in the
  doubly linked list of unused blocks: the list that starts at \<open>data_head\<close> and follows \<open>next\<close>, and is the same from
  \<open>data_tail\<close> along \<open>prev\<close>, holds \<open>data_count\<close> blocks, at most 2048. Every buffer has as many counts as the client
  holds results that name it; and the next operation, whichever it is, ends without a fault: no block is used
  after it was freed or freed twice, no assertion fails, and no access leaves an array.
\<close>

theorem uring_safe:
  assumes "uring_reach xio F R"
  shows "(\<exists>xs. data_list xio xs \<and> distinct xs \<and> length xs = data_count xio \<and> length xs \<le> 2048 \<and>
      dom (data_heap xio) = set xs \<union> F \<and> set xs \<inter> F = {}) \<and>
    (\<forall>b < XIO_RING_BUF_COUNT. held xio b = naming R b) \<and>
    (malloc_fresh m xio \<longrightarrow> (\<exists>rc xio'. do_request m sq xio u req = Inr (rc, xio'))) \<and>
    (cqes_ok F cqes \<and> size R + length cqes < 2 ^ 31 \<longrightarrow>
      (\<exists>r. fh_xio_wait_uring (rc, ready, cqes) xio k ms = Inr r)) \<and>
    (mset rs \<subseteq># R \<longrightarrow> (\<exists>xio'. fh_xio_results_free xio rs = Inr xio')) \<and>
    (r \<in># R \<longrightarrow> (\<exists>xio'. fh_xio_result_free xio r = Inr xio'))"
proof -
  have ok: "sys_ok xio F R" by (rule uring_reach_ok [OF assms])
  then have u: "uring_ok F xio" by (simp add: sys_ok_def)
  have counts: "\<forall>b < XIO_RING_BUF_COUNT. held xio b = naming R b" using ok by (simp add: sys_ok_def)
  have request: "malloc_fresh m xio \<longrightarrow> (\<exists>rc xio'. do_request m sq xio u req = Inr (rc, xio'))"
    using do_request_correct [OF u, of m sq u req] by blast
  have wait: "cqes_ok F cqes \<and> size R + length cqes < 2 ^ 31 \<longrightarrow>
      (\<exists>r. fh_xio_wait_uring (rc, ready, cqes) xio k ms = Inr r)"
  proof
    assume c: "cqes_ok F cqes \<and> size R + length cqes < 2 ^ 31"
    from wait_uring_correct [OF u c [THEN conjunct1] sys_few [OF ok c [THEN conjunct2]], of k rc ready ms]
    show "\<exists>r. fh_xio_wait_uring (rc, ready, cqes) xio k ms = Inr r" by (auto simp: Let_def split: if_splits)
  qed
  have free_all: "mset rs \<subseteq># R \<longrightarrow> (\<exists>xio'. fh_xio_results_free xio rs = Inr xio')"
    using results_free_correct [OF sys_free_prems [OF ok]] by blast
  have free_one: "r \<in># R \<longrightarrow> (\<exists>xio'. fh_xio_result_free xio r = Inr xio')"
    using result_free_returns [OF ok] by blast
  show ?thesis by (intro conjI owned_split [OF u] counts request wait free_all free_one)
qed

theorem uring_safe_witness:
  "\<exists>xio rc xio'. fh_xio_create_uring uring_sample_env = Inr (Some (Uring_created xio)) \<and>
    do_request (Some (64, sample_block)) (True, True) xio 7 (Req_read 5 None 100 0) = Inr (rc, xio') \<and>
    (\<forall>b < XIO_RING_BUF_COUNT. held xio' b = 0) \<and>
    (\<exists>rc xio''. do_request None (True, True) xio' 8 (Req_accept 5 None None 0) = Inr (rc, xio'')) \<and>
    (\<exists>r. fh_xio_wait_uring (0, False, []) xio' 16 10 = Inr r) \<and> (\<exists>xio''. fh_xio_results_free xio' [] = Inr xio'')"
proof -
  obtain xio where c: "fh_xio_create_uring uring_sample_env = Inr (Some (Uring_created xio))" "uring_new xio"
    by (rule uring_sample)
  note m = new_malloc [OF c(2)]
  have r: "uring_reach xio {} {#}" by (rule uring_reach.created [OF c(1)])
  from do_request_correct [OF new_ok [OF c(2), THEN conjunct1] m] obtain rc xio' where
    d: "do_request (Some (64, sample_block)) (True, True) xio 7 (Req_read 5 None 100 0) = Inr (rc, xio')" by blast
  have r': "uring_reach xio' ({} \<union> submitted (new_calls xio xio')) {#}" by (rule uring_reach.stepped [OF r uring_step.request [OF m d]])
  have "malloc_fresh None xio'" by (simp add: malloc_fresh_def)
  with c(1) d uring_safe [OF r', where m = None and sq = "(True, True)" and u = 8 and req = "Req_accept 5 None None 0"
      and cqes = "[]" and rc = 0 and ready = False and k = 16 and ms = 10 and rs = "[]"] show ?thesis by auto
qed

text \<open>
  C26: In every sequence of calls on an instance that was just created (requests of the five kinds,
  accepted or rejected, submissions, waits with completions that \<open>io_uring\<close> may deliver, results given
  back), each accepted request is answered by at most one last result, and no other last results are
  reported: the user data of the accepted requests are those of the last results and of the requests in
  flight, with multiplicity, and each result, last or not, has the user data of a request accepted
  before and not answered by a last result yet.
\<close>

theorem uring_answers:
  assumes "fh_xio_create_uring env = Inr (Some (Uring_created xio))"
    and "xio_run uring_step (xio, {}, {#}) cs (xio', F, R)"
  shows "finite F \<and> all_accepted cs = all_completed cs + image_mset (\<lambda>a. dt_udata (the (data_heap xio' a))) (mset_set F) \<and>
    (\<forall>pre c post. \<forall>r \<in> set (reported c). cs = pre @ c # post \<longrightarrow>
      res_udata r \<in># all_accepted pre - all_completed pre)"
  using uring_created_answers [OF assms] by (auto simp: answers_requests_def flight_data_def)

text \<open>A receive request for descriptor 5, whose only completion says that the connection was reset.\<close>

lemma uring_sample_run:
  obtains xio rs xio' where "fh_xio_create_uring uring_sample_env = Inr (Some (Uring_created xio))" "length rs = 1"
    "xio_run uring_step (xio, {}, {#}) [Requested 7 True, Waited rs] (xio', {}, mset rs)"
proof -
  obtain x0 where c: "fh_xio_create_uring uring_sample_env = Inr (Some (Uring_created x0))" "uring_new x0"
    by (rule uring_sample)
  note m = new_malloc [OF c(2)] and ok0 = uring_new_sys [OF c(2)]
  let ?req = "do_request (Some (64, sample_block)) (True, True)"
  from do_request_correct [OF new_ok [OF c(2), THEN conjunct1] m] obtain rc x1 where
    d: "?req x0 7 (Req_recv 5 None 100 0) = Inr (rc, x1)" and
    o: "request_done {} (Some (64, sample_block)) (True, True) x0 7 (Req_recv 5 None 100 0) rc x1" by blast
  have rc: "rc = 0" using o by (auto simp: request_done_def got_sqe_def split: if_splits)
  then obtain a where a: "submitted (new_calls x0 x1) = {a}"
    using o by (auto simp: request_done_def new_calls_def sqe_ring_def)
  have s1: "uring_step (x0, {}, {#}) (Requested 7 True) (x1, {a}, {#})"
    using uring_step.request [OF m d, of "{}" "{#}"] rc a by simp
  let ?c = "\<lparr>cqe_data = Tag_data a, cqe_res = -104, cqe_flags = 0\<rparr>"
  have ok1: "sys_ok x1 {a} {#}" by (rule step_sys_ok [OF ok0 s1])
  have cq: "cqes_ok {a} [?c]" by (simp add: bid_ok_def cqe_has_buffer_def)
  have n: "min 16 2048 = Suc 15" by simp
  have over: "consumed (min 16 2048) [?c] = [?c]" unfolding n by (simp only: consumed.simps uring_cqe.simps uring_tag.case)
  have few: "\<forall>b < XIO_RING_BUF_COUNT. held x1 b + length [?c] < 2 ^ 31" by (rule sys_few [OF ok1]) simp
  have u: "uring_ok {a} x1" using ok1 by (simp add: sys_ok_def)
  obtain rs x2 where w: "fh_xio_wait_uring (1, True, [?c]) x1 16 10 = Inr (1, None, rs, x2)" "length rs = 1"
    using wait_uring_correct [OF u cq few, of 16 1 True 10, unfolded Let_def over] by auto
  have "uring_step (x1, {a}, {#}) (Waited rs) (x2, {}, mset rs)"
    using uring_step.wait [OF w(1) _ cq, of "{#}", unfolded over] by (simp add: more_to_come_def)
  with s1 have "xio_run uring_step (x0, {}, {#}) [Requested 7 True, Waited rs] (x2, {}, mset rs)" by (rule xio_run_two)
  then show thesis using that c(1) w(2) by blast
qed

theorem uring_answers_witness:
  "\<exists>xio rs xio'. fh_xio_create_uring uring_sample_env = Inr (Some (Uring_created xio)) \<and> length rs = 1 \<and>
    xio_run uring_step (xio, {}, {#}) [Requested 7 True, Waited rs] (xio', {}, mset rs) \<and>
    (\<forall>r \<in> set rs. last_result r \<and> res_udata r = 7)"
proof -
  obtain xio rs xio' where r: "fh_xio_create_uring uring_sample_env = Inr (Some (Uring_created xio))" "length rs = 1"
    "xio_run uring_step (xio, {}, {#}) [Requested 7 True, Waited rs] (xio', {}, mset rs)" by (rule uring_sample_run)
  note a = uring_answers [OF r(1,3)]
  obtain res where rs: "rs = [res]" using r(2) by (cases rs) auto
  have "completed (Waited rs) = {#7#}" using a by simp
  then have "last_result res \<and> res_udata res = 7" unfolding rs by (auto split: if_splits)
  then have "\<forall>r \<in> set rs. last_result r \<and> res_udata r = 7" by (simp add: rs)
  with r show ?thesis by blast
qed

section \<open>Freeing\<close>

text \<open>
  C40: Freeing an instance whose draining comes to an end (a wait fails other than by an interrupt, or
  the last request completes), with \<open>io_uring\<close> completing the last request after all others, ends
  without a fault and without the loops running out of rounds. No block is freed twice, every unused
  block is freed, and a block that is still in use was in flight. If draining succeeded, no block of
  the instance is left in use. The memory of the buffers is freed whether or not it did.
\<close>

theorem uring_free:
  assumes "uring_ok F xio" "rounds_ok F (drain_rounds a)" "\<exists>r \<in> set (drain_rounds a). round_ends r"
    and "data_count xio \<le> fuel"
  shows "\<exists>over xd rel h. fh_xio_drain (drain_sq1 a) (drain_sq2 a) (drain_rounds a) xio = Inr (Some (over, xd)) \<and>
    fh_xio_free_uring a fuel xio = Inr (Some (rel, h)) \<and> dom h \<subseteq> F \<and> (over \<longrightarrow> h = (\<lambda>_. None)) \<and>
    (\<exists>freed. Data_freed freed \<in> set rel \<and> distinct freed \<and> length freed = data_count xio) \<and>
    (Buf_freed \<in> set rel \<longleftrightarrow> has_buf xio)"
proof -
  have "owned F xio" using assms(1) by (simp add: uring_ok_def)
  from free_uring_correct [OF this assms(2-4)] show ?thesis .
qed

definition sample_drain :: uring_drain_answers where
  "sample_drain = \<lparr>drain_sq1 = (True, True), drain_sq2 = (True, True),
     drain_rounds = [(-4, []), (1, [\<lparr>cqe_data = Tag_xio, cqe_res = 0, cqe_flags = 0\<rparr>])]\<rparr>"

theorem uring_free_witness:
  "\<exists>xio rel h. fh_xio_create_uring uring_sample_env = Inr (Some (Uring_created xio)) \<and>
    fh_xio_free_uring sample_drain (data_count xio) xio = Inr (Some (rel, h)) \<and> dom h = {}"
proof -
  obtain xio where c: "fh_xio_create_uring uring_sample_env = Inr (Some (Uring_created xio))" "uring_new xio"
    by (rule uring_sample)
  have "rounds_ok {} (drain_rounds sample_drain)" "\<exists>r \<in> set (drain_rounds sample_drain). round_ends r"
    by (simp_all add: sample_drain_def round_ends_def drained_by_def)
  from uring_free [OF new_ok [OF c(2), THEN conjunct1] this order_refl] c(1) show ?thesis by auto
qed

end
