(* ===== verification/Log.thy ===== *)
theory Log
  imports Prelude
begin

text \<open>
  \<open>src/src/log/log.c\<close>: what \<open>fh_log\<close> hands to \<open>vfprintf\<close>. The rendering of the elapsed seconds with
  \<open>%16.7f\<close> is a parameter; the rest of the line is put together here.
\<close>

section \<open>State\<close>

datatype fh_log_level = FH_LOG_DEBUG | FH_LOG_INFO | FH_LOG_WARN | FH_LOG_ERR

primrec log_level_code :: "fh_log_level \<Rightarrow> nat" where
  "log_level_code FH_LOG_DEBUG = 0"
| "log_level_code FH_LOG_INFO = 1"
| "log_level_code FH_LOG_WARN = 2"
| "log_level_code FH_LOG_ERR = 3"

text \<open>The levels are compared as numbers.\<close>

instantiation fh_log_level :: linorder
begin

definition less_eq_fh_log_level :: "fh_log_level \<Rightarrow> fh_log_level \<Rightarrow> bool" where
  "a \<le> b \<longleftrightarrow> log_level_code a \<le> log_level_code b"

definition less_fh_log_level :: "fh_log_level \<Rightarrow> fh_log_level \<Rightarrow> bool" where
  "a < b \<longleftrightarrow> log_level_code a < log_level_code b"

instance
proof
  fix a b :: fh_log_level
  show "a \<le> b \<Longrightarrow> b \<le> a \<Longrightarrow> a = b"
    by (cases a; cases b) (simp_all add: less_eq_fh_log_level_def)
qed (auto simp: less_eq_fh_log_level_def less_fh_log_level_def)

end

primrec log_level_lut :: "fh_log_level \<Rightarrow> string" where
  "log_level_lut FH_LOG_DEBUG = ''debug''"
| "log_level_lut FH_LOG_INFO = ''info''"
| "log_level_lut FH_LOG_WARN = ''warn''"
| "log_level_lut FH_LOG_ERR = ''error''"

primrec log_level_color_lut :: "fh_log_level \<Rightarrow> string" where
  "log_level_color_lut FH_LOG_DEBUG = ''2''"
| "log_level_color_lut FH_LOG_INFO = ''0''"
| "log_level_color_lut FH_LOG_WARN = ''1;33''"
| "log_level_color_lut FH_LOG_ERR = ''1;31''"

record fh_log_state =
  start_time :: u64
  supports_color :: bool

definition fh_log_refresh :: "bool \<Rightarrow> bool \<Rightarrow> fh_log_state \<Rightarrow> fh_log_state" where
  "fh_log_refresh out_tty err_tty st = st\<lparr>supports_color := out_tty \<and> err_tty\<rparr>"

definition fh_log_init :: "u64 \<Rightarrow> bool \<Rightarrow> bool \<Rightarrow> fh_log_state \<Rightarrow> fh_log_state" where
  "fh_log_init now out_tty err_tty st = fh_log_refresh out_tty err_tty (st\<lparr>start_time := now\<rparr>)"

definition fh_log_set_color_support :: "bool \<Rightarrow> fh_log_state \<Rightarrow> fh_log_state" where
  "fh_log_set_color_support b st = st\<lparr>supports_color := b\<rparr>"

definition fh_log_set_start_time :: "u64 \<Rightarrow> fh_log_state \<Rightarrow> fh_log_state" where
  "fh_log_set_start_time t st = st\<lparr>start_time := t\<rparr>"

section \<open>The line\<close>

text \<open>\<open>snprintf\<close> into a buffer of \<open>n\<close> bytes.\<close>

definition snprintf :: "nat \<Rightarrow> string \<Rightarrow> string" where
  "snprintf n s = take (n - 1) s"

definition log_line :: "bool \<Rightarrow> fh_log_level \<Rightarrow> string \<Rightarrow> string \<Rightarrow> string" where
  "log_line color level seconds format =
     (if color then
        escape_color (if level = FH_LOG_WARN then ''33''
          else if FH_LOG_ERR \<le> level then ''31'' else ''32'') @
        ''['' @ seconds @ '']'' @ escape_color ''0'' @ '' '' @
        escape_color (log_level_color_lut level) @ pad_left 5 (log_level_lut level) @ '':'' @ escape_color ''0'' @
        '' '' @ format @ [CHR 0x0A]
      else ''['' @ seconds @ ''] '' @ pad_left 5 (log_level_lut level) @ '': '' @ format @ [CHR 0x0A])"

datatype log_stream = Log_stdout | Log_stderr

definition fh_log :: "(u64 \<Rightarrow> string) \<Rightarrow> u64 \<Rightarrow> fh_log_state \<Rightarrow> fh_log_level \<Rightarrow> string \<Rightarrow> log_stream \<times> string" where
  "fh_log show_seconds now st level format =
     (if FH_LOG_WARN \<le> level then Log_stderr else Log_stdout,
      snprintf (256 + length format)
        (log_line (supports_color st) level (show_seconds (now - start_time st)) format))"

text \<open>
  A call of \<open>fh_log\<close> as its caller writes it: the level, the format, and the texts of its arguments, as
  the conversions of the format print them.
\<close>

datatype log_call = Log_call fh_log_level string "string list"

text \<open>
  The macros of \<open>log.h\<close>, in a file that defines \<open>FH_LOG_MODULE_NAME\<close> as the given name or not at all.
  \<open>fh_pr_debug\<close> is empty with \<open>NDEBUG\<close>, which neither the sources nor the build files define.
\<close>

definition NDEBUG :: bool where "NDEBUG = False"

definition FH_LOG_PREFIX :: "string option \<Rightarrow> string" where
  "FH_LOG_PREFIX module_name = (case module_name of None \<Rightarrow> [] | Some name \<Rightarrow> name @ '': '')"

definition fh_pr_debug :: "string option \<Rightarrow> string \<Rightarrow> string list \<Rightarrow> log_call list" where
  "fh_pr_debug module_name format args =
     (if NDEBUG then [] else [Log_call FH_LOG_DEBUG (FH_LOG_PREFIX module_name @ format) args])"

definition fh_pr_info :: "string option \<Rightarrow> string \<Rightarrow> string list \<Rightarrow> log_call list" where
  "fh_pr_info module_name format args = [Log_call FH_LOG_INFO (FH_LOG_PREFIX module_name @ format) args]"

definition fh_pr_warn :: "string option \<Rightarrow> string \<Rightarrow> string list \<Rightarrow> log_call list" where
  "fh_pr_warn module_name format args = [Log_call FH_LOG_WARN (FH_LOG_PREFIX module_name @ format) args]"

definition fh_pr_err :: "string option \<Rightarrow> string \<Rightarrow> string list \<Rightarrow> log_call list" where
  "fh_pr_err module_name format args = [Log_call FH_LOG_ERR (FH_LOG_PREFIX module_name @ format) args]"

section \<open>What is printed\<close>

text \<open>
  The line fits in its buffer, so it is printed whole, and its conversion specifications are those of
  the caller's format: the text put around it has none.
\<close>

lemma log_line_fits:
  assumes "length seconds \<le> 200"
  shows "snprintf (256 + length format) (log_line color level seconds format) = log_line color level seconds format"
proof -
  have "length (log_line color level seconds format) < 256 + length format"
    using assms by (cases level) (auto simp: log_line_def escape_color_def pad_left_def less_eq_fh_log_level_def)
  then show ?thesis by (simp add: snprintf_def)
qed

lemma log_line_conversions:
  assumes "CHR ''%'' \<notin> set seconds"
  shows "filter (\<lambda>c. c = CHR ''%'') (log_line color level seconds format) = filter (\<lambda>c. c = CHR ''%'') format"
proof -
  have "filter (\<lambda>c. c = CHR ''%'') seconds = []" using assms by (auto simp: filter_empty_conv)
  then show ?thesis by (cases level) (auto simp: log_line_def escape_color_def pad_left_def less_eq_fh_log_level_def)
qed

end
