(* ===== verification/Server.thy ===== *)
theory Server
  imports Htable_Map Log
begin

text \<open>
  \<open>src/src/core/server.c\<close> and \<open>conf.h\<close>: building the port table of a server from its configuration,
  one host table per port, the sockets, and the release of a server. A pointer to a
  \<open>struct fh_port_table_entry\<close> is its number in \<open>port_heap\<close>, a pointer to a virtual host its
  position in the configuration. System calls are parameters; what a function logs is a list of calls in
  its result.
\<close>

section \<open>Configuration and state\<close>

record fh_config_vhost_id =
  hostname :: cstr
  port :: u16

record fh_config_vhost =
  id_list :: "fh_config_vhost_id list"
  id_count :: nat
  docroot :: cstr

record fh_config =
  vhosts :: "fh_config_vhost list"
  vhost_count :: nat

record fh_port_table_entry =
  host_config_table :: "(cstr, nat) htable"
  sockfd :: int

record fh_server =
  config :: fh_config
  port_table :: "(u64, nat) htable"
  port_heap :: "fh_port_table_entry list"

text \<open>The allocator during the processing of the \<open>j\<close>th identifier of the \<open>i\<close>th host.\<close>

record srv_mem =
  entry_ok :: bool
  host_create_mem :: "(cstr, nat) ht_mem"
  port_set_mem :: "(u64, nat) ht_mem"
  host_set_mem :: "(cstr, nat) ht_mem"

type_synonym srv_env = "nat \<Rightarrow> nat \<Rightarrow> srv_mem"

text \<open>The results of the system calls on a socket, by port.\<close>

record srv_net =
  net_socket :: "u16 \<Rightarrow> int"
  net_reuseaddr :: "u16 \<Rightarrow> int"
  net_reuseport :: "u16 \<Rightarrow> int"
  net_rcvtimeo :: "u16 \<Rightarrow> int"
  net_sndtimeo :: "u16 \<Rightarrow> int"
  net_nonblocking :: "u16 \<Rightarrow> bool"
  net_bind :: "u16 \<Rightarrow> int"
  net_listen :: "int \<Rightarrow> int"

section \<open>Sockets\<close>

text \<open>The descriptor, and the descriptors closed on the way.\<close>

definition fh_server_create_socket :: "srv_net \<Rightarrow> u16 \<Rightarrow> int \<times> int list" where
  "fh_server_create_socket net p =
     (let fd = net_socket net p
      in if fd < 0 then (-1, [])
         else if net_reuseaddr net p < 0 then (-1, [fd])
         else if net_reuseport net p < 0 then (-1, [fd])
         else if net_rcvtimeo net p < 0 then (-1, [fd])
         else if net_sndtimeo net p < 0 then (-1, [fd])
         else if \<not> net_nonblocking net p then (-1, [fd])
         else if net_bind net p < 0 then (-1, [fd])
         else (fd, []))"

section \<open>Processing the configuration\<close>

text \<open>The entry of a port, created when it is not there; \<open>None\<close> is \<open>return false\<close>.\<close>

definition fh_server_port_entry ::
  "srv_mem \<Rightarrow> u16 \<Rightarrow> fh_server \<Rightarrow> (nat \<times> fh_server) option checked"
where
  "fh_server_port_entry m p s =
     and_then (htable_get int_ops (port_table s) (ucast p)) (\<lambda>port_entry.
     case port_entry of
       Some e \<Rightarrow> Inr (Some (e, s))
     | None \<Rightarrow>
         if \<not> entry_ok m then Inr None
         else and_then (htable_create (host_create_mem m) 16) (\<lambda>hosts.
           case hosts of
             None \<Rightarrow> Inr None
           | Some ht \<Rightarrow>
               let e = length (port_heap s)
               in and_then (htable_set int_ops (port_set_mem m) (port_table s) (ucast p) (Some e))
                    (\<lambda>(ret, pt).
                  Inr (Some (e, s\<lparr>port_table := pt,
                    port_heap := port_heap s @ [\<lparr>host_config_table = ht, sockfd = 0\<rparr>]\<rparr>)))))"

text \<open>The body of the inner loop.\<close>

definition fh_server_process_id ::
  "srv_mem \<Rightarrow> nat \<Rightarrow> fh_config_vhost_id \<Rightarrow> fh_server \<Rightarrow> (bool \<times> fh_server) checked"
where
  "fh_server_process_id m i vid s =
     and_then (fh_server_port_entry m (port vid) s) (\<lambda>res.
     case res of
       None \<Rightarrow> Inr (False, s)
     | Some (e, s) \<Rightarrow>
         and_then (aget (port_heap s) e) (\<lambda>pe.
         and_then (htable_set str_ops (host_set_mem m) (host_config_table pe) (hostname vid) (Some i))
           (\<lambda>(ret, ht).
         Inr (True, s\<lparr>port_heap := (port_heap s)[e := pe\<lparr>host_config_table := ht\<rparr>]\<rparr>))))"

text \<open>The two loops, with \<open>n\<close> rounds left.\<close>

fun fh_server_process_ids ::
  "srv_env \<Rightarrow> nat \<Rightarrow> fh_config_vhost \<Rightarrow> nat \<Rightarrow> nat \<Rightarrow> fh_server \<Rightarrow> (bool \<times> fh_server) checked"
where
  "fh_server_process_ids env i vhost 0 j s = Inr (True, s)"
| "fh_server_process_ids env i vhost (Suc n) j s =
     and_then (aget (id_list vhost) j) (\<lambda>vid.
     and_then (fh_server_process_id (env i j) i vid s) (\<lambda>(ok, s).
     if \<not> ok then Inr (False, s) else fh_server_process_ids env i vhost n (Suc j) s))"

fun fh_server_process_vhosts ::
  "srv_env \<Rightarrow> nat \<Rightarrow> nat \<Rightarrow> fh_server \<Rightarrow> (bool \<times> fh_server) checked"
where
  "fh_server_process_vhosts env 0 i s = Inr (True, s)"
| "fh_server_process_vhosts env (Suc n) i s =
     and_then (aget (vhosts (config s)) i) (\<lambda>vhost.
     and_then (fh_server_process_ids env i vhost (id_count vhost) 0 s) (\<lambda>(ok, s).
     if \<not> ok then Inr (False, s) else fh_server_process_vhosts env n (Suc i) s))"

text \<open>
  The socket loop over the entries of the port table, which it does not change. A data pointer is
  never \<open>NULL\<close> in a table the code builds; following \<open>NULL\<close> is out of bounds.
\<close>

definition created_call :: "int \<Rightarrow> u16 \<Rightarrow> log_call list" where
  "created_call fd p = fh_pr_debug (Some ''server'') ''Created socket=%d, port=%u'' [show_int fd, show_nat (unat p)]"

fun fh_server_open_sockets ::
  "srv_net \<Rightarrow> (u64, nat) ht_entry list \<Rightarrow> fh_server \<Rightarrow> (bool \<times> fh_server \<times> log_call list) checked"
where
  "fh_server_open_sockets net [] s = Inr (True, s, [])"
| "fh_server_open_sockets net (it # its) s =
     (case data it of
        None \<Rightarrow> Inl Out_of_bounds
      | Some e \<Rightarrow>
          let (fd, closed) = fh_server_create_socket net (ucast (key it))
          in if fd < 0 then Inr (False, s, [])
             else and_then (aupd (port_heap s) e (\<lambda>pe. pe\<lparr>sockfd := fd\<rparr>)) (\<lambda>heap.
               and_then (fh_server_open_sockets net its (s\<lparr>port_heap := heap\<rparr>)) (\<lambda>(ok, s, logged).
               Inr (ok, s, created_call fd (ucast (key it)) @ logged))))"

text \<open>Iteration has as much fuel as the table has entries, and one.\<close>

definition port_entries :: "fh_server \<Rightarrow> (u64, nat) ht_entry list option checked" where
  "port_entries s = ht_foreach (Suc (ht_count (port_table s))) (port_table s)"

definition fh_server_process_config ::
  "srv_env \<Rightarrow> srv_net \<Rightarrow> fh_server \<Rightarrow> (bool \<times> fh_server \<times> log_call list) option checked"
where
  "fh_server_process_config env net s =
     and_then (fh_server_process_vhosts env (vhost_count (config s)) 0 s) (\<lambda>(ok, s).
     if \<not> ok then Inr (Some (False, s, []))
     else and_then (port_entries s) (\<lambda>its.
       case its of
         None \<Rightarrow> Inr None
       | Some es \<Rightarrow> and_then (fh_server_open_sockets net es s) (\<lambda>r. Inr (Some r))))"

section \<open>Creating, listening, freeing\<close>

text \<open>
  What is released: a port entry's host table (\<open>str_htable_free\<close>), the entry, and the memory of
  the port table.
\<close>

datatype srv_release =
    Host_table_part "(cstr, nat) ht_release"
  | Port_entry_released nat
  | Port_table_part "(u64, nat) ht_release"
  | Server_released

definition fh_server_port_table_entry_cleanup ::
  "fh_server \<Rightarrow> nat option \<Rightarrow> srv_release list option checked"
where
  "fh_server_port_table_entry_cleanup s ptr =
     (case ptr of
        None \<Rightarrow> Inl Out_of_bounds
      | Some e \<Rightarrow>
          and_then (aget (port_heap s) e) (\<lambda>pe.
          and_then (htable_free str_ops (Suc (ht_count (host_config_table pe))) (host_config_table pe))
            (\<lambda>res. Inr (map_option (\<lambda>rs. map Host_table_part rs @ [Port_entry_released e]) res))))"

text \<open>The calls of the cleanup callback, in the order \<open>htable_free_with_cleanup\<close> makes them.\<close>

fun srv_releases ::
  "fh_server \<Rightarrow> (u64, nat) ht_release list \<Rightarrow> srv_release list option checked"
where
  "srv_releases s [] = Inr (Some [])"
| "srv_releases s (r # rs) =
     and_then (case r of
         Data_released ptr \<Rightarrow> fh_server_port_table_entry_cleanup s ptr
       | _ \<Rightarrow> Inr (Some [Port_table_part r])) (\<lambda>now.
     and_then (srv_releases s rs) (\<lambda>later.
     Inr (case (now, later) of (Some xs, Some ys) \<Rightarrow> Some (xs @ ys) | _ \<Rightarrow> None)))"

definition fh_server_free :: "fh_server \<Rightarrow> srv_release list option checked" where
  "fh_server_free s =
     and_then (htable_free_with_cleanup int_ops (Suc (ht_count (port_table s))) (port_table s) True) (\<lambda>res.
     case res of
       None \<Rightarrow> Inr None
     | Some rs \<Rightarrow>
         and_then (srv_releases s rs) (\<lambda>out. Inr (map_option (\<lambda>xs. xs @ [Server_released]) out)))"

text \<open>
  The outcome of \<open>fh_server_create\<close>: the server, or \<open>NULL\<close> with what was released before, which on
  a processing error is the port table alone; and what was logged, in either case.
\<close>

datatype srv_created = Created fh_server | Not_created "srv_release list"

definition fh_server_create ::
  "bool \<Rightarrow> (u64, nat) ht_mem \<Rightarrow> srv_env \<Rightarrow> srv_net \<Rightarrow> fh_config \<Rightarrow> (srv_created \<times> log_call list) option checked"
where
  "fh_server_create calloc_granted m env net cfg =
     (if \<not> calloc_granted then Inr (Some (Not_created [], []))
      else and_then (htable_create m 16) (\<lambda>res.
        case res of
          None \<Rightarrow> Inr (Some (Not_created [Server_released], []))
        | Some pt \<Rightarrow>
            and_then (fh_server_process_config env net
                        \<lparr>config = cfg, port_table = pt, port_heap = []\<rparr>) (\<lambda>res.
            case res of
              None \<Rightarrow> Inr None
            | Some (True, s, logged) \<Rightarrow> Inr (Some (Created s, logged))
            | Some (False, s, logged) \<Rightarrow>
                and_then (htable_free int_ops (Suc (ht_count (port_table s))) (port_table s)) (\<lambda>rs.
                Inr (map_option (\<lambda>rs. (Not_created (map Port_table_part rs @ [Server_released]), logged)) rs)))))"

definition listening_call :: "u16 \<Rightarrow> log_call list" where
  "listening_call p = fh_pr_debug (Some ''server'') ''Listening: port=%u'' [show_nat (unat p)]"

fun fh_server_listen_loop ::
  "srv_net \<Rightarrow> (u64, nat) ht_entry list \<Rightarrow> fh_server \<Rightarrow> (bool \<times> log_call list) checked"
where
  "fh_server_listen_loop net [] s = Inr (True, [])"
| "fh_server_listen_loop net (it # its) s =
     (case data it of
        None \<Rightarrow> Inl Out_of_bounds
      | Some e \<Rightarrow>
          and_then (aget (port_heap s) e) (\<lambda>pe.
          if net_listen net (sockfd pe) < 0 then Inr (False, [])
          else and_then (fh_server_listen_loop net its s) (\<lambda>(ok, logged).
            Inr (ok, listening_call (ucast (key it)) @ logged))))"

definition fh_server_listen :: "srv_net \<Rightarrow> fh_server \<Rightarrow> (bool \<times> log_call list) option checked" where
  "fh_server_listen net s =
     and_then (port_entries s) (\<lambda>its.
     case its of
       None \<Rightarrow> Inr None
     | Some es \<Rightarrow> and_then (fh_server_listen_loop net es s) (\<lambda>r. Inr (Some r)))"

end
