(* ===== verification/Server_Route.thy ===== *)
theory Server_Route
  imports Server
begin

text \<open>
  What building a server amounts to: the pair of a port and a host name is mapped to the last
  virtual host of the configuration that declares it, through the two levels of tables; no step
  fails an assertion or leaves an array, whatever the allocator and the sockets do.
\<close>

section \<open>Routes\<close>

definition srv_ports :: "fh_server \<Rightarrow> u64 \<Rightarrow> nat option option" where
  "srv_ports s = map_of (ht_alist (port_table s))"

definition host_map :: "fh_port_table_entry \<Rightarrow> cstr \<Rightarrow> nat option option" where
  "host_map pe = map_of (ht_alist (host_config_table pe))"

definition route_in ::
  "(u64 \<Rightarrow> nat option option) \<Rightarrow> fh_port_table_entry list \<Rightarrow> u16 \<times> cstr \<Rightarrow> nat option"
where
  "route_in ports heap = (\<lambda>(p, h). case ports (ucast p) of
     Some (Some e) \<Rightarrow> (if e < length heap then Option.bind (host_map (heap ! e) h) id else None)
   | _ \<Rightarrow> None)"

definition srv_routes :: "fh_server \<Rightarrow> u16 \<times> cstr \<Rightarrow> nat option" where
  "srv_routes s = route_in (srv_ports s) (port_heap s)"

text \<open>The declared identifiers, each with the number of its host, in the order of the loops.\<close>

definition vhost_ids :: "fh_config \<Rightarrow> nat \<Rightarrow> (nat \<times> fh_config_vhost_id) list" where
  "vhost_ids cfg i = map (Pair i) (take (id_count (vhosts cfg ! i)) (id_list (vhosts cfg ! i)))"

definition config_ids :: "fh_config \<Rightarrow> (nat \<times> fh_config_vhost_id) list" where
  "config_ids cfg = concat (map (vhost_ids cfg) [0 ..< vhost_count cfg])"

fun add_route ::
  "nat \<times> fh_config_vhost_id \<Rightarrow> (u16 \<times> cstr \<Rightarrow> nat option) \<Rightarrow> (u16 \<times> cstr \<Rightarrow> nat option)"
where
  "add_route (i, vid) R = R((port vid, hostname vid) \<mapsto> i)"

definition config_routes :: "fh_config \<Rightarrow> u16 \<times> cstr \<Rightarrow> nat option" where
  "config_routes cfg = fold add_route (config_ids cfg) (\<lambda>_. None)"

text \<open>The counts do not exceed the arrays they count, and the identifiers fit into a table.\<close>

definition config_ok :: "fh_config \<Rightarrow> bool" where
  "config_ok cfg \<longleftrightarrow> vhost_count cfg \<le> length (vhosts cfg) \<and>
     list_all (\<lambda>v. id_count v \<le> length (id_list v)) (vhosts cfg) \<and>
     length (config_ids cfg) \<le> ht_limit"

definition srv_grants :: "srv_mem \<Rightarrow> bool" where
  "srv_grants m \<longleftrightarrow> entry_ok m \<and> grants (host_create_mem m) \<and> grants (port_set_mem m) \<and>
     grants (host_set_mem m)"

section \<open>Valid servers\<close>

definition host_valid :: "nat \<Rightarrow> fh_port_table_entry \<Rightarrow> bool" where
  "host_valid n pe \<longleftrightarrow> ht_holds str_ops n (host_config_table pe) (host_map pe) \<and>
     None \<notin> ran (host_map pe)"

definition ports_valid :: "fh_server \<Rightarrow> bool" where
  "ports_valid s \<longleftrightarrow> None \<notin> ran (srv_ports s) \<and>
     (\<forall>e. Some e \<in> ran (srv_ports s) \<longrightarrow> e < length (port_heap s)) \<and>
     (\<forall>k k' e. srv_ports s k = Some (Some e) \<longrightarrow> srv_ports s k' = Some (Some e) \<longrightarrow> k = k')"

definition srv_valid :: "nat \<Rightarrow> nat \<Rightarrow> fh_server \<Rightarrow> bool" where
  "srv_valid np nh s \<longleftrightarrow> ht_holds int_ops np (port_table s) (srv_ports s) \<and> ports_valid s \<and>
     (\<forall>pe \<in> set (port_heap s). host_valid nh pe)"

lemma host_valid_mono: "host_valid n pe \<Longrightarrow> n \<le> n' \<Longrightarrow> host_valid n' pe"
  by (auto simp: host_valid_def ht_holds_def)

lemma ucast_u16_u64_inject: "(ucast (p :: u16) :: u64) = ucast q \<longleftrightarrow> p = q"
proof -
  have up: "unat (ucast r :: u64) = unat r" for r :: u16
    using unsigned_less [of r, where ?'a = nat]
    by (simp add: unsigned_ucast_eq take_bit_nat_eq_self)
  show ?thesis by (metis up unat_inject)
qed

section \<open>One identifier\<close>

text \<open>An entry appended to the heap of entries, and its number recorded for a port that had none, or not.\<close>

lemma ports_below:
  assumes "ports_valid s" "srv_ports s k = Some (Some e)"
  shows "e < length (port_heap s)"
  using assms by (auto simp: ports_valid_def ran_def)

lemma append_port_entry:
  fixes p :: u16
  assumes v: "srv_valid np nh s" and pe: "host_valid nh pe" "host_map pe = (\<lambda>k. None)" and none: "srv_ports s (ucast p) = None"
    and pt: "ht_holds int_ops np' pt ((srv_ports s)(ucast p \<mapsto> Some (length (port_heap s))))"
    and s': "s' = s\<lparr>port_table := pt, port_heap := port_heap s @ [pe]\<rparr>"
  shows "srv_valid np' nh s'" "srv_routes s' = srv_routes s" "srv_ports s' (ucast p) = Some (Some (length (port_heap s)))"
proof -
  let ?k = "ucast p :: u64" and ?n = "length (port_heap s)"
  have pv: "ports_valid s" and hv: "\<forall>pe \<in> set (port_heap s). host_valid nh pe" using v by (simp_all add: srv_valid_def)
  note below = ports_below [OF pv]
  have all: "srv_ports s' = (srv_ports s)(?k \<mapsto> Some ?n)" using holds_map [OF pt] by (simp add: s' srv_ports_def)
  then show "srv_ports s' ?k = Some (Some ?n)" by simp
  have "ports_valid s'"
    using pv below unfolding ports_valid_def all by (auto simp: s' ran_def split: if_splits) fastforce+
  then show "srv_valid np' nh s'" using pt hv pe(1) unfolding srv_valid_def all by (simp add: s')
  show "srv_routes s' = srv_routes s"
  proof
    fix x :: "u16 \<times> cstr"
    obtain q h where x: "x = (q, h)" by (cases x)
    have r: "srv_routes s' = route_in ((srv_ports s)(?k \<mapsto> Some ?n)) (port_heap s @ [pe])"
      unfolding srv_routes_def all by (simp add: s')
    show "srv_routes s' x = srv_routes s x"
    proof (cases "q = p")
      case True
      then show ?thesis using x none pe(2) unfolding r unfolding srv_routes_def by (simp add: route_in_def)
    next
      case False
      then show ?thesis
        using x below [of "ucast q"] unfolding r unfolding srv_routes_def
        by (cases "srv_ports s (ucast q)")
          (auto simp: route_in_def ucast_u16_u64_inject nth_append less_SucI split: option.splits)
    qed
  qed
qed

lemma append_port_lost:
  assumes v: "srv_valid np nh s" and pe: "host_valid nh pe" and pt: "ht_holds int_ops np' pt (srv_ports s)"
    and s': "s' = s\<lparr>port_table := pt, port_heap := port_heap s @ [pe]\<rparr>"
  shows "srv_valid np' nh s'" "srv_routes s' = srv_routes s"
proof -
  have pv: "ports_valid s" and hv: "\<forall>pe \<in> set (port_heap s). host_valid nh pe" using v by (simp_all add: srv_valid_def)
  note below = ports_below [OF pv]
  have ports: "srv_ports s' = srv_ports s" using holds_map [OF pt] by (simp add: s' srv_ports_def)
  have "ports_valid s'" using pv unfolding ports_valid_def ports by (auto simp: s')
  then show "srv_valid np' nh s'" using pt hv pe unfolding srv_valid_def ports by (simp add: s')
  show "srv_routes s' = srv_routes s"
    using below unfolding srv_routes_def ports
    by (intro ext) (auto simp: s' route_in_def nth_append less_SucI split: option.splits)
qed

lemma port_entry_present:
  fixes p :: u16
  assumes v: "srv_valid np nh s" and p: "srv_ports s (ucast p) = Some d"
  shows "\<exists>e. d = Some e \<and> e < length (port_heap s) \<and> fh_server_port_entry m p s = Inr (Some (e, s))"
proof -
  have hp: "ht_holds int_ops np (port_table s) (srv_ports s)" and pv: "ports_valid s" using v by (simp_all add: srv_valid_def)
  obtain e where d: "d = Some e" "e < length (port_heap s)"
    using pv p by (cases d) (auto simp: ports_valid_def ran_def)
  then show ?thesis
    using int_ht.get_holds [OF hp, of "ucast p"] p by (simp add: fh_server_port_entry_def)
qed

lemma port_entry_correct:
  assumes v: "srv_valid np nh s" and n: "np < ht_limit"
  shows "\<exists>res. fh_server_port_entry m p s = Inr res \<and>
    (case res of None \<Rightarrow> \<not> srv_grants m
     | Some (e, s') \<Rightarrow> srv_valid (Suc np) nh s' \<and> e < length (port_heap s') \<and>
         srv_routes s' = srv_routes s \<and> config s' = config s \<and> dom (srv_ports s') \<subseteq> insert (ucast p) (dom (srv_ports s)) \<and>
         (srv_grants m \<longrightarrow> srv_ports s' (ucast p) = Some (Some e)))"
proof (cases "srv_ports s (ucast p)")
  case (Some d)
  moreover have "srv_valid (Suc np) nh s" using v by (simp add: srv_valid_def ht_holds_def)
  ultimately show ?thesis using port_entry_present [OF v Some, of m] by auto
next
  case None
  let ?k = "ucast p :: u64" and ?n = "length (port_heap s)"
  have hp: "ht_holds int_ops np (port_table s) (srv_ports s)" using v by (simp add: srv_valid_def)
  have get: "htable_get int_ops (port_table s) ?k = Inr None" using int_ht.get_holds [OF hp, of ?k] None by simp
  consider "\<not> entry_ok m \<or> htable_create (host_create_mem m) 16 = Inr None"
    | ht where "entry_ok m" "htable_create (host_create_mem m) 16 = Inr (Some ht)" "ht_holds str_ops nh ht (\<lambda>k. None)"
    using str_ht.create_holds [of 16 "host_create_mem m" nh] by force
  then show ?thesis
  proof cases
    case 1
    then show ?thesis
      using get htable_create_granted [of "host_create_mem m" 16]
      by (auto simp: fh_server_port_entry_def srv_grants_def)
  next
    case 2
    let ?pe = "\<lparr>host_config_table = ht, sockfd = 0\<rparr>"
    obtain ret pt where set: "htable_set int_ops (port_set_mem m) (port_table s) ?k (Some ?n) = Inr (ret, pt)"
      "ht_holds int_ops (Suc np) pt ((srv_ports s)(?k \<mapsto> Some ?n)) \<or>
       \<not> grants (port_set_mem m) \<and> ht_holds int_ops (Suc np) pt (srv_ports s)"
      using int_ht.set_holds [OF hp n, of "port_set_mem m" ?k "Some ?n"] by blast
    have run: "fh_server_port_entry m p s = Inr (Some (?n, s\<lparr>port_table := pt, port_heap := port_heap s @ [?pe]\<rparr>))"
      using get 2 set(1) by (simp add: fh_server_port_entry_def Let_def)
    let ?s = "s\<lparr>port_table := pt, port_heap := port_heap s @ [?pe]\<rparr>"
    have ports: "dom (srv_ports ?s) \<subseteq> insert ?k (dom (srv_ports s))"
      using set(2)
    proof (elim disjE conjE)
      assume h: "ht_holds int_ops (Suc np) pt ((srv_ports s)(?k \<mapsto> Some ?n))"
      have "srv_ports ?s = (srv_ports s)(?k \<mapsto> Some ?n)" using holds_map [OF h] by (simp add: srv_ports_def)
      then show ?thesis by simp
    next
      assume h: "ht_holds int_ops (Suc np) pt (srv_ports s)"
      have "srv_ports ?s = srv_ports s" using holds_map [OF h] by (simp add: srv_ports_def)
      then show ?thesis by auto
    qed
    have pe: "host_valid nh ?pe" "host_map ?pe = (\<lambda>k. None)"
      using 2(3) holds_map [OF 2(3)] by (simp_all add: host_valid_def host_map_def)
    from set(2) show ?thesis
      using append_port_entry [OF v pe None _ refl] append_port_lost [OF v pe(1) _ refl] run ports
      by (auto simp: srv_grants_def)
  qed
qed

lemma routes_host_update:
  assumes v: "ports_valid s" and e: "e < length (port_heap s)"
    and s': "s' = s\<lparr>port_heap := (port_heap s)[e := pe]\<rparr>"
  shows "srv_ports s' = srv_ports s" "ports_valid s'"
    and "host_map pe = host_map (port_heap s ! e) \<Longrightarrow> srv_routes s' = srv_routes s"
    and "srv_ports s (ucast p) = Some (Some e) \<Longrightarrow> host_map pe = (host_map (port_heap s ! e))(h \<mapsto> Some i) \<Longrightarrow>
      srv_routes s' = (srv_routes s)((p, h) \<mapsto> i)"
proof -
  show ports: "srv_ports s' = srv_ports s" by (simp add: s' srv_ports_def)
  show "ports_valid s'" using v unfolding ports_valid_def ports by (simp add: s')
  show "srv_routes s' = srv_routes s" if "host_map pe = host_map (port_heap s ! e)"
    using that e unfolding srv_routes_def ports
    by (intro ext) (auto simp: route_in_def s' nth_list_update split: option.splits)
  show "srv_routes s' = (srv_routes s)((p, h) \<mapsto> i)"
    if p: "srv_ports s (ucast p) = Some (Some e)" and m: "host_map pe = (host_map (port_heap s ! e))(h \<mapsto> Some i)"
  proof
    fix x :: "u16 \<times> cstr"
    obtain q g where x: "x = (q, g)" by (cases x)
    have other: "e' \<noteq> e" if "srv_ports s (ucast q) = Some (Some e')" "q \<noteq> p" for e'
      using that v p unfolding ports_valid_def by (metis ucast_u16_u64_inject)
    show "srv_routes s' x = ((srv_routes s)((p, h) \<mapsto> i)) x"
    proof (cases "q = p")
      case True
      then show ?thesis
        using p m e x unfolding srv_routes_def ports by (auto simp: route_in_def s')
    next
      case False
      then show ?thesis
        using other x unfolding srv_routes_def ports
        by (auto simp: route_in_def s' split: option.splits)
    qed
  qed
qed

text \<open>The entry for a port after the host name was set in its table, or not.\<close>

lemma host_set_entry:
  assumes hv: "host_valid nh pe"
    and ht: "ht_holds str_ops (Suc nh) ht ((host_map pe)(h \<mapsto> Some i)) \<or> ht_holds str_ops (Suc nh) ht (host_map pe)"
  shows "host_valid (Suc nh) (pe\<lparr>host_config_table := ht\<rparr>)"
    "ht_holds str_ops (Suc nh) ht M \<Longrightarrow> host_map (pe\<lparr>host_config_table := ht\<rparr>) = M"
proof -
  let ?pe' = "pe\<lparr>host_config_table := ht\<rparr>"
  show m: "host_map ?pe' = M" if "ht_holds str_ops (Suc nh) ht M" for M
    using holds_map [OF that] by (simp add: host_map_def)
  from ht show "host_valid (Suc nh) ?pe'"
  proof
    assume new: "ht_holds str_ops (Suc nh) ht ((host_map pe)(h \<mapsto> Some i))"
    then show ?thesis using m [OF new] hv by (auto simp: host_valid_def ran_def split: if_splits)
  next
    assume old: "ht_holds str_ops (Suc nh) ht (host_map pe)"
    then show ?thesis using m [OF old] hv by (simp add: host_valid_def)
  qed
qed

lemma process_id_correct:
  assumes v: "srv_valid np nh s" and n: "np < ht_limit" "nh < ht_limit"
  shows "\<exists>ok s'. fh_server_process_id m i vid s = Inr (ok, s') \<and> srv_valid (Suc np) (Suc nh) s' \<and>
    config s' = config s \<and> dom (srv_ports s') \<subseteq> insert (ucast (port vid)) (dom (srv_ports s)) \<and>
    (srv_grants m \<longrightarrow> ok \<and> srv_routes s' = add_route (i, vid) (srv_routes s))"
proof -
  obtain res where res: "fh_server_port_entry m (port vid) s = Inr res"
    "case res of None \<Rightarrow> \<not> srv_grants m
     | Some (e, s') \<Rightarrow> srv_valid (Suc np) nh s' \<and> e < length (port_heap s') \<and>
         srv_routes s' = srv_routes s \<and> config s' = config s \<and>
         dom (srv_ports s') \<subseteq> insert (ucast (port vid)) (dom (srv_ports s)) \<and>
         (srv_grants m \<longrightarrow> srv_ports s' (ucast (port vid)) = Some (Some e))"
    using port_entry_correct [OF v n(1), of m "port vid"] by blast
  show ?thesis
  proof (cases res)
    case None
    have "srv_valid (Suc np) (Suc nh) s"
      using v host_valid_mono [of nh _ "Suc nh"] by (simp add: srv_valid_def ht_holds_def)
    then show ?thesis
      using res None by (intro exI [of _ False] exI [of _ s]) (auto simp: fh_server_process_id_def)
  next
    case (Some r)
    obtain e s1 where r: "r = (e, s1)" by (cases r)
    let ?pe = "port_heap s1 ! e" and ?h = "hostname vid"
    have v1: "srv_valid (Suc np) nh s1" and e: "e < length (port_heap s1)"
      and same: "srv_routes s1 = srv_routes s" "config s1 = config s"
      and ports: "dom (srv_ports s1) \<subseteq> insert (ucast (port vid)) (dom (srv_ports s))"
      and at: "srv_grants m \<Longrightarrow> srv_ports s1 (ucast (port vid)) = Some (Some e)"
      using res(2) Some r by auto
    have pv: "ports_valid s1" and hv: "host_valid nh ?pe" using v1 e by (simp_all add: srv_valid_def)
    then have hold: "ht_holds str_ops nh (host_config_table ?pe) (host_map ?pe)" by (simp add: host_valid_def)
    obtain ret ht where set: "htable_set str_ops (host_set_mem m) (host_config_table ?pe) ?h (Some i) = Inr (ret, ht)"
      "ht_holds str_ops (Suc nh) ht ((host_map ?pe)(?h \<mapsto> Some i)) \<or>
       \<not> grants (host_set_mem m) \<and> ht_holds str_ops (Suc nh) ht (host_map ?pe)"
      using str_ht.set_holds [OF hold n(2), of "host_set_mem m" ?h "Some i"] by blast
    then have "ht_holds str_ops (Suc nh) ht ((host_map ?pe)(?h \<mapsto> Some i)) \<or> ht_holds str_ops (Suc nh) ht (host_map ?pe)" by blast
    note h = host_set_entry [OF hv this]
    let ?pe' = "?pe\<lparr>host_config_table := ht\<rparr>"
    let ?s = "s1\<lparr>port_heap := (port_heap s1)[e := ?pe']\<rparr>"
    have run: "fh_server_process_id m i vid s = Inr (True, ?s)"
      using res(1) Some r e set(1) by (simp add: fh_server_process_id_def)
    note upd = routes_host_update [OF pv e, of ?s ?pe']
    have "\<forall>pe \<in> set (port_heap ?s). host_valid (Suc nh) pe"
      using v1 h(1) host_valid_mono [of nh _ "Suc nh"] set_update_subset_insert [of "port_heap s1" e ?pe']
      by (auto simp: srv_valid_def)
    then have "srv_valid (Suc np) (Suc nh) ?s" using v1 upd(1,2) by (simp add: srv_valid_def)
    moreover have "srv_routes ?s = add_route (i, vid) (srv_routes s)" if g: "srv_grants m"
    proof -
      have "ht_holds str_ops (Suc nh) ht ((host_map ?pe)(?h \<mapsto> Some i))" using set(2) g by (simp add: srv_grants_def)
      from upd(4) [OF refl at [OF g] h(2) [OF this]] show ?thesis using same(1) by simp
    qed
    ultimately show ?thesis using run same(2) ports upd(1) by (intro exI [of _ True] exI [of _ ?s]) simp
  qed
qed

end
