(* ===== verification/Server_Build.thy ===== *)
theory Server_Build
  imports Server_Route
begin

text \<open>
  The loops of the server: processing a whole configuration, opening the sockets, creating,
  listening and freeing.
\<close>

section \<open>The loops over the configuration\<close>

lemma srv_valid_mono: "srv_valid np nh s \<Longrightarrow> np \<le> np' \<Longrightarrow> nh \<le> nh' \<Longrightarrow> srv_valid np' nh' s"
  using host_valid_mono [of nh _ nh'] by (auto simp: srv_valid_def ht_holds_def)

text \<open>The keys of the ports that identifiers name.\<close>

definition ports_of :: "(nat \<times> fh_config_vhost_id) list \<Rightarrow> u64 set" where
  "ports_of ids = (\<lambda>(i, vid). ucast (port vid)) ` set ids"

lemma ports_of_simps [simp]:
  "ports_of [] = {}" "ports_of ((i, vid) # ids) = insert (ucast (port vid)) (ports_of ids)"
  "ports_of (ids @ ids') = ports_of ids \<union> ports_of ids'"
  by (auto simp: ports_of_def)

lemma process_ids_correct:
  assumes "srv_valid np nh s" "j + n \<le> length (id_list vhost)" "np + n \<le> ht_limit" "nh + n \<le> ht_limit"
  shows "\<exists>ok s'. fh_server_process_ids env i vhost n j s = Inr (ok, s') \<and>
    srv_valid (np + n) (nh + n) s' \<and> config s' = config s \<and>
    dom (srv_ports s') \<subseteq> dom (srv_ports s) \<union> ports_of (map (Pair i) (take n (drop j (id_list vhost)))) \<and>
    ((\<forall>j. srv_grants (env i j)) \<longrightarrow> ok \<and>
       srv_routes s' = fold add_route (map (Pair i) (take n (drop j (id_list vhost)))) (srv_routes s))"
  using assms
proof (induction n arbitrary: np nh s j)
  case (Suc n)
  let ?vid = "id_list vhost ! j"
  have j: "j < length (id_list vhost)" using Suc.prems(2) by simp
  then have split: "take (Suc n) (drop j (id_list vhost)) = ?vid # take n (drop (Suc j) (id_list vhost))"
    by (simp add: Cons_nth_drop_Suc [symmetric])
  obtain ok1 s1 where one: "fh_server_process_id (env i j) i ?vid s = Inr (ok1, s1)"
    "srv_valid (Suc np) (Suc nh) s1" "config s1 = config s"
    "dom (srv_ports s1) \<subseteq> insert (ucast (port ?vid)) (dom (srv_ports s))"
    "srv_grants (env i j) \<longrightarrow> ok1 \<and> srv_routes s1 = add_route (i, ?vid) (srv_routes s)"
    using process_id_correct [OF Suc.prems(1), of "env i j" i ?vid] Suc.prems(3,4) by auto
  show ?case
  proof (cases ok1)
    case False
    have "srv_valid (np + Suc n) (nh + Suc n) s1" using one(2) by (rule srv_valid_mono) simp_all
    then show ?thesis
      using False one j unfolding split by (intro exI [of _ False] exI [of _ s1]) auto
  next
    case True
    obtain ok2 s2 where "fh_server_process_ids env i vhost n (Suc j) s1 = Inr (ok2, s2)"
      "srv_valid (Suc np + n) (Suc nh + n) s2" "config s2 = config s1"
      "dom (srv_ports s2) \<subseteq> dom (srv_ports s1) \<union> ports_of (map (Pair i) (take n (drop (Suc j) (id_list vhost))))"
      "(\<forall>j. srv_grants (env i j)) \<longrightarrow> ok2 \<and>
         srv_routes s2 = fold add_route (map (Pair i) (take n (drop (Suc j) (id_list vhost)))) (srv_routes s1)"
      using Suc.IH [OF one(2), of "Suc j"] Suc.prems(2-4) by auto
    then show ?thesis
      using True one j split by (intro exI [of _ ok2] exI [of _ s2]) auto
  qed
qed (auto intro: exI [of _ True])

lemma process_vhosts_correct:
  assumes "srv_valid np nh s" "i + n \<le> length (vhosts (config s))"
    "list_all (\<lambda>v. id_count v \<le> length (id_list v)) (vhosts (config s))"
    "np + length (concat (map (vhost_ids (config s)) [i ..< i + n])) \<le> ht_limit"
    "nh + length (concat (map (vhost_ids (config s)) [i ..< i + n])) \<le> ht_limit"
  shows "\<exists>ok s'. fh_server_process_vhosts env n i s = Inr (ok, s') \<and> config s' = config s \<and>
    srv_valid (np + length (concat (map (vhost_ids (config s)) [i ..< i + n])))
      (nh + length (concat (map (vhost_ids (config s)) [i ..< i + n]))) s' \<and>
    dom (srv_ports s') \<subseteq> dom (srv_ports s) \<union> ports_of (concat (map (vhost_ids (config s)) [i ..< i + n])) \<and>
    ((\<forall>i j. srv_grants (env i j)) \<longrightarrow> ok \<and>
       srv_routes s' = fold add_route (concat (map (vhost_ids (config s)) [i ..< i + n])) (srv_routes s))"
  using assms
proof (induction n arbitrary: np nh s i)
  case (Suc n)
  let ?cfg = "config s"
  let ?vhost = "vhosts ?cfg ! i" and ?rest = "concat (map (vhost_ids ?cfg) [Suc i ..< Suc i + n])"
  have i: "i < length (vhosts ?cfg)" using Suc.prems(2) by simp
  then have count: "id_count ?vhost \<le> length (id_list ?vhost)"
    using Suc.prems(3) by (simp add: list_all_length)
  have split: "concat (map (vhost_ids ?cfg) [i ..< i + Suc n]) = vhost_ids ?cfg i @ ?rest"
    by (simp add: upt_conv_Cons del: upt_Suc)
  have len: "length (vhost_ids ?cfg i) = id_count ?vhost" using count by (simp add: vhost_ids_def)
  have fits: "0 + id_count ?vhost \<le> length (id_list ?vhost)" "np + id_count ?vhost \<le> ht_limit"
    "nh + id_count ?vhost \<le> ht_limit"
    using count Suc.prems(4,5) len unfolding split length_append by simp_all
  obtain ok1 s1 where one: "fh_server_process_ids env i ?vhost (id_count ?vhost) 0 s = Inr (ok1, s1)"
    "srv_valid (np + id_count ?vhost) (nh + id_count ?vhost) s1" "config s1 = ?cfg"
    "dom (srv_ports s1) \<subseteq> dom (srv_ports s) \<union> ports_of (vhost_ids ?cfg i)"
    "(\<forall>j. srv_grants (env i j)) \<longrightarrow> ok1 \<and> srv_routes s1 = fold add_route (vhost_ids ?cfg i) (srv_routes s)"
    using process_ids_correct [OF Suc.prems(1) fits, of env i]
    unfolding vhost_ids_def drop_0 by blast
  show ?case
  proof (cases ok1)
    case False
    have "srv_valid (np + length (vhost_ids ?cfg i @ ?rest)) (nh + length (vhost_ids ?cfg i @ ?rest)) s1"
      using one(2) by (rule srv_valid_mono) (simp_all add: len)
    moreover have "dom (srv_ports s1) \<subseteq> dom (srv_ports s) \<union> ports_of (vhost_ids ?cfg i @ ?rest)"
      using one(4) unfolding ports_of_simps by blast
    moreover have "\<not> (\<forall>i j. srv_grants (env i j))" using one(5) False by blast
    moreover have "fh_server_process_vhosts env (Suc n) i s = Inr (False, s1)" using False one(1) i by simp
    ultimately show ?thesis
      unfolding split using one(3) by (intro exI [of _ False] exI [of _ s1]) blast
  next
    case True
    have "np + id_count ?vhost + length ?rest \<le> ht_limit" "nh + id_count ?vhost + length ?rest \<le> ht_limit"
      using Suc.prems(4,5) len unfolding split length_append by simp_all
    then obtain ok2 s2 where two: "fh_server_process_vhosts env n (Suc i) s1 = Inr (ok2, s2)"
      "config s2 = ?cfg" "srv_valid (np + id_count ?vhost + length ?rest) (nh + id_count ?vhost + length ?rest) s2"
      "dom (srv_ports s2) \<subseteq> dom (srv_ports s1) \<union> ports_of ?rest"
      "(\<forall>i j. srv_grants (env i j)) \<longrightarrow> ok2 \<and> srv_routes s2 = fold add_route ?rest (srv_routes s1)"
      using Suc.IH [OF one(2), of "Suc i", unfolded one(3)] Suc.prems(2,3) by auto
    have "dom (srv_ports s2) \<subseteq> dom (srv_ports s) \<union> ports_of (vhost_ids ?cfg i @ ?rest)"
      using one(4) two(4) unfolding ports_of_simps by blast
    moreover have "fh_server_process_vhosts env (Suc n) i s = Inr (ok2, s2)" using True one(1) two(1) i by simp
    moreover have "srv_valid (np + length (vhost_ids ?cfg i @ ?rest)) (nh + length (vhost_ids ?cfg i @ ?rest)) s2"
      using two(3) unfolding length_append len add.assoc .
    moreover have "srv_routes s2 = fold add_route (vhost_ids ?cfg i @ ?rest) (srv_routes s)" "ok2"
      if "\<forall>i j. srv_grants (env i j)"
      using that one(5) two(5) by (simp_all del: map_append concat_append upt_Suc)
    ultimately show ?thesis
      unfolding split using two(2) by (intro exI [of _ ok2] exI [of _ s2]) blast
  qed
qed (auto intro: exI [of _ True])

section \<open>The sockets\<close>

text \<open>Changing only sockets changes neither validity nor routes.\<close>

lemma sockets_only:
  assumes "port_table s' = port_table s"
    "map host_config_table (port_heap s') = map host_config_table (port_heap s)"
  shows "srv_ports s' = srv_ports s" "srv_routes s' = srv_routes s" "srv_valid np nh s' = srv_valid np nh s"
proof -
  have len: "length (port_heap s') = length (port_heap s)"
    using assms(2) by (rule map_eq_imp_length_eq)
  have tab: "host_config_table (port_heap s' ! e) = host_config_table (port_heap s ! e)"
    if "e < length (port_heap s)" for e
    using assms(2) that len by (metis nth_map)
  then have hm: "host_map (port_heap s' ! e) = host_map (port_heap s ! e)"
    and hv: "host_valid nh (port_heap s' ! e) = host_valid nh (port_heap s ! e)"
    if "e < length (port_heap s)" for e
    using that by (simp_all add: host_map_def host_valid_def)
  show ports: "srv_ports s' = srv_ports s" by (simp add: srv_ports_def assms(1))
  show "srv_routes s' = srv_routes s"
    unfolding srv_routes_def ports using hm len
    by (intro ext) (auto simp: route_in_def split: option.splits)
  have "(\<forall>pe \<in> set (port_heap s'). host_valid nh pe) = (\<forall>pe \<in> set (port_heap s). host_valid nh pe)"
    using hv len by (metis in_set_conv_nth)
  then show "srv_valid np nh s' = srv_valid np nh s"
    unfolding srv_valid_def ports_valid_def ports assms(1) len by simp
qed

definition socket_of :: "srv_net \<Rightarrow> u64 \<Rightarrow> int" where
  "socket_of net k = fst (fh_server_create_socket net (ucast k))"

text \<open>What is logged: a line for each port, up to the first one whose socket could not be made.\<close>

definition sockets_logged :: "srv_net \<Rightarrow> u64 list \<Rightarrow> log_call list" where
  "sockets_logged net ks = concat (map (\<lambda>k. created_call (socket_of net k) (ucast k))
     (takeWhile (\<lambda>k. 0 \<le> socket_of net k) ks))"

definition port_keys :: "fh_server \<Rightarrow> u64 list" where
  "port_keys s = map fst (ht_alist (port_table s))"

lemma port_keys_dom:
  "srv_valid np nh s \<Longrightarrow> distinct (port_keys s) \<and> set (port_keys s) = dom (srv_ports s)"
  using inv_distinct [of int_ops "port_table s"]
  by (simp add: port_keys_def srv_ports_def dom_map_of_conv_image_fst srv_valid_def ht_holds_def)

lemma open_sockets_correct:
  assumes "\<forall>it \<in> set es. \<exists>e < length (port_heap s). data it = Some e"
  shows "\<exists>ok s'. fh_server_open_sockets net es s = Inr (ok, s', sockets_logged net (map key es)) \<and> port_table s' = port_table s \<and>
    config s' = config s \<and> map host_config_table (port_heap s') = map host_config_table (port_heap s) \<and>
    ok = (\<forall>it \<in> set es. 0 \<le> socket_of net (key it)) \<and>
    (\<forall>e. e \<notin> (\<lambda>it. the (data it)) ` set es \<longrightarrow> e < length (port_heap s) \<longrightarrow> port_heap s' ! e = port_heap s ! e) \<and>
    (ok \<and> distinct (map (\<lambda>it. the (data it)) es) \<longrightarrow>
       (\<forall>it \<in> set es. sockfd (port_heap s' ! the (data it)) = socket_of net (key it)))"
  using assms
proof (induction es arbitrary: s)
  case (Cons it es)
  obtain e where e: "e < length (port_heap s)" "data it = Some e" using Cons.prems by auto
  obtain fd closed where c: "fh_server_create_socket net (ucast (key it)) = (fd, closed)" by fastforce
  then have fd: "socket_of net (key it) = fd" by (simp add: socket_of_def)
  show ?case
  proof (cases "fd < 0")
    case True
    then show ?thesis using e c fd by (intro exI [of _ False] exI [of _ s]) (auto simp: sockets_logged_def)
  next
    case False
    let ?pe = "(port_heap s ! e)\<lparr>sockfd := fd\<rparr>"
    let ?s = "s\<lparr>port_heap := (port_heap s)[e := ?pe]\<rparr>"
    have tabs: "map host_config_table (port_heap ?s) = map host_config_table (port_heap s)"
      using e(1) by (simp add: map_update list_update_same_conv)
    obtain ok s' where "fh_server_open_sockets net es ?s = Inr (ok, s', sockets_logged net (map key es))" and
      r: "port_table s' = port_table s" "config s' = config s"
      "map host_config_table (port_heap s') = map host_config_table (port_heap ?s)"
      "ok = (\<forall>it \<in> set es. 0 \<le> socket_of net (key it))"
      "\<forall>e'. e' \<notin> (\<lambda>it. the (data it)) ` set es \<longrightarrow> e' < length (port_heap s) \<longrightarrow>
         port_heap s' ! e' = port_heap ?s ! e'"
      "ok \<and> distinct (map (\<lambda>it. the (data it)) es) \<longrightarrow>
         (\<forall>it \<in> set es. sockfd (port_heap s' ! the (data it)) = socket_of net (key it))"
      using Cons.IH [of ?s] Cons.prems by auto
    then have run: "fh_server_open_sockets net (it # es) s = Inr (ok, s', sockets_logged net (map key (it # es)))"
      using e c False fd by (simp add: sockets_logged_def)
    have "sockfd (port_heap s' ! e) = fd" if "e \<notin> (\<lambda>it. the (data it)) ` set es"
      using r(5) that e(1) by simp
    then show ?thesis
      using run r tabs e fd False by (intro exI [of _ ok] exI [of _ s']) auto
  qed
next
  case Nil
  show ?case by (intro exI [of _ True] exI [of _ s]) (simp add: sockets_logged_def)
qed

text \<open>The entries the iteration meets, in a valid server.\<close>

lemma port_entries_correct:
  assumes v: "srv_valid np nh s"
  obtains es where "port_entries s = Inr (Some es)" "map entry_pair es = ht_alist (port_table s)"
    "\<forall>it \<in> set es. \<exists>e < length (port_heap s). data it = Some e"
    "distinct (map (\<lambda>it. the (data it)) es)"
    "\<forall>k e. srv_ports s k = Some (Some e) \<longleftrightarrow> (\<exists>it \<in> set es. key it = k \<and> data it = Some e)"
proof -
  have inv: "ht_inv int_ops (port_table s)" and pv: "ports_valid s"
    using v by (simp_all add: srv_valid_def ht_holds_def)
  then obtain ps where rep: "ht_rep int_ops (port_table s) ps" by (auto simp: ht_inv_def)
  let ?es = "map (\<lambda>p. entries (port_table s) ! unat p) ps"
  have run: "port_entries s = Inr (Some ?es)" using rep_foreach [OF rep] by (simp add: port_entries_def)
  have al: "map entry_pair ?es = ht_alist (port_table s)"
    using rep_alist [OF rep] by (simp add: pairs_of_def comp_def)
  have d: "distinct (map fst (ht_alist (port_table s)))" by (rule inv_distinct [OF inv])
  have mem: "srv_ports s k = Some x \<longleftrightarrow> (\<exists>it \<in> set ?es. key it = k \<and> data it = x)" for k x
  proof -
    have "srv_ports s k = Some x \<longleftrightarrow> (k, x) \<in> set (ht_alist (port_table s))"
      using d by (simp add: srv_ports_def map_of_eq_Some_iff)
    also have "\<dots> \<longleftrightarrow> (k, x) \<in> entry_pair ` set ?es"
      by (simp only: al [symmetric] set_map)
    also have "\<dots> \<longleftrightarrow> (\<exists>it \<in> set ?es. key it = k \<and> data it = x)"
      by (auto simp: entry_pair_def)
    finally show ?thesis .
  qed
  have some: "\<exists>e < length (port_heap s). data it = Some e" if "it \<in> set ?es" for it
  proof -
    have "srv_ports s (key it) = Some (data it)" using that mem by blast
    then show ?thesis using pv by (cases "data it") (auto simp: ports_valid_def ran_def)
  qed
  have keys: "distinct (map key ?es)"
    using d by (simp add: al [symmetric] entry_pair_def comp_def)
  have "inj_on (\<lambda>it. the (data it)) (set ?es)"
  proof (rule inj_onI)
    fix a b assume ab: "a \<in> set ?es" "b \<in> set ?es" "the (data a) = the (data b)"
    have "srv_ports s (key a) = Some (data a)" "srv_ports s (key b) = Some (data b)"
      using ab mem by blast+
    moreover have "data a = data b" using some [OF ab(1)] some [OF ab(2)] ab(3) by auto
    ultimately have "key a = key b"
      using pv some [OF ab(1)] unfolding ports_valid_def by metis
    then show "a = b" using keys ab(1,2) unfolding distinct_map by (auto dest: inj_onD)
  qed
  moreover have "distinct ?es" using keys unfolding distinct_map ..
  ultimately have "distinct (map (\<lambda>it. the (data it)) ?es)" by (simp only: distinct_map)
  then show ?thesis using that [OF run al] some mem by blast
qed

section \<open>Creating a server\<close>

definition sockets_ok :: "srv_net \<Rightarrow> fh_server \<Rightarrow> bool" where
  "sockets_ok net s \<longleftrightarrow> (\<forall>k e. srv_ports s k = Some (Some e) \<longrightarrow>
     0 \<le> socket_of net k \<and> sockfd (port_heap s ! e) = socket_of net k)"

lemma process_config_correct:
  assumes v: "srv_valid 0 0 s" and cfg: "config_ok (config s)" and new: "srv_routes s = (\<lambda>_. None)"
    and none: "srv_ports s = (\<lambda>_. None)"
  shows "\<exists>ok s' ks. fh_server_process_config env net s = Inr (Some (ok, s', sockets_logged net ks)) \<and>
    distinct ks \<and> set ks \<subseteq> ports_of (config_ids (config s)) \<and>
    (ok \<longrightarrow> ks = port_keys s' \<and> (\<forall>k \<in> set ks. 0 \<le> socket_of net k)) \<and>
    srv_valid (length (config_ids (config s))) (length (config_ids (config s))) s' \<and>
    (ok \<longrightarrow> sockets_ok net s') \<and>
    ((\<forall>i j. srv_grants (env i j)) \<longrightarrow> srv_routes s' = config_routes (config s) \<and>
       ((\<forall>k. 0 \<le> socket_of net k) \<longrightarrow> ok))"
proof -
  let ?n = "length (config_ids (config s))"
  obtain ok1 s1 where one: "fh_server_process_vhosts env (vhost_count (config s)) 0 s = Inr (ok1, s1)"
    "config s1 = config s" "srv_valid ?n ?n s1" "dom (srv_ports s1) \<subseteq> ports_of (config_ids (config s))"
    "(\<forall>i j. srv_grants (env i j)) \<longrightarrow> ok1 \<and> srv_routes s1 = config_routes (config s)"
    using process_vhosts_correct [OF v, of 0 "vhost_count (config s)" env] cfg
    unfolding config_ok_def config_ids_def config_routes_def new none dom_empty add_0 Un_empty_left by blast
  show ?thesis
  proof (cases ok1)
    case False
    then have "fh_server_process_config env net s = Inr (Some (False, s1, sockets_logged net []))"
      using one(1) by (simp add: fh_server_process_config_def sockets_logged_def)
    moreover have "\<not> (\<forall>i j. srv_grants (env i j))" using one(5) False by blast
    ultimately show ?thesis using one(3) by (intro exI [of _ False] exI [of _ s1] exI [of _ "[]"]) auto
  next
    case True
    obtain es where es: "port_entries s1 = Inr (Some es)" "map entry_pair es = ht_alist (port_table s1)"
      "\<forall>it \<in> set es. \<exists>e < length (port_heap s1). data it = Some e"
      "distinct (map (\<lambda>it. the (data it)) es)"
      "\<forall>k e. srv_ports s1 k = Some (Some e) \<longleftrightarrow> (\<exists>it \<in> set es. key it = k \<and> data it = Some e)"
      using one(3) by (rule port_entries_correct)
    have keys: "map key es = port_keys s1" unfolding port_keys_def es(2) [symmetric] by (simp add: entry_pair_def)
    obtain ok s2 where run: "fh_server_open_sockets net es s1 = Inr (ok, s2, sockets_logged net (port_keys s1))" and
      two: "port_table s2 = port_table s1"
      "map host_config_table (port_heap s2) = map host_config_table (port_heap s1)"
      "ok = (\<forall>it \<in> set es. 0 \<le> socket_of net (key it))"
      "ok \<and> distinct (map (\<lambda>it. the (data it)) es) \<longrightarrow>
         (\<forall>it \<in> set es. sockfd (port_heap s2 ! the (data it)) = socket_of net (key it))"
      using open_sockets_correct [OF es(3), of net] unfolding keys by blast
    note only = sockets_only [OF two(1,2)]
    have "sockets_ok net s2" if ok
      unfolding sockets_ok_def only(1) using es(5) that two(3,4) es(4) by fastforce
    moreover have "fh_server_process_config env net s = Inr (Some (ok, s2, sockets_logged net (port_keys s1)))"
      using True one(1) es(1) run by (simp add: fh_server_process_config_def)
    moreover have "srv_valid ?n ?n s2" unfolding only(3) by (rule one(3))
    moreover have "ok" if "\<forall>k. 0 \<le> socket_of net k" using that two(3) by simp
    moreover have "port_keys s2 = port_keys s1" by (simp add: port_keys_def two(1))
    moreover have "ok \<longrightarrow> (\<forall>k \<in> set (port_keys s1). 0 \<le> socket_of net k)" using two(3) unfolding keys [symmetric] by simp
    moreover have "distinct (port_keys s1)" "set (port_keys s1) \<subseteq> ports_of (config_ids (config s))"
      using port_keys_dom [OF one(3)] one(4) by simp_all
    ultimately show ?thesis
      using one(5) by (intro exI [of _ ok] exI [of _ s2] exI [of _ "port_keys s1"]) (simp add: only(2))
  qed
qed

lemma fh_server_create_correct:
  assumes cfg: "config_ok cfg"
  shows "\<exists>r ks. fh_server_create granted m env net cfg = Inr (Some (r, sockets_logged net ks)) \<and>
    distinct ks \<and> set ks \<subseteq> ports_of (config_ids cfg) \<and>
    (\<forall>s. r = Created s \<longrightarrow> srv_valid (length (config_ids cfg)) (length (config_ids cfg)) s \<and> sockets_ok net s \<and>
       ks = port_keys s \<and> (\<forall>k \<in> set ks. 0 \<le> socket_of net k)) \<and>
    (granted \<and> grants m \<and> (\<forall>i j. srv_grants (env i j)) \<and> (\<forall>k. 0 \<le> socket_of net k) \<longrightarrow>
       (\<exists>s. r = Created s \<and> srv_routes s = config_routes cfg))"
proof -
  consider "\<not> granted" | "granted" "htable_create m 16 = Inr None"
    | pt where "granted" "htable_create m 16 = Inr (Some pt)" "ht_holds int_ops 0 pt (\<lambda>k. None)"
    using int_ht.create_holds [of 16 m 0] by force
  then show ?thesis
  proof cases
    case 1
    then show ?thesis by (intro exI [of _ "Not_created []"] exI [of _ "[]"]) (simp add: fh_server_create_def sockets_logged_def)
  next
    case 2
    then show ?thesis using htable_create_granted [of m 16]
      by (intro exI [of _ "Not_created [Server_released]"] exI [of _ "[]"]) (auto simp: fh_server_create_def sockets_logged_def)
  next
    case 3
    let ?s = "\<lparr>config = cfg, port_table = pt, port_heap = []\<rparr>"
    have ports: "srv_ports ?s = (\<lambda>k. None)" using holds_map [OF 3(3)] by (simp add: srv_ports_def)
    have v: "srv_valid 0 0 ?s" using 3(3) by (simp add: srv_valid_def ports ports_valid_def)
    have new: "srv_routes ?s = (\<lambda>_. None)"
      unfolding srv_routes_def ports by (intro ext) (simp add: route_in_def split: prod.splits)
    obtain ok s ks where r: "fh_server_process_config env net ?s = Inr (Some (ok, s, sockets_logged net ks))"
      "srv_valid (length (config_ids cfg)) (length (config_ids cfg)) s" "ok \<longrightarrow> sockets_ok net s"
      "(\<forall>i j. srv_grants (env i j)) \<longrightarrow> srv_routes s = config_routes cfg \<and>
         ((\<forall>k. 0 \<le> socket_of net k) \<longrightarrow> ok)"
      "distinct ks" "set ks \<subseteq> ports_of (config_ids cfg)" "ok \<longrightarrow> ks = port_keys s \<and> (\<forall>k \<in> set ks. 0 \<le> socket_of net k)"
      using process_config_correct [OF v _ new ports, of env net] cfg unfolding fh_server.simps by blast
    show ?thesis
    proof (cases ok)
      case True
      then show ?thesis using r 3(1,2)
        by (intro exI [of _ "Created s"] exI [of _ ks]) (simp add: fh_server_create_def)
    next
      case False
      have "ht_inv int_ops (port_table s)" using r(2) by (simp add: srv_valid_def ht_holds_def)
      then obtain ps where rep: "ht_rep int_ops (port_table s) ps" by (auto simp: ht_inv_def)
      obtain rs where "htable_free int_ops (Suc (ht_count (port_table s))) (port_table s) = Inr (Some rs)"
        using htable_free_with_cleanup_correct [OF rep, of _ False] by (simp add: htable_free_def)
      then show ?thesis using r 3(1,2) False
        by (intro exI [of _ "Not_created (map Port_table_part rs @ [Server_released])"] exI [of _ ks])
          (auto simp: fh_server_create_def)
    qed
  qed
qed

section \<open>Freeing and listening\<close>

text \<open>The port entries a sequence of releases frees.\<close>

fun freed_entries :: "srv_release list \<Rightarrow> nat list" where
  "freed_entries [] = []"
| "freed_entries (Port_entry_released e # rs) = e # freed_entries rs"
| "freed_entries (Host_table_part r # rs) = freed_entries rs"
| "freed_entries (Port_table_part r # rs) = freed_entries rs"
| "freed_entries (Server_released # rs) = freed_entries rs"

lemma freed_entries_append [simp]: "freed_entries (xs @ ys) = freed_entries xs @ freed_entries ys"
  by (induction xs rule: freed_entries.induct) auto

lemma freed_entries_parts [simp]:
  "freed_entries (map Host_table_part rs) = []" "freed_entries (map Port_table_part qs) = []"
  by (induction rs, simp_all) (induction qs, simp_all)

lemma entry_cleanup_correct:
  assumes v: "srv_valid np nh s" and e: "e < length (port_heap s)"
  shows "\<exists>xs. fh_server_port_table_entry_cleanup s (Some e) = Inr (Some xs) \<and> freed_entries xs = [e]"
proof -
  let ?t = "host_config_table (port_heap s ! e)"
  have "ht_inv str_ops ?t"
    using v e by (simp add: srv_valid_def host_valid_def ht_holds_def)
  then obtain ps where rep: "ht_rep str_ops ?t ps" by (auto simp: ht_inv_def)
  obtain rs where "htable_free str_ops (Suc (ht_count ?t)) ?t = Inr (Some rs)"
    using htable_free_with_cleanup_correct [OF rep, of _ False] by (simp add: htable_free_def)
  then show ?thesis using e by (simp add: fh_server_port_table_entry_cleanup_def)
qed

lemma releases_correct:
  assumes "srv_valid np nh s" "\<forall>d \<in> snd ` set xs. \<exists>e < length (port_heap s). d = Some e"
  shows "\<exists>out. srv_releases s (map (\<lambda>(k, d). Data_released d) xs @
      [Deleted_list_released, Index_list_released, Entries_released, Table_released]) = Inr (Some out) \<and>
    freed_entries out = map (\<lambda>(k, d). the d) xs"
  using assms(2)
proof (induction xs)
  case (Cons x xs)
  obtain k e where x: "x = (k, Some e)" "e < length (port_heap s)" using Cons.prems by (cases x) auto
  obtain ys where "fh_server_port_table_entry_cleanup s (Some e) = Inr (Some ys)" "freed_entries ys = [e]"
    using entry_cleanup_correct [OF assms(1) x(2)] by blast
  moreover obtain out where "srv_releases s (map (\<lambda>(k, d). Data_released d) xs @
      [Deleted_list_released, Index_list_released, Entries_released, Table_released]) = Inr (Some out)"
    "freed_entries out = map (\<lambda>(k, d). the d) xs"
    using Cons by auto
  ultimately show ?case using x by simp
qed simp

lemma ports_data:
  assumes "srv_valid np nh s" "d \<in> snd ` set (ht_alist (port_table s))"
  shows "\<exists>e < length (port_heap s). d = Some e"
proof -
  have inv: "ht_inv int_ops (port_table s)" using assms(1) by (simp add: srv_valid_def ht_holds_def)
  obtain k where "(k, d) \<in> set (ht_alist (port_table s))" using assms(2) by auto
  then have "srv_ports s k = Some d"
    using inv_distinct [OF inv] by (simp add: srv_ports_def map_of_eq_Some_iff)
  then show ?thesis using assms(1) by (cases d) (auto simp: srv_valid_def ports_valid_def ran_def)
qed

lemma fh_server_free_correct:
  assumes v: "srv_valid np nh s"
  shows "\<exists>xs. fh_server_free s = Inr (Some xs) \<and> distinct (freed_entries xs) \<and>
    set (freed_entries xs) = {e. Some e \<in> ran (srv_ports s)}"
proof -
  have inv: "ht_inv int_ops (port_table s)" using v by (simp add: srv_valid_def ht_holds_def)
  then obtain ps where rep: "ht_rep int_ops (port_table s) ps" by (auto simp: ht_inv_def)
  let ?al = "ht_alist (port_table s)"
  have parts: "concat (map (\<lambda>(k, d). map Key_released (HT_KEY_FREE_CB int_ops k) @
      (if True then [Data_released d] else [])) xs) = map (\<lambda>(k, d). Data_released d) xs" for xs
    by (induction xs) (auto simp: int_ops_def)
  have free: "htable_free_with_cleanup int_ops (Suc (ht_count (port_table s))) (port_table s) True =
      Inr (Some (map (\<lambda>(k, d). Data_released d) ?al @
        [Deleted_list_released, Index_list_released, Entries_released, Table_released]))"
    using htable_free_with_cleanup_correct [OF rep, of "Suc (ht_count (port_table s))" True]
    unfolding parts by simp
  obtain out where out: "srv_releases s (map (\<lambda>(k, d). Data_released d) ?al @
      [Deleted_list_released, Index_list_released, Entries_released, Table_released]) = Inr (Some out)"
    "freed_entries out = map (\<lambda>(k, d). the d) ?al"
    using releases_correct [OF v] ports_data [OF v] by blast
  obtain es where es: "port_entries s = Inr (Some es)" "map entry_pair es = ?al"
    "\<forall>it \<in> set es. \<exists>e < length (port_heap s). data it = Some e"
    "distinct (map (\<lambda>it. the (data it)) es)"
    "\<forall>k e. srv_ports s k = Some (Some e) \<longleftrightarrow> (\<exists>it \<in> set es. key it = k \<and> data it = Some e)"
    using v by (rule port_entries_correct)
  have fe: "freed_entries out = map (\<lambda>it. the (data it)) es"
    unfolding out(2) es(2) [symmetric] by (simp add: entry_pair_def comp_def)
  have "set (freed_entries out) = {e. Some e \<in> ran (srv_ports s)}"
    unfolding fe using es(3,5) by (auto simp: ran_def) force+
  then show ?thesis
    using free out(1) fe es(4) by (simp add: fh_server_free_def)
qed

text \<open>Listening logs a line for each port, up to the first one that fails.\<close>

lemma fh_server_listen_correct:
  assumes v: "srv_valid np nh s" and ok: "sockets_ok net s"
  defines "good \<equiv> \<lambda>k. 0 \<le> net_listen net (socket_of net k)"
  shows "fh_server_listen net s = Inr (Some (\<forall>k \<in> set (port_keys s). good k,
    concat (map (\<lambda>k. listening_call (ucast k)) (takeWhile good (port_keys s)))))"
proof -
  obtain es where es: "port_entries s = Inr (Some es)" "map entry_pair es = ht_alist (port_table s)"
    "\<forall>it \<in> set es. \<exists>e < length (port_heap s). data it = Some e"
    "\<forall>k e. srv_ports s k = Some (Some e) \<longleftrightarrow> (\<exists>it \<in> set es. key it = k \<and> data it = Some e)"
    using v by (rule port_entries_correct)
  have "\<forall>it \<in> set es. \<exists>e < length (port_heap s). data it = Some e \<and> sockfd (port_heap s ! e) = socket_of net (key it)"
  proof
    fix it assume it: "it \<in> set es"
    then obtain e where e: "e < length (port_heap s)" "data it = Some e" using es(3) by blast
    then have "srv_ports s (key it) = Some (Some e)" using es(4) it by blast
    then show "\<exists>e < length (port_heap s). data it = Some e \<and> sockfd (port_heap s ! e) = socket_of net (key it)"
      using ok e unfolding sockets_ok_def by blast
  qed
  then have "fh_server_listen_loop net es s = Inr (\<forall>k \<in> set (map key es). good k,
      concat (map (\<lambda>k. listening_call (ucast k)) (takeWhile good (map key es))))"
    by (induction es) (auto simp: good_def not_less)
  moreover have "map key es = port_keys s" unfolding port_keys_def es(2) [symmetric] by (simp add: entry_pair_def)
  ultimately show ?thesis using es(1) by (simp add: fh_server_listen_def)
qed

end
