(* ===== verification/Freehttpd.thy ===== *)
theory Freehttpd
  imports Server_Build Htable_Order
begin

text \<open>
  \<open>src/src/progs/freehttpd.c\<close>: the built-in configuration and \<open>main\<close>, with the texts it prints and
  the lines it logs, those of the server's functions included. The results of \<open>getopt_long\<close> are a parameter, and so are the names \<open>configure\<close>
  gives the package.
\<close>

section \<open>The built-in configuration\<close>

definition localhost :: cstr where
  "localhost = c_string ''localhost''"

definition example_com :: cstr where
  "example_com = c_string ''example.com''"

definition var_www_html :: cstr where
  "var_www_html = c_string ''/var/www/html''"

definition main_config :: fh_config where
  "main_config = \<lparr>
     vhosts = [
       \<lparr>id_list = [\<lparr>hostname = localhost, port = 8080\<rparr>], id_count = 1, docroot = var_www_html\<rparr>,
       \<lparr>id_list = [\<lparr>hostname = localhost, port = 8443\<rparr>], id_count = 1, docroot = var_www_html\<rparr>,
       \<lparr>id_list = [\<lparr>hostname = example_com, port = 8443\<rparr>], id_count = 1, docroot = var_www_html\<rparr>],
     vhost_count = 2\<rparr>"

section \<open>The main function\<close>

text \<open>
  The option loop: every option it knows or does not know exits at once; \<open>None\<close> is leaving the
  loop, when \<open>getopt_long\<close> returns \<open>-1\<close>.
\<close>

definition EXIT_SUCCESS :: int where "EXIT_SUCCESS = 0"
definition EXIT_FAILURE :: int where "EXIT_FAILURE = 1"

text \<open>
  What \<open>main\<close> finds: its name, the strings of \<open>config.h\<close>, whether the standard streams are terminals,
  the clock when it starts and when each line is logged, and the text of the error it reports.
\<close>

record main_env =
  argv0 :: string
  PACKAGE_NAME :: string
  PACKAGE_VERSION :: string
  FH_TARGET_SYSTEM_TYPE :: string
  out_tty :: bool
  err_tty :: bool
  clock_start :: u64
  clock_log :: "nat \<Rightarrow> u64"
  error_text :: string

text \<open>Text on standard output, or a call of \<open>vfprintf\<close> with its arguments by the log.\<close>

datatype main_output = Main_stdout string | Main_log log_stream string "string list"

definition newline :: string where "newline = [CHR 0x0A]"

definition usage :: "main_env \<Rightarrow> string" where
  "usage me = concat (map (\<lambda>l. l @ newline) [
     ''freehttpd is lightweight HTTP server daemon.'',
     [],
     ''Usage:'',
     ''  '' @ argv0 me @ '' [option...]'',
     [],
     ''Options:'',
     ''  -h, --help      Show this help and exit.'',
     ''  -V, --version   Show version information.'',
     [],
     ''Bug reports and general messages can be sent'',
     ''to <rakinar2@osndevs.org> directly.''])"

definition show_version :: "main_env \<Rightarrow> string" where
  "show_version me = concat (map (\<lambda>l. l @ newline) [
     PACKAGE_NAME me @ '' version '' @ PACKAGE_VERSION me @ '' ('' @ FH_TARGET_SYSTEM_TYPE me @ '')'',
     ''License GPLv3.0+: This is free software.'',
     [],
     ''Written by Ar Rakin.''])"

definition main_options :: "main_env \<Rightarrow> int \<Rightarrow> (int \<times> main_output list) option" where
  "main_options me c =
     (if c = -1 then None
      else if c = of_char (CHR ''h'') then Some (EXIT_SUCCESS, [Main_stdout (usage me)])
      else if c = of_char (CHR ''V'') then Some (EXIT_SUCCESS, [Main_stdout (show_version me)])
      else Some (EXIT_FAILURE, []))"

text \<open>
  What \<open>getopt_long\<close> is given: each long option with whether it takes an argument and the letter it
  stands for (the array lacks the element of zeros that ends it), and the letters.
\<close>

definition long_options :: "(string \<times> bool \<times> char) list" where
  "long_options = [(''help'', False, CHR ''h''), (''version'', False, CHR ''V'')]"

definition short_options :: string where "short_options = ''hV''"

lemma listed_options_succeed:
  assumes "c \<in> set short_options \<or> (\<exists>name arg. (name, arg, c) \<in> set long_options)"
  shows "\<exists>text. main_options me (of_char c) = Some (EXIT_SUCCESS, [Main_stdout text])"
  using assms by (auto simp: short_options_def long_options_def main_options_def)

text \<open>The message of \<open>fh_pr_err\<close>; the module name of the file is \<open>main\<close>.\<close>

definition main_error_format :: string where
  "main_error_format = ''Unable to create server: %s''"

definition main_error_call :: "main_env \<Rightarrow> log_call list" where
  "main_error_call me = fh_pr_err (Some ''main'') main_error_format [error_text me]"

text \<open>The calls of \<open>fh_log\<close> of a run, in their order.\<close>

definition main_print :: "(u64 \<Rightarrow> string) \<Rightarrow> main_env \<Rightarrow> fh_log_state \<Rightarrow> log_call list \<Rightarrow> main_output list" where
  "main_print show_seconds me lg calls = map (\<lambda>(i, c). case c of Log_call level format args \<Rightarrow>
     let (stream, line) = fh_log show_seconds (clock_log me i) lg level format
     in Main_log stream line args) (enumerate 0 calls)"

definition log_zero :: fh_log_state where
  "log_zero = \<lparr>start_time = 0, supports_color = False\<rparr>"

definition main ::
  "(u64 \<Rightarrow> string) \<Rightarrow> main_env \<Rightarrow> int \<Rightarrow> bool \<Rightarrow> (u64, nat) ht_mem \<Rightarrow> srv_env \<Rightarrow> srv_net \<Rightarrow>
   (int \<times> main_output list \<times> srv_release list) option checked"
where
  "main show_seconds me c granted m env net =
     (case main_options me c of
        Some (status, out) \<Rightarrow> Inr (Some (status, out, []))
      | None \<Rightarrow>
          let lg = fh_log_init (clock_start me) (out_tty me) (err_tty me) log_zero
          in and_then (fh_server_create granted m env net main_config) (\<lambda>res.
            case res of
              None \<Rightarrow> Inr None
            | Some (Not_created rs, created) \<Rightarrow>
                Inr (Some (EXIT_FAILURE, main_print show_seconds me lg (created @ main_error_call me), rs))
            | Some (Created s, created) \<Rightarrow>
                and_then (fh_server_listen net s) (\<lambda>listening.
                case listening of
                  None \<Rightarrow> Inr None
                | Some (ok, listened) \<Rightarrow>
                    and_then (fh_server_free s) (\<lambda>rs.
                    Inr (map_option (\<lambda>rs.
                      (0, main_print show_seconds me lg (created @ listened), rs)) rs)))))"

section \<open>What the configuration routes\<close>

lemma hosts_differ: "localhost \<noteq> example_com"
  by (simp add: localhost_def example_com_def)

lemma main_config_ids:
  "config_ids main_config = [(0, \<lparr>hostname = localhost, port = 8080\<rparr>), (1, \<lparr>hostname = localhost, port = 8443\<rparr>)]"
  by (simp add: config_ids_def vhost_ids_def main_config_def upt_rec)

lemma main_config_ok: "config_ok main_config"
  unfolding config_ok_def main_config_ids by (simp add: main_config_def ht_limit_def)

lemma main_config_routes:
  "config_routes main_config (8080, localhost) = Some 0"
  "config_routes main_config (8443, localhost) = Some 1"
  "config_routes main_config (p, example_com) = None"
  using hosts_differ by (simp_all add: config_routes_def main_config_ids)

section \<open>The lines of the log\<close>

text \<open>
  Each line whole: on standard error from warnings on, else on standard output, coloured if both streams
  are terminals, with the elapsed time.
\<close>

definition whole_lines :: "(u64 \<Rightarrow> string) \<Rightarrow> main_env \<Rightarrow> log_call list \<Rightarrow> main_output list" where
  "whole_lines show_seconds me calls = map (\<lambda>(i, c). case c of Log_call level format args \<Rightarrow>
     Main_log (if FH_LOG_WARN \<le> level then Log_stderr else Log_stdout)
       (log_line (out_tty me \<and> err_tty me) level (show_seconds (clock_log me i - clock_start me)) format)
       args) (enumerate 0 calls)"

lemma main_print_whole:
  assumes "\<forall>t. length (show_seconds t) \<le> 200"
  shows "main_print show_seconds me (fh_log_init (clock_start me) (out_tty me) (err_tty me) log_zero) calls =
    whole_lines show_seconds me calls"
  using assms by (auto simp: main_print_def whole_lines_def fh_log_def fh_log_init_def fh_log_refresh_def log_line_fits
    split: log_call.splits)

section \<open>The order of the ports\<close>

text \<open>The table of the ports is the one the configuration loop leaves: the later loops set only sockets.\<close>

lemma open_sockets_table:
  "fh_server_open_sockets net es s = Inr (ok, s', logged) \<Longrightarrow> port_table s' = port_table s"
  by (induction es arbitrary: s ok logged)
    (fastforce simp: and_then_Inr_iff Let_def split: option.splits prod.splits if_splits)+

lemma process_config_table:
  assumes "fh_server_process_config env net s = Inr (Some (True, s', logged))"
  shows "\<exists>s1. fh_server_process_vhosts env (vhost_count (config s)) 0 s = Inr (True, s1) \<and> port_table s' = port_table s1"
proof -
  obtain ok1 s1 where one: "fh_server_process_vhosts env (vhost_count (config s)) 0 s = Inr (ok1, s1)"
    and rest: "(if \<not> ok1 then Inr (Some (False, s1, []))
     else and_then (port_entries s1) (\<lambda>its.
       case its of
         None \<Rightarrow> Inr None
       | Some es \<Rightarrow> and_then (fh_server_open_sockets net es s1) (\<lambda>r. Inr (Some r)))) = Inr (Some (True, s', logged))"
    using assms unfolding fh_server_process_config_def and_then_Inr_iff by auto
  have ok1 using rest by (cases ok1) simp_all
  moreover obtain es where "fh_server_open_sockets net es s1 = Inr (True, s', logged)"
    using rest \<open>ok1\<close> by (auto simp: and_then_Inr_iff split: option.splits)
  ultimately show ?thesis using one open_sockets_table by (intro exI [of _ s1]) simp
qed

lemma server_create_table:
  assumes "fh_server_create granted m env net cfg = Inr (Some (Created s, logged))"
  shows "\<exists>pt s1. htable_create m 16 = Inr (Some pt) \<and> port_table s = port_table s1 \<and>
    fh_server_process_vhosts env (vhost_count cfg) 0 \<lparr>config = cfg, port_table = pt, port_heap = []\<rparr> = Inr (True, s1)"
proof -
  have granted using assms by (cases granted) (simp_all add: fh_server_create_def)
  then obtain res where res: "htable_create m 16 = Inr res"
    using assms by (auto simp: fh_server_create_def and_then_Inr_iff)
  then obtain pt where pt: "res = Some pt" using assms \<open>granted\<close> by (cases res) (auto simp: fh_server_create_def)
  let ?s = "\<lparr>config = cfg, port_table = pt, port_heap = []\<rparr>"
  obtain r where r: "fh_server_process_config env net ?s = Inr (Some r)"
    using assms \<open>granted\<close> res pt by (auto simp: fh_server_create_def and_then_Inr_iff split: option.splits)
  obtain ok s2 l where "r = (ok, s2, l)" by (cases r)
  moreover have ok using assms \<open>granted\<close> res pt r calculation
    by (cases ok) (auto simp: fh_server_create_def and_then_Inr_iff)
  moreover have "s2 = s" using assms \<open>granted\<close> res pt r calculation by (simp add: fh_server_create_def)
  ultimately show ?thesis using process_config_table [of env net ?s s l] res pt r by auto
qed

text \<open>The first identifier that names a port puts its key behind those before it.\<close>

lemma process_id_new_port:
  assumes v: "srv_valid np nh s" and o: "in_order int_ops (port_table s) kvs n cap" and fits: "fits_index (n + 1) cap"
    and g: "srv_grants m" and new: "ucast (port vid) \<notin> fst ` set kvs" and run: "fh_server_process_id m i vid s = Inr (ok, s')"
  shows "\<exists>d. in_order int_ops (port_table s') (kvs @ [(ucast (port vid), d)]) (max n (Suc (length kvs))) cap"
proof -
  let ?k = "ucast (port vid) :: u64"
  have hp: "ht_holds int_ops np (port_table s) (srv_ports s)" using v by (simp add: srv_valid_def)
  have "srv_ports s ?k = None" using new o by (simp add: srv_ports_def in_order_def map_of_eq_None_iff)
  then have get: "htable_get int_ops (port_table s) ?k = Inr None" using int_ht.get_holds [OF hp, of ?k] by simp
  have up: "AList.update ?k d kvs = kvs @ [(?k, d)]" for d using new by (rule update_absent)
  have "grants (port_set_mem m)" using g by (simp add: srv_grants_def)
  then obtain pt where set: "htable_set_with_flag int_ops (port_set_mem m) (port_table s) ?k (Some (length (port_heap s))) =
      Inr (True, Some (?k \<notin> fst ` set kvs), pt)"
    and ord: "in_order int_ops pt (kvs @ [(?k, Some (length (port_heap s)))]) (max n (Suc (length kvs))) cap"
    by (rule int_ht.set_in_order [OF o fits, of "port_set_mem m" ?k "Some (length (port_heap s))"]) (simp add: up)
  have "htable_set int_ops (port_set_mem m) (port_table s) ?k (Some (length (port_heap s))) = Inr (True, pt)"
    using set by (simp add: htable_set_def)
  moreover obtain ht where "htable_create (host_create_mem m) 16 = Inr (Some ht)"
    using htable_create_granted [of "host_create_mem m" 16] str_ht.create_holds [of 16 "host_create_mem m" 0] g
    by (force simp: srv_grants_def)
  ultimately have "port_table s' = pt"
    using run get g by (auto simp: fh_server_process_id_def fh_server_port_entry_def srv_grants_def and_then_Inr_iff)
  then show ?thesis using ord by blast
qed

lemma main_ports_order:
  assumes create: "fh_server_create granted m env net main_config = Inr (Some (Created s, logged))"
    and g: "\<forall>i j. srv_grants (env i j)"
  shows "port_keys s = [8080, 8443]"
proof -
  obtain pt s2 where pt: "htable_create m 16 = Inr (Some pt)" "port_table s = port_table s2"
    "fh_server_process_vhosts env (vhost_count main_config) 0 \<lparr>config = main_config, port_table = pt, port_heap = []\<rparr> = Inr (True, s2)"
    using server_create_table [OF create] by blast
  let ?s = "\<lparr>config = main_config, port_table = pt, port_heap = []\<rparr>"
  let ?v0 = "\<lparr>hostname = localhost, port = 8080\<rparr>" and ?v1 = "\<lparr>hostname = localhost, port = 8443\<rparr>"
  have hp: "ht_holds int_ops 0 pt (\<lambda>k. None)" using int_ht.create_holds [of 16 m 0] pt(1) by force
  have ports: "srv_ports ?s = (\<lambda>k. None)" using holds_map [OF hp] by (simp add: srv_ports_def)
  have v: "srv_valid 0 0 ?s" using hp by (simp add: srv_valid_def ports ports_valid_def)
  have "util_round_ceil2_ull 16 = Inr 16" by code_simp
  then have o: "in_order int_ops (port_table ?s) [] 0 16"
    using int_ht.create_in_order [of 16 m pt] pt(1) by auto
  have lim: "0 < ht_limit" "Suc 0 < ht_limit" by (simp_all add: ht_limit_def)
  obtain s1 where one: "fh_server_process_id (env 0 0) 0 ?v0 ?s = Inr (True, s1)" "srv_valid 1 1 s1" "config s1 = main_config"
    using process_id_correct [OF v lim(1) lim(1), of "env 0 0" 0 ?v0] g by auto
  obtain d0 where o1: "in_order int_ops (port_table s1) [(8080, d0)] 1 16"
    using process_id_new_port [OF v o, of "env 0 0" ?v0 0 True s1] g one(1) by (auto simp: fits_index_def)
  have two: "fh_server_process_id (env 1 0) 1 ?v1 s1 = Inr (True, s2)"
    using pt(3) one(1,3) by (auto simp: main_config_def eval_nat_numeral and_then_Inr_iff split: if_splits)
  obtain d1 where "in_order int_ops (port_table s2) [(8080, d0), (8443, d1)] (Suc (Suc 0)) 16"
    using process_id_new_port [OF one(2) o1, of "env 1 0" ?v1 1 True s2] g two by (auto simp: fits_index_def)
  then show ?thesis by (simp add: port_keys_def pt(2) in_order_def)
qed

section \<open>The runs of the main function\<close>

text \<open>Decimals, evaluated digit by digit.\<close>

lemma show_nat_small: "n < 10 \<Longrightarrow> show_nat n = [digit n]"
  by (subst show_nat.simps) simp

lemma show_nat_large: "10 \<le> n \<Longrightarrow> show_nat n = show_nat (n div 10) @ [digit (n mod 10)]"
  by (subst show_nat.simps) simp

lemmas decimals = show_int_def show_nat_small show_nat_large digit_def char_of_def bit_0

text \<open>The lines of the server, as they read in the log, by the ports in the order of the table.\<close>

definition port_socket :: "srv_net \<Rightarrow> u16 \<Rightarrow> int" where
  "port_socket net p = fst (fh_server_create_socket net p)"

definition created_lines :: "srv_net \<Rightarrow> u16 list \<Rightarrow> log_call list" where
  "created_lines net ps = map (\<lambda>p. Log_call FH_LOG_DEBUG ''server: Created socket=%d, port=%u''
     [show_int (port_socket net p), show_nat (unat p)]) ps"

definition listening_lines :: "u16 list \<Rightarrow> log_call list" where
  "listening_lines ps = map (\<lambda>p. Log_call FH_LOG_DEBUG ''server: Listening: port=%u'' [show_nat (unat p)]) ps"

definition no_server_line :: "main_env \<Rightarrow> log_call" where
  "no_server_line me = Log_call FH_LOG_ERR ''main: Unable to create server: %s'' [error_text me]"

lemma main_error_line: "main_error_call me = [no_server_line me]"
  by (simp add: main_error_call_def no_server_line_def fh_pr_err_def FH_LOG_PREFIX_def main_error_format_def)

lemma sockets_logged_lines:
  "sockets_logged net ks = created_lines net (takeWhile (\<lambda>p. 0 \<le> port_socket net p) (map ucast ks))"
  by (induction ks) (simp_all add: sockets_logged_def created_lines_def created_call_def fh_pr_debug_def NDEBUG_def
    FH_LOG_PREFIX_def socket_of_def port_socket_def)

lemma listening_logged_lines:
  "concat (map (\<lambda>k. listening_call (ucast k)) (takeWhile (\<lambda>k. 0 \<le> net_listen net (socket_of net k)) ks)) =
    listening_lines (takeWhile (\<lambda>p. 0 \<le> net_listen net (port_socket net p)) (map ucast ks))"
  by (induction ks) (simp_all add: listening_lines_def listening_call_def fh_pr_debug_def NDEBUG_def FH_LOG_PREFIX_def
    socket_of_def port_socket_def)

lemma main_ports_of: "ports_of (config_ids main_config) = {8080, 8443}"
  by (simp add: main_config_ids)

lemma main_ports_cast:
  assumes "distinct ks" "set ks \<subseteq> {8080, 8443 :: u64}"
  shows "distinct (map ucast ks :: u16 list) \<and> set (map ucast ks) \<subseteq> {8080, 8443 :: u16}"
proof -
  have "inj_on (ucast :: u64 \<Rightarrow> u16) {8080, 8443}" by (simp add: inj_on_def)
  then have "inj_on (ucast :: u64 \<Rightarrow> u16) (set ks)" using assms(2) by (rule inj_on_subset)
  then show ?thesis using assms by (auto simp: distinct_map)
qed

lemma main_correct:
  assumes fits: "\<forall>t. length (show_seconds t) \<le> 200"
  shows "\<exists>status out rs ports. main show_seconds me c granted m env net = Inr (Some (status, out, rs)) \<and>
    (c = -1 \<longrightarrow> distinct ports \<and> set ports \<subseteq> {8080, 8443} \<and>
      (status = 0 \<and> (\<forall>p \<in> set ports. 0 \<le> port_socket net p) \<and>
         out = whole_lines show_seconds me (created_lines net ports @
           listening_lines (takeWhile (\<lambda>p. 0 \<le> net_listen net (port_socket net p)) ports)) \<or>
       status = 1 \<and>
         out = whole_lines show_seconds me
           (created_lines net (takeWhile (\<lambda>p. 0 \<le> port_socket net p) ports) @ [no_server_line me]))) \<and>
    (c = -1 \<and> granted \<and> grants m \<and> (\<forall>i j. srv_grants (env i j)) \<and> (\<forall>k. 0 \<le> socket_of net k) \<longrightarrow>
      status = 0 \<and> ports = [8080, 8443])"
proof (cases "main_options me c")
  case (Some r)
  then have "c \<noteq> -1" by (auto simp: main_options_def)
  moreover obtain status out where "r = (status, out)" by (cases r)
  ultimately show ?thesis using Some by (simp add: main_def)
next
  case None
  obtain r ks where r: "fh_server_create granted m env net main_config = Inr (Some (r, sockets_logged net ks))"
    "distinct ks" "set ks \<subseteq> ports_of (config_ids main_config)"
    "\<forall>s. r = Created s \<longrightarrow> srv_valid (length (config_ids main_config)) (length (config_ids main_config)) s \<and>
      sockets_ok net s \<and> ks = port_keys s \<and> (\<forall>k \<in> set ks. 0 \<le> socket_of net k)"
    "granted \<and> grants m \<and> (\<forall>i j. srv_grants (env i j)) \<and> (\<forall>k. 0 \<le> socket_of net k) \<longrightarrow> (\<exists>s. r = Created s)"
    using fh_server_create_correct [OF main_config_ok, of granted m env net] by blast
  let ?ports = "map ucast ks :: u16 list"
  note ports = main_ports_cast [OF r(2) r(3) [unfolded main_ports_of]]
  note whole = main_print_whole [OF fits]
  show ?thesis
  proof (cases r)
    case (Not_created rs)
    let ?out = "whole_lines show_seconds me
      (created_lines net (takeWhile (\<lambda>p. 0 \<le> port_socket net p) ?ports) @ [no_server_line me])"
    have "main show_seconds me c granted m env net = Inr (Some (1, ?out, rs))"
      using r(1) None Not_created by (simp add: main_def EXIT_FAILURE_def whole main_error_line sockets_logged_lines)
    moreover have "\<not> (granted \<and> grants m \<and> (\<forall>i j. srv_grants (env i j)) \<and> (\<forall>k. 0 \<le> socket_of net k))"
      using r(5) Not_created by blast
    ultimately show ?thesis using ports by (intro exI [of _ 1] exI [of _ ?out] exI [of _ rs] exI [of _ ?ports]) blast
  next
    case (Created s)
    have v: "srv_valid (length (config_ids main_config)) (length (config_ids main_config)) s" "sockets_ok net s"
      and ks: "ks = port_keys s" "\<forall>k \<in> set ks. 0 \<le> socket_of net k"
      using r(4) Created by blast+
    have good: "\<forall>p \<in> set ?ports. 0 \<le> port_socket net p" using ks(2) by (simp add: port_socket_def socket_of_def)
    let ?out = "whole_lines show_seconds me
      (created_lines net ?ports @ listening_lines (takeWhile (\<lambda>p. 0 \<le> net_listen net (port_socket net p)) ?ports))"
    obtain b where "fh_server_listen net s = Inr (Some (b, listening_lines
        (takeWhile (\<lambda>p. 0 \<le> net_listen net (port_socket net p)) ?ports)))"
      using fh_server_listen_correct [OF v] unfolding listening_logged_lines ks(1) [symmetric] by blast
    moreover obtain xs where "fh_server_free s = Inr (Some xs)" using fh_server_free_correct [OF v(1)] by blast
    moreover have "takeWhile (\<lambda>p. 0 \<le> port_socket net p) ?ports = ?ports" using good by (simp only: takeWhile_eq_all_conv)
    then have "fh_server_create granted m env net main_config = Inr (Some (Created s, created_lines net ?ports))"
      using r(1) unfolding Created sockets_logged_lines by (simp only:)
    ultimately have "main show_seconds me c granted m env net = Inr (Some (0, ?out, xs))"
      using None by (simp add: main_def whole)
    moreover have "?ports = [8080, 8443]" if "\<forall>i j. srv_grants (env i j)"
      using main_ports_order [OF r(1) [unfolded Created] that] ks(1) by simp
    ultimately show ?thesis
      using ports good by (intro exI [of _ 0] exI [of _ ?out] exI [of _ xs] exI [of _ ?ports]) blast
  qed
qed

end
