(* ===== verification/Libtest.thy ===== *)
theory Libtest
  imports Prelude
begin

text \<open>
  \<open>src/libtest/libtest.c\<close> and \<open>assert.c\<close>: the runner of the repository's tests. A child process runs
  the hooks and the test cases and writes one flag per case into a pipe; the parent counts the flags,
  waits for the child, writes the report and chooses the exit status. The test cases and hooks are
  parameters, and so are the answers of the system calls. The text on standard output and in the report
  is modelled, the messages on standard error are not.
\<close>

section \<open>Assertions\<close>

record assert_counts =
  assert_fail_count :: nat
  assert_success_count :: nat

datatype assert_code = ASSERT_OK | ASSERT_FAIL

definition assert_internal :: "bool \<Rightarrow> assert_counts \<Rightarrow> assert_code \<times> assert_counts" where
  "assert_internal v st =
     (if v then (ASSERT_OK, st\<lparr>assert_success_count := sz (assert_success_count st + 1)\<rparr>)
      else (ASSERT_FAIL, st\<lparr>assert_fail_count := sz (assert_fail_count st + 1)\<rparr>))"

text \<open>The macros of \<open>assert.h\<close>; those with a message and those without differ in what is printed only.\<close>

definition assert_true :: "bool \<Rightarrow> assert_counts \<Rightarrow> assert_code \<times> assert_counts" where
  "assert_true v = assert_internal v"

definition assert_false :: "bool \<Rightarrow> assert_counts \<Rightarrow> assert_code \<times> assert_counts" where
  "assert_false v = assert_internal (\<not> v)"

definition assert_equal :: "'a \<Rightarrow> 'a \<Rightarrow> assert_counts \<Rightarrow> assert_code \<times> assert_counts" where
  "assert_equal v1 v2 = assert_internal (v1 = v2)"

definition assert_not_equal :: "'a \<Rightarrow> 'a \<Rightarrow> assert_counts \<Rightarrow> assert_code \<times> assert_counts" where
  "assert_not_equal v1 v2 = assert_internal (v1 \<noteq> v2)"

definition get_assert_fail_count :: "assert_counts \<Rightarrow> nat" where
  "get_assert_fail_count st = assert_fail_count st"

definition get_assert_success_count :: "assert_counts \<Rightarrow> nat" where
  "get_assert_success_count st = assert_success_count st"

definition set_assert_fail_count :: "nat \<Rightarrow> assert_counts \<Rightarrow> assert_counts" where
  "set_assert_fail_count n st = st\<lparr>assert_fail_count := n\<rparr>"

definition set_assert_success_count :: "nat \<Rightarrow> assert_counts \<Rightarrow> assert_counts" where
  "set_assert_success_count n st = st\<lparr>assert_success_count := n\<rparr>"

section \<open>What is printed\<close>

datatype test_status = STATUS_PASS | STATUS_FAIL | STATUS_RUN

primrec test_status_lut :: "test_status \<Rightarrow> string" where
  "test_status_lut STATUS_PASS = ''PASS''"
| "test_status_lut STATUS_FAIL = ''FAIL''"
| "test_status_lut STATUS_RUN = ''RUN''"

primrec test_status_color_lut :: "test_status \<Rightarrow> string" where
  "test_status_color_lut STATUS_PASS = escape_color ''1;32''"
| "test_status_color_lut STATUS_FAIL = escape_color ''1;31''"
| "test_status_color_lut STATUS_RUN = escape_color ''2;37''"

text \<open>\<open>color\<close> is \<open>enable_color\<close>, \<open>suite\<close> is \<open>libtest_suite_name\<close>.\<close>

definition print_status :: "bool \<Rightarrow> string \<Rightarrow> nat \<Rightarrow> string \<Rightarrow> string \<Rightarrow> string \<Rightarrow> string" where
  "print_status color status pad_len pad col txt =
     ''  '' @ pad_left pad_len pad @ (if color then col else []) @ pad_right 8 status @
     (if color then escape_color ''0'' else []) @ '' '' @ txt @ [CHR 0x0A]"

definition print_test_case_status :: "bool \<Rightarrow> string \<Rightarrow> string \<Rightarrow> test_status \<Rightarrow> string" where
  "print_test_case_status color suite name status =
     ''  '' @ (if color then test_status_color_lut status else []) @ pad_right 8 (test_status_lut status) @
     (if color then escape_color ''0'' else []) @ '' '' @ suite @ ''::'' @
     (if color then escape_color ''1;38'' else []) @ name @ (if color then escape_color ''0'' else []) @ [CHR 0x0A]"

definition print_summary :: "bool \<Rightarrow> string \<Rightarrow> nat \<Rightarrow> nat \<Rightarrow> string" where
  "print_summary color suite passed_count failed_count =
     ''  '' @ (if color then escape_color ''2;37'' else []) @ pad_right 8 ''SUMMARY'' @
     (if color then escape_color ''0'' else []) @ '' '' @ suite @ '' - '' @
     (if color then escape_color ''1;32'' else []) @ show_nat passed_count @
     (if color then escape_color ''0'' else []) @ '' passed, '' @
     (if color then escape_color ''1;31'' else []) @ show_nat failed_count @
     (if color then escape_color ''0'' else []) @ '' failed'' @ [CHR 0x0A]"

text \<open>\<open>usage\<close> prints \<open>argv0_src\<close>, which may be \<open>NULL\<close>: no argument for \<open>%s\<close>.\<close>

definition libtest_usage :: "string option \<Rightarrow> string checked" where
  "libtest_usage argv0_src = (case argv0_src of
      None \<Rightarrow> Inl Bad_pointer
    | Some s \<Rightarrow> Inr (''Usage: '' @ s @ '' <-r|--report=PATH> [-c|--color=<1|0>] [ARGV...]'' @ [CHR 0x0A]))"

section \<open>The child\<close>

text \<open>
  How a process ends, and what a callback does in the state \<open>'w\<close> of the code under test: return a value
  and a new state, or end the process.
\<close>

datatype child_status = Exited int | Signaled int

datatype 'w callback_end = Returns int assert_counts 'w | Ends child_status

type_synonym 'w test_callback = "assert_counts \<Rightarrow> 'w \<Rightarrow> 'w callback_end"

record 'w test_case =
  tc_name :: string
  tc_callback :: "'w test_callback"

record 'w libtest_config =
  test_cases :: "'w test_case list"
  before_all :: "'w test_callback option"
  before_each :: "'w test_callback option"
  after_all :: "'w test_callback option"
  after_each :: "'w test_callback option"

text \<open>The lines the child prints, as text, and the flags that reached the pipe.\<close>

datatype test_line = Suite_line | Status_line string test_status

primrec child_line :: "bool \<Rightarrow> string \<Rightarrow> test_line \<Rightarrow> string" where
  "child_line color suite Suite_line = print_status color ''SUITE   '' 0 [] (escape_color ''1;34'') suite"
| "child_line color suite (Status_line name status) = print_test_case_status color suite name status"

record 'w child =
  counts :: assert_counts
  world :: 'w
  exit_err :: bool
  printed :: "test_line list"
  reported :: "bool list"

definition reset_counts :: "assert_counts \<Rightarrow> assert_counts" where
  "reset_counts st = set_assert_success_count 0 (set_assert_fail_count 0 st)"

type_synonym 'w child_end = "(child_status \<times> 'w child) + 'w child"

text \<open>\<open>Inl\<close>: the process ended in the callback. The flag says whether it succeeded.\<close>

definition run_callback :: "'w test_callback \<Rightarrow> 'w child \<Rightarrow> child_status + bool \<times> 'w child" where
  "run_callback cb ch =
     (case cb (reset_counts (counts ch)) (world ch) of
        Returns rc st w \<Rightarrow> Inr (rc = 0 \<and> get_assert_fail_count st = 0, ch\<lparr>counts := st, world := w\<rparr>)
      | Ends status \<Rightarrow> Inl status)"

definition run_hook :: "'w test_callback option \<Rightarrow> 'w child \<Rightarrow> child_status + bool \<times> 'w child" where
  "run_hook hook ch = (case hook of None \<Rightarrow> Inr (True, ch) | Some cb \<Rightarrow> run_callback cb ch)"

definition child_hook :: "'w test_callback option \<Rightarrow> 'w child \<Rightarrow> 'w child_end" where
  "child_hook hook ch =
     (case run_hook hook ch of
        Inl status \<Rightarrow> Inl (status, ch)
      | Inr (ok, ch) \<Rightarrow> Inr (if ok then ch else ch\<lparr>exit_err := True\<rparr>))"

text \<open>One case; \<open>write_ok\<close> says whether \<open>write\<close> takes the whole flag.\<close>

definition child_case :: "bool \<Rightarrow> 'w test_case \<Rightarrow> 'w child \<Rightarrow> 'w child_end" where
  "child_case write_ok tc ch =
     (let ch = ch\<lparr>printed := printed ch @ [Status_line (tc_name tc) STATUS_RUN]\<rparr>
      in case run_callback (tc_callback tc) ch of
        Inl status \<Rightarrow> Inl (status, ch)
      | Inr (passed, ch) \<Rightarrow>
          Inr (ch\<lparr>printed := printed ch @ [Status_line (tc_name tc) (if passed then STATUS_PASS else STATUS_FAIL)],
            exit_err := exit_err ch \<or> \<not> passed \<or> \<not> write_ok,
            reported := reported ch @ (if write_ok then [passed] else [])\<rparr>))"

definition bind_child :: "'w child_end \<Rightarrow> ('w child \<Rightarrow> 'w child_end) \<Rightarrow> 'w child_end" where
  "bind_child m f = (case m of Inl e \<Rightarrow> Inl e | Inr ch \<Rightarrow> f ch)"

fun child_cases ::
  "'w libtest_config \<Rightarrow> (nat \<Rightarrow> bool) \<Rightarrow> nat \<Rightarrow> 'w test_case list \<Rightarrow> 'w child \<Rightarrow> 'w child_end"
where
  "child_cases cfg writes i [] ch = Inr ch"
| "child_cases cfg writes i (tc # tcs) ch =
     bind_child (child_hook (before_each cfg) ch) (\<lambda>ch.
     bind_child (child_case (writes i) tc ch) (\<lambda>ch.
     bind_child (child_hook (after_each cfg) ch) (\<lambda>ch.
     child_cases cfg writes (i + 1) tcs ch)))"

text \<open>How the child ends, the flags it wrote, and what it printed.\<close>

definition run_child :: "'w libtest_config \<Rightarrow> (nat \<Rightarrow> bool) \<Rightarrow> 'w \<Rightarrow> child_status \<times> bool list \<times> test_line list" where
  "run_child cfg writes w =
     (let ch = \<lparr>counts = \<lparr>assert_fail_count = 0, assert_success_count = 0\<rparr>, world = w, exit_err = False,
            printed = [Suite_line], reported = []\<rparr>
      in case bind_child (child_hook (before_all cfg) ch) (\<lambda>ch.
           bind_child (child_cases cfg writes 0 (test_cases cfg) ch) (\<lambda>ch. child_hook (after_all cfg) ch)) of
        Inl (status, ch) \<Rightarrow> (status, reported ch, printed ch)
      | Inr ch \<Rightarrow> (Exited (if exit_err ch then 1 else 0), reported ch, printed ch))"

section \<open>The parent\<close>

text \<open>The name of a signal: the first name whose number on the platform, if it has one, is \<open>sig\<close>.\<close>

definition signal_names :: "string list" where
  "signal_names = [''SIGHUP'', ''SIGINT'', ''SIGQUIT'', ''SIGILL'', ''SIGTRAP'', ''SIGABRT'', ''SIGBUS'', ''SIGFPE'',
     ''SIGKILL'', ''SIGUSR1'', ''SIGSEGV'', ''SIGUSR2'', ''SIGPIPE'', ''SIGALRM'', ''SIGTERM'', ''SIGCHLD'', ''SIGCONT'',
     ''SIGSTOP'', ''SIGTSTP'', ''SIGTTIN'', ''SIGTTOU'', ''SIGURG'', ''SIGXCPU'', ''SIGXFSZ'', ''SIGVTALRM'', ''SIGPROF'',
     ''SIGWINCH'', ''SIGPOLL'', ''SIGSYS'']"

definition get_signal_name :: "(string \<Rightarrow> int option) \<Rightarrow> int \<Rightarrow> string" where
  "get_signal_name number sig =
     (case find (\<lambda>name. number name = Some sig) signal_names of None \<Rightarrow> ''UNKNOWN'' | Some name \<Rightarrow> name)"

text \<open>The loop that reads the flags: how many passed and how many failed.\<close>

fun count_reports :: "bool list \<Rightarrow> nat \<Rightarrow> nat \<Rightarrow> nat \<times> nat" where
  "count_reports [] passed failed = (passed, failed)"
| "count_reports (v # vs) passed failed =
     (if v then count_reports vs (sz (passed + 1)) failed else count_reports vs passed (sz (failed + 1)))"

datatype report_end = Report_exit int | Report_signal string

definition report_text :: "nat \<Rightarrow> nat \<Rightarrow> report_end \<Rightarrow> string" where
  "report_text passed_count failed_count how =
     ''PASSED '' @ show_nat passed_count @ '';'' @ ''FAILED '' @ show_nat failed_count @ '';'' @
     (case how of Report_exit code \<Rightarrow> ''EXIT '' @ show_int code | Report_signal name \<Rightarrow> ''SIGNAL '' @ name) @
     '';'' @ [CHR 0x0A]"

text \<open>The exit status of the parent, what it prints, and the content of the report file, if it was opened.\<close>

definition run_parent ::
  "(string \<Rightarrow> int option) \<Rightarrow> bool \<Rightarrow> bool \<Rightarrow> bool \<Rightarrow> string \<Rightarrow> child_status \<Rightarrow> bool list \<Rightarrow> int \<times> string \<times> string option"
where
  "run_parent number fopen_ok wait_ok color suite status flags =
     (if \<not> fopen_ok then (1, [], None)
      else
        let (passed_count, failed_count) = count_reports flags 0 0
        in if \<not> wait_ok then (1, [], Some [])
           else (if status = Exited 0 \<and> failed_count = 0 then 0 else 1,
             print_summary color suite passed_count failed_count,
             Some (report_text passed_count failed_count
               (case status of
                  Exited code \<Rightarrow> Report_exit code
                | Signaled sig \<Rightarrow> Report_signal (get_signal_name number sig)))))"

section \<open>The options\<close>

datatype test_option = Opt_help | Opt_color string | Opt_report string | Opt_unknown

record test_options =
  enable_color :: bool
  report_file_path :: "string option"

text \<open>
  \<open>Inl\<close> inside: the exit status the loop ends the program with. \<open>argv0_src\<close> is set after the loop, so
  it is \<open>NULL\<close> in the call of \<open>usage\<close>.
\<close>

fun test_option_loop :: "test_option list \<Rightarrow> test_options \<Rightarrow> (int + test_options) checked" where
  "test_option_loop [] os = Inr (Inr os)"
| "test_option_loop (Opt_help # opts) os = and_then (libtest_usage None) (\<lambda>_. Inr (Inl 0))"
| "test_option_loop (Opt_color v # opts) os = test_option_loop opts (os\<lparr>enable_color := (v = ''1'')\<rparr>)"
| "test_option_loop (Opt_report p # opts) os = test_option_loop opts (os\<lparr>report_file_path := Some p\<rparr>)"
| "test_option_loop (Opt_unknown # opts) os = Inr (Inl 1)"

text \<open>
  The answers of the system, and the base name of \<open>argv[0]\<close>. If the report file cannot be opened the
  parent kills the child, which has printed so many lines by then.
\<close>

record libtest_env =
  env_tty :: bool
  env_suite :: string
  env_pipe_ok :: bool
  env_fork_ok :: bool
  env_fopen_ok :: bool
  env_wait_ok :: bool
  env_killed_after :: nat
  env_writes :: "nat \<Rightarrow> bool"
  env_signals :: "string \<Rightarrow> int option"

text \<open>The exit status, what the two processes print on standard output, and the report file.\<close>

definition libtest_main ::
  "libtest_env \<Rightarrow> test_option list \<Rightarrow> 'w libtest_config \<Rightarrow> 'w \<Rightarrow> (int \<times> string \<times> string option) checked"
where
  "libtest_main env options cfg w =
     and_then (test_option_loop options \<lparr>enable_color = env_tty env, report_file_path = None\<rparr>) (\<lambda>res.
     case res of
       Inl code \<Rightarrow> Inr (code, [], None)
     | Inr os \<Rightarrow>
         if report_file_path os = None then Inr (1, [], None)
         else if \<not> env_pipe_ok env \<or> \<not> env_fork_ok env then Inr (1, [], None)
         else
           let (status, flags, ls) = run_child cfg (env_writes env) w;
               ls = (if env_fopen_ok env then ls else take (env_killed_after env) ls);
               (code, out, report) = run_parent (env_signals env) (env_fopen_ok env) (env_wait_ok env)
                 (enable_color os) (env_suite env) status flags
           in Inr (code, concat (map (child_line (enable_color os) (env_suite env)) ls) @ out, report))"

text \<open>What \<open>runtest\<close> takes from the report with \<open>cut\<close>: the two counts, and the word and value of the end.\<close>

definition cut_count :: "nat \<Rightarrow> string \<Rightarrow> nat" where
  "cut_count n report = read_nat (field CHR '' '' 1 (field CHR '';'' n report))"

definition cut_end :: "string \<Rightarrow> string \<times> string" where
  "cut_end report = (let l = field CHR '';'' 2 report in (field CHR '' '' 0 l, field CHR '' '' 1 l))"

section \<open>What the report says\<close>

text \<open>Callbacks that always return.\<close>

definition returning :: "'w test_callback \<Rightarrow> bool" where
  "returning cb \<longleftrightarrow> (\<forall>st w. \<exists>rc st' w'. cb st w = Returns rc st' w')"

definition all_return :: "'w libtest_config \<Rightarrow> bool" where
  "all_return cfg \<longleftrightarrow> (\<forall>tc \<in> set (test_cases cfg). returning (tc_callback tc)) \<and>
     (\<forall>hook \<in> {before_all cfg, before_each cfg, after_all cfg, after_each cfg}. pred_option returning hook)"

definition lines_with :: "test_status \<Rightarrow> test_line list \<Rightarrow> nat" where
  "lines_with s ls = length (filter (\<lambda>l. case l of Status_line _ s' \<Rightarrow> s' = s | _ \<Rightarrow> False) ls)"

lemma lines_with_simps [simp]:
  "lines_with s [] = 0" "lines_with s (ls @ ks) = lines_with s ls + lines_with s ks"
  "lines_with s (Status_line name s' # ls) = (if s' = s then 1 else 0) + lines_with s ls"
  "lines_with s (Suite_line # ls) = lines_with s ls"
  by (simp_all add: lines_with_def)

text \<open>
  What the child keeps true when every flag is written: the flags are the verdicts it printed, and
  without an error so far they are all true.
\<close>

definition child_ok :: "'w child \<Rightarrow> bool" where
  "child_ok ch \<longleftrightarrow> lines_with STATUS_PASS (printed ch) = length (filter (\<lambda>v. v) (reported ch)) \<and>
     lines_with STATUS_FAIL (printed ch) = length (filter (\<lambda>v. \<not> v) (reported ch)) \<and>
     (\<not> exit_err ch \<longrightarrow> False \<notin> set (reported ch))"

lemma hook_returns:
  assumes "pred_option returning hook" "child_ok ch"
  shows "\<exists>ch'. child_hook hook ch = Inr ch' \<and> child_ok ch' \<and> reported ch' = reported ch"
proof (cases hook)
  case (Some cb)
  then have "returning cb" using assms(1) by simp
  then obtain rc st w where "cb (reset_counts (counts ch)) (world ch) = Returns rc st w"
    unfolding returning_def by blast
  then show ?thesis using Some assms(2) by (simp add: child_hook_def run_hook_def run_callback_def child_ok_def)
qed (use assms(2) in \<open>simp add: child_hook_def run_hook_def\<close>)

lemma case_returns:
  assumes "returning (tc_callback tc)" "child_ok ch"
  shows "\<exists>ch'. child_case True tc ch = Inr ch' \<and> child_ok ch' \<and> length (reported ch') = Suc (length (reported ch))"
proof -
  obtain rc st w where "tc_callback tc (reset_counts (counts ch)) (world ch) = Returns rc st w"
    using assms(1) unfolding returning_def by blast
  then show ?thesis using assms(2) by (auto simp: child_case_def run_callback_def child_ok_def)
qed

lemma cases_return:
  assumes "\<forall>tc \<in> set tcs. returning (tc_callback tc)" "pred_option returning (before_each cfg)"
    and "pred_option returning (after_each cfg)" "\<forall>i. writes i" "child_ok ch"
  shows "\<exists>ch'. child_cases cfg writes i tcs ch = Inr ch' \<and> child_ok ch' \<and>
    length (reported ch') = length (reported ch) + length tcs"
  using assms
proof (induction tcs arbitrary: i ch)
  case (Cons tc tcs)
  obtain a where a: "child_hook (before_each cfg) ch = Inr a" "child_ok a" "reported a = reported ch"
    using hook_returns [OF Cons.prems(2,5)] by blast
  obtain b where b: "child_case True tc a = Inr b" "child_ok b" "length (reported b) = Suc (length (reported a))"
    using case_returns [of tc a] Cons.prems(1) a(2) by auto
  obtain c where c: "child_hook (after_each cfg) b = Inr c" "child_ok c" "reported c = reported b"
    using hook_returns [OF Cons.prems(3) b(2)] by blast
  obtain d where
    "child_cases cfg writes (i + 1) tcs c = Inr d" "child_ok d" "length (reported d) = length (reported c) + length tcs"
    using Cons.IH [OF _ Cons.prems(2-4) c(2), of "i + 1"] Cons.prems(1) by auto
  moreover have "child_case (writes i) tc a = Inr b" using b(1) Cons.prems(4) by simp
  ultimately show ?case using a b(3) c by (simp add: bind_child_def)
qed simp

lemma child_returns:
  assumes "all_return cfg" "\<forall>i. writes i"
  shows "\<exists>err flags ls. run_child cfg writes w = (Exited (if err then 1 else 0), flags, ls) \<and>
    length flags = length (test_cases cfg) \<and> lines_with STATUS_PASS ls = length (filter (\<lambda>v. v) flags) \<and>
    lines_with STATUS_FAIL ls = length (filter (\<lambda>v. \<not> v) flags) \<and> (\<not> err \<longrightarrow> False \<notin> set flags)"
proof -
  let ?ch = "\<lparr>counts = \<lparr>assert_fail_count = 0, assert_success_count = 0\<rparr>, world = w, exit_err = False,
    printed = [Suite_line], reported = []\<rparr>"
  have r: "pred_option returning (before_all cfg)" "pred_option returning (before_each cfg)"
    "pred_option returning (after_all cfg)" "pred_option returning (after_each cfg)"
    "\<forall>tc \<in> set (test_cases cfg). returning (tc_callback tc)" using assms(1) by (simp_all add: all_return_def)
  obtain a where a: "child_hook (before_all cfg) ?ch = Inr a" "child_ok a" "reported a = []"
    using hook_returns [OF r(1), of ?ch] by (auto simp: child_ok_def)
  obtain b where b: "child_cases cfg writes 0 (test_cases cfg) a = Inr b" "child_ok b"
    "length (reported b) = length (reported a) + length (test_cases cfg)"
    using cases_return [OF r(5,2,4) assms(2) a(2)] by blast
  obtain c where c: "child_hook (after_all cfg) b = Inr c" "child_ok c" "reported c = reported b"
    using hook_returns [OF r(3) b(2)] by blast
  have "run_child cfg writes w = (Exited (if exit_err c then 1 else 0), reported c, printed c)"
    using a(1) b(1) c(1) by (simp add: run_child_def bind_child_def)
  then show ?thesis using a(3) b(3) c(2,3) by (auto simp: child_ok_def)
qed

text \<open>The parent counts the flags; fewer than 2 ^ 64 of them, so the counters do not wrap.\<close>

lemma count_reports_correct:
  assumes "p + length vs < 2 ^ 64" "f + length vs < 2 ^ 64"
  shows "count_reports vs p f = (p + length (filter (\<lambda>v. v) vs), f + length (filter (\<lambda>v. \<not> v) vs))"
  using assms by (induction vs arbitrary: p f) (auto simp: sz_def)

text \<open>The child's lines as they are printed, and the parent's summary.\<close>

definition runner_text :: "test_options \<Rightarrow> libtest_env \<Rightarrow> test_line list \<Rightarrow> string" where
  "runner_text os env ls = concat (map (child_line (enable_color os) (env_suite env)) ls) @
     print_summary (enable_color os) (env_suite env) (lines_with STATUS_PASS ls) (lines_with STATUS_FAIL ls)"

lemma main_report:
  assumes cfg: "all_return cfg" "length (test_cases cfg) < 2 ^ 64" and writes: "\<forall>i. env_writes env i"
    and opts: "test_option_loop options \<lparr>enable_color = env_tty env, report_file_path = None\<rparr> = Inr (Inr os)"
      "report_file_path os \<noteq> None"
    and env: "env_pipe_ok env" "env_fork_ok env" "env_fopen_ok env" "env_wait_ok env"
  shows "\<exists>status flags ls. run_child cfg (env_writes env) w = (status, flags, ls) \<and>
    libtest_main env options cfg w = Inr (if status = Exited 0 then 0 else 1, runner_text os env ls,
      Some (report_text (lines_with STATUS_PASS ls) (lines_with STATUS_FAIL ls)
        (Report_exit (if status = Exited 0 then 0 else 1)))) \<and>
    lines_with STATUS_PASS ls + lines_with STATUS_FAIL ls = length (test_cases cfg) \<and>
    (status = Exited 0 \<longrightarrow> lines_with STATUS_PASS ls = length (test_cases cfg))"
proof -
  obtain err flags ls where c: "run_child cfg (env_writes env) w = (Exited (if err then 1 else 0), flags, ls)"
    "length flags = length (test_cases cfg)" "lines_with STATUS_PASS ls = length (filter (\<lambda>v. v) flags)"
    "lines_with STATUS_FAIL ls = length (filter (\<lambda>v. \<not> v) flags)" "\<not> err \<longrightarrow> False \<notin> set flags"
    using child_returns [OF cfg(1) writes] by blast
  have n: "count_reports flags 0 0 = (lines_with STATUS_PASS ls, lines_with STATUS_FAIL ls)"
    using count_reports_correct [of 0 flags 0] c(2-4) cfg(2) by simp
  have sum: "lines_with STATUS_PASS ls + lines_with STATUS_FAIL ls = length (test_cases cfg)"
    using c(2-4) sum_length_filter_compl [of "\<lambda>v. v" flags] by simp
  have none: "lines_with STATUS_FAIL ls = 0" if "\<not> err"
    using c(4,5) that by (auto simp: filter_empty_conv) (metis (full_types))
  show ?thesis using c(1) n sum none opts env by (auto simp: libtest_main_def run_parent_def runner_text_def)
qed

section \<open>Reading the report\<close>

lemma report_fields:
  "field CHR '';'' 0 (report_text p f how) = ''PASSED '' @ show_nat p"
  "field CHR '';'' 1 (report_text p f how) = ''FAILED '' @ show_nat f"
proof -
  have chars: "CHR '';'' \<notin> set (''PASSED '' @ show_nat p)" "CHR '';'' \<notin> set (''FAILED '' @ show_nat f)"
    using show_nat_chars by simp_all
  show "field CHR '';'' 0 (report_text p f how) = ''PASSED '' @ show_nat p"
    using field_skip(1) [OF chars(1)] by (simp add: report_text_def del: field.simps)
  show "field CHR '';'' 1 (report_text p f how) = ''FAILED '' @ show_nat f"
    using field_skip(2) [OF chars(1), of 0] field_skip(1) [OF chars(2)]
    by (simp add: report_text_def del: field.simps)
qed

lemma report_last_field:
  assumes "CHR '';'' \<notin> set (case how of Report_exit code \<Rightarrow> ''EXIT '' @ show_int code | Report_signal name \<Rightarrow> ''SIGNAL '' @ name)"
  shows "field CHR '';'' 2 (report_text p f how) =
    (case how of Report_exit code \<Rightarrow> ''EXIT '' @ show_int code | Report_signal name \<Rightarrow> ''SIGNAL '' @ name)"
proof -
  have chars: "CHR '';'' \<notin> set (''PASSED '' @ show_nat p)" "CHR '';'' \<notin> set (''FAILED '' @ show_nat f)"
    using show_nat_chars by simp_all
  show ?thesis
    using field_skip(2) [OF chars(1), of 1] field_skip(2) [OF chars(2), of 0] field_skip(1) [OF assms]
    by (simp add: report_text_def numeral_2_eq_2 del: field.simps)
qed

lemma cut_word:
  assumes "CHR '' '' \<notin> set u" "CHR '' '' \<notin> set v"
  shows "field CHR '' '' 0 (u @ CHR '' '' # v) = u" "field CHR '' '' 1 (u @ CHR '' '' # v) = v"
  using field_skip [OF assms(1)] field_last [OF assms(2)] by (simp_all del: field.simps)

lemma cut_counts:
  "cut_count 0 (report_text p f how) = p" "cut_count 1 (report_text p f how) = f"
  using cut_word(2) [of "''PASSED''" "show_nat p"] cut_word(2) [of "''FAILED''" "show_nat f"] show_nat_chars
  by (simp_all add: cut_count_def report_fields report_fields(2) [unfolded One_nat_def] del: field.simps)

lemma show_int_chars: "CHR '';'' \<notin> set (show_int i)" "CHR '' '' \<notin> set (show_int i)"
  using show_nat_chars by (simp_all add: show_int_def)

lemma cut_end_exit: "cut_end (report_text p f (Report_exit code)) = (''EXIT'', show_int code)"
  using report_last_field [of "Report_exit code" p f] cut_word [of "''EXIT''" "show_int code"] show_int_chars
  by (simp add: cut_end_def del: field.simps)

lemma signal_name_chars: "CHR '';'' \<notin> set (get_signal_name number sig)" "CHR '' '' \<notin> set (get_signal_name number sig)"
proof -
  have "get_signal_name number sig \<in> set (''UNKNOWN'' # signal_names)"
    by (auto simp: get_signal_name_def find_Some_iff split: option.split)
  moreover have "\<forall>s \<in> set (''UNKNOWN'' # signal_names). CHR '';'' \<notin> set s \<and> CHR '' '' \<notin> set s"
    by (simp add: signal_names_def)
  ultimately show "CHR '';'' \<notin> set (get_signal_name number sig)" "CHR '' '' \<notin> set (get_signal_name number sig)"
    by blast+
qed

lemma cut_end_signal:
  "cut_end (report_text p f (Report_signal (get_signal_name number sig))) = (''SIGNAL'', get_signal_name number sig)"
  using report_last_field [of "Report_signal (get_signal_name number sig)" p f]
    cut_word [of "''SIGNAL''" "get_signal_name number sig"] signal_name_chars
  by (simp add: cut_end_def del: field.simps)

end
