(* ===== verification/Hash_Tests.thy ===== *)
theory Hash_Tests
  imports Htable_Order Libtest
begin

text \<open>
  Suites of \<open>src/tests/hash\<close>, run by the model of the test runner on the model of the table: the checks
  of each test case as data, what they expect of an association list, and that they pass.
\<close>

section \<open>Checks\<close>

text \<open>
  A line of a test case: a call on the table the suite shares, and the assertions on what it returns.
  A loop is the list of its rounds. A pointer to data is \<open>None\<close> or the address. The last four go
  through the entries: how many there are; their keys; their keys and data; and, in any order, that the
  entry of each number below a bound is met once, with its data (\<open>owns\<close> are tests of a key, \<open>num\<close> its
  number; the loop is left when it met \<open>slack\<close> entries too many).
\<close>

datatype ('k, 'v) ht_check =
    Check_set 'k "'v option"
  | Check_count nat
  | Check_has 'k bool
  | Check_get 'k "'v option"
  | Check_get_flag 'k "'v option" bool
  | Check_delete 'k "'v option"
  | Check_delete_flag 'k "'v option" bool
  | Check_visited nat
  | Check_keys "'k list"
  | Check_pairs "('k \<times> 'v option) list"
  | Check_each "('k \<Rightarrow> bool) list" "'k \<Rightarrow> nat" "nat \<Rightarrow> 'v option" nat nat

definition check_is :: "bool \<Rightarrow> bool \<Rightarrow> assert_counts \<Rightarrow> assert_counts" where
  "check_is expected v st = snd ((if expected then assert_true else assert_false) v st)"

text \<open>
  The entries a loop meets. The loop needs one step for each entry and one to end; one that did not end
  by then would never end, which is a fault here.
\<close>

definition entries_met :: "('k, 'v) htable \<Rightarrow> ('k, 'v) ht_entry list checked" where
  "entries_met t = and_then (ht_foreach (Suc (ht_count t)) t) (\<lambda>res.
     case res of None \<Rightarrow> Inl Out_of_bounds | Some es \<Rightarrow> Inr es)"

fun check_keys :: "'k list \<Rightarrow> ('k, 'v) ht_entry list \<Rightarrow> assert_counts \<Rightarrow> assert_counts" where
  "check_keys ks [] st = st"
| "check_keys [] (e # es) st = check_keys [] es (check_is True False st)"
| "check_keys (k # ks) (e # es) st =
     check_keys ks es (snd (assert_equal (key e) k (check_is True True st)))"

fun check_pairs :: "('k \<times> 'v option) list \<Rightarrow> ('k, 'v) ht_entry list \<Rightarrow> assert_counts \<Rightarrow> assert_counts" where
  "check_pairs kvs [] st = st"
| "check_pairs [] (e # es) st = check_pairs [] es (check_is True False st)"
| "check_pairs (kv # kvs) (e # es) st =
     check_pairs kvs es (check_is True (data e = snd kv) (snd (assert_equal (key e) (fst kv) (check_is True True st))))"

fun check_each ::
  "'k ht_key_ops \<Rightarrow> ('k, 'v) htable \<Rightarrow> ('k \<Rightarrow> bool) list \<Rightarrow> ('k \<Rightarrow> nat) \<Rightarrow> (nat \<Rightarrow> 'v option) \<Rightarrow> nat \<Rightarrow> nat \<Rightarrow>
   ('k, 'v) ht_entry list \<Rightarrow> nat \<Rightarrow> bool list \<Rightarrow> assert_counts \<Rightarrow> (bool list \<times> assert_counts) checked"
where
  "check_each ops t owns num d bound slack [] steps seen st = Inr (seen, st)"
| "check_each ops t owns num d bound slack (e # es) steps seen st =
     (let steps = steps + 1; st = check_is True (steps \<le> bound + slack) st
      in if steps > bound + slack then Inr (seen, st)
         else
           let st = fold (\<lambda>own. check_is True (own (key e))) owns st; i = num (key e);
               st = check_is True (i < bound) st
           in if i < bound then
                and_then (htable_get ops t (key e)) (\<lambda>got.
                check_each ops t owns num d bound slack es steps (seen[i := True])
                  (check_is True (got = data e) (check_is True (data e = d i) (check_is False (seen ! i) st))))
              else check_each ops t owns num d bound slack es steps seen st)"

primrec perform_check ::
  "'k ht_key_ops \<Rightarrow> ('k, 'v) ht_mem \<Rightarrow> ('k, 'v) ht_check \<Rightarrow> ('k, 'v) htable \<Rightarrow> assert_counts \<Rightarrow>
   (('k, 'v) htable \<times> assert_counts) checked"
where
  "perform_check ops m (Check_set k d) t st =
     and_then (htable_set ops m t k d) (\<lambda>(ret, t). Inr (t, check_is True ret st))"
| "perform_check ops m (Check_count n) t st = Inr (t, snd (assert_equal (htable_count t) n st))"
| "perform_check ops m (Check_has k b) t st =
     and_then (htable_has ops t k) (\<lambda>ret. Inr (t, check_is b ret st))"
| "perform_check ops m (Check_get k d) t st =
     and_then (htable_get ops t k) (\<lambda>ret. Inr (t, check_is True (ret = d) st))"
| "perform_check ops m (Check_get_flag k d b) t st =
     and_then (htable_get_with_flag ops t k) (\<lambda>(ret, flag). Inr (t, check_is b flag (check_is True (ret = d) st)))"
| "perform_check ops m (Check_delete k d) t st =
     and_then (htable_delete ops m t k) (\<lambda>(ret, released, t). Inr (t, check_is True (ret = d) st))"
| "perform_check ops m (Check_delete_flag k d b) t st =
     and_then (htable_delete_with_flag ops m t k) (\<lambda>(ret, flag, released, t).
       Inr (t, check_is b flag (check_is True (ret = d) st)))"
| "perform_check ops m (Check_visited n) t st =
     and_then (entries_met t) (\<lambda>es. Inr (t, snd (assert_equal (length es) n st)))"
| "perform_check ops m (Check_keys ks) t st =
     and_then (entries_met t) (\<lambda>es. Inr (t, snd (assert_equal (length es) (length ks) (check_keys ks es st))))"
| "perform_check ops m (Check_pairs kvs) t st =
     and_then (entries_met t) (\<lambda>es. Inr (t, snd (assert_equal (length es) (length kvs) (check_pairs kvs es st))))"
| "perform_check ops m (Check_each owns num d bound slack) t st =
     and_then (entries_met t) (\<lambda>es.
     and_then (check_each ops t owns num d bound slack es 0 (replicate bound False) st) (\<lambda>(seen, st).
       Inr (t, fold (\<lambda>i. check_is True (seen ! i)) [0 ..< bound] st)))"

fun perform_checks ::
  "'k ht_key_ops \<Rightarrow> ('k, 'v) ht_mem \<Rightarrow> ('k, 'v) ht_check list \<Rightarrow> ('k, 'v) htable \<Rightarrow> assert_counts \<Rightarrow>
   (('k, 'v) htable \<times> assert_counts) checked"
where
  "perform_checks ops m [] t st = Inr (t, st)"
| "perform_checks ops m (c # cs) t st =
     and_then (perform_check ops m c t st) (\<lambda>(t, st). perform_checks ops m cs t st)"

section \<open>Suites\<close>

text \<open>
  The state is the table the suite points to. A fault ends the process: a failed assertion with
  \<open>SIGABRT\<close>, an access outside the arrays, at best, with \<open>SIGSEGV\<close>.
\<close>

definition crash :: "fault \<Rightarrow> child_status" where
  "crash e = Signaled (if e = Assertion_failed then 6 else 11)"

primrec assert_rc :: "assert_code \<Rightarrow> int" where
  "assert_rc ASSERT_OK = 0"
| "assert_rc ASSERT_FAIL = 1"

definition hash_before_all :: "('k, 'v) ht_mem \<Rightarrow> u64 \<Rightarrow> ('k, 'v) htable option test_callback" where
  "hash_before_all m cap st w =
     (case htable_create m cap of
        Inl e \<Rightarrow> Ends (crash e)
      | Inr r \<Rightarrow> let (rc, st) = assert_true (\<not> Option.is_none r) st in Returns (assert_rc rc) st r)"

text \<open>One suite checks the count of the new table as well.\<close>

definition hash_before_all_empty :: "('k, 'v) ht_mem \<Rightarrow> u64 \<Rightarrow> ('k, 'v) htable option test_callback" where
  "hash_before_all_empty m cap st w =
     (case hash_before_all m cap st w of
        Returns rc st (Some t) \<Rightarrow> let (rc, st) = assert_equal (htable_count t) 0 st in Returns (assert_rc rc) st (Some t)
      | Returns rc st None \<Rightarrow> Ends (crash Bad_pointer)
      | Ends status \<Rightarrow> Ends status)"

text \<open>
  The loop of \<open>htable_free\<close> needs one step for each entry and one to end; if it did not end by then it
  would never end, and the child would have to be killed.
\<close>

definition hash_after_all :: "'k ht_key_ops \<Rightarrow> ('k, 'v) htable option test_callback" where
  "hash_after_all ops st w =
     (case w of
        None \<Rightarrow> Ends (crash Bad_pointer)
      | Some t \<Rightarrow>
          (case htable_free ops (Suc (ht_count t)) t of
             Inl e \<Rightarrow> Ends (crash e)
           | Inr None \<Rightarrow> Ends (Signaled 9)
           | Inr (Some _) \<Rightarrow> Returns (assert_rc ASSERT_OK) st None))"

definition hash_case :: "'k ht_key_ops \<Rightarrow> ('k, 'v) ht_mem \<Rightarrow> ('k, 'v) ht_check list \<Rightarrow> ('k, 'v) htable option test_callback" where
  "hash_case ops m cs st w =
     (case w of
        None \<Rightarrow> Ends (crash Bad_pointer)
      | Some t \<Rightarrow>
          (case perform_checks ops m cs t st of
             Inl e \<Rightarrow> Ends (crash e)
           | Inr (t, st) \<Rightarrow> Returns (assert_rc ASSERT_OK) st (Some t)))"

text \<open>
  A case of the suites without hooks makes a table of its own, and frees it at the end with or without a
  callback for the data; \<open>after\<close> is what it checks then of what was released.
\<close>

definition hash_local_case ::
  "'k ht_key_ops \<Rightarrow> ('k, 'v) ht_mem \<Rightarrow> u64 \<Rightarrow> bool \<Rightarrow> (('k, 'v) ht_release list \<Rightarrow> assert_counts \<Rightarrow> assert_counts) \<Rightarrow>
   ('k, 'v) ht_check list \<Rightarrow> 'w test_callback"
where
  "hash_local_case ops m cap has_cb after cs st w =
     (case htable_create m cap of
        Inl e \<Rightarrow> Ends (crash e)
      | Inr None \<Rightarrow> Ends (crash Bad_pointer)
      | Inr (Some t) \<Rightarrow>
          (case perform_checks ops m cs t (check_is True True st) of
             Inl e \<Rightarrow> Ends (crash e)
           | Inr (t, st) \<Rightarrow>
               (case htable_free_with_cleanup ops (Suc (ht_count t)) t has_cb of
                  Inl e \<Rightarrow> Ends (crash e)
                | Inr None \<Rightarrow> Ends (Signaled 9)
                | Inr (Some rs) \<Rightarrow> Returns (assert_rc ASSERT_OK) (after rs st) w)))"

definition local_suite :: "(string \<times> 'w test_callback) list \<Rightarrow> 'w libtest_config" where
  "local_suite cases =
     \<lparr>test_cases = map (\<lambda>(name, cb). \<lparr>tc_name = name, tc_callback = cb\<rparr>) cases, before_all = None, before_each = None,
      after_all = None, after_each = None\<rparr>"

text \<open>The other suites share a table. A case is its name and its checks.\<close>

definition suite_case ::
  "'k ht_key_ops \<Rightarrow> ('k, 'v) ht_mem \<Rightarrow> string \<times> ('k, 'v) ht_check list \<Rightarrow> ('k, 'v) htable option test_case"
where
  "suite_case ops m tc = \<lparr>tc_name = fst tc, tc_callback = hash_case ops m (snd tc)\<rparr>"

definition hash_suite ::
  "'k ht_key_ops \<Rightarrow> ('k, 'v) ht_mem \<Rightarrow> ('k, 'v) htable option test_callback \<Rightarrow>
   (string \<times> ('k, 'v) ht_check list) list \<Rightarrow> ('k, 'v) htable option libtest_config"
where
  "hash_suite ops m before cases =
     \<lparr>test_cases = map (suite_case ops m) cases, before_all = Some before, before_each = None,
      after_all = Some (hash_after_all ops), after_each = None\<rparr>"

section \<open>What a suite expects\<close>

text \<open>
  The table as an association list, up to its order. A check that is met has a result; insertions stay below the number
  of keys up to which the table works.
\<close>

abbreviation data_of :: "('k \<times> 'v option) list \<Rightarrow> 'k \<Rightarrow> 'v option" where
  "data_of kvs k \<equiv> Option.bind (map_of kvs k) (\<lambda>d. d)"

primrec expect :: "('k, 'v) ht_check \<Rightarrow> ('k \<times> 'v option) list \<Rightarrow> ('k \<times> 'v option) list option" where
  "expect (Check_set k d) kvs = (if length kvs < ht_limit then Some (AList.update k d kvs) else None)"
| "expect (Check_count n) kvs = (if length kvs = n then Some kvs else None)"
| "expect (Check_has k b) kvs = (if (map_of kvs k \<noteq> None) = b then Some kvs else None)"
| "expect (Check_get k d) kvs = (if data_of kvs k = d then Some kvs else None)"
| "expect (Check_get_flag k d b) kvs =
     (if data_of kvs k = d \<and> (map_of kvs k \<noteq> None) = b then Some kvs else None)"
| "expect (Check_delete k d) kvs = (if data_of kvs k = d then Some (AList.delete k kvs) else None)"
| "expect (Check_delete_flag k d b) kvs =
     (if data_of kvs k = d \<and> (map_of kvs k \<noteq> None) = b then Some (AList.delete k kvs) else None)"
| "expect (Check_visited n) kvs = (if length kvs = n then Some kvs else None)"
| "expect (Check_keys ks) kvs = None"
| "expect (Check_pairs kds) kvs = None"
| "expect (Check_each owns num d bound slack) kvs =
     (if length kvs = bound \<and> distinct (map (num \<circ> fst) kvs) \<and>
        (\<forall>kv \<in> set kvs. (\<forall>own \<in> set owns. own (fst kv)) \<and> num (fst kv) < bound \<and> snd kv = d (num (fst kv)))
      then Some kvs else None)"

fun expect_all :: "('k, 'v) ht_check list \<Rightarrow> ('k \<times> 'v option) list \<Rightarrow> ('k \<times> 'v option) list option" where
  "expect_all [] kvs = Some kvs"
| "expect_all (c # cs) kvs = Option.bind (expect c kvs) (expect_all cs)"

lemma expect_all_append: "expect_all (cs @ ds) kvs = Option.bind (expect_all cs kvs) (expect_all ds)"
proof (induction cs arbitrary: kvs)
  case (Cons c cs)
  then show ?case by (cases "expect c kvs") simp_all
qed simp

text \<open>A valid table and the list it is expected to stand for.\<close>

definition stands :: "'k ht_key_ops \<Rightarrow> ('k, 'v) htable \<Rightarrow> ('k \<times> 'v option) list \<Rightarrow> bool" where
  "stands ops t kvs \<longleftrightarrow> ht_inv ops t \<and> distinct (map fst kvs) \<and> map_of (ht_alist t) = map_of kvs"

lemma same_map_length:
  assumes "distinct (map fst xs)" "distinct (map fst ys)" "map_of xs = map_of ys"
  shows "length xs = length ys"
proof -
  have len: "length zs = card (dom (map_of zs))" if "distinct (map fst zs)" for zs :: "('a \<times> 'b) list"
    using distinct_card [OF that] by (simp add: dom_map_of_conv_image_fst)
  show ?thesis using len [OF assms(1)] len [OF assms(2)] assms(3) by simp
qed

lemma stands_mset:
  assumes "stands ops t kvs"
  shows "mset (ht_alist t) = mset kvs"
proof -
  have d: "distinct (map fst (ht_alist t))" "distinct (map fst kvs)" "map_of (ht_alist t) = map_of kvs"
    using assms inv_distinct [of ops t] by (simp_all add: stands_def)
  have "set (ht_alist t) = set kvs" using d(3) map_of_eq_Some_iff [OF d(1)] map_of_eq_Some_iff [OF d(2)] by auto
  then show ?thesis using d(1,2) set_eq_iff_mset_eq_distinct distinct_map by blast
qed

lemma stands_entries:
  assumes "stands ops t kvs"
  obtains es where "entries_met t = Inr es" "map entry_pair es = ht_alist t"
proof -
  obtain ps where rep: "ht_rep ops t ps" using assms by (auto simp: stands_def ht_inv_def)
  from rep_foreach [OF rep, of "Suc (ht_count t)"] show thesis
    using that rep_alist [OF rep] by (simp add: entries_met_def pairs_of_def comp_def)
qed

lemma stands_count: "stands ops t kvs \<Longrightarrow> ht_count t = length kvs"
  using same_map_length [of "ht_alist t" kvs] inv_distinct [of ops t] inv_count [of ops t] by (simp add: stands_def)

lemma check_is_fails [simp]: "assert_fail_count (check_is b b st) = assert_fail_count st"
  by (cases b) (simp_all add: check_is_def assert_true_def assert_false_def assert_internal_def)

lemma check_is_fold_fails: "\<forall>x \<in> set xs. p x \<Longrightarrow> assert_fail_count (fold (\<lambda>x. check_is True (p x)) xs st) = assert_fail_count st"
  by (induction xs arbitrary: st) simp_all

lemma check_is_equal [simp]: "assert_fail_count (snd (assert_equal v v st)) = assert_fail_count st"
  by (simp add: assert_equal_def assert_internal_def)

context ht_key begin

lemma delete_exact:
  fixes t :: "('k, 'v) htable"
  assumes "stands ops t kvs" "grants m"
  obtains released t' where
    "htable_delete_with_flag ops m t k = Inr (data_of kvs k, map_of kvs k \<noteq> None, released, t')"
    "stands ops t' (AList.delete k kvs)"
proof -
  have s: "ht_inv ops t" "distinct (map fst kvs)" "map_of (ht_alist t) = map_of kvs" using assms(1) by (simp_all add: stands_def)
  obtain ps where "ht_rep ops t ps" using s(1) by (auto simp: ht_inv_def)
  from htable_delete_with_flag_correct [OF this, of m k] obtain d flag released t' where
    run: "htable_delete_with_flag ops m t k = Inr (d, flag, released, t')" "ht_inv ops t'" and
    out: "delete_outcome ops (ht_alist t) k d flag released (ht_alist t')" and
    flag: "flag = (k \<in> fst ` set (ht_alist t))" using assms(2) by (auto simp: grants_def)
  have "flag \<longleftrightarrow> map_of kvs k \<noteq> None" using flag s(3) by (metis map_of_eq_None_iff)
  then have "d = data_of kvs k" "flag = (map_of kvs k \<noteq> None)" "map_of (ht_alist t') = (map_of kvs)(k := None)"
    using out s(3) by (auto simp: delete_outcome_def delete_conv' split: if_splits)
  then show thesis using that run s(2) by (simp add: stands_def delete_conv' distinct_delete)
qed

lemma set_exact:
  fixes t :: "('k, 'v) htable"
  assumes "stands ops t kvs" "grants m" "length kvs < ht_limit"
  obtains t' where "htable_set ops m t k d = Inr (True, t')" "stands ops t' (AList.update k d kvs)"
proof -
  have "ht_holds ops (length kvs) t (map_of kvs)"
    using assms(1) stands_count [OF assms(1)] by (simp add: ht_holds_def stands_def)
  from set_granted [OF this assms(3,2), of k d] show thesis
    using that assms(1) by (auto simp: ht_holds_def stands_def update_conv' distinct_update)
qed

lemma get_exact:
  fixes t :: "('k, 'v) htable"
  assumes "stands ops t kvs"
  shows "htable_get_with_flag ops t k = Inr (data_of kvs k, map_of kvs k \<noteq> None)"
  using assms htable_get_with_flag_correct [of t _ k] by (auto simp: stands_def ht_inv_def split: option.splits)

lemma check_each_met:
  fixes t :: "('k, 'v) htable"
  assumes t: "stands ops t kvs" and es: "\<forall>e \<in> set es. entry_pair e \<in> set kvs"
    and new: "distinct (map (num \<circ> key) es)" "\<forall>e \<in> set es. \<not> seen ! num (key e)"
    and ok: "\<forall>e \<in> set es. (\<forall>own \<in> set owns. own (key e)) \<and> num (key e) < bound \<and> data e = d (num (key e))"
    and n: "steps + length es \<le> bound + slack" "length seen = bound"
  shows "\<exists>seen' st'. check_each ops t owns num d bound slack es steps seen st = Inr (seen', st') \<and>
    assert_fail_count st' = assert_fail_count st \<and> length seen' = bound \<and>
    (\<forall>i < bound. seen' ! i = (seen ! i \<or> i \<in> (num \<circ> key) ` set es))"
  using es new ok n
proof (induction es arbitrary: steps seen st)
  case (Cons e es)
  let ?i = "num (key e)" and ?s = "seen[num (key e) := True]"
  have i: "?i < bound" "\<forall>own \<in> set owns. own (key e)" "data e = d ?i" "\<not> seen ! ?i" "steps + 1 \<le> bound + slack"
    using Cons.prems by auto
  have "map_of kvs (key e) = Some (data e)"
    using t Cons.prems(1) by (intro map_of_is_SomeI) (simp_all add: stands_def entry_pair_def)
  then have g: "htable_get ops t (key e) = Inr (data e)" using get_exact [OF t, of "key e"] by (simp add: htable_get_def)
  let ?st = "check_is True (data e = data e) (check_is True (data e = d ?i) (check_is False (seen ! ?i)
      (check_is True (?i < bound) (fold (\<lambda>own. check_is True (own (key e))) owns (check_is True (steps + 1 \<le> bound + slack) st)))))"
  have st: "assert_fail_count ?st = assert_fail_count st" using i check_is_fold_fails [of owns "\<lambda>own. own (key e)"] by simp
  have "check_each ops t owns num d bound slack (e # es) steps seen st =
      check_each ops t owns num d bound slack es (steps + 1) ?s ?st"
    using g i(1,5) by (simp add: Let_def)
  moreover have "\<exists>seen' st'. check_each ops t owns num d bound slack es (steps + 1) ?s ?st = Inr (seen', st') \<and>
      assert_fail_count st' = assert_fail_count ?st \<and> length seen' = bound \<and>
      (\<forall>i < bound. seen' ! i = (?s ! i \<or> i \<in> (num \<circ> key) ` set es))"
    using Cons.prems by (intro Cons.IH) (auto simp: nth_update_if)
  ultimately show ?case using st i(1) Cons.prems(6) by (auto simp: nth_update_if)
qed simp

lemma check_each_expected:
  fixes t :: "('k, 'v) htable"
  assumes t: "stands ops t kvs" and c: "expect (Check_each owns num d bound slack) kvs = Some kvs'"
  shows "\<exists>st'. perform_check ops m (Check_each owns num d bound slack) t st = Inr (t, st') \<and> kvs' = kvs \<and>
    assert_fail_count st' = assert_fail_count st"
proof -
  have k: "length kvs = bound" "distinct (map (num \<circ> fst) kvs)" "kvs' = kvs"
    "\<forall>kv \<in> set kvs. (\<forall>own \<in> set owns. own (fst kv)) \<and> num (fst kv) < bound \<and> snd kv = d (num (fst kv))"
    using c by (auto split: if_splits)
  obtain es where es: "entries_met t = Inr es" "map entry_pair es = ht_alist t" by (rule stands_entries [OF t])
  have m: "mset (map entry_pair es) = mset kvs" using stands_mset [OF t] es(2) by simp
  have set: "entry_pair ` set es = set kvs" using mset_eq_setD [OF m] by simp
  have nums: "map (num \<circ> key) es = map (num \<circ> fst) (map entry_pair es)" by (simp add: entry_pair_def)
  have n: "mset (map (num \<circ> key) es) = mset (map (num \<circ> fst) kvs)" using m unfolding nums mset_map [of "num \<circ> fst"] by simp
  have d: "distinct (map (num \<circ> key) es)" "(num \<circ> key) ` set es = (num \<circ> fst) ` set kvs"
    using k(2) mset_eq_imp_distinct_iff [OF n] mset_eq_setD [OF n] by simp_all
  have "(num \<circ> fst) ` set kvs \<subseteq> {..<bound}" using k(4) by auto
  moreover have "card ((num \<circ> fst) ` set kvs) = bound" using distinct_card [OF k(2)] k(1) by simp
  ultimately have all: "(num \<circ> key) ` set es = {..<bound}" using d(2) card_subset_eq [of "{..<bound}"] by auto
  have len: "length es = bound" using m k(1) by (metis length_map mset_eq_length)
  have e: "\<forall>e \<in> set es. entry_pair e \<in> set kvs" using set by blast
  then have ok: "\<forall>e \<in> set es. (\<forall>own \<in> set owns. own (key e)) \<and> num (key e) < bound \<and> data e = d (num (key e))"
    using k(4) by (fastforce simp: entry_pair_def)
  have fresh: "\<forall>e \<in> set es. \<not> replicate bound False ! num (key e)" using ok by simp
  obtain seen st1 where s: "check_each ops t owns num d bound slack es 0 (replicate bound False) st = Inr (seen, st1)"
    "assert_fail_count st1 = assert_fail_count st" "\<forall>i < bound. seen ! i = (replicate bound False ! i \<or> i \<in> (num \<circ> key) ` set es)"
    using check_each_met [OF t e d(1) fresh ok, of 0 slack st] len by auto
  have "\<forall>i \<in> set [0 ..< bound]. seen ! i" using s(3) all by auto
  from check_is_fold_fails [OF this] show ?thesis using es(1) s(1,2) k(3) by simp
qed

text \<open>A check that is expected is met, and no assertion fails.\<close>

lemma perform_expected:
  fixes t :: "('k, 'v) htable"
  assumes t: "stands ops t kvs" and m: "grants m" and c: "expect c kvs = Some kvs'"
  shows "\<exists>t' st'. perform_check ops m c t st = Inr (t', st') \<and> stands ops t' kvs' \<and>
    assert_fail_count st' = assert_fail_count st"
proof (cases c)
  case (Check_set k d)
  then have l: "length kvs < ht_limit" "kvs' = AList.update k d kvs" using c by (simp_all split: if_splits)
  obtain t' where "htable_set ops m t k d = Inr (True, t')" "stands ops t' (AList.update k d kvs)"
    by (rule set_exact [OF t m l(1)])
  then show ?thesis using Check_set l(2) by simp
next
  case (Check_delete k d)
  then have d: "data_of kvs k = d" "kvs' = AList.delete k kvs" using c by (simp_all split: if_splits)
  obtain released t' where "htable_delete_with_flag ops m t k = Inr (data_of kvs k, map_of kvs k \<noteq> None, released, t')"
    "stands ops t' (AList.delete k kvs)" by (rule delete_exact [OF t m])
  then show ?thesis using Check_delete d by (simp add: htable_delete_def)
next
  case (Check_delete_flag k d b)
  then have d: "data_of kvs k = d" "(map_of kvs k \<noteq> None) = b" "kvs' = AList.delete k kvs"
    using c by (simp_all split: if_splits)
  obtain released t' where "htable_delete_with_flag ops m t k = Inr (data_of kvs k, map_of kvs k \<noteq> None, released, t')"
    "stands ops t' (AList.delete k kvs)" by (rule delete_exact [OF t m])
  then show ?thesis using Check_delete_flag d by simp
next
  case (Check_visited n)
  obtain es where "entries_met t = Inr es" "map entry_pair es = ht_alist t" by (rule stands_entries [OF t])
  moreover from this(2) have "length es = length kvs" using stands_mset [OF t] by (metis length_map mset_eq_length)
  ultimately show ?thesis using Check_visited c t by (simp split: if_splits)
next
  case (Check_each owns num d n slack)
  show ?thesis using check_each_expected [OF t c [unfolded Check_each], of m st] t Check_each by auto
qed (use t c get_exact [OF t] stands_count [OF t] in
  \<open>auto simp: htable_get_def htable_has_def htable_count_def split: if_splits\<close>)

end

section \<open>Order\<close>

text \<open>
  The number of keys held at most and the size of the index are kept as long as no insertion may have
  made the table grow; then the list is in the order of iteration.
\<close>

definition room_after :: "nat \<Rightarrow> (nat \<times> nat) option \<Rightarrow> (nat \<times> nat) option" where
  "room_after len room = Option.bind room (\<lambda>(n, cap). if fits_index (n + 1) cap then Some (max n len, cap) else None)"

fun expect_in ::
  "('k, 'v) ht_check \<Rightarrow> ('k \<times> 'v option) list \<times> (nat \<times> nat) option \<Rightarrow> (('k \<times> 'v option) list \<times> (nat \<times> nat) option) option"
where
  "expect_in (Check_keys ks) (kvs, room) = (if room \<noteq> None \<and> map fst kvs = ks then Some (kvs, room) else None)"
| "expect_in (Check_pairs kds) (kvs, room) = (if room \<noteq> None \<and> kvs = kds then Some (kvs, room) else None)"
| "expect_in (Check_set k d) (kvs, room) =
     map_option (\<lambda>kvs'. (kvs', room_after (length kvs') room)) (expect (Check_set k d) kvs)"
| "expect_in c (kvs, room) = map_option (\<lambda>kvs'. (kvs', room)) (expect c kvs)"

fun expect_in_all ::
  "('k, 'v) ht_check list \<Rightarrow> ('k \<times> 'v option) list \<times> (nat \<times> nat) option \<Rightarrow> (('k \<times> 'v option) list \<times> (nat \<times> nat) option) option"
where
  "expect_in_all [] s = Some s"
| "expect_in_all (c # cs) s = Option.bind (expect_in c s) (expect_in_all cs)"

lemma expect_in_of: "expect c kvs = Some kvs' \<Longrightarrow> \<exists>room'. expect_in c (kvs, room) = Some (kvs', room')"
  by (cases c) auto

lemma expect_in_all_of:
  "expect_all cs kvs = Some kvs' \<Longrightarrow> \<exists>room'. expect_in_all cs (kvs, room) = Some (kvs', room')"
proof (induction cs arbitrary: kvs room)
  case (Cons c cs)
  then obtain l where l: "expect c kvs = Some l" "expect_all cs l = Some kvs'" by (auto simp: Option.bind_eq_Some_conv)
  obtain r where "expect_in c (kvs, room) = Some (l, r)" using expect_in_of [OF l(1)] by blast
  then show ?case using Cons.IH [OF l(2), of r] by simp
qed simp

lemma expect_in_all_append: "expect_in_all (cs @ ds) s = Option.bind (expect_in_all cs s) (expect_in_all ds)"
proof (induction cs arbitrary: s)
  case (Cons c cs)
  then show ?case by (cases "expect_in c s") simp_all
qed simp

definition stands_in ::
  "'k ht_key_ops \<Rightarrow> ('k, 'v) htable \<Rightarrow> ('k \<times> 'v option) list \<times> (nat \<times> nat) option \<Rightarrow> bool"
where
  "stands_in ops t s \<longleftrightarrow> stands ops t (fst s) \<and> (\<forall>n cap. snd s = Some (n, cap) \<longrightarrow> in_order ops t (fst s) n cap)"

lemma check_keys_fails: "assert_fail_count (check_keys (map key es) es st) = assert_fail_count st"
  by (induction es arbitrary: st) simp_all

lemma check_pairs_fails: "assert_fail_count (check_pairs (map entry_pair es) es st) = assert_fail_count st"
  by (induction es arbitrary: st) (simp_all add: entry_pair_def)

text \<open>Checks that only look.\<close>

primrec only_looks :: "('k, 'v) ht_check \<Rightarrow> bool" where
  "only_looks (Check_set k d) = False"
| "only_looks (Check_count n) = True"
| "only_looks (Check_has k b) = True"
| "only_looks (Check_get k d) = True"
| "only_looks (Check_get_flag k d b) = True"
| "only_looks (Check_delete k d) = False"
| "only_looks (Check_delete_flag k d b) = False"
| "only_looks (Check_visited n) = True"
| "only_looks (Check_keys ks) = True"
| "only_looks (Check_pairs kds) = True"
| "only_looks (Check_each owns num d bound slack) = True"

lemma looks_same:
  assumes "only_looks c" "perform_check ops m c t st = Inr (t', st')"
  shows "t' = t"
  using assms by (cases c) (auto simp: and_then_Inr_iff)

lemma looks_expect: "only_looks c \<Longrightarrow> expect c kvs = Some kvs' \<Longrightarrow> kvs' = kvs"
  by (cases c) (auto split: if_splits)

lemma looks_expect_in:
  assumes "only_looks c" "expect_in c (kvs, room) = Some s'"
  shows "s' = (kvs, room) \<and> (expect c kvs = Some kvs \<or>
    room \<noteq> None \<and> (c = Check_keys (map fst kvs) \<or> c = Check_pairs kvs))"
  using assms looks_expect [OF assms(1)] by (cases c) (auto split: if_splits)

context ht_key begin

lemma perform_set_in:
  fixes t :: "('k, 'v) htable"
  assumes t: "stands_in ops t (kvs, room)" and m: "grants m" and c: "expect_in (Check_set k d) (kvs, room) = Some s'"
  shows "\<exists>t'. htable_set ops m t k d = Inr (True, t') \<and> stands_in ops t' s'"
proof -
  have st: "stands ops t kvs" and ord: "\<And>n cap. room = Some (n, cap) \<Longrightarrow> in_order ops t kvs n cap"
    using t by (simp_all add: stands_in_def)
  have s': "length kvs < ht_limit" "s' = (AList.update k d kvs, room_after (length (AList.update k d kvs)) room)"
    using c by (auto split: if_splits)
  obtain t' where t': "htable_set ops m t k d = Inr (True, t')" "stands ops t' (AList.update k d kvs)"
    by (rule set_exact [OF st m s'(1)])
  have "in_order ops t' (AList.update k d kvs) n' cap"
    if room': "room_after (length (AList.update k d kvs)) room = Some (n', cap)" for n' cap
  proof -
    obtain n where n: "room = Some (n, cap)" "fits_index (n + 1) cap" "n' = max n (length (AList.update k d kvs))"
      using room' by (auto simp: room_after_def Option.bind_eq_Some_conv split: if_splits)
    obtain t'' where "htable_set_with_flag ops m t k d = Inr (True, Some (k \<notin> fst ` set kvs), t'')"
      "in_order ops t'' (AList.update k d kvs) (max n (length (AList.update k d kvs))) cap"
      by (rule set_in_order [OF ord [OF n(1)] n(2) m])
    then show ?thesis using t'(1) n(3) by (simp add: htable_set_def)
  qed
  then show ?thesis using t' s'(2) by (simp add: stands_in_def)
qed

lemma delete_exact_in:
  fixes t :: "('k, 'v) htable"
  assumes t: "stands_in ops t (kvs, room)" and m: "grants m"
  obtains released t' where
    "htable_delete_with_flag ops m t k = Inr (data_of kvs k, map_of kvs k \<noteq> None, released, t')"
    "stands_in ops t' (AList.delete k kvs, room)"
proof -
  have st: "stands ops t kvs" and ord: "\<And>n cap. room = Some (n, cap) \<Longrightarrow> in_order ops t kvs n cap"
    using t by (simp_all add: stands_in_def)
  obtain released t' where t': "htable_delete_with_flag ops m t k = Inr (data_of kvs k, map_of kvs k \<noteq> None, released, t')"
    "stands ops t' (AList.delete k kvs)" by (rule delete_exact [OF st m])
  have "in_order ops t' (AList.delete k kvs) n cap" if "room = Some (n, cap)" for n cap
  proof -
    note o = ord [OF that]
    obtain rel t'' where "htable_delete_with_flag ops m t k = Inr (data_of kvs k, map_of kvs k \<noteq> None, rel, t'')"
      "in_order ops t'' (AList.delete k kvs) n cap" by (rule delete_in_order [OF o m])
    then show ?thesis using t'(1) by simp
  qed
  then show thesis using that t' by (simp add: stands_in_def)
qed

lemma perform_looks_in:
  fixes t :: "('k, 'v) htable"
  assumes t: "stands_in ops t s" and m: "grants m" and looks: "only_looks c" and c: "expect_in c s = Some s'"
  shows "\<exists>st'. perform_check ops m c t st = Inr (t, st') \<and> s' = s \<and> assert_fail_count st' = assert_fail_count st"
proof -
  obtain kvs room where s: "s = (kvs, room)" by (cases s)
  have st: "stands ops t kvs" and ord: "\<And>n cap. room = Some (n, cap) \<Longrightarrow> in_order ops t kvs n cap"
    using t by (simp_all add: s stands_in_def)
  from looks_expect_in [OF looks c [unfolded s]]
  consider "s' = s" "expect c kvs = Some kvs"
    | "s' = s" "room \<noteq> None" "c = Check_keys (map fst kvs)" | "s' = s" "room \<noteq> None" "c = Check_pairs kvs"
    unfolding s by blast
  then show ?thesis
  proof cases
    case 1
    then show ?thesis using perform_expected [OF st m 1(2), of st] looks_same [OF looks] by blast
  next
    case 2
    obtain es where es: "entries_met t = Inr es" "map entry_pair es = kvs"
      using stands_entries [OF st] ord 2(2) by (metis in_order_def not_None_eq surj_pair)
    then have "map fst kvs = map key es" by (auto simp: entry_pair_def)
    then show ?thesis using 2 es(1) check_keys_fails [of es st] by simp
  next
    case 3
    obtain es where es: "entries_met t = Inr es" "kvs = map entry_pair es"
      using stands_entries [OF st] ord 3(2) by (metis in_order_def not_None_eq surj_pair)
    then show ?thesis using 3 check_pairs_fails [of es st] by simp
  qed
qed

lemma perform_in_expected:
  fixes t :: "('k, 'v) htable"
  assumes t: "stands_in ops t s" and m: "grants m" and c: "expect_in c s = Some s'"
  shows "\<exists>t' st'. perform_check ops m c t st = Inr (t', st') \<and> stands_in ops t' s' \<and>
    assert_fail_count st' = assert_fail_count st"
proof (cases "only_looks c")
  case True
  then show ?thesis using perform_looks_in [OF t m True c] t by blast
next
  case False
  obtain kvs room where s: "s = (kvs, room)" by (cases s)
  show ?thesis
  proof (cases c)
    case (Check_set k d)
    then show ?thesis using perform_set_in [OF t [unfolded s] m, of k d s'] c by (auto simp: s)
  next
    case (Check_delete k d)
    obtain released t' where "htable_delete_with_flag ops m t k = Inr (data_of kvs k, map_of kvs k \<noteq> None, released, t')"
      "stands_in ops t' (AList.delete k kvs, room)" by (rule delete_exact_in [OF t [unfolded s] m])
    then show ?thesis using Check_delete c by (auto simp: s htable_delete_def split: if_splits)
  next
    case (Check_delete_flag k d b)
    obtain released t' where "htable_delete_with_flag ops m t k = Inr (data_of kvs k, map_of kvs k \<noteq> None, released, t')"
      "stands_in ops t' (AList.delete k kvs, room)" by (rule delete_exact_in [OF t [unfolded s] m])
    then show ?thesis using Check_delete_flag c by (auto simp: s split: if_splits)
  qed (use False in simp_all)
qed

lemma perform_all_in_expected:
  fixes t :: "('k, 'v) htable"
  assumes "stands_in ops t s" "grants m" "expect_in_all cs s = Some s'"
  shows "\<exists>t' st'. perform_checks ops m cs t st = Inr (t', st') \<and> stands_in ops t' s' \<and>
    assert_fail_count st' = assert_fail_count st"
  using assms
proof (induction cs arbitrary: s t st)
  case (Cons c cs)
  obtain l where l: "expect_in c s = Some l" "expect_in_all cs l = Some s'"
    using Cons.prems(3) by (auto simp: Option.bind_eq_Some_conv)
  obtain t1 st1 where "perform_check ops m c t st = Inr (t1, st1)" "stands_in ops t1 l" "assert_fail_count st1 = assert_fail_count st"
    using perform_in_expected [OF Cons.prems(1,2) l(1)] by blast
  with Cons.IH [OF this(2) Cons.prems(2) l(2), of st1] show ?case by auto
qed auto

end

section \<open>A suite that passes\<close>

definition passed_lines :: "string list \<Rightarrow> test_line list" where
  "passed_lines names = Suite_line # concat (map (\<lambda>name. [Status_line name STATUS_RUN, Status_line name STATUS_PASS]) names)"

definition suite_checks :: "(string \<times> ('k, 'v) ht_check list) list \<Rightarrow> ('k, 'v) ht_check list" where
  "suite_checks cases = concat (map snd cases)"

lemma suite_checks_simps [simp]:
  "suite_checks [] = []" "suite_checks ((name, cs) # cases) = cs @ suite_checks cases"
  by (simp_all add: suite_checks_def)

lemma suite_cases: "test_cases (hash_suite ops m before cases) = map (suite_case ops m) cases"
  by (simp add: hash_suite_def)

lemma suite_names: "map tc_name (test_cases (hash_suite ops m before cases)) = map fst cases"
  by (simp add: suite_cases suite_case_def)

text \<open>How many flags there are and what the summary counts.\<close>

lemma lines_passed:
  "lines_with STATUS_PASS (passed_lines names) = length names" "lines_with STATUS_FAIL (passed_lines names) = 0"
  by (induction names) (simp_all add: passed_lines_def)

lemma main_passes:
  assumes child: "run_child cfg (env_writes env) w = (Exited 0, replicate n True, passed_lines names)"
    and n: "n = length names" "n < 2 ^ 64"
    and opts: "test_option_loop options \<lparr>enable_color = env_tty env, report_file_path = None\<rparr> = Inr (Inr os)"
      "report_file_path os \<noteq> None"
    and env: "env_pipe_ok env" "env_fork_ok env" "env_fopen_ok env" "env_wait_ok env"
  shows "libtest_main env options cfg w = Inr (0, runner_text os env (passed_lines names),
    Some (report_text n 0 (Report_exit 0)))"
proof -
  have "count_reports (replicate n True) 0 0 = (n, 0)" using count_reports_correct [of 0 "replicate n True" 0] n(2) by simp
  then show ?thesis using child opts env n(1)
    by (simp add: libtest_main_def run_parent_def runner_text_def lines_passed)
qed

context ht_key begin

lemma create_stands:
  assumes "grants (m :: ('k, 'v) ht_mem)" "2 \<le> cap" "unat cap \<le> 2 ^ 32" "util_round_ceil2_ull cap = Inr c"
  obtains t where "htable_create m cap = Inr (Some t)" "stands_in ops t ([], Some (0, unat c))"
proof -
  obtain t where t: "htable_create m cap = Inr (Some t)" "ht_holds ops 0 t (\<lambda>_. None)"
    using create_holds [OF assms(2,3), of m 0] htable_create_granted [OF assms(1), of cap] by blast
  then have "stands ops t []" by (auto simp: ht_holds_def stands_def fun_eq_iff)
  then show thesis using that [OF t(1)] create_in_order [OF assms(2,3) t(1)] assms(4) by (simp add: stands_in_def)
qed

lemma cases_pass:
  fixes t :: "('k, 'v) htable"
  assumes "stands_in ops t s" "expect_in_all (suite_checks cases) s = Some s'" "world ch = Some t"
    and m: "grants m" and cfg: "before_each cfg = None" "after_each cfg = None" and writes: "\<forall>i. writes i"
  shows "\<exists>ch' t'. child_cases cfg writes i (map (suite_case ops m) cases) ch = Inr ch' \<and> world ch' = Some t' \<and>
    stands_in ops t' s' \<and> exit_err ch' = exit_err ch \<and>
    printed ch' = printed ch @ tl (passed_lines (map fst cases)) \<and> reported ch' = reported ch @ replicate (length cases) True"
  using assms(1-3)
proof (induction cases arbitrary: t s ch i)
  case (Cons tc cases)
  obtain l where l: "expect_in_all (snd tc) s = Some l" "expect_in_all (suite_checks cases) l = Some s'"
    using Cons.prems(2) by (auto simp: suite_checks_def expect_in_all_append Option.bind_eq_Some_conv)
  obtain t1 st1 where r: "perform_checks ops m (snd tc) t (reset_counts (counts ch)) = Inr (t1, st1)" "stands_in ops t1 l"
    "assert_fail_count st1 = 0"
    using perform_all_in_expected [OF Cons.prems(1) m l(1), of "reset_counts (counts ch)"]
    by (auto simp: reset_counts_def set_assert_success_count_def set_assert_fail_count_def)
  let ?ch = "ch\<lparr>counts := st1, world := Some t1, printed := printed ch @ tl (passed_lines [fst tc]),
      reported := reported ch @ [True]\<rparr>"
  have "child_case (writes i) (suite_case ops m tc) ch = Inr ?ch"
    using r(1,3) Cons.prems(3) writes
    by (simp add: child_case_def run_callback_def suite_case_def hash_case_def get_assert_fail_count_def passed_lines_def)
  moreover obtain ch' t' where "child_cases cfg writes (i + 1) (map (suite_case ops m) cases) ?ch = Inr ch'"
    "world ch' = Some t'" "stands_in ops t' s'" "exit_err ch' = exit_err ch"
    "printed ch' = printed ?ch @ tl (passed_lines (map fst cases))" "reported ch' = reported ?ch @ replicate (length cases) True"
    using Cons.IH [OF r(2) l(2), of ?ch "i + 1"] by auto
  ultimately show ?case using cfg by (simp add: bind_child_def child_hook_def run_hook_def passed_lines_def)
qed (simp_all add: suite_checks_def passed_lines_def)

lemma after_frees:
  assumes "stands ops t kvs"
  shows "hash_after_all ops st (Some t) = Returns 0 st None"
proof -
  obtain ps where "ht_rep ops t ps" using assms by (auto simp: stands_def ht_inv_def)
  from htable_free_with_cleanup_correct [OF this, of "Suc (ht_count t)" False]
  show ?thesis by (simp add: hash_after_all_def htable_free_def)
qed

text \<open>A suite whose checks are expected of an empty table passes.\<close>

lemma suite_passes:
  assumes m: "grants (m :: ('k, 'v) ht_mem)" and cap: "2 \<le> cap" "unat cap \<le> 2 ^ 32"
    and before: "before = hash_before_all m cap \<or> before = hash_before_all_empty m cap"
    and c: "util_round_ceil2_ull cap = Inr c"
    and checks: "expect_in_all (suite_checks cases) ([], Some (0, unat c)) = Some s" and writes: "\<forall>i. writes i"
  shows "run_child (hash_suite ops m before cases) writes None =
    (Exited 0, replicate (length cases) True, passed_lines (map fst cases))"
proof -
  let ?cfg = "hash_suite ops m before cases"
  obtain t where t: "htable_create m cap = Inr (Some t)" "stands_in ops t ([], Some (0, unat c))"
    by (rule create_stands [OF m cap c])
  then have empty: "stands ops t []" by (simp add: stands_in_def)
  let ?ch = "\<lambda>st. \<lparr>counts = st, world = Some t, exit_err = False, printed = [Suite_line], reported = []\<rparr>"
  obtain st where hook: "child_hook (before_all ?cfg) \<lparr>counts = \<lparr>assert_fail_count = 0, assert_success_count = 0\<rparr>, world = None,
      exit_err = False, printed = [Suite_line], reported = []\<rparr> = Inr (?ch st)"
    using before t(1) stands_count [OF empty]
    by (auto simp: hash_suite_def child_hook_def run_hook_def run_callback_def hash_before_all_def hash_before_all_empty_def
        assert_true_def assert_equal_def assert_internal_def reset_counts_def set_assert_success_count_def
        set_assert_fail_count_def get_assert_fail_count_def htable_count_def)
  have each: "before_each ?cfg = None" "after_each ?cfg = None" by (simp_all add: hash_suite_def)
  obtain ch' t' where c: "child_cases ?cfg writes 0 (test_cases ?cfg) (?ch st) = Inr ch'" "world ch' = Some t'"
    "stands_in ops t' s" "exit_err ch' = False" "printed ch' = passed_lines (map fst cases)"
    "reported ch' = replicate (length cases) True"
    using cases_pass [OF t(2) checks _ m each writes, of "?ch st" 0] by (auto simp: suite_cases passed_lines_def)
  have "child_hook (after_all ?cfg) ch' = Inr (ch'\<lparr>counts := reset_counts (counts ch'), world := None\<rparr>)"
    using after_frees [of t' "fst s"] c(2,3)
    by (simp add: hash_suite_def child_hook_def run_hook_def run_callback_def reset_counts_def stands_in_def
        set_assert_success_count_def set_assert_fail_count_def get_assert_fail_count_def)
  then show ?thesis using hook c by (simp add: run_child_def bind_child_def)
qed

end

text \<open>A suite without hooks, whose cases leave the state alone.\<close>

definition case_passes :: "'w test_callback \<Rightarrow> bool" where
  "case_passes cb \<longleftrightarrow> (\<forall>st w. \<exists>st'. cb (reset_counts st) w = Returns 0 st' w \<and> assert_fail_count st' = 0)"

lemma local_names: "map tc_name (test_cases (local_suite cases)) = map fst cases"
  by (simp add: local_suite_def comp_def split_def)

lemma local_cases_pass:
  assumes "\<forall>(name, cb) \<in> set cases. case_passes cb" and cfg: "before_each cfg = None" "after_each cfg = None"
    and writes: "\<forall>i. writes i"
  shows "\<exists>ch'. child_cases cfg writes i (test_cases (local_suite cases)) ch = Inr ch' \<and> world ch' = world ch \<and>
    exit_err ch' = exit_err ch \<and> printed ch' = printed ch @ tl (passed_lines (map fst cases)) \<and>
    reported ch' = reported ch @ replicate (length cases) True"
  using assms(1)
proof (induction cases arbitrary: ch i)
  case (Cons tc cases)
  obtain name cb where tc: "tc = (name, cb)" by (cases tc)
  have "case_passes cb" using Cons.prems by (simp add: tc)
  then obtain st1 where r: "cb (reset_counts (counts ch)) (world ch) = Returns 0 st1 (world ch)" "assert_fail_count st1 = 0"
    unfolding case_passes_def by blast
  let ?ch = "ch\<lparr>counts := st1, printed := printed ch @ tl (passed_lines [name]), reported := reported ch @ [True]\<rparr>"
  have "child_case (writes i) \<lparr>tc_name = name, tc_callback = cb\<rparr> ch = Inr ?ch"
    using r writes by (simp add: child_case_def run_callback_def get_assert_fail_count_def passed_lines_def)
  moreover obtain ch' where "child_cases cfg writes (i + 1) (test_cases (local_suite cases)) ?ch = Inr ch'"
    "world ch' = world ch" "exit_err ch' = exit_err ch" "printed ch' = printed ?ch @ tl (passed_lines (map fst cases))"
    "reported ch' = reported ?ch @ replicate (length cases) True"
    using Cons.IH [of "i + 1" ?ch] Cons.prems by auto
  ultimately show ?case
    using cfg by (simp add: bind_child_def child_hook_def run_hook_def passed_lines_def tc local_suite_def)
qed (simp_all add: passed_lines_def local_suite_def)

lemma local_suite_passes:
  assumes "\<forall>(name, cb) \<in> set cases. case_passes cb" "\<forall>i. writes i"
  shows "run_child (local_suite cases) writes w =
    (Exited 0, replicate (length cases) True, passed_lines (map fst cases))"
proof -
  let ?cfg = "local_suite cases"
  have h: "before_each ?cfg = None" "after_each ?cfg = None" "before_all ?cfg = None" "after_all ?cfg = None"
    by (simp_all add: local_suite_def)
  obtain ch' where "child_cases ?cfg writes 0 (test_cases ?cfg) \<lparr>counts = \<lparr>assert_fail_count = 0, assert_success_count = 0\<rparr>,
      world = w, exit_err = False, printed = [Suite_line], reported = []\<rparr> = Inr ch'" "exit_err ch' = False"
    "printed ch' = passed_lines (map fst cases)" "reported ch' = replicate (length cases) True"
    using local_cases_pass [OF assms(1) h(1,2) assms(2), of 0] by (fastforce simp: passed_lines_def)
  then show ?thesis using h(3,4) by (simp add: run_child_def child_hook_def run_hook_def bind_child_def)
qed

text \<open>What freeing a table with these pairs releases.\<close>

definition releases_of :: "'k ht_key_ops \<Rightarrow> bool \<Rightarrow> ('k \<times> 'v option) list \<Rightarrow> ('k, 'v) ht_release list" where
  "releases_of ops cb kvs =
     concat (map (\<lambda>(k, d). map Key_released (HT_KEY_FREE_CB ops k) @ (if cb then [Data_released d] else [])) kvs) @
     [Deleted_list_released, Index_list_released, Entries_released, Table_released]"

lemma count_releases: "count_list (releases_of ops True kvs) (Data_released d) = count (mset (map snd kvs)) d"
proof -
  have "count_list (map Key_released ks) (Data_released d) = 0" for ks :: "'a list" by (induction ks) simp_all
  then show ?thesis by (induction kvs) (auto simp: releases_of_def split: prod.splits)
qed

context ht_key begin

lemma local_case_passes:
  assumes m: "grants (m :: ('k, 'v) ht_mem)" and cap: "2 \<le> cap" "unat cap \<le> 2 ^ 32"
    and c: "util_round_ceil2_ull cap = Inr c"
    and checks: "expect_in_all cs ([], Some (0, unat c)) = Some (kvs, room)"
    and rest: "\<And>kvs' st. mset kvs' = mset kvs \<Longrightarrow> assert_fail_count (after (releases_of ops cb kvs') st) = assert_fail_count st"
  shows "case_passes (hash_local_case ops m cap cb after cs)"
  unfolding case_passes_def
proof (intro allI)
  fix st :: assert_counts and w :: 'w
  let ?st = "check_is True True (reset_counts st)"
  obtain t where t: "htable_create m cap = Inr (Some t)" "stands_in ops t ([], Some (0, unat c))"
    by (rule create_stands [OF m cap c])
  obtain t' st' where p: "perform_checks ops m cs t ?st = Inr (t', st')" "stands_in ops t' (kvs, room)"
    "assert_fail_count st' = 0"
    using perform_all_in_expected [OF t(2) m checks, of ?st]
    by (auto simp: reset_counts_def set_assert_success_count_def set_assert_fail_count_def)
  have s: "stands ops t' kvs" using p(2) by (simp add: stands_in_def)
  obtain ps where "ht_rep ops t' ps" using s by (auto simp: stands_def ht_inv_def)
  from htable_free_with_cleanup_correct [OF this, of "Suc (ht_count t')" cb]
  have "htable_free_with_cleanup ops (Suc (ht_count t')) t' cb = Inr (Some (releases_of ops cb (ht_alist t')))"
    by (simp add: releases_of_def)
  then show "\<exists>st'. hash_local_case ops m cap cb after cs (reset_counts st) w = Returns 0 st' w \<and> assert_fail_count st' = 0"
    using t(1) p(1,3) rest [OF stands_mset [OF s], of st'] by (simp add: hash_local_case_def)
qed

end

end
