(* ===== verification/Hash_Suites.thy ===== *)
theory Hash_Suites
  imports Hash_Tests
begin

text \<open>
  The suites of \<open>src/tests/hash\<close> that exist for both tables, with the same checks and other keys, so
  that the checks are functions of the keys. A key is a value here: \<open>test_hash_str_ownership.c\<close>, the suite on
  where the text of a key is stored, is not among them.
\<close>

section \<open>Loops of checks\<close>

text \<open>The pairs a loop over \<open>is\<close> inserts.\<close>

definition pairs_at :: "(nat \<Rightarrow> 'k) \<Rightarrow> (nat \<Rightarrow> 'v) \<Rightarrow> nat list \<Rightarrow> ('k \<times> 'v option) list" where
  "pairs_at kf d is = map (\<lambda>i. (kf i, Some (d i))) is"

lemma pairs_at_simps [simp]:
  "length (pairs_at kf d is) = length is" "fst ` set (pairs_at kf d is) = kf ` set is"
  by (simp_all add: pairs_at_def image_image)

lemma map_of_pairs_at:
  "i \<in> set is \<Longrightarrow> inj_on kf (set is) \<Longrightarrow> map_of (pairs_at kf d is) (kf i) = Some (Some (d i))"
  unfolding pairs_at_def by (induction "is") (auto simp: inj_on_def)

lemma map_of_pairs_at_None: "k \<notin> kf ` set is \<Longrightarrow> map_of (pairs_at kf d is) k = None"
  by (simp add: map_of_eq_None_iff)

lemma update_fresh: "k \<notin> fst ` set kvs \<Longrightarrow> AList.update k v kvs = kvs @ [(k, v)]"
  by (induction kvs) auto

lemma expect_sets:
  assumes "distinct (map kf is)" "kf ` set is \<inter> fst ` set kvs = {}" "length kvs + length is \<le> ht_limit"
  shows "expect_all (map (\<lambda>i. Check_set (kf i) (Some (d i))) is) kvs = Some (kvs @ pairs_at kf d is)"
  using assms
proof (induction "is" arbitrary: kvs)
  case (Cons i "is")
  have "AList.update (kf i) (Some (d i)) kvs = kvs @ [(kf i, Some (d i))]" using Cons.prems(2) by (intro update_fresh) auto
  moreover have "expect_all (map (\<lambda>i. Check_set (kf i) (Some (d i))) is) (kvs @ [(kf i, Some (d i))]) =
      Some ((kvs @ [(kf i, Some (d i))]) @ pairs_at kf d is)"
    using Cons.prems by (intro Cons.IH) auto
  ultimately show ?case using Cons.prems(3) by (simp add: pairs_at_def)
qed (simp add: pairs_at_def)

lemma expect_gets:
  "\<forall>i \<in> set is. data_of kvs (kf i) = Some (d i) \<Longrightarrow>
    expect_all (map (\<lambda>i. Check_get (kf i) (Some (d i))) is) kvs = Some kvs"
  by (induction "is") auto

lemma expect_hass:
  "\<forall>i \<in> set is. (map_of kvs (kf i) \<noteq> None) = b i \<Longrightarrow>
    expect_all (map (\<lambda>i. Check_has (kf i) (b i)) is) kvs = Some kvs"
  by (induction "is") auto

lemma expect_deletes:
  assumes "distinct (map kf is)" "\<forall>i \<in> set is. data_of kvs (kf i) = Some (d i)"
  shows "expect_all (map (\<lambda>i. Check_delete (kf i) (Some (d i))) is) kvs =
    Some (filter (\<lambda>kv. fst kv \<notin> kf ` set is) kvs)"
  using assms
proof (induction "is" arbitrary: kvs)
  case (Cons i "is")
  let ?l = "AList.delete (kf i) kvs"
  have "data_of ?l (kf j) = Some (d j)" if "j \<in> set is" for j
  proof -
    have "kf j \<in> kf ` set is" using that by (rule imageI)
    then have "kf j \<noteq> kf i" using Cons.prems(1) by auto
    then show ?thesis using Cons.prems(2) that by (simp add: delete_conv')
  qed
  then have "expect_all (map (\<lambda>i. Check_delete (kf i) (Some (d i))) is) ?l =
      Some (filter (\<lambda>kv. fst kv \<notin> kf ` set is) ?l)"
    using Cons.prems(1) by (intro Cons.IH) auto
  moreover have "filter (\<lambda>kv. fst kv \<notin> kf ` set is) ?l = filter (\<lambda>kv. fst kv \<notin> kf ` set (i # is)) kvs"
    unfolding AList.delete_eq filter_filter by (rule filter_cong) auto
  ultimately show ?case using Cons.prems(2) by simp
qed simp

lemma filter_pairs_at:
  assumes "inj_on kf (set is)" "set js \<subseteq> set is"
  shows "filter (\<lambda>kv. fst kv \<notin> kf ` set js) (pairs_at kf d is) = pairs_at kf d (filter (\<lambda>i. i \<notin> set js) is)"
proof -
  have "kf i \<in> kf ` set js \<longleftrightarrow> i \<in> set js" if "i \<in> set is" for i
    using assms that by (auto dest: inj_onD)
  then show ?thesis by (simp add: pairs_at_def filter_map comp_def cong: filter_cong)
qed

section \<open>The checks of the suites\<close>

text \<open>The payloads are arrays of their own: pointers that are not null and differ.\<close>

definition payload_a :: nat where "payload_a = 0x1000"
definition payload_b :: nat where "payload_b = 0x1002"
definition payload_c :: nat where "payload_c = 0x1004"

text \<open>\<open>test_hash_int_basic.c\<close> and \<open>test_hash_str_basic.c\<close>; \<open>missing\<close> and \<open>other\<close> are never inserted.\<close>

definition basic_checks :: "'k \<Rightarrow> 'k \<Rightarrow> 'k \<Rightarrow> 'k \<Rightarrow> 'k \<Rightarrow> 'k \<Rightarrow> (string \<times> ('k, nat) ht_check list) list" where
  "basic_checks missing k1 k2 k3 k4 other =
     [(''empty_table'',
        [Check_count 0, Check_get_flag missing None False, Check_has missing False]),
      (''set_and_get'',
        [Check_set k1 (Some payload_a), Check_set k2 (Some payload_b), Check_set k3 (Some payload_c), Check_count 3,
         Check_get k1 (Some payload_a), Check_get k2 (Some payload_b), Check_get k3 (Some payload_c),
         Check_has k1 True, Check_has k2 True, Check_has k3 True, Check_has other False]),
      (''overwrite'',
        [Check_set k2 (Some payload_c), Check_count 3, Check_get k2 (Some payload_c)]),
      (''null_data'',
        [Check_set k4 None, Check_count 4, Check_has k4 True, Check_get k4 None, Check_get_flag k4 None True])]"

text \<open>\<open>test_hash_int_delete.c\<close> and \<open>test_hash_str_delete.c\<close>.\<close>

definition delete_checks :: "'k \<Rightarrow> 'k \<Rightarrow> 'k \<Rightarrow> (string \<times> ('k, nat) ht_check list) list" where
  "delete_checks missing k1 k2 =
     [(''delete_from_empty'', [Check_delete_flag missing None False, Check_delete missing None]),
      (''delete_existing'',
        [Check_set k1 (Some payload_a), Check_set k2 (Some payload_b), Check_count 2,
         Check_delete_flag k1 (Some payload_a) True, Check_count 1, Check_has k1 False, Check_get k1 None,
         Check_has k2 True, Check_get k2 (Some payload_b)]),
      (''delete_twice'', [Check_delete k1 None, Check_count 1]),
      (''reinsert_deleted'',
        [Check_set k1 (Some payload_c), Check_count 2, Check_get k1 (Some payload_c),
         Check_delete k1 (Some payload_c), Check_delete k2 (Some payload_b), Check_count 0])]"

text \<open>
  \<open>test_hash_int_min_capacity.c\<close> and \<open>test_hash_str_min_capacity.c\<close>, which name their first case
  differently.
\<close>

definition payload_zero :: nat where "payload_zero = 0x1000"
definition payload_one :: nat where "payload_one = 0x1005"

definition min_capacity_checks :: "string \<Rightarrow> 'k \<Rightarrow> 'k \<Rightarrow> 'k \<Rightarrow> (string \<times> ('k, nat) ht_check list) list" where
  "min_capacity_checks first_name k0 k1 missing =
     [(first_name,
        [Check_get_flag k0 None False, Check_set k0 (Some payload_zero), Check_has k0 True, Check_get k0 (Some payload_zero)]),
      (''grow_from_min_capacity'',
        [Check_set k1 (Some payload_one), Check_count 2, Check_get k0 (Some payload_zero), Check_get k1 (Some payload_one)]),
      (''flags_on_miss'', [Check_get_flag missing None False, Check_delete_flag missing None False]),
      (''delete_back_to_empty'',
        [Check_delete_flag k0 (Some payload_zero) True, Check_delete_flag k1 (Some payload_one) True, Check_count 0])]"

text \<open>\<open>test_hash_int_churn.c\<close> and \<open>test_hash_str_churn.c\<close>: \<open>kf i\<close> is the key of round \<open>i\<close>.\<close>

definition KEYSET :: nat where "KEYSET = 8"
definition CYCLES :: nat where "CYCLES = 5000"

definition churn_cycle :: "(nat \<Rightarrow> 'k) \<Rightarrow> ('k, nat) ht_check list" where
  "churn_cycle kf =
     map (\<lambda>i. Check_set (kf i) (Some (i + 1))) [0 ..< KEYSET] @ [Check_count KEYSET] @
     map (\<lambda>i. Check_get (kf i) (Some (i + 1))) [0 ..< KEYSET] @
     map (\<lambda>i. Check_delete (kf i) (Some (i + 1))) (rev [0 ..< KEYSET]) @ [Check_count 0] @
     map (\<lambda>i. Check_has (kf i) False) [0 ..< KEYSET]"

definition churn_checks :: "(nat \<Rightarrow> 'k) \<Rightarrow> (string \<times> ('k, nat) ht_check list) list" where
  "churn_checks kf = [(''churn'', concat (replicate CYCLES (churn_cycle kf)))]"

text \<open>
  \<open>test_hash_int_grow.c\<close> and \<open>test_hash_str_grow.c\<close>, for any number of keys: \<open>kf i\<close> is the key of the
  first batch, \<open>lf i\<close> that of the second.
\<close>

definition grow_checks :: "nat \<Rightarrow> (nat \<Rightarrow> 'k) \<Rightarrow> (nat \<Rightarrow> 'k) \<Rightarrow> (string \<times> ('k, nat) ht_check list) list" where
  "grow_checks n kf lf =
     [(''insert_past_capacity'', map (\<lambda>i. Check_set (kf i) (Some (i + 1))) [0 ..< n] @ [Check_count n]),
      (''read_back_after_growth'', map (\<lambda>i. Check_get (kf i) (Some (i + 1))) [0 ..< n]),
      (''delete_every_other'',
        map (\<lambda>i. Check_delete (kf i) (Some (i + 1))) (filter (\<lambda>i. i mod 2 = 0) [0 ..< n]) @ [Check_count (n div 2)] @
        map (\<lambda>i. Check_has (kf i) (i mod 2 \<noteq> 0)) [0 ..< n]),
      (''insert_after_tombstones'',
        map (\<lambda>i. Check_set (lf i) (Some (n + i + 1))) [0 ..< n] @ [Check_count (n div 2 + n)] @
        map (\<lambda>i. Check_get (lf i) (Some (n + i + 1))) [0 ..< n])]"

text \<open>
  \<open>test_hash_int_iterate.c\<close> and \<open>test_hash_str_iterate.c\<close>: \<open>kf i\<close> is the key of number \<open>i\<close>, \<open>owns\<close> what
  is asserted of a key that is met and \<open>num\<close> its number. What is asserted of an entry twice, of the
  iterator and of its accessor, is asserted once here.
\<close>

definition ORDER_N :: nat where "ORDER_N = 4"
definition TOTAL :: nat where "TOTAL = ORDER_N + 200"
definition order_keys :: "nat list" where "order_keys = [2, 0, 3, 1]"
definition overwritten :: nat where "overwritten = 0x2000"

definition iterate_checks ::
  "(nat \<Rightarrow> 'k) \<Rightarrow> ('k \<Rightarrow> bool) list \<Rightarrow> ('k \<Rightarrow> nat) \<Rightarrow> (string \<times> ('k, nat) ht_check list) list"
where
  "iterate_checks kf owns num =
     [(''iterate_empty'', [Check_visited 0]),
      (''iterate_insertion_order'',
        map (\<lambda>i. Check_set (kf i) (Some (i + 1))) order_keys @ [Check_count ORDER_N] @
        [Check_pairs (map (\<lambda>i. (kf i, Some (i + 1))) order_keys)]),
      (''iterate_after_overwrite'',
        [Check_set (kf (order_keys ! 1)) (Some overwritten), Check_count ORDER_N,
         Check_pairs (map (\<lambda>i. (kf i, Some (if i = order_keys ! 1 then overwritten else i + 1))) order_keys)]),
      (''iterate_after_growth'',
        [Check_set (kf (order_keys ! 1)) (Some (order_keys ! 1 + 1))] @
        map (\<lambda>i. Check_set (kf i) (Some (i + 1))) [ORDER_N ..< TOTAL] @ [Check_count TOTAL] @
        [Check_each owns num (\<lambda>i. Some (i + 1)) TOTAL 16])]"

text \<open>\<open>test_hash_int_iterate_delete.c\<close> and \<open>test_hash_str_iterate_delete.c\<close>. Each case makes its table.\<close>

definition make_table :: "(nat \<Rightarrow> 'k) \<Rightarrow> nat list \<Rightarrow> ('k, nat) ht_check list" where
  "make_table kf ks = map (\<lambda>i. Check_set (kf i) (Some (i + 1))) ks"

definition check_order :: "(nat \<Rightarrow> 'k) \<Rightarrow> nat list \<Rightarrow> ('k, nat) ht_check" where
  "check_order kf ks = Check_keys (map kf ks)"

definition iterate_delete_checks :: "(nat \<Rightarrow> 'k) \<Rightarrow> (string \<times> ('k, nat) ht_check list) list" where
  "iterate_delete_checks kf =
     [(''delete_middle'',
        make_table kf [10, 20, 30, 40] @ [Check_delete (kf 20) (Some 21), Check_count 3, check_order kf [10, 30, 40]]),
      (''reinsert_appends_at_tail'',
        make_table kf [1, 2, 3] @
        [Check_delete (kf 2) (Some 3), Check_set (kf 4) (Some 5), Check_count 3, check_order kf [1, 3, 4]]),
      (''delete_head'',
        make_table kf [1, 2, 3] @
        [Check_delete (kf 1) (Some 2), Check_count 2, check_order kf [2, 3],
         Check_delete (kf 2) (Some 3), Check_count 1, check_order kf [3]]),
      (''delete_tail'',
        make_table kf [1, 2, 3] @
        [Check_delete (kf 3) (Some 4), Check_count 2, check_order kf [1, 2],
         Check_set (kf 4) (Some 5), Check_count 3, Check_get (kf 4) (Some 5), check_order kf [1, 2, 4]]),
      (''delete_all'',
        make_table kf [1, 2, 3] @ map (\<lambda>i. Check_delete (kf i) (Some (i + 1))) [1, 2, 3] @
        [Check_count 0, check_order kf []])]"

definition iterate_delete_cases ::
  "'k ht_key_ops \<Rightarrow> ('k, nat) ht_mem \<Rightarrow> (nat \<Rightarrow> 'k) \<Rightarrow> (string \<times> 'w test_callback) list"
where
  "iterate_delete_cases ops m kf =
     map (\<lambda>(name, cs). (name, hash_local_case ops m 8 False (\<lambda>rs st. st) cs)) (iterate_delete_checks kf)"

text \<open>
  \<open>test_hash_int_free_cb.c\<close> and \<open>test_hash_str_free_cb.c\<close>: the data of number \<open>i\<close> is the address of a
  counter, which the callback increments.
\<close>

definition FREE_M :: nat where "FREE_M = 64"

definition free_slot :: "nat \<Rightarrow> nat" where "free_slot i = 0x3000 + 4 * i"

definition free_counts :: "('k, nat) ht_release list \<Rightarrow> nat \<Rightarrow> nat" where
  "free_counts rs i = count_list rs (Data_released (Some (free_slot i)))"

definition check_free_counts :: "('k, nat) ht_release list \<Rightarrow> assert_counts \<Rightarrow> assert_counts" where
  "check_free_counts rs =
     fold (\<lambda>i st. snd (assert_equal (free_counts rs i) (if i mod 2 = 0 then 0 else 1) st)) [0 ..< FREE_M]"

definition free_cb_checks :: "(nat \<Rightarrow> 'k) \<Rightarrow> ('k, nat) ht_check list" where
  "free_cb_checks kf =
     map (\<lambda>i. Check_set (kf i) (Some (free_slot i))) [0 ..< FREE_M] @
     map (\<lambda>i. Check_delete (kf i) (Some (free_slot i))) (filter (\<lambda>i. i mod 2 = 0) [0 ..< FREE_M])"

definition free_cb_cases ::
  "'k ht_key_ops \<Rightarrow> ('k, nat) ht_mem \<Rightarrow> (nat \<Rightarrow> 'k) \<Rightarrow> 'k \<Rightarrow> (string \<times> 'w test_callback) list"
where
  "free_cb_cases ops m kf solo =
     [(''free_cb_fires_once_per_live_entry'', hash_local_case ops m 8 True check_free_counts (free_cb_checks kf)),
      (''null_free_cb'', hash_local_case ops m 4 False (\<lambda>rs st. st) [Check_set solo (Some (free_slot 0))])]"

section \<open>They are expected of an empty table\<close>

lemma basic_expected:
  assumes "distinct [missing, k1, k2, k3, k4, other]"
  shows "\<exists>kvs. expect_all (suite_checks (basic_checks missing k1 k2 k3 k4 other)) [] = Some kvs"
  using assms by (auto simp: basic_checks_def ht_limit_def)

lemma delete_expected:
  assumes "distinct [missing, k1, k2]"
  shows "\<exists>kvs. expect_all (suite_checks (delete_checks missing k1 k2)) [] = Some kvs"
  using assms by (auto simp: delete_checks_def ht_limit_def)

lemma min_capacity_expected:
  assumes "distinct [k0, k1, missing]"
  shows "\<exists>kvs. expect_all (suite_checks (min_capacity_checks name k0 k1 missing)) [] = Some kvs"
  using assms by (auto simp: min_capacity_checks_def ht_limit_def)

lemma churn_expected:
  assumes inj: "inj_on kf {..<KEYSET}"
  shows "expect_all (suite_checks (churn_checks kf)) [] = Some []"
proof -
  let ?is = "[0 ..< KEYSET]" and ?d = "Suc"
  have i: "inj_on kf (set ?is)" "inj_on kf (set (rev ?is))" using inj by (simp_all add: atLeast_upt)
  then have d: "distinct (map kf ?is)" "distinct (map kf (rev ?is))" by (simp_all add: distinct_map)
  have s: "expect_all (map (\<lambda>i. Check_set (kf i) (Some (?d i))) ?is) [] = Some (pairs_at kf ?d ?is)"
    using expect_sets [OF d(1), of "[]" ?d] by (simp add: KEYSET_def ht_limit_def)
  have g: "\<forall>i \<in> set ?is. data_of (pairs_at kf ?d ?is) (kf i) = Some (?d i)" by (auto simp: map_of_pairs_at [OF _ i(1)])
  have r: "expect_all (map (\<lambda>i. Check_delete (kf i) (Some (?d i))) (rev ?is)) (pairs_at kf ?d ?is) = Some []"
    using expect_deletes [OF d(2), of "pairs_at kf ?d ?is" ?d] g filter_pairs_at [OF i(1), of "rev ?is" ?d]
    by (simp add: pairs_at_def)
  have "expect_all (churn_cycle kf) [] = Some []"
    unfolding churn_cycle_def expect_all_append
    by (simp add: s r expect_gets [OF g] expect_hass [where b = "\<lambda>_. False"] del: upt_Suc map_map)
  then have "expect_all (concat (replicate n (churn_cycle kf))) [] = Some []" for n
    by (induction n) (simp_all add: expect_all_append)
  then show ?thesis by (simp add: churn_checks_def)
qed

lemma odd_count: "length (filter (\<lambda>i. i mod 2 = Suc 0) [0 ..< n]) = n div 2"
proof (induction n)
  case (Suc n)
  then show ?case by (cases "even n") (auto elim!: evenE oddE simp: odd_iff_mod_2_eq_one)
qed simp

lemma grow_expected:
  assumes inj: "inj_on kf {..<n}" "inj_on lf {..<n}" and apart: "kf ` {..<n} \<inter> lf ` {..<n} = {}" and n: "2 * n \<le> ht_limit"
  shows "\<exists>kvs. expect_all (suite_checks (grow_checks n kf lf)) [] = Some kvs"
proof -
  let ?is = "[0 ..< n]" and ?ev = "filter (\<lambda>i. i mod 2 = 0) [0 ..< n]" and ?od = "filter (\<lambda>i. i mod 2 = Suc 0) [0 ..< n]"
  let ?d = "Suc" and ?e = "\<lambda>i. Suc (n + i)"
  let ?all = "pairs_at kf ?d ?is" and ?odd = "pairs_at kf ?d ?od" and ?new = "pairs_at lf ?e ?is"
  have i: "inj_on kf (set ?is)" "inj_on lf (set ?is)" using inj by (simp_all add: atLeast_upt)
  have sub: "set ?ev \<subseteq> set ?is" "set ?od \<subseteq> set ?is" by auto
  note is_sub = inj_on_subset [OF i(1) sub(1)] inj_on_subset [OF i(1) sub(2)]
  have d: "distinct (map kf ?is)" "distinct (map lf ?is)" "distinct (map kf ?ev)"
    using i is_sub(1) by (simp_all only: distinct_map distinct_filter distinct_upt simp_thms)
  have s: "expect_all (map (\<lambda>i. Check_set (kf i) (Some (?d i))) ?is) [] = Some ?all"
    using expect_sets [OF d(1), of "[]" ?d] n by simp
  have g: "\<forall>i \<in> set ?is. data_of ?all (kf i) = Some (?d i)" by (auto simp: map_of_pairs_at [OF _ i(1)])
  have rest: "filter (\<lambda>i. i \<notin> set ?ev) ?is = ?od" by (rule filter_cong) auto
  have r: "expect_all (map (\<lambda>i. Check_delete (kf i) (Some (?d i))) ?ev) ?all = Some ?odd"
    using expect_deletes [OF d(3), of ?all ?d] g filter_pairs_at [OF i(1) sub(1), of ?d] rest by simp
  have h: "\<forall>i \<in> set ?is. (map_of ?odd (kf i) \<noteq> None) = (i mod 2 = Suc 0)"
  proof
    fix j assume j: "j \<in> set ?is"
    have "kf j \<in> kf ` set ?od \<longleftrightarrow> j \<in> set ?od" using inj_on_image_mem_iff [OF i(1) j sub(2)] .
    then show "(map_of ?odd (kf j) \<noteq> None) = (j mod 2 = Suc 0)" using j by (simp add: map_of_eq_None_iff)
  qed
  have "kf ` set ?od \<subseteq> kf ` {..<n}" by (rule image_mono) auto
  then have a: "lf ` set ?is \<inter> fst ` set ?odd = {}"
    unfolding pairs_at_simps set_upt atLeast0LessThan using apart by blast
  have t: "expect_all (map (\<lambda>i. Check_set (lf i) (Some (?e i))) ?is) ?odd = Some (?odd @ ?new)"
    using expect_sets [OF d(2) a, of ?e] n odd_count [of n] by simp
  have u: "\<forall>i \<in> set ?is. data_of (?odd @ ?new) (lf i) = Some (?e i)"
  proof
    fix j assume j: "j \<in> set ?is"
    then have "map_of ?odd (lf j) = None" using a unfolding map_of_eq_None_iff by blast
    then show "data_of (?odd @ ?new) (lf j) = Some (?e j)" using map_of_pairs_at [OF j i(2), of ?e] by (simp add: map_add_def)
  qed
  show ?thesis
    unfolding grow_checks_def suite_checks_simps expect_all_append
    by (simp add: s r t expect_gets [OF g] expect_hass [OF h] expect_gets [OF u] odd_count del: upt_Suc map_map)
qed

lemma num_pairs_at:
  "\<forall>i \<in> set is. num (kf i) = i \<Longrightarrow> map (num \<circ> fst) (pairs_at kf d is) = is"
  by (simp add: pairs_at_def map_idI)

text \<open>The three cases before the growth, and the insertion that undoes the overwriting.\<close>

lemma iterate_in_order_expected:
  assumes ne: "distinct [kf 2, kf 0, kf 3, kf 1]"
  shows "expect_in_all (concat (map snd (take 3 (iterate_checks kf owns num))) @
      [Check_set (kf (order_keys ! 1)) (Some (order_keys ! 1 + 1))]) ([], Some (0, 8)) =
    Some (pairs_at kf Suc order_keys, Some (4, 8))"
  using ne by (simp add: iterate_checks_def order_keys_def ORDER_N_def ht_limit_def room_after_def fits_index_def pairs_at_def)

lemma iterate_growth_expected:
  assumes num: "\<forall>i < TOTAL. num (kf i) = i" and own: "\<forall>own \<in> set owns. \<forall>i < TOTAL. own (kf i)"
  shows "expect_all (map (\<lambda>i. Check_set (kf i) (Some (Suc i))) [ORDER_N ..< TOTAL] @
      [Check_count TOTAL, Check_each owns num (\<lambda>i. Some (Suc i)) TOTAL 16]) (pairs_at kf Suc order_keys) =
    Some (pairs_at kf Suc (order_keys @ [ORDER_N ..< TOTAL]))"
proof -
  let ?new = "[ORDER_N ..< TOTAL]" and ?l = "pairs_at kf Suc (order_keys @ [ORDER_N ..< TOTAL])"
  have T: "ORDER_N < TOTAL" "TOTAL < ht_limit" "length order_keys = ORDER_N" "distinct order_keys"
    by (simp_all add: TOTAL_def ORDER_N_def order_keys_def ht_limit_def)
  have keys: "set order_keys = {..<ORDER_N}" by (simp add: order_keys_def ORDER_N_def numeral_eq_Suc lessThan_Suc insert_commute)
  have less: "i < TOTAL" if "i < ORDER_N" for i using that T(1) by (rule order_less_trans)
  have below: "\<forall>i \<in> set order_keys \<union> set ?new. i < TOTAL"
  proof
    fix i assume "i \<in> set order_keys \<union> set ?new"
    then consider "i \<in> set order_keys" | "i \<in> set ?new" by blast
    then show "i < TOTAL" by cases (use less keys in blast, simp)
  qed
  have inj: "inj_on kf {..<TOTAL}" using num by (intro inj_on_inverseI [of _ num]) simp
  have "kf i \<noteq> kf j" if "i \<in> set ?new" "j < ORDER_N" for i j
    using that less [of j] inj_onD [OF inj, of i j] by auto
  then have "kf ` set ?new \<inter> fst ` set (pairs_at kf Suc order_keys) = {}" unfolding pairs_at_simps keys by blast
  moreover have "set ?new \<subseteq> {..<TOTAL}" using below by blast
  then have "distinct (map kf ?new)" unfolding distinct_map using inj_on_subset [OF inj] distinct_upt by blast
  ultimately have sets: "expect_all (map (\<lambda>i. Check_set (kf i) (Some (Suc i))) ?new) (pairs_at kf Suc order_keys) =
      Some (pairs_at kf Suc order_keys @ pairs_at kf Suc ?new)"
    using T(1-3) by (intro expect_sets) simp_all
  have l: "pairs_at kf Suc order_keys @ pairs_at kf Suc ?new = ?l" by (simp add: pairs_at_def)
  have len: "length ?l = TOTAL" using T by simp
  have "distinct (map (num \<circ> fst) ?l)"
    using below num T(4) keys by (subst num_pairs_at) auto
  moreover have "\<forall>kv \<in> set ?l. (\<forall>own \<in> set owns. own (fst kv)) \<and> num (fst kv) < TOTAL \<and> snd kv = Some (Suc (num (fst kv)))"
    using below num own by (fastforce simp: pairs_at_def)
  ultimately have "expect (Check_each owns num (\<lambda>i. Some (Suc i)) TOTAL 16) ?l = Some ?l"
    using len unfolding expect.simps by (intro if_P conjI)
  then show ?thesis unfolding expect_all_append sets l using len by (simp only: bind.simps expect_all.simps expect.simps simp_thms if_True)
qed

lemma iterate_expected:
  assumes "\<forall>i < TOTAL. num (kf i) = i" "\<forall>own \<in> set owns. \<forall>i < TOTAL. own (kf i)"
  shows "\<exists>s. expect_in_all (suite_checks (iterate_checks kf owns num)) ([], Some (0, 8)) = Some s"
proof -
  have "num (kf 2) = 2" "num (kf 0) = 0" "num (kf 3) = 3" "num (kf 1) = 1" using assms(1) by (simp_all add: TOTAL_def)
  then have "distinct [kf 2, kf 0, kf 3, kf 1]" by auto
  note first = iterate_in_order_expected [OF this, of owns num]
  have "suite_checks (iterate_checks kf owns num) =
      (concat (map snd (take 3 (iterate_checks kf owns num))) @ [Check_set (kf (order_keys ! 1)) (Some (order_keys ! 1 + 1))]) @
      map (\<lambda>i. Check_set (kf i) (Some (Suc i))) [ORDER_N ..< TOTAL] @ [Check_count TOTAL, Check_each owns num (\<lambda>i. Some (Suc i)) TOTAL 16]"
    by (simp add: suite_checks_def iterate_checks_def)
  then show ?thesis
    using first expect_in_all_of [OF iterate_growth_expected [OF assms], of "Some (4, 8)"]
    by (simp only: expect_in_all_append [of "_ @ [_]"]) auto
qed

lemma iterate_delete_expected:
  assumes inj: "inj_on kf {..<41}" and tc: "tc \<in> set (iterate_delete_checks kf)"
  shows "\<exists>kvs room. expect_in_all (snd tc) ([], Some (0, 8)) = Some (kvs, room)"
proof -
  have "kf i = kf j \<longleftrightarrow> i = j" if "i < 41" "j < 41" for i j
    using inj_on_eq_iff [OF inj] that by simp
  then show ?thesis
    using tc by (auto simp: iterate_delete_checks_def make_table_def check_order_def ht_limit_def room_after_def fits_index_def)
qed

lemma free_cb_expected:
  assumes inj: "inj_on kf {..<FREE_M}"
  shows "expect_all (free_cb_checks kf) [] = Some (pairs_at kf free_slot (filter odd [0 ..< FREE_M]))"
proof -
  let ?is = "[0 ..< FREE_M]" and ?ev = "filter (\<lambda>i. i mod 2 = 0) [0 ..< FREE_M]"
  let ?all = "pairs_at kf free_slot ?is"
  have i: "inj_on kf (set ?is)" and sub: "set ?ev \<subseteq> set ?is" using inj by (auto simp: atLeast_upt)
  have d: "distinct (map kf ?is)" "distinct (map kf ?ev)"
    using i inj_on_subset [OF i sub] by (simp_all only: distinct_map distinct_filter distinct_upt simp_thms)
  have s: "expect_all (map (\<lambda>i. Check_set (kf i) (Some (free_slot i))) ?is) [] = Some ?all"
    using expect_sets [OF d(1), of "[]" free_slot] by (simp add: FREE_M_def ht_limit_def)
  have "\<forall>i \<in> set ?ev. data_of ?all (kf i) = Some (free_slot i)" using sub by (auto simp: map_of_pairs_at [OF _ i])
  then have r: "expect_all (map (\<lambda>i. Check_delete (kf i) (Some (free_slot i))) ?ev) ?all =
      Some (pairs_at kf free_slot (filter (\<lambda>i. i \<notin> set ?ev) ?is))"
    using expect_deletes [OF d(2), of ?all free_slot] filter_pairs_at [OF i sub, of free_slot] by simp
  have "filter (\<lambda>i. i \<notin> set ?ev) ?is = filter odd ?is" by (rule filter_cong) (auto simp: even_iff_mod_2_eq_zero)
  then show ?thesis by (simp add: free_cb_checks_def expect_all_append s r del: upt_Suc map_map)
qed

lemma check_free_counts_fails:
  assumes "mset kvs = mset (pairs_at kf free_slot (filter odd [0 ..< FREE_M]))"
  shows "assert_fail_count (check_free_counts (releases_of ops True kvs) st) = assert_fail_count st"
proof -
  have m: "mset (map snd kvs) = mset (map (\<lambda>i. Some (free_slot i)) (filter odd [0 ..< FREE_M]))"
    using arg_cong [OF assms, of "image_mset snd"] by (simp add: pairs_at_def multiset.map_comp comp_def)
  have "inj (\<lambda>i. Some (free_slot i))" by (simp add: inj_def free_slot_def)
  then have d: "distinct (map (\<lambda>i. Some (free_slot i)) (filter odd [0 ..< FREE_M]))"
    by (simp add: distinct_map inj_on_def)
  have "free_counts (releases_of ops True kvs) i = (if i mod 2 = 0 then 0 else 1)" if "i \<in> set [0 ..< FREE_M]" for i
  proof -
    have "Some (free_slot i) \<in> set (map (\<lambda>i. Some (free_slot i)) (filter odd [0 ..< FREE_M])) \<longleftrightarrow> odd i"
      using that by (auto simp: free_slot_def)
    then show ?thesis
      using distinct_count_atmost_1 [THEN iffD1, OF d] unfolding free_counts_def count_releases m
      by (simp add: even_iff_mod_2_eq_zero)
  qed
  then have "\<forall>i \<in> set is. free_counts (releases_of ops True kvs) i = (if i mod 2 = 0 then 0 else 1)"
    if "set is \<subseteq> set [0 ..< FREE_M]" for "is" using that by blast
  moreover have "assert_fail_count (fold (\<lambda>i st. snd (assert_equal (free_counts (releases_of ops True kvs) i)
      (if i mod 2 = 0 then 0 else 1) st)) is st) = assert_fail_count st"
    if "\<forall>i \<in> set is. free_counts (releases_of ops True kvs) i = (if i mod 2 = 0 then 0 else 1)" for "is" st
    using that by (induction "is" arbitrary: st) simp_all
  ultimately show ?thesis unfolding check_free_counts_def by blast
qed

section \<open>The suites\<close>

text \<open>The test cases of a suite have the name of the table in their names.\<close>

definition named :: "string \<Rightarrow> (string \<times> 'c) list \<Rightarrow> (string \<times> 'c) list" where
  "named table cases = map (\<lambda>(name, cs). (''test_hash_'' @ table @ ''_'' @ name, cs)) cases"

lemma suite_checks_named [simp]: "suite_checks (named table cases) = suite_checks cases"
  by (simp add: suite_checks_def named_def comp_def split_def)

definition int_suites :: "(u64, nat) ht_mem \<Rightarrow> (u64, nat) htable option libtest_config list" where
  "int_suites m =
     [hash_suite int_ops m (hash_before_all m 8) (named ''int'' (basic_checks 42 1 2 3 4 999)),
      hash_suite int_ops m (hash_before_all m 8) (named ''int'' (delete_checks 123 10 20)),
      hash_suite int_ops m (hash_before_all_empty m 2) (named ''int'' (min_capacity_checks ''key_zero'' 0 1 42)),
      hash_suite int_ops m (hash_before_all m 4) (named ''int'' (churn_checks of_nat)),
      hash_suite int_ops m (hash_before_all m 4)
        (named ''int'' (grow_checks 4000 (\<lambda>i. of_nat (i + 1)) (\<lambda>i. of_nat (4000 + i + 1)))),
      hash_suite int_ops m (hash_before_all m 8) (named ''int'' (iterate_checks of_nat [] unat)),
      local_suite (named ''int'' (iterate_delete_cases int_ops m of_nat)),
      local_suite (named ''int'' (free_cb_cases int_ops m of_nat 1))]"

text \<open>
  Most keys of the second table are built with \<open>snprintf\<close>. The iteration reads the number back with
  \<open>strtoull (key + 1, NULL, 10)\<close>, after a look at the first byte of the key.
\<close>

definition text_of :: "cstr \<Rightarrow> string" where
  "text_of k = map (\<lambda>b. char_of (unat b)) (bytes_of k)"

definition strtoull10 :: "string \<Rightarrow> u64" where
  "strtoull10 s =
     (let s = dropWhile (\<lambda>c. c \<in> {CHR '' '', CHR 0x09, CHR 0x0A, CHR 0x0B, CHR 0x0C, CHR 0x0D}) s;
          neg = (take 1 s = ''-''); s = (if take 1 s = ''-'' \<or> take 1 s = ''+'' then drop 1 s else s);
          n = read_nat (takeWhile (\<lambda>c. 48 \<le> (of_char c :: nat) \<and> (of_char c :: nat) \<le> 57) s)
      in if n > unat UINT64_MAX then UINT64_MAX else if neg then - of_nat n else of_nat n)"

definition numbered_key :: "string \<Rightarrow> nat \<Rightarrow> cstr" where
  "numbered_key word i = c_string (word @ show_nat i)"

definition key_number :: "cstr \<Rightarrow> nat" where
  "key_number k = unat (strtoull10 (drop 1 (text_of k)))"

definition key_is_ours :: "cstr \<Rightarrow> bool" where
  "key_is_ours k \<longleftrightarrow> take 1 (text_of k) = ''k''"

definition str_suites :: "(cstr, nat) ht_mem \<Rightarrow> (cstr, nat) htable option libtest_config list" where
  "str_suites m =
     [hash_suite str_ops m (hash_before_all m 8) (named ''str'' (basic_checks (c_string ''missing'') (c_string ''one'')
        (c_string ''two'') (c_string ''three'') (c_string ''four'') (c_string ''nine-hundred-ninety-nine''))),
      hash_suite str_ops m (hash_before_all m 8)
        (named ''str'' (delete_checks (c_string ''missing'') (c_string ''alpha'') (c_string ''beta''))),
      hash_suite str_ops m (hash_before_all_empty m 2)
        (named ''str'' (min_capacity_checks ''first_entry'' (c_string ''zero'') (c_string ''one'') (c_string ''missing''))),
      hash_suite str_ops m (hash_before_all m 4) (named ''str'' (churn_checks (numbered_key ''k''))),
      hash_suite str_ops m (hash_before_all m 4) (named ''str'' (grow_checks 4000
        (\<lambda>i. numbered_key ''k'' (i + 1)) (\<lambda>i. numbered_key ''j'' (i + 1)))),
      hash_suite str_ops m (hash_before_all m 8) (named ''str'' (iterate_checks (numbered_key ''k'') [key_is_ours] key_number)),
      local_suite (named ''str'' (iterate_delete_cases str_ops m (numbered_key ''k''))),
      local_suite (named ''str'' (free_cb_cases str_ops m (numbered_key ''item-'') (c_string ''solo'')))]"

text \<open>The keys differ.\<close>

lemma show_nat_nonzero: "CHR 0x00 \<notin> set (show_nat n)"
proof (induction n rule: show_nat.induct)
  case (1 n)
  have "CHR 0x00 \<noteq> digit d" if "d < 10" for d
    using that by (auto dest: arg_cong [where f = "of_char :: char \<Rightarrow> nat"] simp: digit_value)
  then show ?case using 1 by (subst show_nat.simps) auto
qed

lemma show_nat_digits: "\<forall>c \<in> set (show_nat n). 48 \<le> (of_char c :: nat) \<and> (of_char c :: nat) \<le> 57"
proof (induction n rule: show_nat.induct)
  case (1 n)
  then show ?case by (subst show_nat.simps) (auto simp: digit_value)
qed

lemma show_nat_hd: obtains c s where "show_nat n = c # s" "48 \<le> (of_char c :: nat)"
  using show_nat_digits [of n] by (cases "show_nat n") (simp_all add: show_nat.simps [of n] split: if_splits)

lemma strtoull10_show_nat:
  assumes "n < 2 ^ 64"
  shows "strtoull10 (show_nat n) = of_nat n"
proof -
  obtain c s where c: "show_nat n = c # s" "48 \<le> (of_char c :: nat)" by (rule show_nat_hd)
  then have "c \<notin> {CHR '' '', CHR 0x09, CHR 0x0A, CHR 0x0B, CHR 0x0C, CHR 0x0D, CHR ''-'', CHR ''+''}" by auto
  moreover have "takeWhile (\<lambda>c. 48 \<le> (of_char c :: nat) \<and> (of_char c :: nat) \<le> 57) (show_nat n) = show_nat n"
    using show_nat_digits by (simp add: takeWhile_eq_all_conv)
  ultimately show ?thesis
    using assms read_show_nat [of n] by (simp add: strtoull10_def c Let_def UINT64_MAX_def)
qed

lemma text_of_c_string:
  assumes "CHR 0x00 \<notin> set s"
  shows "text_of (c_string s) = s"
proof -
  have u: "char_of (unat (of_char c :: u8)) = c" for c
  proof -
    have "unat (of_nat (of_char c) :: u8) = of_char c" using nat_of_char_less_256 [of c] by (simp add: unat_of_nat)
    then show ?thesis by (simp only: of_nat_of_char char_of_char)
  qed
  have "0 \<notin> set (map of_char s :: u8 list)" using assms of_char_byte [of _ "CHR 0x00"] by (auto simp: image_iff)
  then have "bytes_of (c_string s) = map of_char s" by (simp add: c_string_def cstr_of_inverse)
  then show ?thesis using u by (simp add: text_of_def comp_def)
qed

lemma show_nat_inject [simp]: "show_nat i = show_nat j \<longleftrightarrow> i = j"
  by (metis read_show_nat)

lemma of_nat_u64_inject: "i < 2 ^ 64 \<Longrightarrow> j < 2 ^ 64 \<Longrightarrow> (of_nat i :: u64) = of_nat j \<longleftrightarrow> i = j"
  using of_nat_inverse [where a = "of_nat i :: u64", OF refl] of_nat_inverse [where a = "of_nat i :: u64" and r = j]
  by auto

text \<open>The capacities the suites ask for.\<close>

lemma round_small:
  "util_round_ceil2_ull 2 = Inr 2" "util_round_ceil2_ull 4 = Inr 4" "util_round_ceil2_ull 8 = Inr 8"
  by code_simp+

text \<open>What a suite of each table prints and reports.\<close>

definition suite_ok :: "('k, 'v) htable option libtest_config \<Rightarrow> bool" where
  "suite_ok cfg \<longleftrightarrow> (\<forall>writes. (\<forall>i. writes i) \<longrightarrow>
     run_child cfg writes None =
       (Exited 0, replicate (length (test_cases cfg)) True, passed_lines (map tc_name (test_cases cfg))))"

lemma local_suite_ok:
  assumes "\<forall>(name, cb) \<in> set cases. case_passes cb"
  shows "suite_ok (local_suite (named table cases))"
proof -
  have "\<forall>(name, cb) \<in> set (named table cases). case_passes cb" using assms by (auto simp: named_def)
  from local_suite_passes [OF this] show ?thesis by (auto simp: suite_ok_def local_names) (simp add: local_suite_def)
qed

context ht_key begin

lemma suite_ok_expected_in:
  assumes m: "grants (m :: ('k, 'v) ht_mem)" and cap: "cap \<in> {2, 4, 8}"
    and s: "\<exists>s. expect_in_all (suite_checks cases) ([], Some (0, unat cap)) = Some s"
  shows "suite_ok (hash_suite ops m (hash_before_all m cap) (named table cases))"
    and "suite_ok (hash_suite ops m (hash_before_all_empty m cap) (named table cases))"
proof -
  have "2 \<le> cap" "unat cap \<le> 2 ^ 32" "util_round_ceil2_ull cap = Inr cap" using cap round_small by auto
  from suite_passes [OF m this(1,2) _ this(3), of _ "named table cases"] s
  show "suite_ok (hash_suite ops m (hash_before_all m cap) (named table cases))"
    and "suite_ok (hash_suite ops m (hash_before_all_empty m cap) (named table cases))"
    by (auto simp: suite_ok_def suite_cases suite_case_def comp_def)
qed

lemma suite_ok_expected:
  assumes "grants (m :: ('k, 'v) ht_mem)" "cap \<in> {2, 4, 8}" "\<exists>kvs. expect_all (suite_checks cases) [] = Some kvs"
  shows "suite_ok (hash_suite ops m (hash_before_all m cap) (named table cases))"
    and "suite_ok (hash_suite ops m (hash_before_all_empty m cap) (named table cases))"
proof -
  have "\<exists>s. expect_in_all (suite_checks cases) ([], Some (0, unat cap)) = Some s"
    using expect_in_all_of assms(3) by blast
  note suite_ok_expected_in [OF assms(1,2) this]
  then show "suite_ok (hash_suite ops m (hash_before_all m cap) (named table cases))"
    and "suite_ok (hash_suite ops m (hash_before_all_empty m cap) (named table cases))" by simp_all
qed

lemma iterate_delete_passes:
  assumes "grants m" "inj_on kf {..<41}"
  shows "\<forall>(name, cb) \<in> set (iterate_delete_cases ops m kf). case_passes cb"
proof -
  have "case_passes (hash_local_case ops m 8 False (\<lambda>rs st. st) cs)" if "(name, cs) \<in> set (iterate_delete_checks kf)" for name cs
    using local_case_passes [OF assms(1) _ _ round_small(3), of cs _ _ "\<lambda>rs st. st" False]
      iterate_delete_expected [OF assms(2) that] by auto
  then show ?thesis by (auto simp: iterate_delete_cases_def)
qed

lemma free_cb_passes:
  assumes m: "grants m" and kf: "inj_on kf {..<FREE_M}"
  shows "\<forall>(name, cb) \<in> set (free_cb_cases ops m kf solo). case_passes cb"
proof -
  obtain room where r: "expect_in_all (free_cb_checks kf) ([], Some (0, unat (8 :: u64))) =
      Some (pairs_at kf free_slot (filter odd [0 ..< FREE_M]), room)"
    using expect_in_all_of [OF free_cb_expected [OF kf]] by blast
  have "case_passes (hash_local_case ops m 8 True check_free_counts (free_cb_checks kf))"
    using round_small by (intro local_case_passes [OF m _ _ _ r] check_free_counts_fails) simp_all
  moreover obtain s where "expect_in_all [Check_set solo (Some (free_slot 0))] ([], Some (0, unat (4 :: u64))) = Some s"
    by (simp add: ht_limit_def)
  then have "case_passes (hash_local_case ops m 4 False (\<lambda>rs st. st) [Check_set solo (Some (free_slot 0))])"
    using round_small by (cases s) (auto intro!: local_case_passes [OF m])
  ultimately show ?thesis by (simp add: free_cb_cases_def)
qed

end

lemma int_suites_ok:
  assumes m: "grants m"
  shows "\<forall>cfg \<in> set (int_suites m). suite_ok cfg"
proof -
  have inj: "inj_on (\<lambda>i. of_nat (c + i) :: u64) {..<n}" if "c + n < 2 ^ 64" for c n
    using that by (auto intro!: inj_onI simp: of_nat_u64_inject simp del: of_nat_add)
  have apart: "(\<lambda>i. of_nat (i + 1) :: u64) ` {..<4000} \<inter> (\<lambda>i. of_nat (4000 + i + 1)) ` {..<4000} = {}"
    by (auto simp: of_nat_u64_inject simp del: of_nat_add of_nat_Suc)
  have "\<exists>kvs. expect_all (suite_checks (churn_checks (of_nat :: nat \<Rightarrow> u64))) [] = Some kvs"
    using churn_expected [of "of_nat :: nat \<Rightarrow> u64"] inj [of 0 8] by (simp add: KEYSET_def)
  moreover have "\<exists>kvs. expect_all (suite_checks (grow_checks 4000 (\<lambda>i. of_nat (i + 1) :: u64) (\<lambda>i. of_nat (4000 + i + 1)))) [] = Some kvs"
    using inj [of 1 4000] inj [of 4001 4000] apart by (intro grow_expected) (simp_all add: ht_limit_def add_ac)
  moreover have "\<exists>s. expect_in_all (suite_checks (iterate_checks (of_nat :: nat \<Rightarrow> u64) [] unat)) ([], Some (0, unat (8 :: u64))) = Some s"
    using iterate_expected [of unat "of_nat :: nat \<Rightarrow> u64" "[]"] by (simp add: unat_of_nat TOTAL_def ORDER_N_def)
  moreover have "suite_ok (local_suite (named ''int'' (iterate_delete_cases int_ops m of_nat)))"
    using int_ht.iterate_delete_passes [OF m, of of_nat] inj [of 0 41] by (intro local_suite_ok) simp
  moreover have "suite_ok (local_suite (named ''int'' (free_cb_cases int_ops m of_nat 1)))"
    using int_ht.free_cb_passes [OF m, of of_nat] inj [of 0 64] by (intro local_suite_ok) (simp add: FREE_M_def)
  ultimately show ?thesis
    unfolding int_suites_def using m
    by (simp add: int_ht.suite_ok_expected int_ht.suite_ok_expected_in basic_expected delete_expected min_capacity_expected)
qed

lemma numbered_key_eq [simp]:
  assumes "CHR 0x00 \<notin> set word" "CHR 0x00 \<notin> set word'"
  shows "numbered_key word i = numbered_key word' j \<longleftrightarrow> word @ show_nat i = word' @ show_nat j"
  using assms show_nat_nonzero by (simp add: numbered_key_def)

lemma key_number_k:
  assumes "i < 2 ^ 64"
  shows "key_number (numbered_key ''k'' i) = i" "key_is_ours (numbered_key ''k'' i)"
proof -
  have "text_of (numbered_key ''k'' i) = CHR ''k'' # show_nat i"
    using show_nat_nonzero [of i] by (simp add: numbered_key_def text_of_c_string)
  then show "key_number (numbered_key ''k'' i) = i" "key_is_ours (numbered_key ''k'' i)"
    using assms strtoull10_show_nat [OF assms] by (simp_all add: key_number_def key_is_ours_def unat_of_nat)
qed

lemma str_suites_ok:
  assumes m: "grants m"
  shows "\<forall>cfg \<in> set (str_suites m). suite_ok cfg"
proof -
  have inj: "inj_on (numbered_key word) A" if "CHR 0x00 \<notin> set word" for word A
    using that by (simp add: inj_on_def)
  have "\<exists>kvs. expect_all (suite_checks (churn_checks (numbered_key ''k''))) [] = Some kvs"
    using churn_expected [OF inj, of "''k''"] by simp
  moreover have "\<exists>kvs. expect_all (suite_checks (grow_checks 4000 (\<lambda>i. numbered_key ''k'' (i + 1))
      (\<lambda>i. numbered_key ''j'' (i + 1)))) [] = Some kvs"
    by (intro grow_expected inj_onI) (auto simp: ht_limit_def)
  moreover have "\<exists>s. expect_in_all (suite_checks (iterate_checks (numbered_key ''k'') [key_is_ours] key_number))
      ([], Some (0, unat (8 :: u64))) = Some s"
    using iterate_expected [of key_number "numbered_key ''k''" "[key_is_ours]"] key_number_k by (simp add: TOTAL_def ORDER_N_def)
  moreover have "suite_ok (local_suite (named ''str'' (iterate_delete_cases str_ops m (numbered_key ''k''))))"
    using str_ht.iterate_delete_passes [OF m inj, of "''k''"] by (intro local_suite_ok) simp
  moreover have "suite_ok (local_suite (named ''str'' (free_cb_cases str_ops m (numbered_key ''item-'') (c_string ''solo''))))"
    using str_ht.free_cb_passes [OF m inj, of "''item-''"] by (intro local_suite_ok) simp
  ultimately show ?thesis
    unfolding str_suites_def using m
    by (simp add: str_ht.suite_ok_expected str_ht.suite_ok_expected_in basic_expected delete_expected min_capacity_expected)
qed

text \<open>The whole runner on a suite: exit status 0, and every case printed and reported as passed.\<close>

definition runner_passes ::
  "libtest_env \<Rightarrow> test_option list \<Rightarrow> test_options \<Rightarrow> ('k, 'v) htable option libtest_config \<Rightarrow> bool"
where
  "runner_passes env options os cfg \<longleftrightarrow>
     libtest_main env options cfg None = Inr (0, runner_text os env (passed_lines (map tc_name (test_cases cfg))),
       Some (report_text (length (test_cases cfg)) 0 (Report_exit 0)))"

lemma suite_lengths:
  "cfg \<in> set (int_suites m) \<Longrightarrow> length (test_cases cfg) \<le> 5"
  "cfg' \<in> set (str_suites m') \<Longrightarrow> length (test_cases cfg') \<le> 5"
  by (auto simp: int_suites_def str_suites_def suite_cases named_def basic_checks_def delete_checks_def
      min_capacity_checks_def churn_checks_def grow_checks_def iterate_checks_def iterate_delete_cases_def
      iterate_delete_checks_def free_cb_cases_def local_suite_def)

lemma suite_runner_passes:
  assumes "suite_ok cfg" "length (test_cases cfg) \<le> 5" "\<forall>i. env_writes env i"
    and opts: "test_option_loop options \<lparr>enable_color = env_tty env, report_file_path = None\<rparr> = Inr (Inr os)"
      "report_file_path os \<noteq> None"
    and env: "env_pipe_ok env" "env_fork_ok env" "env_fopen_ok env" "env_wait_ok env"
  shows "runner_passes env options os cfg"
  unfolding runner_passes_def
  using assms(1-3) by (intro main_passes [OF _ _ _ opts env]) (simp_all add: suite_ok_def)

end
