(* ===== verification/Spec2Isabelle.thy ===== *)
theory Spec2Isabelle
  imports Claims_Hash Claims_Event Claims_Xio Claims_Uring Freehttpd Log Libtest Hash_Suites
begin

text \<open>
  A verification of freehttpd, a lightweight HTTP server daemon in C.

  THE PROGRAM. \<open>src/src/hash\<close> has an open-addressing hash table, written once as a template
  (\<open>htable.c\<close>, \<open>htable.h\<close>) and compiled for integer keys (\<open>int_htable.c\<close>) and for C strings
  (\<open>str_htable.c\<close>, hashed with \<open>rapidhash.h\<close>). \<open>src/src/utils\<close> has the power-of-two helper the table
  sizes itself with. \<open>src/src/core/server.c\<close> builds, from a configuration (\<open>conf.h\<close>), a table from
  ports to tables from host names to virtual hosts, and one listening socket per port;
  \<open>src/src/progs/freehttpd.c\<close> is the main program. \<open>src/src/event\<close> is the event layer: \<open>xpoll.c\<close>
  wraps \<open>epoll\<close>, \<open>kqueue\<close> or \<open>poll\<close>, and \<open>xio_xpoll.c\<close> and \<open>xio_uring.c\<close> are asynchronous I/O on top.
  \<open>src/src/log/log.c\<close> writes the log. \<open>src/libtest\<close> is the runner of the repository's tests: a child
  process runs the cases, the parent writes a report, which the script \<open>build-aux/runtest\<close> reads.

  CONVENTIONS. A C integer whose width matters is a word; sizes and counts are natural numbers,
  with the wrap-around of \<open>size_t\<close> or \<open>uint32_t\<close> written out (\<open>sz\<close>, \<open>w32\<close>). A computation has type
  \<open>'a checked\<close>: \<open>Inr\<close> is returning, \<open>Inl\<close> a failed assertion, an access outside an array or a shift
  by the width of the type, so that an equation with \<open>Inr\<close> is also a proof of memory safety. \<open>None\<close>
  is \<open>NULL\<close>, or an error return where the function returns a flag. The allocator is a parameter:
  which requests it grants, and what fresh memory holds. System calls (sockets, \<open>poll\<close>, \<open>getopt\<close>)
  are parameters too. Loops that follow links have fuel; the theorems give the fuel that is enough,
  one more than the number of entries. All other loops are total functions.

  THE THEORIES.
  \<open>Prelude\<close>: words, outcomes, arrays, masks. \<open>Utils\<close>: \<open>util_round_ceil2_ull\<close> in both versions, clocks.
  \<open>Htable\<close>: the model of \<open>htable.c\<close>, one definition per operation, its record as the struct.
  \<open>Htable_Links\<close>: the doubly linked iteration order. \<open>Htable_Index\<close>: the invariant between index
  and entries. \<open>Htable_Probe\<close>: the locale \<open>ht_key\<close>, the contract of the key macros, and the probe
  loops. \<open>Htable_Rep\<close>: the invariant \<open>ht_rep\<close> of the whole table and the association list
  \<open>ht_alist\<close> it stands for; creation, lookup, iteration, release. \<open>Htable_Grow\<close>, \<open>Htable_Set\<close>,
  \<open>Htable_Delete\<close>: growth, insertion and update, deletion.
  \<open>Rapidhash\<close>: the hash functions, the portable multiplication, the swapped reads, the unrolled loop.
  \<open>Int_Htable\<close>, \<open>Str_Htable\<close>: the two instances, interpretations of \<open>ht_key\<close>.
  \<open>Htable_Map\<close>: the locale \<open>map_store\<close>, what a client relies on, with sequences of operations
  refining a finite map; every instance of \<open>ht_key\<close> is one (a sublocale).
  \<open>Htable_Order\<close>: the order of iteration: a table that need not grow stands for an association list.
  \<open>Server\<close>: the model of \<open>server.c\<close>; \<open>Server_Route\<close>: its invariant and the routes it stands for;
  \<open>Server_Build\<close>: its loops, creation, listening, release. \<open>Log\<close>: the state of the log, the line it
  hands to \<open>vfprintf\<close>, and the macros of \<open>log.h\<close>. What the server logs (\<open>fh_pr_debug\<close>, with \<open>NDEBUG\<close> undefined) is
  a list of calls in the results of its functions. \<open>Freehttpd\<close>: the built-in configuration and \<open>main\<close>, with its
  texts and every line that is logged, in order (C28).
  \<open>Xpoll_Poll\<close>: the \<open>poll\<close> back end of \<open>xpoll.c\<close>; \<open>Xpoll_Regs\<close>, \<open>Xpoll_Remove\<close>, \<open>Xpoll_Wait\<close>: its
  registrations as a finite map, removal, and the wait with its round-robin order. \<open>Xpoll_Kqueue\<close>:
  the \<open>kqueue\<close> and the \<open>epoll\<close> back ends, whose registrations the kernel keeps: the calls they make, given
  its answers to the earlier ones. \<open>Xpoll_Registry\<close>: the locale \<open>fd_registry\<close>, what a client may rely on
  when it registers descriptors; \<open>poll\<close> is an instance, and \<open>epoll\<close> on the descriptors for which \<open>epoll_obeys\<close> says
  what \<open>epoll_ctl\<close> documents (open, of a kind that can be polled, with memory and watches left), and so they
  agree there (C12); on a closed descriptor they do not (\<open>xpoll_backends_differ\<close>). \<open>kqueue\<close> is none (C20).
  \<open>Xpoll_Ops\<close>: the interface of \<open>xpoll.h\<close> as a record of operations, and the contract \<open>xpoll_backend\<close>
  that \<open>xio_xpoll.c\<close> needs of it, which leaves open when a registration succeeds; \<open>Xpoll_Backend\<close>, \<open>Xpoll_Kq_Backend\<close>: the record on \<open>poll\<close>, \<open>epoll\<close> and
  \<open>kqueue\<close>, each an instance of the contract (C11).
  \<open>Xio\<close>: the model of \<open>xio_xpoll.c\<close>, over any record of \<open>xpoll\<close> operations and the integer-keyed table.
  The pools are arrays, a pointer into one of them is its number. \<open>Xio_Pool\<close>: the locale \<open>stack_pool\<close>,
  the contract the free lists of tasks and of descriptor states share; \<open>Xio_Slice\<close>: the buffers and what
  is in use of them; \<open>Xio_Inv\<close>: the invariant of the instance, with the linked queues of each
  descriptor state as lists; \<open>Xio_Request\<close>, \<open>Xio_Recv\<close>: creation, states and requests; \<open>Xio_Wait\<close>:
  the wait refines a function on lists; \<open>Xio_Reach\<close>: what a client can reach, and its requests that
  are pending; \<open>Xio_Refused\<close>: the request that loses a state when the table's \<open>realloc\<close> is refused;
  \<open>Xio_Kqueue\<close>: waiting on \<open>kqueue\<close>.
  \<open>Xio_Header\<close>: the types of \<open>xio.h\<close>. \<open>Xio_Service\<close>: the calls of a client of \<open>xio.h\<close>, runs of calls, the
  abstract service whose state is the multiset of pending requests, and the locale \<open>xio_service\<close>, the
  contract of an implementation. Both implementations meet it: \<open>xio_xpoll.c\<close> on every platform (a
  sublocale of \<open>xpoll_system\<close> in \<open>Xio_Reach\<close>, C25), \<open>xio_uring.c\<close> in \<open>Uring_Service\<close> (C26).
  \<open>Uring\<close>: the model of \<open>xio_uring.c\<close>; \<open>Uring_Data\<close>: the blocks of request data in an explicit heap and the
  doubly linked list of unused ones; \<open>Uring_Request\<close>: the invariant and the requests; \<open>Uring_Wait\<close>: the completion loop, the counts and marks of the buffers;
  \<open>Uring_Free\<close>: results given back; \<open>Uring_Drain\<close>: creation, draining, freeing; \<open>Uring_Reach\<close>: every
  interleaving of a client with the kernel. What \<open>io_uring\<close> promises of the completions it delivers
  is the hypothesis \<open>cqes_ok\<close>, and \<open>rounds_ok\<close> when draining.
  \<open>Libtest\<close>: assertions, the child with its hooks and cases, the parent and its report, the text both
  print; \<open>cut_count\<close> and \<open>cut_end\<close> are the fields \<open>runtest\<close> cuts out of the report.
  \<open>Hash_Tests\<close>, \<open>Hash_Suites\<close>: the suites of \<open>src/tests/hash\<close> as data, run by the model of the runner on the
  model of the tables. They pass (C33), which checks both models against what the repository expects.
  \<open>Samples\<close>, \<open>Xio_Samples\<close>, \<open>Claims_Hash\<close>, \<open>Claims_Event\<close>, \<open>Claims_Xio\<close>, \<open>Claims_Uring\<close> and this theory: concrete
  inputs, the properties, and their applications.

  BOUNDS. The table theorems hold for fewer than 3 * 2^29 - 1 keys (\<open>ht_limit\<close>), below which no
  size computation wraps; entry numbers are 32-bit words. Registrations of \<open>xpoll\<close> are bounded by
  2^29, descriptors by \<open>INT_MAX\<close>. The results a client holds of an \<open>io_uring\<close> instance are fewer than
  2^31, below which the count of a buffer does not reach the bit of its mark. The fuel for freeing the
  list of unused blocks is their number.

  WHAT FAILS. \<open>xpoll\<close> on \<open>poll\<close>: adding a descriptor that one growth does not reach writes outside
  \<open>fd_table\<close> (C9), and removing any but the last registration corrupts it (C10). \<open>xpoll\<close> on \<open>kqueue\<close>
  uses filters as masks, so that asking for one registers both, edge-triggered (C20). A closed descriptor is
  registered by \<open>poll\<close> and refused by \<open>epoll\<close>, as the repository's tests say (\<open>xpoll_backends_differ\<close>).
  \<open>util_round_ceil2_ull\<close> shifts by 64 above 2^63 (C22). The built-in configuration counts two of its
  three hosts, so one is never served (C27). \<open>xio_xpoll.c\<close> takes the success flag of \<open>xpoll\<close> for an
  error number: a request whose descriptor could be registered fails, one whose descriptor could not
  is queued (C31), and a request for a buffer of the pool aborts (\<open>xio_recv_pool_aborts\<close>). It ignores
  whether \<open>int_htable_delete\<close> succeeded: with a refused \<open>realloc\<close> a descriptor state is free and in the table at
  once (\<open>xio_refused_delete\<close>), so C25, C29 and C30 suppose \<open>deletes_granted\<close>. Its wait reports nothing for
  descriptors that are ready, and never gives back the buffer of a task it fails (C34); on \<open>kqueue\<close> it
  fails every task of a ready descriptor, and tasks of another one that was given the same state (C16).
  \<open>xio_uring.c\<close> frees the memory of the buffers even when draining failed and the kernel may still write to it (C40).

  The test runner passes \<open>NULL\<close> to \<open>%s\<close> for the option \<open>-h\<close> (\<open>libtest_usage\<close>), and a test case that
  calls \<open>exit (0)\<close> makes its suite pass (the parent compares no numbers, \<open>run_parent\<close>).

  The rendering of the elapsed seconds with \<open>%16.7f\<close> is a parameter, and C28 supposes that each has at
  most 200 characters: \<open>uint64_t\<close> nanoseconds are less than 2 * 10^10 seconds, 19 characters.

  NOT MODELLED. Messages on standard error other than the log's; the two debug lines of \<open>xio_uring.c\<close>; the addresses of
  the texts of string keys, and so the suite \<open>test_hash_str_ownership.c\<close> and the effect of \<open>strdup\<close> beyond its
  failing: a key is a value; closing on Linux, a single system call; \<open>kqueue\<close> on
  NetBSD, where the filters have other numbers; the macros of \<open>rapidhash.h\<close>
  for C++; the marks for Valgrind; the requests of \<open>xio.h\<close> that \<open>xio_xpoll.c\<close> does not
  define; the build files; the repository's tests of \<open>xpoll\<close> on a real kernel, which were read for what the
  code is meant to do.
\<close>

section \<open>The server\<close>

definition sample_host_entry :: "(cstr, nat) ht_entry" where
  "sample_host_entry = \<lparr>key = localhost, data = None, cached_hash = 0, prev_idx = 0, next_idx = 0\<rparr>"

definition sample_env :: srv_env where
  "sample_env i j = \<lparr>entry_ok = True, host_create_mem = any_mem sample_host_entry,
     port_set_mem = sample_mem, host_set_mem = any_mem sample_host_entry\<rparr>"

definition sample_net :: srv_net where
  "sample_net = \<lparr>net_socket = (\<lambda>p. 3 + uint p), net_reuseaddr = (\<lambda>_. 0), net_reuseport = (\<lambda>_. 0),
     net_rcvtimeo = (\<lambda>_. 0), net_sndtimeo = (\<lambda>_. 0), net_nonblocking = (\<lambda>_. True), net_bind = (\<lambda>_. 0),
     net_listen = (\<lambda>_. 0)\<rparr>"

lemma sample_env_grants: "srv_grants (sample_env i j)"
  by (simp add: srv_grants_def sample_env_def)

lemma sample_net_sockets: "0 \<le> socket_of sample_net k"
  by (simp add: socket_of_def fh_server_create_socket_def sample_net_def Let_def not_less)

lemma sample_server:
  obtains s logged where "fh_server_create True sample_mem sample_env sample_net main_config = Inr (Some (Created s, logged))"
    "srv_valid 2 2 s" "sockets_ok sample_net s"
proof -
  obtain r ks where r: "fh_server_create True sample_mem sample_env sample_net main_config = Inr (Some (r, sockets_logged sample_net ks))"
    "\<forall>s. r = Created s \<longrightarrow> srv_valid (length (config_ids main_config)) (length (config_ids main_config)) s \<and>
      sockets_ok sample_net s"
    "\<exists>s. r = Created s"
    using fh_server_create_correct [OF main_config_ok, of True sample_mem sample_env sample_net]
      sample_env_grants sample_net_sockets by auto
  then obtain s where s: "r = Created s" by blast
  show thesis
    using that [of s "sockets_logged sample_net ks"] r s by (simp add: main_config_ids numeral_2_eq_2)
qed

text \<open>
  C6: Creating a server from a well-formed configuration ends without a fault, whatever the
  allocator and the sockets do. If memory is granted and every socket can be made, the server is
  created, maps each pair of a port and a host name to the last virtual host that declares it and
  to nothing if none does, and has on the entry of each port the socket made for it.
\<close>

theorem server_create:
  assumes "config_ok cfg"
  shows "\<exists>r logged. fh_server_create granted m env net cfg = Inr (Some (r, logged)) \<and>
    (granted \<and> grants m \<and> (\<forall>i j. srv_grants (env i j)) \<and> (\<forall>k. 0 \<le> socket_of net k) \<longrightarrow>
      (\<exists>s. r = Created s \<and> srv_routes s = config_routes cfg \<and>
        (\<forall>k e. srv_ports s k = Some (Some e) \<longrightarrow> sockfd (port_heap s ! e) = socket_of net k)))"
  using fh_server_create_correct [OF assms, of granted m env net] unfolding sockets_ok_def by blast

theorem server_create_witness:
  "\<exists>s logged. fh_server_create True sample_mem sample_env sample_net main_config = Inr (Some (Created s, logged)) \<and>
    srv_routes s (8080, localhost) = Some 0 \<and> srv_routes s (8443, localhost) = Some 1 \<and>
    srv_routes s (8443, example_com) = None"
  using server_create [OF main_config_ok, of True sample_mem sample_env sample_net]
    sample_env_grants sample_net_sockets by (auto simp: main_config_routes)

text \<open>
  C24: Freeing a valid server ends without a fault and frees each port entry of its port table
  exactly once, with its host table, and no other.
\<close>

theorem server_free:
  assumes "srv_valid np nh s"
  shows "\<exists>xs. fh_server_free s = Inr (Some xs) \<and> distinct (freed_entries xs) \<and>
    set (freed_entries xs) = {e. Some e \<in> ran (srv_ports s)}"
  by (rule fh_server_free_correct [OF assms])

theorem server_free_witness:
  "\<exists>s logged xs. fh_server_create True sample_mem sample_env sample_net main_config = Inr (Some (Created s, logged)) \<and>
    fh_server_free s = Inr (Some xs) \<and> set (freed_entries xs) = {e. Some e \<in> ran (srv_ports s)}"
proof -
  obtain s logged where "fh_server_create True sample_mem sample_env sample_net main_config = Inr (Some (Created s, logged))"
    "srv_valid 2 2 s" by (rule sample_server)
  then show ?thesis using server_free [of 2 2 s] by blast
qed

text \<open>
  Listening on a valid server whose sockets are those made for its ports ends without a fault and succeeds
  exactly if \<open>listen\<close> succeeds on the socket of every port entry. It logs a line for each port in the order of
  the table, up to the first one that fails.
\<close>

theorem server_listen:
  assumes "srv_valid np nh s" "sockets_ok net s"
  shows "fh_server_listen net s = Inr (Some (\<forall>k \<in> set (port_keys s). 0 \<le> net_listen net (socket_of net k),
      listening_lines (takeWhile (\<lambda>p. 0 \<le> net_listen net (port_socket net p)) (map ucast (port_keys s))))) \<and>
    set (port_keys s) = dom (srv_ports s)"
  using fh_server_listen_correct [OF assms] port_keys_dom [OF assms(1)] by (simp add: listening_logged_lines)

theorem server_listen_witness:
  "\<exists>s logged. fh_server_create True sample_mem sample_env sample_net main_config = Inr (Some (Created s, logged)) \<and>
    (\<exists>listened. fh_server_listen sample_net s = Inr (Some (True, listened)))"
proof -
  obtain s logged where "fh_server_create True sample_mem sample_env sample_net main_config = Inr (Some (Created s, logged))"
    "srv_valid 2 2 s" "sockets_ok sample_net s" by (rule sample_server)
  then show ?thesis using server_listen [of 2 2 s sample_net] by (simp add: sample_net_def)
qed

section \<open>The main program\<close>

text \<open>
  C27: The built-in configuration lists three virtual hosts but counts two. With memory granted and
  every socket made, the server created from it routes \<open>localhost\<close> on port 8080 to the first and on
  port 8443 to the second, and has no route on any port for \<open>example.com\<close>, the third one.
\<close>

theorem built_in_routes:
  assumes "granted" "grants m" "\<forall>i j. srv_grants (env i j)" "\<forall>k. 0 \<le> socket_of net k"
  shows "length (vhosts main_config) = 3 \<and> hostname (id_list (vhosts main_config ! 2) ! 0) = example_com \<and>
    (\<exists>s logged. fh_server_create granted m env net main_config = Inr (Some (Created s, logged)) \<and>
      srv_routes s (8080, localhost) = Some 0 \<and> srv_routes s (8443, localhost) = Some 1 \<and>
      (\<forall>p. srv_routes s (p, example_com) = None))"
proof -
  have "\<exists>s logged. fh_server_create granted m env net main_config = Inr (Some (Created s, logged)) \<and>
      srv_routes s = config_routes main_config"
    using fh_server_create_correct [OF main_config_ok, of granted m env net] assms by blast
  then show ?thesis using main_config_routes by (auto simp: main_config_def [THEN arg_cong [where f = vhosts]])
qed

theorem built_in_routes_witness:
  "\<exists>s logged. fh_server_create True sample_mem sample_env sample_net main_config = Inr (Some (Created s, logged)) \<and>
    srv_routes s (8443, localhost) = Some 1 \<and> srv_routes s (8443, example_com) = None"
  using built_in_routes [of True sample_mem sample_env sample_net] sample_env_grants sample_net_sockets
  by auto




section \<open>The test runner\<close>

text \<open>
  C23: Suppose that every test case and every hook of the suite returns, so that none ends the process, that
  there are fewer than \<open>2 ^ 64\<close> cases, that the runner is given a report path, and that every system call and
  every write succeeds. Then the test runner ends with status 0 exactly if the child does, prints what the child
  printed and a summary, and reports as passed and as failed the numbers of test cases the child printed as such;
  together these are all test cases, and with status 0 all passed.
\<close>

theorem libtest_report:
  assumes "all_return cfg" "length (test_cases cfg) < 2 ^ 64" "\<forall>i. env_writes env i"
    and "test_option_loop options \<lparr>enable_color = env_tty env, report_file_path = None\<rparr> = Inr (Inr os)"
    and "report_file_path os \<noteq> None" "env_pipe_ok env" "env_fork_ok env" "env_fopen_ok env" "env_wait_ok env"
  shows "\<exists>status flags ls. run_child cfg (env_writes env) w = (status, flags, ls) \<and>
    libtest_main env options cfg w = Inr (if status = Exited 0 then 0 else 1, runner_text os env ls,
      Some (report_text (lines_with STATUS_PASS ls) (lines_with STATUS_FAIL ls)
        (Report_exit (if status = Exited 0 then 0 else 1)))) \<and>
    lines_with STATUS_PASS ls + lines_with STATUS_FAIL ls = length (test_cases cfg) \<and>
    (status = Exited 0 \<longrightarrow> lines_with STATUS_PASS ls = length (test_cases cfg))"
  by (rule main_report [OF assms])

text \<open>A suite of two cases, of which the second one fails an assertion, after a hook.\<close>

definition sample_suite :: "nat libtest_config" where
  "sample_suite = \<lparr>test_cases = [\<lparr>tc_name = ''one'', tc_callback = (\<lambda>st w. Returns 0 (snd (assert_true True st)) (w + 1))\<rparr>,
       \<lparr>tc_name = ''two'', tc_callback = (\<lambda>st w. Returns 0 (snd (assert_equal w 7 st)) w)\<rparr>],
     before_all = Some (\<lambda>st w. Returns 0 st 1), before_each = None, after_all = None, after_each = None\<rparr>"

definition sample_test_env :: libtest_env where
  "sample_test_env = \<lparr>env_tty = False, env_suite = ''sample'', env_pipe_ok = True, env_fork_ok = True, env_fopen_ok = True,
     env_wait_ok = True, env_killed_after = 0, env_writes = (\<lambda>_. True), env_signals = (\<lambda>_. None)\<rparr>"

theorem libtest_report_witness:
  "\<exists>status flags ls. run_child sample_suite (env_writes sample_test_env) 0 = (status, flags, ls) \<and>
    lines_with STATUS_PASS ls + lines_with STATUS_FAIL ls = 2 \<and>
    libtest_main sample_test_env [Opt_report ''out''] sample_suite 0 = Inr (if status = Exited 0 then 0 else 1,
      runner_text \<lparr>enable_color = False, report_file_path = Some ''out''\<rparr> sample_test_env ls,
      Some (report_text (lines_with STATUS_PASS ls) (lines_with STATUS_FAIL ls)
        (Report_exit (if status = Exited 0 then 0 else 1))))"
proof -
  have "all_return sample_suite" by (simp add: sample_suite_def all_return_def returning_def)
  moreover have "length (test_cases sample_suite) = 2" by (simp add: sample_suite_def)
  ultimately show ?thesis
    using libtest_report [of sample_suite sample_test_env "[Opt_report ''out'']"
        "\<lparr>enable_color = False, report_file_path = Some ''out''\<rparr>" 0]
    by (force simp: sample_test_env_def)
qed

text \<open>
  C19: The fields that \<open>build-aux/runtest\<close> cuts out of the report are what the parent wrote: the numbers
  of passed and of failed cases, read back from their digits, and how the child ended, with its exit
  status or with the name of its signal.
\<close>

theorem report_round_trip:
  "cut_count 0 (report_text passed failed how) = passed \<and> cut_count 1 (report_text passed failed how) = failed \<and>
   cut_end (report_text passed failed (Report_exit code)) = (''EXIT'', show_int code) \<and>
   cut_end (report_text passed failed (Report_signal (get_signal_name number sig))) =
     (''SIGNAL'', get_signal_name number sig)"
  by (simp add: cut_counts cut_end_exit cut_end_signal del: field.simps One_nat_def)

section \<open>The repository's tests of the tables\<close>

text \<open>
  C33: The suites of \<open>src/tests/hash\<close> on insertion, lookup, deletion, growth, churn, the smallest
  capacity, iteration, iteration after deletions, and cleanup callbacks pass for both tables: given a report
  path, and if memory is granted and every system call and every write succeeds, the test runner ends each
  with status 0, prints every case as passed, and reports as many cases passed as the suite has and none
  failed. Keys are values here, so the checks say nothing about where the text of a key is stored.
\<close>

theorem hash_suites_pass:
  assumes "grants m" "grants m'" "\<forall>i. env_writes env i"
    and "test_option_loop options \<lparr>enable_color = env_tty env, report_file_path = None\<rparr> = Inr (Inr os)"
    and "report_file_path os \<noteq> None" "env_pipe_ok env" "env_fork_ok env" "env_fopen_ok env" "env_wait_ok env"
  shows "(\<forall>cfg \<in> set (int_suites m). runner_passes env options os cfg) \<and>
    (\<forall>cfg \<in> set (str_suites m'). runner_passes env options os cfg)"
  using int_suites_ok [OF assms(1)] str_suites_ok [OF assms(2)] suite_lengths
  by (blast intro: suite_runner_passes [OF _ _ assms(3-9)])

theorem hash_suites_pass_witness:
  "\<forall>e. libtest_main sample_test_env [Opt_report ''out''] (hd (int_suites sample_mem)) None =
      Inr (0, runner_text \<lparr>enable_color = False, report_file_path = Some ''out''\<rparr> sample_test_env
        (passed_lines [''test_hash_int_empty_table'', ''test_hash_int_set_and_get'', ''test_hash_int_overwrite'',
          ''test_hash_int_null_data'']), Some (report_text 4 0 (Report_exit 0))) \<and>
    length (str_suites (any_mem e)) = 8 \<and>
    (\<forall>cfg \<in> set (str_suites (any_mem e)).
       runner_passes sample_test_env [Opt_report ''out''] \<lparr>enable_color = False, report_file_path = Some ''out''\<rparr> cfg)"
proof
  fix e :: "(cstr, nat) ht_entry"
  let ?os = "\<lparr>enable_color = False, report_file_path = Some ''out''\<rparr>"
  have p: "(\<forall>cfg \<in> set (int_suites sample_mem). runner_passes sample_test_env [Opt_report ''out''] ?os cfg) \<and>
      (\<forall>cfg \<in> set (str_suites (any_mem e)). runner_passes sample_test_env [Opt_report ''out''] ?os cfg)"
    by (rule hash_suites_pass) (simp_all add: sample_test_env_def)
  have "hd (int_suites sample_mem) \<in> set (int_suites sample_mem)" by (simp add: int_suites_def)
  then have r: "runner_passes sample_test_env [Opt_report ''out''] ?os (hd (int_suites sample_mem))" using p by blast
  have n: "map tc_name (test_cases (hd (int_suites sample_mem))) =
      [''test_hash_int_empty_table'', ''test_hash_int_set_and_get'', ''test_hash_int_overwrite'', ''test_hash_int_null_data'']"
    "length (test_cases (hd (int_suites sample_mem))) = 4"
    by (simp_all add: int_suites_def suite_cases suite_case_def named_def basic_checks_def)
  show "libtest_main sample_test_env [Opt_report ''out''] (hd (int_suites sample_mem)) None =
      Inr (0, runner_text ?os sample_test_env
        (passed_lines [''test_hash_int_empty_table'', ''test_hash_int_set_and_get'', ''test_hash_int_overwrite'',
          ''test_hash_int_null_data'']), Some (report_text 4 0 (Report_exit 0))) \<and>
    length (str_suites (any_mem e)) = 8 \<and>
    (\<forall>cfg \<in> set (str_suites (any_mem e)). runner_passes sample_test_env [Opt_report ''out''] ?os cfg)"
    by (intro conjI) (rule r [unfolded runner_passes_def n], simp add: str_suites_def, use p in blast)
qed

end
